(* ===== verification/Prelude.thy ===== *)
theory Prelude
  imports Main "HOL-Library.Word" "HOL-Library.List_Lexorder" "HOL-Library.Char_ord"
begin

text \<open>
  Shared vocabulary of the development.

  \<^item> Names for the machine types of the Rust sources (\<open>u8\<close>, \<open>u32\<close>, \<open>u64\<close>, \<open>u128\<close>), byte
    strings, 32-byte digests and DIDs.  A Rust \<open>str\<close> is a \<open>string\<close> whose characters are its
    UTF-8 bytes, so \<open>length\<close> is Rust's \<open>len()\<close>.  \<open>usize\<close> is \<open>nat\<close>.
  \<^item> Rust's saturating arithmetic on words.
  \<^item> The parts of \<open>str\<close>, \<open>Iterator\<close> and \<open>Result\<close> the sources use.
  \<^item> Big-endian byte strings and their order, which is what the keys of the store rely on.
  \<^item> A reusable locale for transition systems and their invariants.
\<close>

section \<open>Types\<close>

type_synonym u8 = "8 word"
type_synonym u32 = "32 word"
type_synonym u64 = "64 word"
type_synonym u128 = "128 word"
type_synonym bytes = "u8 list"
type_synonym hash32 = bytes
type_synonym did = string

abbreviation u64_max :: u64 where
  "u64_max \<equiv> - 1"

abbreviation hash32_ok :: "hash32 \<Rightarrow> bool" where
  "hash32_ok h \<equiv> length h = 32"

named_theorems sat_simps \<open>saturating arithmetic read through unat\<close>
named_theorems str_simps \<open>evaluation of the str helpers\<close>

section \<open>Saturating arithmetic\<close>

definition sat_add :: "'a::len word \<Rightarrow> 'a word \<Rightarrow> 'a word" where
  "sat_add a b = (if unat a + unat b < 2 ^ LENGTH('a) then a + b else - 1)"

definition sat_sub :: "'a::len word \<Rightarrow> 'a word \<Rightarrow> 'a word" where
  "sat_sub a b = (if a < b then 0 else a - b)"

lemma unat_minus_one_word: "unat (- 1 :: 'a::len word) = 2 ^ LENGTH('a) - 1"
  by (simp add: unsigned_minus_1_eq_mask mask_eq_exp_minus_1)

lemma unat_sat_add [sat_simps]:
  "unat (sat_add a (b :: 'a::len word)) = min (unat a + unat b) (2 ^ LENGTH('a) - 1)"
proof (cases "unat a + unat b < 2 ^ LENGTH('a)")
  case True
  then have "unat (a + b) = unat a + unat b"
    by (simp add: unat_word_ariths)
  with True show ?thesis
    by (simp add: sat_add_def)
next
  case False
  then show ?thesis
    by (simp add: sat_add_def unat_minus_one_word)
qed

text \<open>A code equation that detects the overflow on words.\<close>

lemma sat_add_code [code]: "sat_add a b = (if a \<le> a + b then a + b else - 1)"
  by (simp add: sat_add_def no_olen_add_nat)

lemma unat_sat_sub [sat_simps]: "unat (sat_sub a b) = unat a - unat b"
  by (auto simp: sat_sub_def unat_sub word_less_nat_alt not_less word_le_nat_alt)

lemma sat_add_ge: "a \<le> sat_add a (b :: 'a::len word)"
proof -
  have "unat a < 2 ^ LENGTH('a)"
    by (rule unsigned_less)
  then have "unat a \<le> 2 ^ LENGTH('a) - 1"
    by linarith
  then show ?thesis
    by (simp add: word_le_nat_alt sat_simps)
qed

section \<open>Strings\<close>

text \<open>\<open>str::strip_prefix\<close>, \<open>str::starts_with\<close> and \<open>str::get(..n)\<close>.\<close>

definition strip_prefix :: "string \<Rightarrow> string \<Rightarrow> string option" where
  "strip_prefix p s = (if take (length p) s = p then Some (drop (length p) s) else None)"

definition starts_with :: "string \<Rightarrow> string \<Rightarrow> bool" where
  "starts_with p s \<longleftrightarrow> take (length p) s = p"

definition str_get_to :: "nat \<Rightarrow> string \<Rightarrow> string option" where
  "str_get_to n s = (if n \<le> length s then Some (take n s) else None)"

text \<open>\<open>str::trim_start_matches(p)\<close> drops the prefix as often as it occurs.\<close>

function trim_start_matches :: "string \<Rightarrow> string \<Rightarrow> string" where
  "trim_start_matches p s =
     (if p \<noteq> [] \<and> starts_with p s then trim_start_matches p (drop (length p) s) else s)"
  by pat_completeness auto
termination
proof (relation "measure (\<lambda>(p, s). length s)")
  fix p s :: string
  assume "p \<noteq> [] \<and> starts_with p s"
  then have "0 < length p" "length p \<le> length s"
    by (auto simp: starts_with_def) (metis length_take min.cobounded1)
  then show "((p, drop (length p) s), p, s) \<in> measure (\<lambda>(p, s). length s)"
    by (simp only: in_measure split_conv length_drop)
qed simp

declare trim_start_matches.simps [simp del]

text \<open>\<open>str::trim_end_matches(c)\<close> for a single character.\<close>

definition trim_end_matches :: "char \<Rightarrow> string \<Rightarrow> string" where
  "trim_end_matches c s = rev (dropWhile (\<lambda>d. d = c) (rev s))"

definition to_ascii_lower :: "char \<Rightarrow> char" where
  "to_ascii_lower c = (if 65 \<le> (of_char c :: nat) \<and> of_char c \<le> (90 :: nat)
                       then char_of (of_char c + (32 :: nat)) else c)"

definition eq_ignore_ascii_case :: "string \<Rightarrow> string \<Rightarrow> bool" where
  "eq_ignore_ascii_case s t \<longleftrightarrow> map to_ascii_lower s = map to_ascii_lower t"

lemma strip_prefix_append [simp]: "strip_prefix p (p @ s) = Some s"
  by (simp add: strip_prefix_def)

lemma strip_prefix_SomeD: "strip_prefix p s = Some t \<Longrightarrow> s = p @ t"
  by (auto simp: strip_prefix_def split: if_splits) (metis append_take_drop_id)

lemma starts_with_append [simp]: "starts_with p (p @ s)"
  by (simp add: starts_with_def)

lemma trim_start_matches_not: "\<not> starts_with p s \<Longrightarrow> trim_start_matches p s = s"
  by (subst trim_start_matches.simps) simp

lemma trim_start_matches_append:
  "p \<noteq> [] \<Longrightarrow> trim_start_matches p (p @ s) = trim_start_matches p s"
  by (subst trim_start_matches.simps) simp

lemma length_trim_end_matches: "length (trim_end_matches c s) \<le> length s"
  using length_dropWhile_le [of "\<lambda>d. d = c" "rev s"] by (simp add: trim_end_matches_def)

lemma trim_end_matches_idem [simp]:
  "trim_end_matches c (trim_end_matches c s) = trim_end_matches c s"
  by (simp add: trim_end_matches_def)

section \<open>Results\<close>

text \<open>The \<open>?\<close> operator: go on with the value, or return the error.\<close>

definition and_then :: "'e + 'a \<Rightarrow> ('a \<Rightarrow> 'e + 'b) \<Rightarrow> 'e + 'b" where
  "and_then r f = (case r of Inl e \<Rightarrow> Inl e | Inr a \<Rightarrow> f a)"

definition map_err :: "('e \<Rightarrow> 'f) \<Rightarrow> 'e + 'a \<Rightarrow> 'f + 'a" where
  "map_err g r = (case r of Inl e \<Rightarrow> Inl (g e) | Inr a \<Rightarrow> Inr a)"

lemma and_then_simps [simp]: "and_then (Inl e) f = Inl e" "and_then (Inr a) f = f a"
  by (simp_all add: and_then_def)

lemma map_err_simps [simp]: "map_err g (Inl e) = Inl (g e)" "map_err g (Inr a) = Inr a"
  by (simp_all add: map_err_def)

lemma and_then_Inr [simp]: "and_then r f = Inr b \<longleftrightarrow> (\<exists>a. r = Inr a \<and> f a = Inr b)"
  by (cases r) simp_all

lemma map_err_Inr [simp]: "map_err g r = Inr b \<longleftrightarrow> r = Inr b"
  by (cases r) simp_all

text \<open>
  \<open>Iterator::map(f).collect::<Result<Vec<_>, _>>()\<close>: the values in order, or the first error.
\<close>

fun collect_results :: "('a \<Rightarrow> 'e + 'b) \<Rightarrow> 'a list \<Rightarrow> 'e + 'b list" where
  "collect_results f [] = Inr []"
| "collect_results f (a # as) =
     (case f a of Inl e \<Rightarrow> Inl e
      | Inr b \<Rightarrow> (case collect_results f as of Inl e \<Rightarrow> Inl e | Inr bs \<Rightarrow> Inr (b # bs)))"

lemma collect_results_InrD:
  "collect_results f as = Inr bs \<Longrightarrow> length bs = length as \<and> (\<forall>i<length as. f (as ! i) = Inr (bs ! i))"
proof (induction as arbitrary: bs)
  case Nil
  then show ?case by simp
next
  case (Cons a as)
  then obtain b bs' where "f a = Inr b" "collect_results f as = Inr bs'" "bs = b # bs'"
    by (auto split: sum.splits)
  with Cons.IH show ?case
    by (auto simp: nth_Cons split: nat.splits)
qed

lemma collect_results_all: "(\<And>a. a \<in> set as \<Longrightarrow> f a = Inr (g a)) \<Longrightarrow> collect_results f as = Inr (map g as)"
  by (induction as) auto

lemma collect_results_map: "collect_results f (map g as) = collect_results (f \<circ> g) as"
  by (induction as) (auto split: sum.splits)

lemma collect_results_nth:
  "collect_results f as = Inr bs \<Longrightarrow> a \<in> set as \<Longrightarrow> \<exists>b\<in>set bs. f a = Inr b"
  by (metis collect_results_InrD in_set_conv_nth nth_mem)

lemma find_Some_set: "find P xs = Some x \<Longrightarrow> x \<in> set xs \<and> P x"
  by (auto simp: find_Some_iff in_set_conv_nth)

section \<open>Big-endian byte strings\<close>

text \<open>
  \<open>u64::to_be_bytes\<close> and \<open>u64::from_be_bytes\<close>.  \<open>be_val\<close> is the number a byte string of any
  length denotes; on strings of the same length the lexicographic order of the bytes is the order
  of those numbers.
\<close>

definition to_be_bytes :: "u64 \<Rightarrow> bytes" where
  "to_be_bytes w = map (\<lambda>i. word_of_nat (unat w div 256 ^ i)) (rev [0..<8])"

fun be_val :: "bytes \<Rightarrow> nat" where
  "be_val [] = 0"
| "be_val (b # bs) = unat b * 256 ^ length bs + be_val bs"

definition from_be_bytes :: "bytes \<Rightarrow> u64" where
  "from_be_bytes bs = word_of_nat (be_val bs)"

lemma length_to_be_bytes [simp]: "length (to_be_bytes w) = 8"
  by (simp add: to_be_bytes_def)

text \<open>A code equation that shifts the word instead of dividing its value.\<close>

lemma to_be_bytes_code [code]:
  "to_be_bytes w = map (\<lambda>i. ucast (drop_bit (8 * i) w)) (rev [0..<8])"
proof -
  have "word_of_nat (unat w div 256 ^ i) = (ucast (drop_bit (8 * i) w) :: u8)" for i
  proof -
    have "unat (drop_bit (8 * i) w) = drop_bit (8 * i) (unat w)"
      using unsigned_less [of w, where ?'a = nat]
      by (simp only: unsigned_drop_bit_eq) (simp add: take_bit_nat_eq_self)
    also have "\<dots> = unat w div 256 ^ i"
      by (simp only: drop_bit_eq_div power_mult) simp
    finally have "unat w div 256 ^ i = unat (drop_bit (8 * i) w)" ..
    then show ?thesis
      by (simp only: of_nat_unat)
  qed
  then show ?thesis
    by (simp add: to_be_bytes_def)
qed

lemma from_be_bytes_code [code]: "from_be_bytes bs = fold (\<lambda>b a. a * 256 + ucast b) bs 0"
proof -
  have "fold (\<lambda>b a. a * 256 + ucast b) bs a = a * 256 ^ length bs + (word_of_nat (be_val bs) :: u64)" for a
    by (induction bs arbitrary: a) (simp_all add: algebra_simps)
  then show ?thesis by (simp add: from_be_bytes_def)
qed

lemma be_val_less: "be_val bs < 256 ^ length bs"
proof (induction bs)
  case Nil
  then show ?case by simp
next
  case (Cons b bs)
  have "unat b < 256"
    using unsigned_less [of b, where ?'a = nat] by simp
  then have "unat b * 256 ^ length bs + 256 ^ length bs \<le> 256 * 256 ^ length bs"
    by (metis Suc_leI add.commute mult_Suc mult_le_mono1)
  with Cons show ?case
    by (simp only: be_val.simps length_Cons power_Suc)
qed

lemma be_val_digits:
  "be_val (map (\<lambda>i. word_of_nat (n div 256 ^ i)) (rev [0..<k])) = n mod 256 ^ k"
proof (induction k)
  case 0
  then show ?case by simp
next
  case (Suc k)
  have "n mod 256 ^ Suc k = 256 ^ k * (n div 256 ^ k mod 256) + n mod 256 ^ k"
    by (metis mod_mult2_eq mult.commute power_Suc)
  with Suc show ?case
    by (simp add: unat_of_nat mult.commute)
qed

lemma be_val_to_be_bytes: "be_val (to_be_bytes w) = unat w"
proof -
  have "unat w < 256 ^ 8"
    using unsigned_less [of w, where ?'a = nat] by simp
  then show ?thesis
    by (simp add: to_be_bytes_def be_val_digits)
qed

lemma from_to_be_bytes [simp]: "from_be_bytes (to_be_bytes w) = w"
  by (simp add: from_be_bytes_def be_val_to_be_bytes)

lemma to_be_bytes_inject [simp]: "to_be_bytes v = to_be_bytes w \<longleftrightarrow> v = w"
  by (metis from_to_be_bytes)

lemma be_val_lex:
  "length bs = length cs \<Longrightarrow> bs < cs \<longleftrightarrow> be_val bs < be_val cs"
proof (induction bs cs rule: list_induct2)
  case Nil
  then show ?case by simp
next
  case (Cons b bs c cs)
  let ?n = "256 ^ length bs :: nat"
  have bounds: "be_val bs < ?n" "be_val cs < ?n"
    using be_val_less [of bs] be_val_less [of cs] Cons.hyps by simp_all
  consider "b < c" | "b = c" | "c < b" by fastforce
  then show ?case
  proof cases
    case 1
    then have "unat b * ?n + ?n \<le> unat c * ?n"
      by (metis Suc_leI add.commute mult_Suc mult_le_mono1 word_less_nat_alt)
    with 1 bounds Cons.hyps show ?thesis by simp
  next
    case 2
    with Cons show ?thesis by simp
  next
    case 3
    then have "unat c * ?n + ?n \<le> unat b * ?n"
      by (metis Suc_leI add.commute mult_Suc mult_le_mono1 word_less_nat_alt)
    with 3 bounds Cons.hyps show ?thesis by auto
  qed
qed

lemma to_be_bytes_less [simp]: "to_be_bytes v < to_be_bytes w \<longleftrightarrow> v < w"
  by (simp add: be_val_lex be_val_to_be_bytes word_less_nat_alt)

lemma to_be_bytes_le [simp]: "to_be_bytes v \<le> to_be_bytes w \<longleftrightarrow> v \<le> w"
  by (simp add: order_le_less)

lemma be_val_inject: "length bs = length cs \<Longrightarrow> be_val bs = be_val cs \<longleftrightarrow> bs = cs"
  using be_val_lex [of bs cs] be_val_lex [of cs bs] by (metis linorder_neqE less_irrefl)

lemma to_from_be_bytes:
  assumes "length bs = 8"
  shows "to_be_bytes (from_be_bytes bs) = bs"
proof -
  have "be_val bs < 2 ^ 64"
    using be_val_less [of bs] assms by simp
  then have "unat (from_be_bytes bs) = be_val bs"
    by (simp add: from_be_bytes_def unat_of_nat)
  then show ?thesis
    using assms be_val_inject [of "to_be_bytes (from_be_bytes bs)" bs] by (simp add: be_val_to_be_bytes)
qed

section \<open>Transition systems\<close>

text \<open>
  States reached from a start state by labelled steps.  A component interprets this locale with
  its own step function or relation and gets the induction principle for invariants and the
  composition of runs.
\<close>

locale transition_system =
  fixes start :: "'s \<Rightarrow> bool"
    and step :: "'s \<Rightarrow> 'l \<Rightarrow> 's \<Rightarrow> bool"
begin

inductive reach :: "'s \<Rightarrow> bool" where
  reach_start: "start s \<Longrightarrow> reach s"
| reach_step: "reach s \<Longrightarrow> step s l t \<Longrightarrow> reach t"

inductive run :: "'s \<Rightarrow> 'l list \<Rightarrow> 's \<Rightarrow> bool" where
  run_nil: "run s [] s"
| run_cons: "step s l t \<Longrightarrow> run t ls u \<Longrightarrow> run s (l # ls) u"

lemma invariant_reach:
  assumes "reach s" and "\<And>s. start s \<Longrightarrow> I s" and "\<And>s l t. I s \<Longrightarrow> step s l t \<Longrightarrow> I t"
  shows "I s"
  using assms(1) by induction (auto intro: assms(2,3))

lemma invariant_run:
  assumes "run s ls t" and "I s" and "\<And>s l t. I s \<Longrightarrow> step s l t \<Longrightarrow> I t"
  shows "I t"
  using assms(1,2) by induction (auto intro: assms(3))

lemma run_reach: "run s ls t \<Longrightarrow> reach s \<Longrightarrow> reach t"
  by (induction rule: run.induct) (auto intro: reach_step)

lemma run_append: "run s ls t \<Longrightarrow> run t ms u \<Longrightarrow> run s (ls @ ms) u"
  by (induction rule: run.induct) (auto intro: run.intros)

end

end
