(* ===== verification/Leaf_Hex.thy ===== *)
theory Leaf_Hex
  imports Prelude
begin

text \<open>
  Leaf decoding (\<open>crates/aqua-timestamp-core/src/merkle.rs\<close>), the sealed-epoch record
  (\<open>epoch.rs\<close>), and the client's hash parsing (\<open>aqua-timestamp-client/src/hex_utils.rs\<close>).

  The \<open>hex\<close> and \<open>sha3\<close> crates are not part of the sources: every definition that uses them takes
  them as the fields of a record argument, and the documented behaviour of \<open>hex\<close> is the locale
  \<open>hex_codec\<close>.  The RFC 4648 base-16 codec at the end of the theory interprets it.
\<close>

section \<open>Interface to the hex and sha3 crates\<close>

datatype from_hex_error = InvalidHexCharacter char nat | OddLength | InvalidStringLength

record codec_api =
  hex_encode :: "bytes \<Rightarrow> string"
  hex_decode :: "string \<Rightarrow> from_hex_error + bytes"
  sha3_256 :: "bytes \<Rightarrow> hash32"

definition hex_digit :: "char \<Rightarrow> bool" where
  "hex_digit c \<longleftrightarrow> c \<in> set ''0123456789abcdefABCDEF''"

locale hex_codec =
  fixes x :: "'z codec_api_scheme"
  assumes decode_encode: "hex_decode x (hex_encode x b) = Inr b"
    and encode_decode: "hex_decode x s = Inr b \<Longrightarrow> hex_encode x b = map to_ascii_lower s"
    and encode_length: "length (hex_encode x b) = 2 * length b"
    and encode_digits: "c \<in> set (hex_encode x b) \<Longrightarrow> hex_digit c"
    and decode_total: "even (length s) \<Longrightarrow> \<forall>c\<in>set s. hex_digit c \<Longrightarrow> \<exists>b. hex_decode x s = Inr b"

section \<open>merkle.rs\<close>

datatype leaf_parse_error = BadLength nat | BadHex from_hex_error

definition SHA3_256_MULTIHASH_PREFIX :: string where
  "SHA3_256_MULTIHASH_PREFIX = ''1620''"

text \<open>
  \<open>get(..4)\<close> also answers \<open>None\<close> when byte 4 is inside a character; a string whose first four
  bytes read \<open>1620\<close> has a character boundary there, so the branch taken is the same.
\<close>

definition leaf_digest_hex :: "string \<Rightarrow> string" where
  "leaf_digest_hex trimmed =
     (case str_get_to (length SHA3_256_MULTIHASH_PREFIX) trimmed of
        Some prefix \<Rightarrow>
          if length trimmed = length SHA3_256_MULTIHASH_PREFIX + 64
             \<and> eq_ignore_ascii_case prefix SHA3_256_MULTIHASH_PREFIX
          then drop (length SHA3_256_MULTIHASH_PREFIX) trimmed
          else trimmed
      | None \<Rightarrow> trimmed)"

definition strip_0x :: "string \<Rightarrow> string" where
  "strip_0x s = (case strip_prefix ''0x'' s of Some t \<Rightarrow> t | None \<Rightarrow> s)"

definition parse_leaf_hex :: "'z codec_api_scheme \<Rightarrow> string \<Rightarrow> leaf_parse_error + hash32" where
  "parse_leaf_hex x input =
     (let trimmed = strip_0x input; digest_hex = leaf_digest_hex trimmed
      in if length digest_hex \<noteq> 64 then Inl (BadLength (length trimmed))
         else (case hex_decode x digest_hex of Inl e \<Rightarrow> Inl (BadHex e) | Inr b \<Rightarrow> Inr b))"

definition hex_lower :: "'z codec_api_scheme \<Rightarrow> hash32 \<Rightarrow> string" where
  "hex_lower x b = ''0x'' @ hex_encode x b"

definition empty_merkle_root :: "'z codec_api_scheme \<Rightarrow> hash32" where
  "empty_merkle_root x = sha3_256 x []"

section \<open>epoch.rs\<close>

definition HASH_TYPE_LABEL :: string where
  "HASH_TYPE_LABEL = ''FIPS_202-SHA3-256''"

record epoch_record =
  er_id :: u64
  er_opened_at :: u64
  er_closed_at :: u64
  er_merkle_root :: hash32
  er_leaf_count :: u64
  er_hash_type :: string

definition merkle_root_hex :: "'z codec_api_scheme \<Rightarrow> epoch_record \<Rightarrow> string" where
  "merkle_root_hex x r = ''0x'' @ hex_encode x (er_merkle_root r)"

section \<open>hex\_utils.rs of the client\<close>

datatype hash_parse_error = ExpectedHexChars nat | NonHexCharacter from_hex_error

definition client_parse_hash32 :: "'z codec_api_scheme \<Rightarrow> string \<Rightarrow> hash_parse_error + hash32" where
  "client_parse_hash32 x input =
     (let trimmed = strip_0x input
      in if length trimmed \<noteq> 64 then Inl (ExpectedHexChars (length trimmed))
         else (case hex_decode x trimmed of Inl e \<Rightarrow> Inl (NonHexCharacter e) | Inr b \<Rightarrow> Inr b))"

definition format_hash32_bare :: "'z codec_api_scheme \<Rightarrow> hash32 \<Rightarrow> string" where
  "format_hash32_bare x b = hex_encode x b"

section \<open>Lemmas\<close>

lemma of_char_to_ascii_lower:
  "of_char (to_ascii_lower c) =
     (if 65 \<le> (of_char c :: nat) \<and> of_char c \<le> (90 :: nat) then of_char c + 32 else (of_char c :: nat))"
  by (simp add: to_ascii_lower_def of_char_of)

lemma to_ascii_lower_digit:
  assumes "48 \<le> (of_char d :: nat)" "of_char d \<le> (57 :: nat)"
  shows "to_ascii_lower c = d \<longleftrightarrow> c = d"
proof
  assume eq: "to_ascii_lower c = d"
  then have "\<not> (65 \<le> (of_char c :: nat) \<and> of_char c \<le> (90 :: nat))"
    using assms of_char_to_ascii_lower [of c] by auto
  with eq show "c = d"
    by (auto simp: to_ascii_lower_def)
next
  assume "c = d"
  with assms show "to_ascii_lower c = d"
    by (simp add: to_ascii_lower_def)
qed

lemma eq_ignore_ascii_case_digits:
  assumes "\<forall>c\<in>set d. 48 \<le> (of_char c :: nat) \<and> of_char c \<le> (57 :: nat)"
  shows "eq_ignore_ascii_case s d \<longleftrightarrow> s = d"
proof -
  have "map to_ascii_lower d = d"
    using assms by (induction d) (auto simp: to_ascii_lower_digit)
  moreover have "map to_ascii_lower s = d \<longleftrightarrow> s = d"
    using assms by (induction d arbitrary: s) (auto simp: to_ascii_lower_digit map_eq_Cons_conv)
  ultimately show ?thesis
    by (simp add: eq_ignore_ascii_case_def)
qed

lemma hex_digit_not_x: "hex_digit c \<Longrightarrow> c \<noteq> CHR ''x''"
  by (auto simp: hex_digit_def)

lemma strip_0x_prefixed [simp]: "strip_0x (''0x'' @ s) = s"
  by (simp only: strip_0x_def strip_prefix_append option.case)

lemma strip_0x_Cons [simp]: "strip_0x (CHR ''0'' # CHR ''x'' # s) = s"
  using strip_0x_prefixed [of s] by simp

lemma not_starts_0x:
  assumes "\<forall>c\<in>set s. hex_digit c"
  shows "\<not> starts_with ''0x'' s"
proof
  assume "starts_with ''0x'' s"
  then have "set ''0x'' \<subseteq> set s"
    unfolding starts_with_def by (metis set_take_subset)
  then have "CHR ''x'' \<in> set s"
    by simp
  with assms show False
    by (auto dest: hex_digit_not_x)
qed

lemma strip_0x_digits: "\<forall>c\<in>set s. hex_digit c \<Longrightarrow> strip_0x s = s"
  using not_starts_0x [of s] by (auto simp: strip_0x_def strip_prefix_def starts_with_def)

lemma length_multihash_prefix [simp]: "length SHA3_256_MULTIHASH_PREFIX = 4"
  by (simp add: SHA3_256_MULTIHASH_PREFIX_def)

lemma leaf_digest_hex_64 [simp]: "length s = 64 \<Longrightarrow> leaf_digest_hex s = s"
  by (simp add: leaf_digest_hex_def str_get_to_def)


text \<open>The two spellings \<open>parse_leaf_hex\<close> accepts: which strings yield a 64-character digest.\<close>

lemma leaf_digest_hex_length:
  "length (leaf_digest_hex s) = 64 \<longleftrightarrow>
     length s = 64 \<or> length s = 68 \<and> take 4 s = SHA3_256_MULTIHASH_PREFIX"
proof -
  have "eq_ignore_ascii_case t SHA3_256_MULTIHASH_PREFIX \<longleftrightarrow> t = SHA3_256_MULTIHASH_PREFIX" for t
    unfolding SHA3_256_MULTIHASH_PREFIX_def by (rule eq_ignore_ascii_case_digits) simp
  then show ?thesis
    by (simp add: leaf_digest_hex_def str_get_to_def) blast
qed

lemma leaf_digest_hex_multihash [simp]:
  assumes "length s = 64"
  shows "leaf_digest_hex (SHA3_256_MULTIHASH_PREFIX @ s) = s"
proof -
  have "eq_ignore_ascii_case SHA3_256_MULTIHASH_PREFIX SHA3_256_MULTIHASH_PREFIX"
    by (simp add: eq_ignore_ascii_case_def)
  with assms show ?thesis
    by (simp add: leaf_digest_hex_def str_get_to_def)
qed

lemma leaf_digest_hex_cases:
  assumes "length (leaf_digest_hex s) = 64"
  obtains "length s = 64" "leaf_digest_hex s = s"
  | t where "length t = 64" "s = SHA3_256_MULTIHASH_PREFIX @ t" "leaf_digest_hex s = t"
proof (cases "length s = 64")
  case True
  then show ?thesis by (auto intro: that(1))
next
  case False
  with assms have len: "length s = 68" and pre: "take 4 s = SHA3_256_MULTIHASH_PREFIX"
    by (auto simp: leaf_digest_hex_length)
  then have "s = SHA3_256_MULTIHASH_PREFIX @ drop 4 s"
    by (metis append_take_drop_id)
  moreover have "length (drop 4 s) = 64"
    using len by simp
  ultimately show ?thesis
    by (metis that(2) leaf_digest_hex_multihash)
qed

context hex_codec
begin

lemma decode_length: "hex_decode x s = Inr b \<Longrightarrow> length s = 2 * length b"
  by (metis encode_decode encode_length length_map)

lemma strip_0x_encode [simp]: "strip_0x (hex_encode x b) = hex_encode x b"
  by (rule strip_0x_digits) (simp add: encode_digits)

lemma trim_start_encode [simp]: "trim_start_matches ''0x'' (hex_encode x b) = hex_encode x b"
  by (rule trim_start_matches_not, rule not_starts_0x) (simp add: encode_digits)

lemma hex_encode_inject [simp]: "hex_encode x a = hex_encode x b \<longleftrightarrow> a = b"
  by (metis decode_encode sum.inject(2))

lemma parse_bare: "hash32_ok b \<Longrightarrow> parse_leaf_hex x (hex_encode x b) = Inr b"
  by (simp add: parse_leaf_hex_def encode_length decode_encode)

lemma parse_hex_lower: "hash32_ok b \<Longrightarrow> parse_leaf_hex x (hex_lower x b) = Inr b"
  by (simp add: parse_leaf_hex_def hex_lower_def encode_length decode_encode)

lemma parse_multihash:
  "hash32_ok b \<Longrightarrow> parse_leaf_hex x (''0x'' @ SHA3_256_MULTIHASH_PREFIX @ hex_encode x b) = Inr b"
  by (simp add: parse_leaf_hex_def encode_length decode_encode)

lemma parse_leaf_length: "parse_leaf_hex x s = Inr b \<Longrightarrow> hash32_ok b"
  by (auto simp: parse_leaf_hex_def Let_def split: if_splits sum.splits dest: decode_length)

lemma parse_leaf_normal_form:
  assumes "parse_leaf_hex x s = Inr b"
  shows "map to_ascii_lower (leaf_digest_hex (strip_0x s)) = hex_encode x b"
  using assms by (auto simp: parse_leaf_hex_def Let_def encode_decode split: if_splits sum.splits)

end

section \<open>Base 16\<close>

text \<open>The RFC 4648 base-16 codec with lowercase output, as the \<open>hex\<close> crate documents it.\<close>

definition base16_table :: "(char \<times> nat) list" where
  "base16_table = zip ''0123456789abcdefABCDEF'' [0, 1, 2, 3, 4, 5, 6, 7, 8, 9, 10, 11, 12, 13, 14, 15, 10, 11, 12, 13, 14, 15]"

definition base16_digit :: "nat \<Rightarrow> char" where
  "base16_digit n = ''0123456789abcdef'' ! n"

definition base16_byte :: "u8 \<Rightarrow> string" where
  "base16_byte w = [base16_digit (unat w div 16), base16_digit (unat w mod 16)]"

definition base16_encode :: "bytes \<Rightarrow> string" where
  "base16_encode b = concat (map base16_byte b)"

fun base16_pairs :: "nat \<Rightarrow> string \<Rightarrow> from_hex_error + bytes" where
  "base16_pairs i (c # d # s) =
     (case map_of base16_table c of None \<Rightarrow> Inl (InvalidHexCharacter c i)
      | Some h \<Rightarrow> (case map_of base16_table d of None \<Rightarrow> Inl (InvalidHexCharacter d (Suc i))
      | Some l \<Rightarrow> (case base16_pairs (i + 2) s of Inl e \<Rightarrow> Inl e
      | Inr b \<Rightarrow> Inr (word_of_nat (16 * h + l) # b))))"
| "base16_pairs i s = Inr []"

definition base16_decode :: "string \<Rightarrow> from_hex_error + bytes" where
  "base16_decode s = (if odd (length s) then Inl OddLength else base16_pairs 0 s)"

definition base16_codec :: "(bytes \<Rightarrow> hash32) \<Rightarrow> codec_api" where
  "base16_codec h = \<lparr>hex_encode = base16_encode, hex_decode = base16_decode, sha3_256 = h\<rparr>"

lemma base16_table_cases:
  assumes "map_of base16_table c = Some v"
  shows "v < 16 \<and> base16_digit v = to_ascii_lower c \<and> hex_digit c"
proof -
  have "(c, v) \<in> set base16_table"
    using assms by (rule map_of_SomeD)
  moreover have "\<forall>(c, v)\<in>set base16_table.
      v < 16 \<and> base16_digit v = to_ascii_lower c \<and> hex_digit c"
    by code_simp
  ultimately show ?thesis by blast
qed

lemma map_of_base16_digit:
  assumes "n < 16"
  shows "map_of base16_table (base16_digit n) = Some n"
proof -
  have "n \<in> set [0..<16]" using assms by simp
  then show ?thesis
    by (simp add: upt_rec base16_table_def base16_digit_def del: set_upt) (elim disjE; simp)
qed

lemma map_of_hex_digit:
  assumes "hex_digit c"
  shows "\<exists>v. map_of base16_table c = Some v"
proof -
  have "set ''0123456789abcdefABCDEF'' = fst ` set base16_table"
    by (simp add: base16_table_def)
  moreover have "c \<in> set ''0123456789abcdefABCDEF''"
    using assms by (simp only: hex_digit_def)
  ultimately have "c \<in> fst ` set base16_table"
    by (rule subst)
  then show ?thesis
    by (metis map_of_eq_None_iff option.exhaust)
qed

lemma base16_byte_digits:
  fixes w :: u8
  shows "unat w div 16 < 16" "unat w mod 16 < 16"
  using unsigned_less [of w, where ?'a = nat] by simp_all

lemma base16_pairs_encode: "base16_pairs i (base16_encode b) = Inr b"
proof (induction b arbitrary: i)
  case Nil
  then show ?case by (simp add: base16_encode_def)
next
  case (Cons w b)
  then show ?case
    by (simp add: base16_encode_def base16_byte_def map_of_base16_digit base16_byte_digits)
qed

lemma length_base16_encode: "length (base16_encode b) = 2 * length b"
  by (induction b) (simp_all add: base16_encode_def base16_byte_def)

lemma base16_encode_pairs:
  "base16_pairs i s = Inr b \<Longrightarrow> even (length s) \<Longrightarrow> base16_encode b = map to_ascii_lower s"
proof (induction i s arbitrary: b rule: base16_pairs.induct)
  case (1 i c d s)
  then obtain h l b' where hl: "map_of base16_table c = Some h" "map_of base16_table d = Some l"
    and b': "base16_pairs (i + 2) s = Inr b'" and b: "b = word_of_nat (16 * h + l) # b'"
    by (auto split: option.splits sum.splits)
  note dig = base16_table_cases [OF hl(1)] base16_table_cases [OF hl(2)]
  have val: "unat (word_of_nat (16 * h + l) :: u8) = 16 * h + l"
    using dig unfolding unat_of_nat by simp
  have "base16_encode b' = map to_ascii_lower s"
    using 1 hl b' by simp
  with b dig val show ?case
    by (simp add: base16_encode_def base16_byte_def)
qed (auto simp: base16_encode_def)

lemma base16_pairs_total:
  "even (length s) \<Longrightarrow> \<forall>c\<in>set s. hex_digit c \<Longrightarrow> \<exists>b. base16_pairs i s = Inr b"
proof (induction i s rule: base16_pairs.induct)
  case (1 i c d s)
  obtain h l where hl: "map_of base16_table c = Some h" "map_of base16_table d = Some l"
    using 1(3) map_of_hex_digit by force
  then obtain b where "base16_pairs (i + 2) s = Inr b"
    using 1 by fastforce
  with hl show ?case by simp
qed auto

lemma base16_digit_hex: "n < 16 \<Longrightarrow> hex_digit (base16_digit n)"
  using base16_table_cases [OF map_of_base16_digit] by blast

lemma base16_encode_hex_digits: "c \<in> set (base16_encode b) \<Longrightarrow> hex_digit c"
  by (auto simp: base16_encode_def base16_byte_def base16_digit_hex base16_byte_digits)

interpretation base16: hex_codec "base16_codec h" for h
  by unfold_locales
    (auto simp: base16_codec_def base16_decode_def base16_pairs_encode length_base16_encode
      base16_encode_pairs base16_encode_hex_digits base16_pairs_total split: if_splits)

section \<open>Properties\<close>

lemma hex_digit_lower: "hex_digit (to_ascii_lower c) \<Longrightarrow> hex_digit c"
proof -
  have "\<forall>c. hex_digit (to_ascii_lower c) \<longrightarrow> hex_digit c"
    by code_simp
  then show "hex_digit (to_ascii_lower c) \<Longrightarrow> hex_digit c"
    by blast
qed

context hex_codec
begin

lemma decode_digits: "hex_decode x s = Inr b \<Longrightarrow> c \<in> set s \<Longrightarrow> hex_digit c"
  using encode_decode [of s b] encode_digits [of "to_ascii_lower c" b]
  by (simp add: hex_digit_lower)

lemma decode_lower:
  assumes "\<forall>c\<in>set s. hex_digit c" "hex_encode x b = map to_ascii_lower s"
  shows "hex_decode x s = Inr b"
proof -
  have "length s = 2 * length b"
    using assms(2) encode_length [of b] by (metis length_map)
  then obtain b' where b': "hex_decode x s = Inr b'"
    using decode_total [of s] assms(1) by auto
  with encode_decode assms(2) show ?thesis
    by (metis hex_encode_inject)
qed

lemma parse_accepts:
  "parse_leaf_hex x s = Inr b \<longleftrightarrow>
    (\<exists>digits. (strip_0x s = digits \<or> strip_0x s = SHA3_256_MULTIHASH_PREFIX @ digits)
       \<and> length digits = 64 \<and> (\<forall>c\<in>set digits. hex_digit c) \<and> hash32_ok b
       \<and> hex_encode x b = map to_ascii_lower digits)" (is "?L \<longleftrightarrow> (\<exists>digits. ?P digits)")
proof
  assume ?L
  then have len: "length (leaf_digest_hex (strip_0x s)) = 64"
    and dec: "hex_decode x (leaf_digest_hex (strip_0x s)) = Inr b"
    by (auto simp: parse_leaf_hex_def Let_def split: if_splits sum.splits)
  have "strip_0x s = leaf_digest_hex (strip_0x s)
      \<or> strip_0x s = SHA3_256_MULTIHASH_PREFIX @ leaf_digest_hex (strip_0x s)"
    using len by (rule leaf_digest_hex_cases) auto
  then show "\<exists>digits. ?P digits"
    using len dec parse_leaf_length [OF \<open>?L\<close>]
    by (intro exI [of _ "leaf_digest_hex (strip_0x s)"]) (auto simp: encode_decode dest: decode_digits)
next
  assume "\<exists>digits. ?P digits"
  then obtain digits where "?P digits" ..
  then show ?L
    by (auto simp: parse_leaf_hex_def decode_lower)
qed

lemma client_agrees: "client_parse_hash32 x s = Inr b \<Longrightarrow> parse_leaf_hex x s = Inr b"
  by (auto simp: client_parse_hash32_def parse_leaf_hex_def Let_def split: if_splits sum.splits)

end

text \<open>
  C26: Which strings are leaves.  \<open>parse_leaf_hex\<close> succeeds exactly on 64 hexadecimal digits, bare or
  behind the multihash prefix \<open>1620\<close>, either optionally behind \<open>0x\<close>; the result then has 32 bytes
  and prints as the digits read, in lower case.
\<close>

theorem parse_leaf_hex_accepts:
  assumes "hex_codec x"
  shows "parse_leaf_hex x s = Inr b \<longleftrightarrow>
    (\<exists>digits. (strip_0x s = digits \<or> strip_0x s = SHA3_256_MULTIHASH_PREFIX @ digits)
       \<and> length digits = 64 \<and> (\<forall>c\<in>set digits. hex_digit c) \<and> hash32_ok b
       \<and> hex_encode x b = map to_ascii_lower digits)"
  using hex_codec.parse_accepts [OF assms] .

theorem parse_leaf_hex_accepts_witness:
  "parse_leaf_hex (base16_codec id) (replicate 64 (CHR ''A'')) = Inr (replicate 32 170)"
proof -
  have "base16_encode (replicate 32 170) = map to_ascii_lower (replicate 64 (CHR ''A''))"
    "\<forall>c\<in>set (replicate 64 (CHR ''A'')). hex_digit c"
    "strip_0x (replicate 64 (CHR ''A'')) = replicate 64 (CHR ''A'')"
    by code_simp+
  then show ?thesis
    by (subst parse_leaf_hex_accepts [OF base16.hex_codec_axioms])
      (intro exI [of _ "replicate 64 (CHR ''A'')"], simp add: base16_codec_def)
qed

text \<open>
  Every spelling of a 32-byte leaf the service prints or a client may send decodes to that leaf:
  bare digits, \<open>0x\<close> and digits (\<open>hex_lower\<close>), and \<open>0x1620\<close> and digits.
\<close>

theorem leaf_spellings_round_trip:
  assumes "hex_codec x" and "hash32_ok b"
  shows "parse_leaf_hex x (hex_encode x b) = Inr b
    \<and> parse_leaf_hex x (hex_lower x b) = Inr b
    \<and> parse_leaf_hex x (''0x'' @ SHA3_256_MULTIHASH_PREFIX @ hex_encode x b) = Inr b
    \<and> client_parse_hash32 x (format_hash32_bare x b) = Inr b"
  using hex_codec.parse_bare [OF assms] hex_codec.parse_hex_lower [OF assms]
    hex_codec.parse_multihash [OF assms]
  by (simp add: client_parse_hash32_def format_hash32_bare_def hex_codec.encode_length [OF assms(1)]
      hex_codec.decode_encode [OF assms(1)] hex_codec.strip_0x_encode [OF assms(1)] assms(2))

theorem leaf_spellings_round_trip_witness:
  "parse_leaf_hex (base16_codec id) (hex_lower (base16_codec id) (replicate 32 171)) = Inr (replicate 32 171)"
  using leaf_spellings_round_trip [OF base16.hex_codec_axioms, of "replicate 32 171"] by simp

text \<open>
  Client and server agree on leaves: whatever the client library accepts as a hash, the server
  decodes to the same 32 bytes.
\<close>

theorem client_hash_accepted_by_server:
  assumes "hex_codec x" and "client_parse_hash32 x s = Inr b"
  shows "parse_leaf_hex x s = Inr b \<and> hash32_ok b"
  using hex_codec.client_agrees [OF assms] hex_codec.parse_leaf_length [OF assms(1)] by blast

theorem client_hash_accepted_by_server_witness:
  "parse_leaf_hex (base16_codec id) (replicate 64 (CHR ''0'')) = Inr (replicate 32 0)
     \<and> hash32_ok (replicate 32 0 :: hash32)"
proof (rule client_hash_accepted_by_server [OF base16.hex_codec_axioms])
  show "client_parse_hash32 (base16_codec id) (replicate 64 (CHR ''0'')) = Inr (replicate 32 0)"
    by code_simp
qed

end
