(* ===== verification/Accumulator.thy ===== *)
theory Accumulator
  imports Leaf_Hex
begin

text \<open>
  The leaf accumulator of the open epoch (\<open>crates/aqua-timestamp-core/src/accumulator.rs\<close>).

  Every operation of the Rust type runs under one mutex, so an execution of concurrent submitters
  and the sealer is a sequence of whole operations: \<open>acc_run\<close> runs such a sequence.  The hash map
  \<open>seen\<close> is a map, \<open>usize\<close> is \<open>nat\<close> with the saturation of \<open>saturating_add\<close> written out, and the
  \<open>u64\<close> counters keep their width.

  The abstract view of an epoch is its owner map: which leaf is held for which submitter.  The
  locale \<open>leaf_buffer\<close> states the contract the sealer and the routes rely on, in terms of that map.
\<close>

section \<open>Data\<close>

definition MAX_LEAVES_PER_EPOCH :: nat where
  "MAX_LEAVES_PER_EPOCH = 2 ^ 20"

record epoch_full =
  ef_epoch_id :: u64
  ef_epoch_closes_at :: u64
  ef_cap :: nat

record leaf_entry =
  le_leaf :: hash32
  le_submitter_did :: did

record accumulator_inner =
  ai_epoch_id :: u64
  ai_opened_at :: u64
  ai_closes_at :: u64
  ai_leaves :: "leaf_entry list"
  ai_seen :: "hash32 \<rightharpoonup> nat"
  ai_leaf_cap :: nat

record accept_outcome =
  ao_epoch_id :: u64
  ao_epoch_closes_at :: u64
  ao_accepted :: u64
  ao_duplicates :: u64

record current_view =
  cv_epoch_id :: u64
  cv_opened_at :: u64
  cv_closes_at :: u64

record sealed_snapshot =
  ss_epoch_id :: u64
  ss_opened_at :: u64
  ss_closed_at :: u64
  ss_leaves :: "leaf_entry list"

section \<open>Operations\<close>

definition usize_sat_add :: "nat \<Rightarrow> nat \<Rightarrow> nat" where
  "usize_sat_add a b = min (a + b) (2 ^ 64 - 1)"

definition with_leaf_cap :: "u64 \<Rightarrow> u64 \<Rightarrow> u64 \<Rightarrow> nat \<Rightarrow> accumulator_inner" where
  "with_leaf_cap epoch_id opened_at duration_secs cap =
     \<lparr>ai_epoch_id = epoch_id, ai_opened_at = opened_at,
      ai_closes_at = sat_add opened_at duration_secs,
      ai_leaves = [], ai_seen = Map.empty, ai_leaf_cap = min cap MAX_LEAVES_PER_EPOCH\<rparr>"

definition accumulator_new :: "u64 \<Rightarrow> u64 \<Rightarrow> u64 \<Rightarrow> accumulator_inner" where
  "accumulator_new epoch_id opened_at duration_secs =
     with_leaf_cap epoch_id opened_at duration_secs MAX_LEAVES_PER_EPOCH"

definition fresh_leaves :: "accumulator_inner \<Rightarrow> hash32 list \<Rightarrow> hash32 list" where
  "fresh_leaves s batch = remdups (filter (\<lambda>leaf. ai_seen s leaf = None) batch)"

definition push_leaf :: "did \<Rightarrow> hash32 \<Rightarrow> accumulator_inner \<Rightarrow> accumulator_inner" where
  "push_leaf d leaf s =
     s\<lparr>ai_leaves := ai_leaves s @ [\<lparr>le_leaf = leaf, le_submitter_did = d\<rparr>],
       ai_seen := (ai_seen s)(leaf \<mapsto> length (ai_leaves s))\<rparr>"

fun append_loop :: "did \<Rightarrow> hash32 list \<Rightarrow> accumulator_inner \<Rightarrow> u64 \<Rightarrow> u64 \<Rightarrow> accumulator_inner \<times> u64 \<times> u64" where
  "append_loop d [] s accepted duplicates = (s, accepted, duplicates)"
| "append_loop d (leaf # batch) s accepted duplicates =
     (if ai_seen s leaf \<noteq> None then append_loop d batch s accepted (sat_add duplicates 1)
      else append_loop d batch (push_leaf d leaf s) (sat_add accepted 1) duplicates)"

definition append_batch ::
  "hash32 list \<Rightarrow> did \<Rightarrow> accumulator_inner \<Rightarrow> (epoch_full + accept_outcome) \<times> accumulator_inner" where
  "append_batch batch d s =
     (if usize_sat_add (length (ai_leaves s)) (length (fresh_leaves s batch)) > ai_leaf_cap s
      then (Inl \<lparr>ef_epoch_id = ai_epoch_id s, ef_epoch_closes_at = ai_closes_at s,
                 ef_cap = ai_leaf_cap s\<rparr>, s)
      else (let (s', accepted, duplicates) = append_loop d batch s 0 0
            in (Inr \<lparr>ao_epoch_id = ai_epoch_id s', ao_epoch_closes_at = ai_closes_at s',
                     ao_accepted = accepted, ao_duplicates = duplicates\<rparr>, s')))"

definition swap_and_open_next ::
  "u64 \<Rightarrow> u64 \<Rightarrow> u64 \<Rightarrow> accumulator_inner \<Rightarrow> sealed_snapshot \<times> accumulator_inner" where
  "swap_and_open_next closed_at next_opened_at duration_secs s =
     (\<lparr>ss_epoch_id = ai_epoch_id s, ss_opened_at = ai_opened_at s, ss_closed_at = closed_at,
       ss_leaves = ai_leaves s\<rparr>,
      s\<lparr>ai_leaves := [], ai_seen := Map.empty, ai_epoch_id := sat_add (ai_epoch_id s) 1,
        ai_opened_at := next_opened_at, ai_closes_at := sat_add next_opened_at duration_secs\<rparr>)"

definition current_view :: "accumulator_inner \<Rightarrow> current_view" where
  "current_view s = \<lparr>cv_epoch_id = ai_epoch_id s, cv_opened_at = ai_opened_at s,
                     cv_closes_at = ai_closes_at s\<rparr>"

section \<open>Executions\<close>

text \<open>An operation on the shared accumulator, and what it answered.\<close>

datatype acc_op = Append "hash32 list" did | Swap u64 u64 u64

datatype acc_event = Refused epoch_full | Accepted accept_outcome | Sealed sealed_snapshot

fun acc_step :: "accumulator_inner \<Rightarrow> acc_op \<Rightarrow> acc_event \<times> accumulator_inner" where
  "acc_step s (Append batch d) =
     (case append_batch batch d s of (Inl e, s') \<Rightarrow> (Refused e, s') | (Inr a, s') \<Rightarrow> (Accepted a, s'))"
| "acc_step s (Swap closed_at next_opened_at duration_secs) =
     (case swap_and_open_next closed_at next_opened_at duration_secs s of (snap, s') \<Rightarrow> (Sealed snap, s'))"

fun acc_run :: "accumulator_inner \<Rightarrow> acc_op list \<Rightarrow> acc_event list \<times> accumulator_inner" where
  "acc_run s [] = ([], s)"
| "acc_run s (l # ls) =
     (case acc_step s l of (e, s') \<Rightarrow> (case acc_run s' ls of (es, t) \<Rightarrow> (e # es, t)))"

text \<open>The owner map of a list of entries: which submitter holds which leaf.\<close>

definition owners_of :: "leaf_entry list \<Rightarrow> hash32 \<rightharpoonup> did" where
  "owners_of es = map_of (map (\<lambda>e. (le_leaf e, le_submitter_did e)) es)"

text \<open>The first snapshot in a list of answers, and the leaves counted over answers.\<close>

fun next_sealed :: "acc_event list \<Rightarrow> sealed_snapshot option" where
  "next_sealed [] = None"
| "next_sealed (Sealed snap # es) = Some snap"
| "next_sealed (_ # es) = next_sealed es"

fun accepted_count :: "acc_event \<Rightarrow> nat" where
  "accepted_count (Accepted a) = unat (ao_accepted a)"
| "accepted_count _ = 0"

fun sealed_count :: "acc_event \<Rightarrow> nat" where
  "sealed_count (Sealed snap) = length (ss_leaves snap)"
| "sealed_count _ = 0"

definition seen_sync :: "accumulator_inner \<Rightarrow> bool" where
  "seen_sync s \<longleftrightarrow> distinct (map le_leaf (ai_leaves s))
     \<and> dom (ai_seen s) = le_leaf ` set (ai_leaves s)
     \<and> (\<forall>i<length (ai_leaves s). ai_seen s (le_leaf (ai_leaves s ! i)) = Some i)"

definition acc_inv :: "accumulator_inner \<Rightarrow> bool" where
  "acc_inv s \<longleftrightarrow> seen_sync s \<and> length (ai_leaves s) \<le> ai_leaf_cap s \<and> ai_leaf_cap s \<le> MAX_LEAVES_PER_EPOCH"

section \<open>The append loop\<close>

abbreviation entry_of :: "did \<Rightarrow> hash32 \<Rightarrow> leaf_entry" where
  "entry_of d leaf \<equiv> \<lparr>le_leaf = leaf, le_submitter_did = d\<rparr>"

lemma push_leaf_simps [simp]:
  "ai_leaves (push_leaf d leaf s) = ai_leaves s @ [entry_of d leaf]"
  "ai_seen (push_leaf d leaf s) = (ai_seen s)(leaf \<mapsto> length (ai_leaves s))"
  "ai_epoch_id (push_leaf d leaf s) = ai_epoch_id s"
  "ai_opened_at (push_leaf d leaf s) = ai_opened_at s"
  "ai_closes_at (push_leaf d leaf s) = ai_closes_at s"
  "ai_leaf_cap (push_leaf d leaf s) = ai_leaf_cap s"
  by (simp_all add: push_leaf_def)

lemma seen_sync_new:
  "seen_sync s \<Longrightarrow> ai_seen s leaf = None \<Longrightarrow> leaf \<notin> le_leaf ` set (ai_leaves s)"
  by (metis domIff seen_sync_def)

lemma push_leaf_sync:
  assumes "seen_sync s" "ai_seen s leaf = None"
  shows "seen_sync (push_leaf d leaf s)"
proof -
  have new: "leaf \<notin> le_leaf ` set (ai_leaves s)"
    using assms by (rule seen_sync_new)
  then have "le_leaf (ai_leaves s ! i) \<noteq> leaf" if "i < length (ai_leaves s)" for i
    using that by (metis image_eqI nth_mem)
  with assms new show ?thesis
    by (auto simp: seen_sync_def nth_append less_Suc_eq)
qed

lemma min_sat_step: "min (min (x + j) M + k) M = min (x + (j + k)) (M :: nat)"
  by (simp add: min_def)

text \<open>What the loop adds: each leaf not yet seen, once, under the batch's submitter.\<close>

lemma append_loop_spec:
  assumes "seen_sync s" "append_loop d batch s a b = (s', a', b')"
  obtains new where "seen_sync s'" "ai_leaves s' = ai_leaves s @ map (entry_of d) new"
    "distinct new" "set new = set batch - dom (ai_seen s)" "length new \<le> length batch"
    "ai_epoch_id s' = ai_epoch_id s" "ai_closes_at s' = ai_closes_at s"
    "ai_opened_at s' = ai_opened_at s" "ai_leaf_cap s' = ai_leaf_cap s"
    "unat a' = min (unat a + length new) (2 ^ 64 - 1)"
    "unat b' = min (unat b + (length batch - length new)) (2 ^ 64 - 1)"
proof -
  have max: "unat w \<le> 2 ^ 64 - 1" for w :: u64
    using unsigned_less [of w, where ?'a = nat] by simp
  have "\<exists>new. seen_sync s' \<and> ai_leaves s' = ai_leaves s @ map (entry_of d) new \<and>
      distinct new \<and> set new = set batch - dom (ai_seen s) \<and> length new \<le> length batch \<and>
      ai_epoch_id s' = ai_epoch_id s \<and> ai_closes_at s' = ai_closes_at s \<and>
      ai_opened_at s' = ai_opened_at s \<and> ai_leaf_cap s' = ai_leaf_cap s \<and>
      unat a' = min (unat a + length new) (2 ^ 64 - 1) \<and>
      unat b' = min (unat b + (length batch - length new)) (2 ^ 64 - 1)"
    using assms
  proof (induction d batch s a b rule: append_loop.induct)
    case (1 d s a b)
    then show ?case
      using max [of a] max [of b] by (intro exI [of _ "[]"]) auto
  next
    case (2 d leaf batch s a b)
    show ?case
    proof (cases "ai_seen s leaf")
      case None
      then obtain new where IH: "seen_sync s'" "ai_leaves s' = ai_leaves s @ entry_of d leaf # map (entry_of d) new"
        "distinct new" "set new = set batch - insert leaf (dom (ai_seen s))" "length new \<le> length batch"
        "ai_epoch_id s' = ai_epoch_id s" "ai_closes_at s' = ai_closes_at s"
        "ai_opened_at s' = ai_opened_at s" "ai_leaf_cap s' = ai_leaf_cap s"
        "unat a' = min (unat (sat_add a 1) + length new) (2 ^ 64 - 1)"
        "unat b' = min (unat b + (length batch - length new)) (2 ^ 64 - 1)"
        using "2.IH"(2) "2.prems" push_leaf_sync by (auto simp del: fun_upd_apply)
      moreover have "unat a' = min (unat a + length (leaf # new)) (2 ^ 64 - 1)"
        using IH(10) by (simp add: sat_simps min_sat_step)
      ultimately show ?thesis
        using None by (intro exI [of _ "leaf # new"]) auto
    next
      case (Some i)
      then obtain new where IH: "seen_sync s'" "ai_leaves s' = ai_leaves s @ map (entry_of d) new"
        "distinct new" "set new = set batch - dom (ai_seen s)" "length new \<le> length batch"
        "ai_epoch_id s' = ai_epoch_id s" "ai_closes_at s' = ai_closes_at s"
        "ai_opened_at s' = ai_opened_at s" "ai_leaf_cap s' = ai_leaf_cap s"
        "unat a' = min (unat a + length new) (2 ^ 64 - 1)"
        "unat b' = min (unat (sat_add b 1) + (length batch - length new)) (2 ^ 64 - 1)"
        using "2.IH"(1) "2.prems" by auto
      moreover have "unat b' = min (unat b + (length (leaf # batch) - length new)) (2 ^ 64 - 1)"
        using IH(5,11) by (simp add: sat_simps min_sat_step Suc_diff_le)
      ultimately show ?thesis
        using Some by (intro exI [of _ new]) auto
    qed
  qed
  then show ?thesis
    by (blast intro: that)
qed

lemma set_fresh_leaves: "set (fresh_leaves s batch) = set batch - dom (ai_seen s)"
  by (auto simp: fresh_leaves_def)

lemma distinct_fresh_leaves: "distinct (fresh_leaves s batch)"
  by (simp add: fresh_leaves_def)

lemma owners_of_append_new:
  assumes "set new \<inter> le_leaf ` set es = {}"
  shows "owners_of (es @ map (entry_of d) new) l =
    (case owners_of es l of Some o' \<Rightarrow> Some o' | None \<Rightarrow> if l \<in> set new then Some d else None)"
proof -
  have "map_of (map ((\<lambda>e. (le_leaf e, le_submitter_did e)) \<circ> entry_of d) new) l =
      (if l \<in> set new then Some d else None)"
    by (induction new) auto
  then show ?thesis
    using assms by (auto simp: owners_of_def map_add_def split: option.splits)
qed

lemma dom_owners_of: "dom (owners_of es) = le_leaf ` set es"
  by (simp add: owners_of_def dom_map_of_conv_image_fst image_image)

lemma owners_of_None: "owners_of es l = None \<longleftrightarrow> l \<notin> le_leaf ` set es"
  by (metis dom_owners_of domIff)

text \<open>
  The two branches of \<open>append_batch\<close>: refused whole and unchanged, or every leaf of the batch held
  afterwards, the entries of the epoch kept in place.
\<close>

lemma append_batch_refused:
  "append_batch batch d s = (Inl e, s') \<Longrightarrow>
     s' = s \<and> ef_epoch_id e = ai_epoch_id s \<and> ef_epoch_closes_at e = ai_closes_at s \<and> ef_cap e = ai_leaf_cap s
     \<and> ai_leaf_cap s < length (ai_leaves s) + length (fresh_leaves s batch)"
  by (auto simp: append_batch_def usize_sat_add_def split: if_splits prod.splits)

lemma append_batch_accepted:
  assumes inv: "acc_inv s" and run: "append_batch batch d s = (Inr a, s')"
  obtains new where "acc_inv s'" "ai_leaves s' = ai_leaves s @ map (entry_of d) new"
    "distinct new" "set new = set (fresh_leaves s batch)" "length new = length (fresh_leaves s batch)"
    "ao_epoch_id a = ai_epoch_id s" "ai_epoch_id s' = ai_epoch_id s"
    "ao_epoch_closes_at a = ai_closes_at s" "ai_closes_at s' = ai_closes_at s"
    "ai_opened_at s' = ai_opened_at s" "ai_leaf_cap s' = ai_leaf_cap s"
    "unat (ao_accepted a) = length new"
    "unat (ao_duplicates a) = min (length batch - length new) (2 ^ 64 - 1)"
    "length (ai_leaves s) + length new \<le> ai_leaf_cap s"
proof -
  have sync: "seen_sync s" and cap: "length (ai_leaves s) \<le> ai_leaf_cap s" "ai_leaf_cap s \<le> 2 ^ 20"
    using inv by (auto simp: acc_inv_def MAX_LEAVES_PER_EPOCH_def)
  from run obtain acc dup where loop: "append_loop d batch s 0 0 = (s', acc, dup)"
    and a: "a = \<lparr>ao_epoch_id = ai_epoch_id s', ao_epoch_closes_at = ai_closes_at s',
                 ao_accepted = acc, ao_duplicates = dup\<rparr>"
    and room: "\<not> usize_sat_add (length (ai_leaves s)) (length (fresh_leaves s batch)) > ai_leaf_cap s"
    by (auto simp: append_batch_def split: if_splits prod.splits)
  obtain new where new: "seen_sync s'" "ai_leaves s' = ai_leaves s @ map (entry_of d) new"
    "distinct new" "set new = set batch - dom (ai_seen s)" "length new \<le> length batch"
    "ai_epoch_id s' = ai_epoch_id s" "ai_closes_at s' = ai_closes_at s"
    "ai_opened_at s' = ai_opened_at s" "ai_leaf_cap s' = ai_leaf_cap s"
    "unat acc = min (unat (0 :: u64) + length new) (2 ^ 64 - 1)"
    "unat dup = min (unat (0 :: u64) + (length batch - length new)) (2 ^ 64 - 1)"
    using append_loop_spec [OF sync loop] by blast
  have len: "length new = length (fresh_leaves s batch)"
    by (metis distinct_card distinct_fresh_leaves new(3,4) set_fresh_leaves)
  have fits: "length (ai_leaves s) + length new \<le> ai_leaf_cap s"
    using room len cap(2) by (simp add: usize_sat_add_def min_def split: if_splits)
  show thesis
  proof (rule that [of new])
    show "acc_inv s'"
      using new(1,2,9) fits cap(2) by (simp add: acc_inv_def MAX_LEAVES_PER_EPOCH_def)
    show "unat (ao_accepted a) = length new"
      using new(10) fits cap a by simp
  qed (use new a len fits set_fresh_leaves in simp_all)
qed

section \<open>The contract of an epoch buffer\<close>

text \<open>
  What the sealer and the submit route rely on, in terms of the owner map only: an accepted batch
  is held whole under its first submitters, a refused batch changes nothing, and a swap hands over
  exactly what was held and leaves an empty buffer.
\<close>

locale leaf_buffer =
  fixes append :: "hash32 list \<Rightarrow> did \<Rightarrow> 's \<Rightarrow> (epoch_full + accept_outcome) \<times> 's"
    and swap :: "u64 \<Rightarrow> u64 \<Rightarrow> u64 \<Rightarrow> 's \<Rightarrow> sealed_snapshot \<times> 's"
    and owners :: "'s \<Rightarrow> hash32 \<rightharpoonup> did"
    and epoch :: "'s \<Rightarrow> u64"
    and size_of :: "'s \<Rightarrow> nat"
    and inv :: "'s \<Rightarrow> bool"
  assumes append_refused: "append b d s = (Inl e, s') \<Longrightarrow> s' = s"
    and append_inv: "inv s \<Longrightarrow> append b d s = (Inr a, s') \<Longrightarrow> inv s'"
    and append_epoch: "inv s \<Longrightarrow> append b d s = (Inr a, s') \<Longrightarrow> ao_epoch_id a = epoch s \<and> epoch s' = epoch s"
    and append_owners: "inv s \<Longrightarrow> append b d s = (Inr a, s') \<Longrightarrow>
      owners s' l = (case owners s l of Some o' \<Rightarrow> Some o' | None \<Rightarrow> if l \<in> set b then Some d else None)"
    and append_size: "inv s \<Longrightarrow> append b d s = (Inr a, s') \<Longrightarrow> size_of s' = size_of s + unat (ao_accepted a)"
    and swap_inv: "inv s \<Longrightarrow> swap c n k s = (snap, s') \<Longrightarrow> inv s'"
    and swap_snapshot: "inv s \<Longrightarrow> swap c n k s = (snap, s') \<Longrightarrow>
      ss_epoch_id snap = epoch s \<and> owners_of (ss_leaves snap) = owners s \<and> length (ss_leaves snap) = size_of s"
    and swap_empty: "inv s \<Longrightarrow> swap c n k s = (snap, s') \<Longrightarrow> owners s' = Map.empty \<and> size_of s' = 0"
begin

fun perform :: "'s \<Rightarrow> acc_op \<Rightarrow> acc_event \<times> 's" where
  "perform s (Append b d) = (case append b d s of (Inl e, s') \<Rightarrow> (Refused e, s') | (Inr a, s') \<Rightarrow> (Accepted a, s'))"
| "perform s (Swap c n k) = (case swap c n k s of (snap, s') \<Rightarrow> (Sealed snap, s'))"

fun exec :: "'s \<Rightarrow> acc_op list \<Rightarrow> acc_event list \<times> 's" where
  "exec s [] = ([], s)"
| "exec s (l # ls) = (case perform s l of (e, s') \<Rightarrow> (case exec s' ls of (es, t) \<Rightarrow> (e # es, t)))"

lemma perform_cases:
  assumes "perform s op = (e, t)" "inv s"
  obtains (refused) ef where "e = Refused ef" "t = s"
  | (accepted) b d a where "op = Append b d" "e = Accepted a" "append b d s = (Inr a, t)"
  | (sealed) c n k snap where "op = Swap c n k" "e = Sealed snap" "swap c n k s = (snap, t)"
  using assms
  by (cases op) (auto split: prod.splits sum.splits dest: append_refused)

lemma perform_inv: "perform s op = (e, t) \<Longrightarrow> inv s \<Longrightarrow> inv t"
  by (erule perform_cases) (auto intro: append_inv swap_inv)

lemma exec_inv: "exec s ops = (es, t) \<Longrightarrow> inv s \<Longrightarrow> inv t"
  by (induction s ops arbitrary: es rule: exec.induct)
    (auto split: prod.splits dest: perform_inv)

lemma exec_append:
  "exec s (ops @ ops') = (case exec s ops of (es, t) \<Rightarrow> (case exec t ops' of (es', u) \<Rightarrow> (es @ es', u)))"
  by (induction s ops rule: exec.induct) (auto split: prod.splits)

lemma exec_length: "exec s ops = (es, t) \<Longrightarrow> length es = length ops"
  by (induction s ops arbitrary: es rule: exec.induct) (auto split: prod.splits)

text \<open>A leaf that is held is handed over by the next swap, under the same owner and epoch.\<close>

lemma held_until_swap:
  assumes "exec s ops = (es, t)" "inv s" "owners s l = Some d"
  shows "case next_sealed es of
      Some snap \<Rightarrow> ss_epoch_id snap = epoch s \<and> owners_of (ss_leaves snap) l = Some d
    | None \<Rightarrow> epoch t = epoch s \<and> owners t l = Some d"
  using assms
proof (induction s ops arbitrary: es rule: exec.induct)
  case (1 s)
  then show ?case by simp
next
  case (2 s op ops)
  obtain e s' es' where step: "perform s op = (e, s')" and rest: "exec s' ops = (es', t)"
    and es: "es = e # es'"
    using "2.prems"(1) by (auto split: prod.splits)
  note IH = "2.IH" [OF step [symmetric] rest]
  from step "2.prems"(2) show ?case
  proof (cases rule: perform_cases)
    case (refused ef)
    then show ?thesis using IH "2.prems"(2,3) es by (simp split: option.splits)
  next
    case (accepted b d' a)
    then have "inv s'" "epoch s' = epoch s" "owners s' l = Some d"
      using append_inv append_epoch append_owners "2.prems"(2,3) by (auto split: option.splits)
    with IH accepted es show ?thesis by (simp split: option.splits)
  next
    case (sealed c n k snap)
    then show ?thesis using swap_snapshot [of s] "2.prems"(2,3) es by simp
  qed
qed

text \<open>No leaf is lost and none is invented: the counts over an execution balance.\<close>

lemma count_balance:
  assumes "exec s ops = (es, t)" "inv s"
  shows "size_of s + sum_list (map accepted_count es) = size_of t + sum_list (map sealed_count es)"
  using assms
proof (induction s ops arbitrary: es rule: exec.induct)
  case (1 s)
  then show ?case by simp
next
  case (2 s op ops)
  obtain e s' es' where step: "perform s op = (e, s')" and rest: "exec s' ops = (es', t)"
    and es: "es = e # es'"
    using "2.prems"(1) by (auto split: prod.splits)
  have IH: "size_of s' + sum_list (map accepted_count es') = size_of t + sum_list (map sealed_count es')"
    using "2.IH" [OF step [symmetric] rest] perform_inv [OF step "2.prems"(2)] .
  from step "2.prems"(2) show ?case
  proof (cases rule: perform_cases)
    case (refused ef)
    then show ?thesis using IH es by simp
  next
    case (accepted b d' a)
    then show ?thesis using append_size [of s b d' a s'] IH es "2.prems"(2) by simp
  next
    case (sealed c n k snap)
    then show ?thesis
      using swap_snapshot [of s c n k snap s'] swap_empty [of s c n k snap s'] IH es "2.prems"(2) by simp
  qed
qed

lemma accepted_lands:
  assumes run: "exec s (pre @ Append b d # post) = (es, t)" and inv: "inv s"
    and acc: "es ! length pre = Accepted a" and l: "l \<in> set b"
  shows "case next_sealed (drop (Suc (length pre)) es) of
      Some snap \<Rightarrow> ss_epoch_id snap = ao_epoch_id a \<and> l \<in> dom (owners_of (ss_leaves snap))
    | None \<Rightarrow> epoch t = ao_epoch_id a \<and> l \<in> dom (owners t)"
proof -
  obtain es1 s1 where pre: "exec s pre = (es1, s1)" by fastforce
  obtain e s2 es2 where step: "perform s1 (Append b d) = (e, s2)" and post: "exec s2 post = (es2, t)"
    and es: "es = es1 @ e # es2"
    using run pre by (auto simp: exec_append split: prod.splits)
  have len: "length es1 = length pre"
    using exec_length [OF pre] .
  then have e: "e = Accepted a"
    using acc es by (metis nth_append_length)
  have inv1: "inv s1"
    using exec_inv [OF pre inv] .
  have app: "append b d s1 = (Inr a, s2)"
    using step e by (auto split: prod.splits sum.splits)
  obtain o' where own: "owners s2 l = Some o'"
    using append_owners [OF inv1 app, of l] l by (auto split: option.splits)
  show ?thesis
    using held_until_swap [OF post append_inv [OF inv1 app] own] append_epoch [OF inv1 app] es len
    by (auto split: option.splits)
qed

end

lemma swap_simps [simp]:
  "swap_and_open_next c n k s = (snap, s') \<Longrightarrow> ss_leaves snap = ai_leaves s \<and> ss_epoch_id snap = ai_epoch_id s
    \<and> ss_closed_at snap = c \<and> ss_opened_at snap = ai_opened_at s \<and> ai_leaves s' = []
    \<and> ai_seen s' = Map.empty \<and> ai_leaf_cap s' = ai_leaf_cap s \<and> ai_epoch_id s' = sat_add (ai_epoch_id s) 1"
  by (auto simp: swap_and_open_next_def)

lemma acc_inv_swap: "acc_inv s \<Longrightarrow> swap_and_open_next c n k s = (snap, s') \<Longrightarrow> acc_inv s'"
  by (frule swap_simps) (simp add: acc_inv_def seen_sync_def)

lemma append_batch_owners:
  assumes "acc_inv s" "append_batch b d s = (Inr a, s')"
  shows "owners_of (ai_leaves s') l =
    (case owners_of (ai_leaves s) l of Some o' \<Rightarrow> Some o' | None \<Rightarrow> if l \<in> set b then Some d else None)"
proof -
  obtain new where new: "ai_leaves s' = ai_leaves s @ map (entry_of d) new"
    "set new = set (fresh_leaves s b)"
    using append_batch_accepted [OF assms] by blast
  have seen: "dom (ai_seen s) = le_leaf ` set (ai_leaves s)"
    using assms(1) by (simp add: acc_inv_def seen_sync_def)
  then have "set new \<inter> le_leaf ` set (ai_leaves s) = {}"
    using new(2) by (auto simp: set_fresh_leaves)
  from owners_of_append_new [OF this, of d l] show ?thesis
    using new seen by (auto simp: set_fresh_leaves owners_of_None split: option.splits)
qed

interpretation acc: leaf_buffer append_batch swap_and_open_next "\<lambda>s. owners_of (ai_leaves s)"
  ai_epoch_id "\<lambda>s. length (ai_leaves s)" acc_inv
proof unfold_locales
  fix b d s a s'
  assume *: "acc_inv s" "append_batch b d s = (Inr a, s')"
  obtain new where new: "acc_inv s'" "ai_leaves s' = ai_leaves s @ map (entry_of d) new"
    "ao_epoch_id a = ai_epoch_id s" "ai_epoch_id s' = ai_epoch_id s" "unat (ao_accepted a) = length new"
    using append_batch_accepted [OF *] by blast
  then show "acc_inv s'" "ao_epoch_id a = ai_epoch_id s \<and> ai_epoch_id s' = ai_epoch_id s"
    "length (ai_leaves s') = length (ai_leaves s) + unat (ao_accepted a)"
    by simp_all
qed (auto simp: append_batch_owners owners_of_None fun_eq_iff intro: acc_inv_swap dest: append_batch_refused)

lemma acc_run_exec: "acc_run s ops = acc.exec s ops"
proof (induction ops arbitrary: s)
  case Nil
  then show ?case by simp
next
  case (Cons op ops)
  have "acc_step s op = acc.perform s op"
    by (cases op) simp_all
  with Cons show ?case
    by (simp split: prod.splits)
qed

section \<open>Properties\<close>

lemma acc_inv_with_leaf_cap [simp]: "acc_inv (with_leaf_cap n t k cap)"
  by (simp add: acc_inv_def seen_sync_def with_leaf_cap_def)

lemma append_batch_cases:
  obtains (refused) e where "append_batch b d s = (Inl e, s)"
    "ai_leaf_cap s < length (ai_leaves s) + length (fresh_leaves s b)"
  | (accepted) a s' where "append_batch b d s = (Inr a, s')"
proof (cases "append_batch b d s")
  case (Pair r s')
  then show thesis
    using that append_batch_refused [of b d s _ s'] by (cases r) auto
qed

text \<open>
  C5: A leaf in a batch that was accepted into epoch \<open>N\<close> is, after any further interleaving of
  submissions and seals, either in the snapshot of the next seal, which is the snapshot of epoch
  \<open>N\<close>, or, when no seal happened since, still in the open epoch, which is still \<open>N\<close>.  No accepted
  leaf disappears between accept and seal.
\<close>

theorem accepted_leaf_lands:
  assumes "acc_inv s" and "acc_run s (pre @ Append batch d # post) = (es, t)"
    and "es ! length pre = Accepted a" and "leaf \<in> set batch"
  shows "case next_sealed (drop (Suc (length pre)) es) of
      Some snap \<Rightarrow> ss_epoch_id snap = ao_epoch_id a \<and> leaf \<in> le_leaf ` set (ss_leaves snap)
    | None \<Rightarrow> ai_epoch_id t = ao_epoch_id a \<and> leaf \<in> le_leaf ` set (ai_leaves t)"
  using acc.accepted_lands [OF assms(2) [unfolded acc_run_exec] assms(1,3,4)]
  by (simp only: dom_owners_of)

theorem accepted_leaf_lands_witness:
  "let (es, t) = acc_run (with_leaf_cap 7 100 60 4) [Append [replicate 32 1] ''did:a'', Swap 160 160 60]
   in case next_sealed (drop (Suc 0) es) of
        Some snap \<Rightarrow> ss_epoch_id snap = 7 \<and> replicate 32 1 \<in> le_leaf ` set (ss_leaves snap)
      | None \<Rightarrow> ai_epoch_id t = 7 \<and> replicate 32 1 \<in> le_leaf ` set (ai_leaves t)"
proof -
  define leaf :: hash32 where "leaf = replicate 32 1"
  let ?s = "with_leaf_cap 7 100 60 4"
  obtain a s1 where app: "append_batch [leaf] ''did:a'' ?s = (Inr a, s1)" and a: "ao_epoch_id a = 7"
    by (simp add: with_leaf_cap_def append_batch_def fresh_leaves_def push_leaf_def
        usize_sat_add_def MAX_LEAVES_PER_EPOCH_def)
  obtain es t where run: "acc_run ?s ([] @ Append [leaf] ''did:a'' # [Swap 160 160 60]) = (es, t)"
    by fastforce
  then have "es ! length [] = Accepted a"
    using app by (auto split: prod.splits)
  from accepted_leaf_lands [OF acc_inv_with_leaf_cap run this, of leaf] show ?thesis
    using run unfolding a leaf_def by simp
qed

text \<open>
  C22: The invariant of the accumulator over every interleaving: from any freshly built accumulator
  the dedup index maps each held leaf to its position and nothing else, no leaf is held twice, and
  the epoch never exceeds its cap, which never exceeds the template maximum of 2^20 leaves.
\<close>

theorem acc_run_invariant:
  "acc_inv (snd (acc_run (with_leaf_cap n t k cap) ops))"
  using acc.exec_inv [of "with_leaf_cap n t k cap" ops]
  by (cases "acc_run (with_leaf_cap n t k cap) ops") (simp add: acc_run_exec)

text \<open>
  C23: \<open>append_batch\<close> on every branch.  It is refused exactly when the new distinct leaves do not
  fit under the cap, and then changes nothing; otherwise \<open>accepted\<close> is the number of distinct new
  leaves, \<open>duplicates\<close> the rest of the batch, the leaves already held keep their owners (first
  submitter wins) and each new leaf is owned by this batch's submitter.
\<close>

theorem append_batch_spec:
  assumes inv: "acc_inv s"
  shows "case append_batch batch d s of
      (Inl e, s') \<Rightarrow> s' = s \<and> ai_leaf_cap s < length (ai_leaves s) + card (set batch - le_leaf ` set (ai_leaves s))
    | (Inr a, s') \<Rightarrow>
        length (ai_leaves s) + card (set batch - le_leaf ` set (ai_leaves s)) \<le> ai_leaf_cap s
        \<and> unat (ao_accepted a) = card (set batch - le_leaf ` set (ai_leaves s))
        \<and> unat (ao_duplicates a) = min (length batch - unat (ao_accepted a)) (2 ^ 64 - 1)
        \<and> (\<forall>l. owners_of (ai_leaves s') l =
              (case owners_of (ai_leaves s) l of Some d' \<Rightarrow> Some d'
               | None \<Rightarrow> if l \<in> set batch then Some d else None))"
proof -
  have card: "length (fresh_leaves s batch) = card (set batch - le_leaf ` set (ai_leaves s))"
    using inv by (metis acc_inv_def distinct_card distinct_fresh_leaves seen_sync_def set_fresh_leaves)
  show ?thesis
  proof (cases rule: append_batch_cases [of batch d s])
    case (refused e)
    then show ?thesis by (simp add: card)
  next
    case (accepted a s')
    obtain new :: "hash32 list" where "length new = length (fresh_leaves s batch)" "unat (ao_accepted a) = length new"
      "unat (ao_duplicates a) = min (length batch - length new) (2 ^ 64 - 1)"
      "length (ai_leaves s) + length new \<le> ai_leaf_cap s"
      by (rule append_batch_accepted [OF inv accepted]) (rule that, assumption+)
    then show ?thesis
      unfolding accepted prod.case sum.case card [symmetric]
      by (intro conjI allI append_batch_owners [OF inv accepted]) simp_all
  qed
qed

theorem append_batch_spec_witness:
  "let x = replicate 32 1 :: hash32; y = replicate 32 2 in
   case append_batch [x, y, x] ''did:a'' (with_leaf_cap 7 100 60 4) of
     (Inl e, s') \<Rightarrow> False
   | (Inr a, s') \<Rightarrow> unat (ao_accepted a) = 2 \<and> unat (ao_duplicates a) = 1
       \<and> owners_of (ai_leaves s') y = Some ''did:a''"
proof -
  let ?x = "replicate 32 1 :: hash32"
  let ?y = "replicate 32 2 :: hash32"
  have ne: "?x \<noteq> ?y"
    by simp
  have "ai_leaves (with_leaf_cap 7 100 60 4) = []" "ai_leaf_cap (with_leaf_cap 7 100 60 4) = 4"
    by (simp_all add: with_leaf_cap_def MAX_LEAVES_PER_EPOCH_def)
  moreover have "card {?x, ?y} = 2" "{?x, ?y, ?x} = {?x, ?y}"
    using ne by auto
  ultimately show ?thesis
    using append_batch_spec [OF acc_inv_with_leaf_cap, of 7 100 60 4 "[?x, ?y, ?x]" "''did:a''"]
    by (simp add: Let_def owners_of_def split: prod.splits sum.splits)
qed

text \<open>
  Leaves are conserved over every interleaving: the leaves held at the start plus all leaves
  reported as accepted are the leaves held at the end plus all leaves handed to the sealer.
\<close>

theorem acc_run_conserves_leaves:
  assumes "acc_inv s" and "acc_run s ops = (es, t)"
  shows "length (ai_leaves s) + sum_list (map accepted_count es) =
         length (ai_leaves t) + sum_list (map sealed_count es)"
  using acc.count_balance [OF assms(2) [unfolded acc_run_exec] assms(1)] .

theorem acc_run_conserves_leaves_witness:
  "let (es, t) = acc_run (with_leaf_cap 7 100 60 4) [Append [replicate 32 1] ''did:a'', Swap 160 160 60]
   in sum_list (map accepted_count es) = length (ai_leaves t) + sum_list (map sealed_count es)"
  using acc_run_conserves_leaves [OF acc_inv_with_leaf_cap, of 7 100 60 4 "[Append [replicate 32 1] ''did:a'', Swap 160 160 60]"]
  by (cases "acc_run (with_leaf_cap 7 100 60 4) [Append [replicate 32 1] ''did:a'', Swap 160 160 60]")
    (simp add: with_leaf_cap_def)

end
