(* ===== verification/Witness.thy ===== *)
theory Witness
  imports Accumulator
begin

text \<open>
  Witness minting and the pending-epoch record (\<open>crates/aqua-timestamp-core/src/witness.rs\<close>), and
  the anchor-provider error mapping (\<open>anchors.rs\<close>).

  The Aqua SDK is not part of the sources.  Its data types appear with the fields the sources read
  and one field for the rest; its functions are the fields of the record \<open>sdk_api\<close>, which every
  definition that calls one takes as its first argument.  SDK errors are only ever formatted into
  messages, so they are strings.  A slice index out of range, the one panic of the minter, is the
  outcome \<open>MintPanic\<close>.
\<close>

section \<open>Interface to the Aqua SDK\<close>

type_synonym revision_link = bytes

datatype hash_type = Sha3_256 | OtherHash string

datatype revision_method = Scalar | TreeMethod

datatype json = JNull | JBool bool | JU64 u64 | JNumber string | JStr string
  | JArr "json list" | JObj "(string \<times> json) list"

record typed_object =
  ob_previous :: "revision_link option"
  ob_type :: revision_link
  ob_method :: revision_method
  ob_payloads :: json
  ob_rest :: string

record signature_revision =
  sg_previous :: revision_link
  sg_signer :: did
  sg_rest :: string

datatype any_revision = Typed typed_object | Signature signature_revision | OtherRevision string

record aqua_tree =
  tr_revisions :: "(revision_link \<times> any_revision) list"
  tr_file_index :: "(revision_link \<times> string) list"

record aqua_tree_wrapper =
  aw_tree :: aqua_tree
  aw_file :: "string option"
  aw_target :: "revision_link option"

record prepared_batch =
  pb_merkle_root :: string
  pb_rest :: string

record timestamp_value =
  tv_merkle_proof :: "string list"
  tv_sender_account_address :: string
  tv_tsa_provider :: string
  tv_transaction_hash :: string
  tv_smart_contract_address :: string
  tv_network :: string
  tv_merkle_root :: string
  tv_timestamp :: u64
  tv_batch_tree_size :: u64
  tv_batch_leaf_index :: u64
  tv_shielding_nonce :: string

record sdk_api = codec_api +
  hex_error_display :: "from_hex_error \<Rightarrow> string"
  link_from_bytes :: "hash32 \<Rightarrow> revision_link"
  link_to_string :: "revision_link \<Rightarrow> string"
  multihash_decode :: "bytes \<Rightarrow> string + hash_type \<times> bytes"
  tsa_template_link :: hash32
  object_new :: "revision_link \<Rightarrow> revision_link \<Rightarrow> revision_method \<Rightarrow> json \<Rightarrow> typed_object"
  prepare_batch_timestamp :: "aqua_tree_wrapper list \<Rightarrow> string + prepared_batch"
  finish_batch_timestamp ::
    "prepared_batch \<Rightarrow> aqua_tree_wrapper list \<Rightarrow> timestamp_value \<Rightarrow> revision_method \<Rightarrow> string + aqua_tree list"
  parse_batch_root :: "string \<Rightarrow> string + hash32"
  sign_revision :: "revision_link \<Rightarrow> revision_method \<Rightarrow> hash_type \<Rightarrow> string + signature_revision"
  object_link :: "hash_type \<Rightarrow> typed_object \<Rightarrow> string + revision_link"
  signature_link :: "hash_type \<Rightarrow> signature_revision \<Rightarrow> string + revision_link"

section \<open>Anchor methods\<close>

definition QTSA_NETWORK_LABEL :: string where
  "QTSA_NETWORK_LABEL = ''tsa''"

definition METHOD_BYTE_EVM :: u8 where
  "METHOD_BYTE_EVM = 1"

definition METHOD_BYTE_QTSA :: u8 where
  "METHOD_BYTE_QTSA = 2"

datatype anchor_method = Evm | Qtsa

definition anchor_method_ALL :: "anchor_method list" where
  "anchor_method_ALL = [Evm, Qtsa]"

fun as_str :: "anchor_method \<Rightarrow> string" where
  "as_str Evm = ''evm''"
| "as_str Qtsa = ''qtsa''"

fun method_byte :: "anchor_method \<Rightarrow> u8" where
  "method_byte Evm = METHOD_BYTE_EVM"
| "method_byte Qtsa = METHOD_BYTE_QTSA"

definition from_method_byte :: "u8 \<Rightarrow> anchor_method option" where
  "from_method_byte b = (if b = METHOD_BYTE_EVM then Some Evm
     else if b = METHOD_BYTE_QTSA then Some Qtsa else None)"

definition method_parse :: "string \<Rightarrow> anchor_method option" where
  "method_parse input = (if input = ''evm'' then Some Evm
     else if input = ''qtsa'' then Some Qtsa else None)"

definition from_byte :: "u8 \<Rightarrow> anchor_method option" where
  "from_byte b = (if b = METHOD_BYTE_EVM then Some Evm
     else if b = METHOD_BYTE_QTSA then Some Qtsa else None)"

datatype witness_error = WE_Object string | WE_Batch string | WE_Sign string
  | WE_Serialise string | WE_BadHash nat

section \<open>anchors.rs\<close>

datatype sdk_timestamp_error = SdkConfig string | SdkProvider string | SdkNotSupported string

datatype anchor_error = Provider string

fun anchor_error_from :: "sdk_timestamp_error \<Rightarrow> anchor_error" where
  "anchor_error_from (SdkConfig s) = Provider (''config: '' @ s)"
| "anchor_error_from (SdkProvider s) = Provider s"
| "anchor_error_from (SdkNotSupported s) = Provider (''not supported: '' @ s)"

definition anchor_create_timestamp ::
  "(string \<Rightarrow> sdk_timestamp_error + timestamp_value) \<Rightarrow> string \<Rightarrow> anchor_error + timestamp_value" where
  "anchor_create_timestamp provider root =
     (case provider root of Inl e \<Rightarrow> Inl (anchor_error_from e) | Inr v \<Rightarrow> Inr v)"

definition mock_provider :: "timestamp_value \<Rightarrow> string \<Rightarrow> anchor_error + timestamp_value" where
  "mock_provider v root = Inr v"

definition failing_provider :: "string \<Rightarrow> string \<Rightarrow> anchor_error + timestamp_value" where
  "failing_provider message root = Inl (Provider message)"

section \<open>Anchor outcomes\<close>

record method_anchor_outcome =
  mo_transaction_hash :: string
  mo_sender_account_address :: string
  mo_smart_contract_address :: string
  mo_network :: string
  mo_tsa_provider :: string
  mo_timestamp :: u64

definition from_evm_timestamp_value :: "timestamp_value \<Rightarrow> method_anchor_outcome" where
  "from_evm_timestamp_value v =
     \<lparr>mo_transaction_hash = tv_transaction_hash v,
      mo_sender_account_address = tv_sender_account_address v,
      mo_smart_contract_address = tv_smart_contract_address v,
      mo_network = tv_network v, mo_tsa_provider = [], mo_timestamp = tv_timestamp v\<rparr>"

definition from_tsa_timestamp_value :: "timestamp_value \<Rightarrow> method_anchor_outcome" where
  "from_tsa_timestamp_value v =
     (let sender = if tv_sender_account_address v = [] then tv_tsa_provider v
                   else tv_sender_account_address v
      in \<lparr>mo_transaction_hash = tv_transaction_hash v, mo_sender_account_address = sender,
          mo_smart_contract_address = tv_smart_contract_address v,
          mo_network = QTSA_NETWORK_LABEL, mo_tsa_provider = tv_tsa_provider v,
          mo_timestamp = tv_timestamp v\<rparr>)"

fun from_value :: "anchor_method \<Rightarrow> timestamp_value \<Rightarrow> method_anchor_outcome" where
  "from_value Evm v = from_evm_timestamp_value v"
| "from_value Qtsa v = from_tsa_timestamp_value v"

definition ensure_0x :: "string \<Rightarrow> string" where
  "ensure_0x addr = (if starts_with ''0x'' addr \<or> starts_with ''0X'' addr then addr else ''0x'' @ addr)"

definition facts :: "method_anchor_outcome \<Rightarrow> anchor_method \<Rightarrow> string \<Rightarrow> timestamp_value" where
  "facts mo m root =
     (let (sender, network) =
        (case m of Evm \<Rightarrow> (ensure_0x (mo_sender_account_address mo), mo_network mo)
         | Qtsa \<Rightarrow> (mo_sender_account_address mo, QTSA_NETWORK_LABEL))
      in \<lparr>tv_merkle_proof = [], tv_sender_account_address = sender,
          tv_tsa_provider = mo_tsa_provider mo, tv_transaction_hash = mo_transaction_hash mo,
          tv_smart_contract_address = mo_smart_contract_address mo, tv_network = network,
          tv_merkle_root = root, tv_timestamp = mo_timestamp mo, tv_batch_tree_size = 0,
          tv_batch_leaf_index = 0, tv_shielding_nonce = []\<rparr>)"

section \<open>The epoch batch\<close>

record minted_witness =
  mw_object_hash :: hash32
  mw_signature_hash :: hash32
  mw_leaf :: hash32
  mw_method :: anchor_method
  mw_epoch_id :: u64
  mw_submitter_did :: did
  mw_object_file_name :: string
  mw_signature_file_name :: string
  mw_object_revision :: any_revision
  mw_signature_revision :: any_revision

record epoch_batch =
  eb_prepared :: prepared_batch
  eb_leaves :: "hash32 list"
  eb_carriers :: "aqua_tree_wrapper list"

definition link_only_carrier :: "'z sdk_api_scheme \<Rightarrow> hash32 \<Rightarrow> aqua_tree_wrapper" where
  "link_only_carrier x leaf =
     (let link = link_from_bytes x leaf;
          placeholder = object_new x (link_from_bytes x (replicate 32 0))
                          (link_from_bytes x (tsa_template_link x)) Scalar JNull;
          tree = \<lparr>tr_revisions = [(link, Typed placeholder)], tr_file_index = []\<rparr>
      in \<lparr>aw_tree = tree, aw_file = None, aw_target = Some link\<rparr>)"

definition epoch_batch_prepare :: "'z sdk_api_scheme \<Rightarrow> hash32 list \<Rightarrow> witness_error + epoch_batch option" where
  "epoch_batch_prepare x leaves =
     (if leaves = [] then Inr None
      else let carriers = map (link_only_carrier x) leaves
           in (case prepare_batch_timestamp x carriers of
                 Inl e \<Rightarrow> Inl (WE_Batch (''prepare_batch_timestamp: '' @ e))
               | Inr prepared \<Rightarrow> Inr (Some \<lparr>eb_prepared = prepared, eb_leaves = leaves,
                                            eb_carriers = carriers\<rparr>)))"

definition batch_anchor_root :: "epoch_batch \<Rightarrow> string" where
  "batch_anchor_root b = pb_merkle_root (eb_prepared b)"

definition root_digest :: "'z sdk_api_scheme \<Rightarrow> epoch_batch \<Rightarrow> witness_error + hash32" where
  "root_digest x b = (case parse_batch_root x (pb_merkle_root (eb_prepared b)) of
     Inl e \<Rightarrow> Inl (WE_Batch (''batch root: '' @ e)) | Inr d \<Rightarrow> Inr d)"

definition from_parts :: "'z sdk_api_scheme \<Rightarrow> prepared_batch \<Rightarrow> hash32 list \<Rightarrow> epoch_batch" where
  "from_parts x prepared leaves =
     \<lparr>eb_prepared = prepared, eb_leaves = leaves, eb_carriers = map (link_only_carrier x) leaves\<rparr>"

section \<open>The pending epoch\<close>

record stored_anchor =
  sa_method :: anchor_method
  sa_value :: timestamp_value
  sa_first_seen :: "u64 option"

record anchor_faults =
  af_method :: anchor_method
  af_count :: u32

record pending_leaf =
  pl_leaf :: string
  pl_submitter_did :: did

record pending_epoch =
  pe_epoch_id :: u64
  pe_opened_at :: u64
  pe_closed_at :: u64
  pe_methods :: "anchor_method list"
  pe_leaves :: "pending_leaf list"
  pe_batch :: prepared_batch
  pe_anchors :: "stored_anchor list"
  pe_anchor_faults :: "anchor_faults list"

definition hex_lower_bytes :: "'z codec_api_scheme \<Rightarrow> hash32 \<Rightarrow> string" where
  "hex_lower_bytes x b = ''0x'' @ hex_encode x b"

definition pending_new ::
  "'z codec_api_scheme \<Rightarrow> sealed_snapshot \<Rightarrow> epoch_batch \<Rightarrow> anchor_method list \<Rightarrow> pending_epoch" where
  "pending_new x snapshot batch methods =
     \<lparr>pe_epoch_id = ss_epoch_id snapshot, pe_opened_at = ss_opened_at snapshot,
      pe_closed_at = ss_closed_at snapshot, pe_methods = methods,
      pe_leaves = map (\<lambda>e. \<lparr>pl_leaf = hex_lower_bytes x (le_leaf e),
                            pl_submitter_did = le_submitter_did e\<rparr>) (ss_leaves snapshot),
      pe_batch = eb_prepared batch, pe_anchors = [], pe_anchor_faults = []\<rparr>"

definition pending_anchor :: "pending_epoch \<Rightarrow> anchor_method \<Rightarrow> timestamp_value option" where
  "pending_anchor p m = map_option sa_value (find (\<lambda>a. sa_method a = m) (pe_anchors p))"

definition drop_anchor :: "anchor_method \<Rightarrow> pending_epoch \<Rightarrow> pending_epoch" where
  "drop_anchor m p = p\<lparr>pe_anchors := filter (\<lambda>a. sa_method a \<noteq> m) (pe_anchors p)\<rparr>"

definition set_anchor :: "anchor_method \<Rightarrow> timestamp_value \<Rightarrow> u64 \<Rightarrow> pending_epoch \<Rightarrow> pending_epoch" where
  "set_anchor m v now p =
     (let q = drop_anchor m p
      in q\<lparr>pe_anchors := pe_anchors q @ [\<lparr>sa_method = m, sa_value = v, sa_first_seen = Some now\<rparr>]\<rparr>)"

text \<open>\<open>iter_mut().find(p)\<close> followed by an update of the element found.\<close>

fun update_first :: "('a \<Rightarrow> bool) \<Rightarrow> ('a \<Rightarrow> 'a) \<Rightarrow> 'a list \<Rightarrow> 'a list" where
  "update_first P f [] = []"
| "update_first P f (a # as) = (if P a then f a # as else a # update_first P f as)"

definition anchor_first_seen ::
  "anchor_method \<Rightarrow> u64 \<Rightarrow> pending_epoch \<Rightarrow> (u64 \<times> bool) option \<times> pending_epoch" where
  "anchor_first_seen m now p =
     (case find (\<lambda>a. sa_method a = m) (pe_anchors p) of
        None \<Rightarrow> (None, p)
      | Some a \<Rightarrow> (case sa_first_seen a of
          Some t \<Rightarrow> (Some (t, False), p)
        | None \<Rightarrow> (Some (now, True),
            p\<lparr>pe_anchors := update_first (\<lambda>a. sa_method a = m)
                              (\<lambda>a. a\<lparr>sa_first_seen := Some now\<rparr>) (pe_anchors p)\<rparr>)))"

definition anchor_fault_count :: "pending_epoch \<Rightarrow> anchor_method \<Rightarrow> u32" where
  "anchor_fault_count p m =
     (case find (\<lambda>f. af_method f = m) (pe_anchor_faults p) of None \<Rightarrow> 0 | Some f \<Rightarrow> af_count f)"

definition count_anchor_fault :: "anchor_method \<Rightarrow> pending_epoch \<Rightarrow> u32 \<times> pending_epoch" where
  "count_anchor_fault m p =
     (case find (\<lambda>f. af_method f = m) (pe_anchor_faults p) of
        Some f \<Rightarrow> (af_count f + 1,
          p\<lparr>pe_anchor_faults := update_first (\<lambda>f. af_method f = m)
                                  (\<lambda>f. f\<lparr>af_count := af_count f + 1\<rparr>) (pe_anchor_faults p)\<rparr>)
      | None \<Rightarrow> (1, p\<lparr>pe_anchor_faults := pe_anchor_faults p @ [\<lparr>af_method = m, af_count = 1\<rparr>]\<rparr>))"

definition pending_anchor_root :: "pending_epoch \<Rightarrow> string" where
  "pending_anchor_root p = pb_merkle_root (pe_batch p)"

definition pending_leaf_hash :: "'z sdk_api_scheme \<Rightarrow> pending_leaf \<Rightarrow> witness_error + hash32" where
  "pending_leaf_hash x l =
     (case hex_decode x (trim_start_matches ''0x'' (pl_leaf l)) of
        Inl e \<Rightarrow> Inl (WE_Batch (''pending leaf hex: '' @ hex_error_display x e))
      | Inr b \<Rightarrow> if length b = 32 then Inr b else Inl (WE_BadHash (length b)))"

definition leaf_hashes :: "'z sdk_api_scheme \<Rightarrow> pending_epoch \<Rightarrow> witness_error + hash32 list" where
  "leaf_hashes x p = collect_results (pending_leaf_hash x) (pe_leaves p)"

definition restore :: "'z sdk_api_scheme \<Rightarrow> pending_epoch \<Rightarrow> witness_error + sealed_snapshot \<times> epoch_batch" where
  "restore x p =
     (case leaf_hashes x p of
        Inl e \<Rightarrow> Inl e
      | Inr leaves \<Rightarrow> Inr
          (\<lparr>ss_epoch_id = pe_epoch_id p, ss_opened_at = pe_opened_at p, ss_closed_at = pe_closed_at p,
            ss_leaves = map (\<lambda>(leaf, l). \<lparr>le_leaf = leaf, le_submitter_did = pl_submitter_did l\<rparr>)
                          (zip leaves (pe_leaves p))\<rparr>,
           from_parts x (pe_batch p) leaves))"

section \<open>Minting\<close>

definition revision_link_to_hash :: "'z sdk_api_scheme \<Rightarrow> revision_link \<Rightarrow> witness_error + hash32" where
  "revision_link_to_hash x link =
     (case multihash_decode x link of
        Inl e \<Rightarrow> Inl (WE_BadHash (length link))
      | Inr (ht, digest) \<Rightarrow>
          if ht \<noteq> Sha3_256 then Inl (WE_BadHash (length link))
          else if length digest = 32 then Inr digest else Inl (WE_BadHash (length link)))"

definition revision_wire_hex :: "'z sdk_api_scheme \<Rightarrow> hash32 \<Rightarrow> string" where
  "revision_wire_hex x digest = link_to_string x (link_from_bytes x digest)"

definition added_timestamp ::
  "'z sdk_api_scheme \<Rightarrow> aqua_tree \<Rightarrow> hash32 \<Rightarrow> witness_error + revision_link \<times> any_revision" where
  "added_timestamp x tree leaf =
     (let leaf_link = link_from_bytes x leaf
      in (case filter (\<lambda>(k, _). k \<noteq> leaf_link) (tr_revisions tree) of
            [] \<Rightarrow> Inl (WE_Object ''batch producer added no revision'')
          | [(link, revision)] \<Rightarrow>
              (case revision of
                 Typed obj \<Rightarrow> if ob_previous obj = Some leaf_link then Inr (link, revision)
                   else Inl (WE_Object ''batch producer's revision is not a timestamp object on the leaf'')
               | _ \<Rightarrow> Inl (WE_Object ''batch producer's revision is not a timestamp object on the leaf''))
          | _ \<Rightarrow> Inl (WE_Object ''batch producer added more than one revision'')))"

definition sign_witness ::
  "'z sdk_api_scheme \<Rightarrow> hash32 \<Rightarrow> did \<Rightarrow> u64 \<Rightarrow> anchor_method \<Rightarrow> revision_link \<Rightarrow> any_revision
   \<Rightarrow> witness_error + minted_witness" where
  "sign_witness x leaf d epoch_id m olink object_revision =
     (case revision_link_to_hash x olink of
        Inl e \<Rightarrow> Inl e
      | Inr object_hash \<Rightarrow> (case sign_revision x olink Scalar Sha3_256 of
        Inl e \<Rightarrow> Inl (WE_Sign e)
      | Inr sig \<Rightarrow> (case signature_link x Sha3_256 sig of
        Inl e \<Rightarrow> Inl (WE_Sign (''calculate_link: '' @ e))
      | Inr sig_link \<Rightarrow> (case revision_link_to_hash x sig_link of
        Inl e \<Rightarrow> Inl e
      | Inr signature_hash \<Rightarrow>
          (let leaf_short = take 8 (drop 2 (hex_lower_bytes x leaf))
           in Inr \<lparr>mw_object_hash = object_hash, mw_signature_hash = signature_hash, mw_leaf = leaf,
                   mw_method = m, mw_epoch_id = epoch_id, mw_submitter_did = d,
                   mw_object_file_name = ''witness_'' @ as_str m @ ''_'' @ leaf_short,
                   mw_signature_file_name = ''witness_sig_'' @ as_str m @ ''_'' @ leaf_short,
                   mw_object_revision = object_revision,
                   mw_signature_revision = Signature sig\<rparr>)))))"

datatype mint_outcome = Minted "minted_witness list" | MintErr witness_error | MintPanic

text \<open>One \<open>finish_batch_timestamp\<close> per method, then the objects it added, one per leaf.\<close>

definition method_objects ::
  "'z sdk_api_scheme \<Rightarrow> epoch_batch \<Rightarrow> anchor_method \<times> method_anchor_outcome
   \<Rightarrow> witness_error + (revision_link \<times> any_revision) list" where
  "method_objects x batch mo =
     (case finish_batch_timestamp x (eb_prepared batch) (eb_carriers batch)
             (facts (snd mo) (fst mo) (batch_anchor_root batch)) Scalar of
        Inl e \<Rightarrow> Inl (WE_Batch (''finish_batch_timestamp: '' @ e))
      | Inr results \<Rightarrow> collect_results (\<lambda>(tree, leaf). added_timestamp x tree leaf)
                         (zip results (eb_leaves batch)))"

text \<open>The signing loop: the work items in order, \<open>None\<close> for an index out of range.\<close>

fun sign_loop ::
  "'z sdk_api_scheme \<Rightarrow> u64 \<Rightarrow> (leaf_entry \<times> anchor_method \<times> (revision_link \<times> any_revision) option) list
   \<Rightarrow> mint_outcome" where
  "sign_loop x epoch_id [] = Minted []"
| "sign_loop x epoch_id ((entry, m, None) # items) = MintPanic"
| "sign_loop x epoch_id ((entry, m, Some (link, revision)) # items) =
     (case sign_witness x (le_leaf entry) (le_submitter_did entry) epoch_id m link revision of
        Inl e \<Rightarrow> MintErr e
      | Inr w \<Rightarrow> (case sign_loop x epoch_id items of Minted ws \<Rightarrow> Minted (w # ws) | r \<Rightarrow> r))"

definition slice_get :: "'a list \<Rightarrow> nat \<Rightarrow> 'a option" where
  "slice_get as i = (if i < length as then Some (as ! i) else None)"

definition sign_items ::
  "leaf_entry list \<Rightarrow> (anchor_method \<times> method_anchor_outcome) list \<Rightarrow> (revision_link \<times> any_revision) list list
   \<Rightarrow> (leaf_entry \<times> anchor_method \<times> (revision_link \<times> any_revision) option) list" where
  "sign_items entries outcomes objects =
     concat (map (\<lambda>(i, entry). map (\<lambda>((m, _), objs). (entry, m, slice_get objs i)) (zip outcomes objects))
               (enumerate 0 entries))"

definition mint_witnesses_for_epoch ::
  "'z sdk_api_scheme \<Rightarrow> sealed_snapshot \<Rightarrow> epoch_batch \<Rightarrow> (anchor_method \<times> method_anchor_outcome) list
   \<Rightarrow> mint_outcome" where
  "mint_witnesses_for_epoch x snapshot batch outcomes =
     (if length (ss_leaves snapshot) \<noteq> length (eb_leaves batch)
         \<or> (\<exists>(entry, leaf)\<in>set (zip (ss_leaves snapshot) (eb_leaves batch)). le_leaf entry \<noteq> leaf)
      then MintErr (WE_Batch ''prepared batch does not hold the snapshot's leaves in order'')
      else (case collect_results (method_objects x batch) outcomes of
              Inl e \<Rightarrow> MintErr e
            | Inr objects \<Rightarrow>
                sign_loop x (ss_epoch_id snapshot) (sign_items (ss_leaves snapshot) outcomes objects)))"

section \<open>Methods and pending records\<close>

lemma method_byte_inject [simp]: "method_byte m = method_byte m' \<longleftrightarrow> m = m'"
  by (cases m; cases m') (simp_all add: METHOD_BYTE_EVM_def METHOD_BYTE_QTSA_def)

lemma from_method_byte_method_byte [simp]: "from_method_byte (method_byte m) = Some m"
  by (cases m) (simp_all add: from_method_byte_def METHOD_BYTE_EVM_def METHOD_BYTE_QTSA_def)

lemma from_byte_eq: "from_byte = from_method_byte"
  by (simp add: fun_eq_iff from_byte_def from_method_byte_def)

lemma method_parse_as_str [simp]: "method_parse (as_str m) = Some m"
  by (cases m) (simp_all add: method_parse_def)

lemma method_parse_SomeD: "method_parse s = Some m \<Longrightarrow> s = as_str m"
  by (auto simp: method_parse_def split: if_splits)

lemma find_filter_ne: "find (\<lambda>a. f a = m') (filter (\<lambda>a. f a \<noteq> m) as) = (if m' = m then None else find (\<lambda>a. f a = m') as)"
  by (induction as) auto

lemma find_append_elem: "find P (as @ [a]) = (case find P as of None \<Rightarrow> if P a then Some a else None | r \<Rightarrow> r)"
  by (induction as) auto

lemma find_update_first:
  "(\<And>a. P (g a) = P a) \<Longrightarrow> find P (update_first P g as) = map_option g (find P as)"
  by (induction as) auto

lemma find_update_first_other:
  "(\<And>a. P a \<Longrightarrow> \<not> Q a) \<Longrightarrow> (\<And>a. Q (g a) = Q a) \<Longrightarrow> find Q (update_first P g as) = find Q as"
  by (induction as) auto

lemma pending_anchor_drop [simp]:
  "pending_anchor (drop_anchor m p) m' = (if m' = m then None else pending_anchor p m')"
  by (simp add: pending_anchor_def drop_anchor_def find_filter_ne)

lemma pending_anchor_set [simp]:
  "pending_anchor (set_anchor m v now p) m' = (if m' = m then Some v else pending_anchor p m')"
  by (auto simp: pending_anchor_def set_anchor_def drop_anchor_def Let_def find_append_elem find_filter_ne
      split: option.splits)

lemma count_anchor_fault_count:
  assumes "count_anchor_fault m p = (n, q)"
  shows "n = anchor_fault_count p m + 1"
    "anchor_fault_count q m' = (if m' = m then n else anchor_fault_count p m')"
proof -
  show "n = anchor_fault_count p m + 1"
    using assms by (auto simp: count_anchor_fault_def anchor_fault_count_def split: option.splits)
  show "anchor_fault_count q m' = (if m' = m then n else anchor_fault_count p m')"
  proof (cases "find (\<lambda>f. af_method f = m) (pe_anchor_faults p)")
    case None
    then show ?thesis
      using assms by (auto simp: count_anchor_fault_def anchor_fault_count_def find_append_elem split: option.splits)
  next
    case (Some f)
    then show ?thesis
      using assms find_update_first_other [of "\<lambda>f. af_method f = m" "\<lambda>f. af_method f = m'"
          "\<lambda>f. f\<lparr>af_count := af_count f + 1\<rparr>" "pe_anchor_faults p"]
      by (auto simp: count_anchor_fault_def anchor_fault_count_def find_update_first split: option.splits)
  qed
qed

text \<open>What the record operations leave alone.\<close>

lemma drop_anchor_frame [simp]:
  "pe_epoch_id (drop_anchor m p) = pe_epoch_id p" "pe_opened_at (drop_anchor m p) = pe_opened_at p"
  "pe_closed_at (drop_anchor m p) = pe_closed_at p" "pe_methods (drop_anchor m p) = pe_methods p"
  "pe_leaves (drop_anchor m p) = pe_leaves p" "pe_batch (drop_anchor m p) = pe_batch p"
  "pe_anchor_faults (drop_anchor m p) = pe_anchor_faults p"
  by (simp_all add: drop_anchor_def)

lemma set_anchor_frame [simp]:
  "pe_epoch_id (set_anchor m v now p) = pe_epoch_id p" "pe_opened_at (set_anchor m v now p) = pe_opened_at p"
  "pe_closed_at (set_anchor m v now p) = pe_closed_at p" "pe_methods (set_anchor m v now p) = pe_methods p"
  "pe_leaves (set_anchor m v now p) = pe_leaves p" "pe_batch (set_anchor m v now p) = pe_batch p"
  "pe_anchor_faults (set_anchor m v now p) = pe_anchor_faults p"
  by (simp_all add: set_anchor_def Let_def)

lemma anchor_first_seen_frame:
  assumes "anchor_first_seen m now p = (r, q)"
  shows "pe_epoch_id q = pe_epoch_id p" "pe_methods q = pe_methods p" "pe_leaves q = pe_leaves p"
    "pe_batch q = pe_batch p" "pe_anchor_faults q = pe_anchor_faults p" "pe_opened_at q = pe_opened_at p"
    "pe_closed_at q = pe_closed_at p"
  using assms by (auto simp: anchor_first_seen_def split: option.splits)

lemma count_anchor_fault_frame:
  assumes "count_anchor_fault m p = (n, q)"
  shows "pe_epoch_id q = pe_epoch_id p" "pe_methods q = pe_methods p" "pe_leaves q = pe_leaves p"
    "pe_batch q = pe_batch p" "pe_anchors q = pe_anchors p" "pe_opened_at q = pe_opened_at p"
    "pe_closed_at q = pe_closed_at p"
  using assms by (auto simp: count_anchor_fault_def split: option.splits)

lemma leaf_hashes_frame: "pe_leaves p = pe_leaves q \<Longrightarrow> leaf_hashes x p = leaf_hashes x q"
  by (simp add: leaf_hashes_def)

section \<open>Minted witnesses\<close>

lemma sign_witness_fields:
  assumes "sign_witness x leaf d e m olink orev = Inr w"
  shows "mw_leaf w = leaf" "mw_submitter_did w = d" "mw_epoch_id w = e" "mw_method w = m"
    "mw_object_revision w = orev" "revision_link_to_hash x olink = Inr (mw_object_hash w)"
    "\<exists>sig slink. mw_signature_revision w = Signature sig \<and> sign_revision x olink Scalar Sha3_256 = Inr sig
       \<and> signature_link x Sha3_256 sig = Inr slink \<and> revision_link_to_hash x slink = Inr (mw_signature_hash w)"
  using assms by (auto simp: sign_witness_def Let_def split: sum.splits)

lemma revision_link_to_hash_length: "revision_link_to_hash x link = Inr h \<Longrightarrow> hash32_ok h"
  by (auto simp: revision_link_to_hash_def split: sum.splits if_splits)

lemma added_timestamp_typed:
  "added_timestamp x tree leaf = Inr (link, rv) \<Longrightarrow>
     \<exists>obj. rv = Typed obj \<and> ob_previous obj = Some (link_from_bytes x leaf)"
  by (auto simp: added_timestamp_def Let_def split: list.splits any_revision.splits if_splits)

lemma sign_loop_Minted:
  assumes "sign_loop x e items = Minted ws"
  shows "list_all2 (\<lambda>(entry, m, obj) w. \<exists>link rv. obj = Some (link, rv) \<and>
           sign_witness x (le_leaf entry) (le_submitter_did entry) e m link rv = Inr w) items ws"
  using assms
  by (induction x e items arbitrary: ws rule: sign_loop.induct)
    (auto split: sum.splits mint_outcome.splits)

lemma sign_items_keys:
  assumes "length objects = length outcomes"
  shows "map (\<lambda>(entry, m, obj). (entry, m)) (sign_items entries outcomes objects) =
    concat (map (\<lambda>entry. map (\<lambda>(m, _). (entry, m)) outcomes) entries)"
proof -
  have row: "map ((\<lambda>(entry, m, obj). (entry, m)) \<circ> (\<lambda>((m, _), objs). (entry, m, slice_get objs i))) (zip outcomes objects)
      = map (\<lambda>(m, _). (entry, m)) outcomes" for entry i
    using assms by (induction outcomes objects rule: list_induct2') auto
  have "map (\<lambda>(entry, m, obj). (entry, m)) (concat (map (\<lambda>(i, entry).
        map (\<lambda>((m, _), objs). (entry, m, slice_get objs i)) (zip outcomes objects)) (enumerate n entries))) =
      concat (map (\<lambda>entry. map (\<lambda>(m, _). (entry, m)) outcomes) entries)" for n
    by (induction entries arbitrary: n) (simp_all add: row)
  then show ?thesis
    by (simp only: sign_items_def)
qed

lemma mint_cases:
  assumes "mint_witnesses_for_epoch x snapshot batch outcomes = Minted ws"
  obtains objects where "map le_leaf (ss_leaves snapshot) = eb_leaves batch"
    "collect_results (method_objects x batch) outcomes = Inr objects"
    "sign_loop x (ss_epoch_id snapshot) (sign_items (ss_leaves snapshot) outcomes objects) = Minted ws"
proof -
  let ?bad = "length (ss_leaves snapshot) \<noteq> length (eb_leaves batch)
    \<or> (\<exists>(entry, leaf)\<in>set (zip (ss_leaves snapshot) (eb_leaves batch)). le_leaf entry \<noteq> leaf)"
  have guard: "\<not> ?bad"
    using assms unfolding mint_witnesses_for_epoch_def by (metis mint_outcome.distinct(1))
  then have "map le_leaf (ss_leaves snapshot) = eb_leaves batch"
    by (intro nth_equalityI [of "map le_leaf (ss_leaves snapshot)"]) (auto simp: set_zip)
  moreover obtain objects where "collect_results (method_objects x batch) outcomes = Inr objects"
    "sign_loop x (ss_epoch_id snapshot) (sign_items (ss_leaves snapshot) outcomes objects) = Minted ws"
    using assms unfolding mint_witnesses_for_epoch_def if_not_P [OF guard] by (auto split: sum.splits)
  ultimately show ?thesis
    by (rule that)
qed

section \<open>The SDK contract and a reference instance\<close>

text \<open>
  What the minter and the routes rely on of the SDK: links are SHA3-256 multihashes, printed as
  \<open>0x1620\<close> and the digest, and the batch producer answers one tree per carrier.
\<close>

locale aqua_sdk = hex_codec x for x :: "'z sdk_api_scheme" +
  assumes link_decode: "hash32_ok h \<Longrightarrow> multihash_decode x (link_from_bytes x h) = Inr (Sha3_256, h)"
    and link_string: "hash32_ok h \<Longrightarrow>
      link_to_string x (link_from_bytes x h) = ''0x'' @ SHA3_256_MULTIHASH_PREFIX @ hex_encode x h"
    and finish_length: "finish_batch_timestamp x b cs v k = Inr rs \<Longrightarrow> length rs = length cs"
begin

lemma link_from_bytes_inject:
  "hash32_ok a \<Longrightarrow> hash32_ok b \<Longrightarrow> link_from_bytes x a = link_from_bytes x b \<longleftrightarrow> a = b"
  using link_decode by (metis Inr_inject prod.inject)

lemma wire_hex_parses: "hash32_ok h \<Longrightarrow> parse_leaf_hex x (revision_wire_hex x h) = Inr h"
  unfolding revision_wire_hex_def by (simp add: link_string parse_multihash [simplified])

lemma link_to_hash: "hash32_ok h \<Longrightarrow> revision_link_to_hash x (link_from_bytes x h) = Inr h"
  by (simp add: revision_link_to_hash_def link_decode)

lemma sign_loop_no_panic:
  "\<forall>(entry, m, obj)\<in>set items. obj \<noteq> None \<Longrightarrow> sign_loop x e items \<noteq> MintPanic"
  by (induction x e items rule: sign_loop.induct) (auto split: sum.splits mint_outcome.splits)

lemma method_objects_length:
  assumes "method_objects x b mo = Inr objs" "length (eb_carriers b) = length (eb_leaves b)"
  shows "length objs = length (eb_leaves b)"
proof -
  obtain rs where "finish_batch_timestamp x (eb_prepared b) (eb_carriers b)
      (facts (snd mo) (fst mo) (batch_anchor_root b)) Scalar = Inr rs"
    "collect_results (\<lambda>(tree, leaf). added_timestamp x tree leaf) (zip rs (eb_leaves b)) = Inr objs"
    using assms(1) by (auto simp: method_objects_def split: sum.splits)
  then show ?thesis
    using assms(2) finish_length collect_results_InrD by fastforce
qed

lemma mint_no_panic:
  assumes "length (eb_carriers b) = length (eb_leaves b)"
  shows "mint_witnesses_for_epoch x snap b outcomes \<noteq> MintPanic"
proof (cases "collect_results (method_objects x b) outcomes")
  case (Inl e)
  then show ?thesis by (simp add: mint_witnesses_for_epoch_def)
next
  case (Inr objects)
  have objs: "length o' = length (eb_leaves b)" if "o' \<in> set objects" for o'
  proof -
    from that obtain i where "i < length objects" "o' = objects ! i"
      by (auto simp: in_set_conv_nth)
    then show ?thesis
      using collect_results_InrD [OF Inr] assms by (metis method_objects_length)
  qed
  have "sign_loop x (ss_epoch_id snap) (sign_items (ss_leaves snap) outcomes objects) \<noteq> MintPanic"
    if "length (ss_leaves snap) = length (eb_leaves b)"
    using that objs by (intro sign_loop_no_panic)
      (auto simp: sign_items_def slice_get_def in_set_enumerate_eq dest!: set_zip_rightD)
  with Inr show ?thesis
    by (simp add: mint_witnesses_for_epoch_def)
qed

lemma leaf_hash_new: "hash32_ok h \<Longrightarrow> pending_leaf_hash x \<lparr>pl_leaf = hex_lower_bytes x h, pl_submitter_did = d\<rparr> = Inr h"
  using trim_start_matches_append [of "''0x''" "hex_encode x h"]
  by (simp add: pending_leaf_hash_def hex_lower_bytes_def decode_encode)

lemma leaf_hashes_new:
  assumes "\<forall>e\<in>set (ss_leaves snap). hash32_ok (le_leaf e)"
  shows "leaf_hashes x (pending_new x snap b ms) = Inr (map le_leaf (ss_leaves snap))"
  unfolding leaf_hashes_def pending_new_def
  using assms by (simp add: collect_results_map collect_results_all leaf_hash_new)

lemma restore_new:
  assumes "\<forall>e\<in>set (ss_leaves snap). hash32_ok (le_leaf e)"
    and "epoch_batch_prepare x (map le_leaf (ss_leaves snap)) = Inr (Some b)"
  shows "restore x (pending_new x snap b ms) = Inr (snap, b)"
proof -
  have b: "b = from_parts x (eb_prepared b) (map le_leaf (ss_leaves snap))"
    using assms(2) by (auto simp: epoch_batch_prepare_def from_parts_def Let_def split: if_splits sum.splits)
  have leaves: "map (\<lambda>(leaf, l). \<lparr>le_leaf = leaf, le_submitter_did = pl_submitter_did l\<rparr>)
      (zip (map le_leaf es) (map (\<lambda>e. \<lparr>pl_leaf = hex_lower_bytes x (le_leaf e), pl_submitter_did = le_submitter_did e\<rparr>) es)) = es"
    for es :: "leaf_entry list"
    by (induction es) auto
  show ?thesis
    using leaf_hashes_new [OF assms(1), of b ms] b leaves
    by (simp add: restore_def) (simp add: pending_new_def)
qed

end

text \<open>
  A reference instance of the SDK: base-16 text, padding in place of the hash, one timestamp object
  per carrier with the anchor's fields, and signatures that name the signer.
\<close>

definition pad32 :: "bytes \<Rightarrow> hash32" where
  "pad32 b = take 32 (b @ replicate 32 0)"

definition ref_payloads :: "timestamp_value \<Rightarrow> nat \<Rightarrow> nat \<Rightarrow> json" where
  "ref_payloads v n i = JObj
     [(''network'', JStr (tv_network v)), (''transaction_hash'', JStr (tv_transaction_hash v)),
      (''merkle_root'', JStr (tv_merkle_root v)),
      (''smart_contract_address'', JStr (tv_smart_contract_address v)),
      (''sender_account_address'', JStr (tv_sender_account_address v)),
      (''tsa_provider'', JStr (tv_tsa_provider v)), (''timestamp'', JU64 (tv_timestamp v)),
      (''batch_tree_size'', JU64 (of_nat n)), (''batch_leaf_index'', JU64 (of_nat i)),
      (''merkle_proof'', JArr []), (''shielding_nonce'', JStr ''00'')]"

definition ref_object_link :: "typed_object \<Rightarrow> revision_link" where
  "ref_object_link ob =
     [22, 32] @ pad32 (170 # (case ob_previous ob of None \<Rightarrow> [] | Some l \<Rightarrow> drop 2 l))"

definition ref_finish_one :: "timestamp_value \<Rightarrow> nat \<Rightarrow> nat \<times> aqua_tree_wrapper \<Rightarrow> aqua_tree" where
  "ref_finish_one v n ic =
     (let ob = \<lparr>ob_previous = aw_target (snd ic), ob_type = [], ob_method = Scalar,
                ob_payloads = ref_payloads v n (fst ic), ob_rest = []\<rparr>
      in (aw_tree (snd ic))\<lparr>tr_revisions := tr_revisions (aw_tree (snd ic)) @ [(ref_object_link ob, Typed ob)]\<rparr>)"

definition ref_sdk :: "did \<Rightarrow> sdk_api" where
  "ref_sdk signer =
     \<lparr>hex_encode = base16_encode, hex_decode = base16_decode, sha3_256 = pad32,
      hex_error_display = (\<lambda>_. ''invalid hex''),
      link_from_bytes = (\<lambda>b. [22, 32] @ b),
      link_to_string = (\<lambda>l. ''0x'' @ base16_encode l),
      multihash_decode = (\<lambda>l. if length l = 34 \<and> take 2 l = [22, 32] then Inr (Sha3_256, drop 2 l)
                              else Inl ''not a multihash''),
      tsa_template_link = replicate 32 3,
      object_new = (\<lambda>p t k j. \<lparr>ob_previous = Some p, ob_type = t, ob_method = k, ob_payloads = j, ob_rest = []\<rparr>),
      prepare_batch_timestamp = (\<lambda>cs. Inr \<lparr>pb_merkle_root = ''0x1620'' @ base16_encode (replicate 32 7), pb_rest = []\<rparr>),
      finish_batch_timestamp = (\<lambda>b cs v k. Inr (map (ref_finish_one v (length cs)) (enumerate 0 cs))),
      parse_batch_root = (\<lambda>s. case base16_decode (drop 6 s) of Inl _ \<Rightarrow> Inl ''bad root'' | Inr d \<Rightarrow> Inr d),
      sign_revision = (\<lambda>l k h. Inr \<lparr>sg_previous = l, sg_signer = signer, sg_rest = []\<rparr>),
      object_link = (\<lambda>h ob. Inr (ref_object_link ob)),
      signature_link = (\<lambda>h sg. Inr ([22, 32] @ pad32 (187 # drop 2 (sg_previous sg))))\<rparr>"

lemma ref_sdk_simps [simp]:
  "hex_encode (ref_sdk d) = base16_encode" "hex_decode (ref_sdk d) = base16_decode"
  "sha3_256 (ref_sdk d) = pad32"
  by (simp_all add: ref_sdk_def)

lemma base16_encode_append: "base16_encode (a @ b) = base16_encode a @ base16_encode b"
  by (simp add: base16_encode_def)

interpretation ref: aqua_sdk "ref_sdk d" for d
proof unfold_locales
  have bc: "hex_encode (base16_codec pad32) = base16_encode" "hex_decode (base16_codec pad32) = base16_decode"
    by (simp_all add: base16_codec_def)
  fix b :: bytes and s c
  show "hex_decode (ref_sdk d) (hex_encode (ref_sdk d) b) = Inr b"
    using base16.decode_encode [of pad32 b] bc by simp
  show "hex_decode (ref_sdk d) s = Inr b \<Longrightarrow> hex_encode (ref_sdk d) b = map to_ascii_lower s"
    using base16.encode_decode [of pad32 s b] bc by simp
  show "length (hex_encode (ref_sdk d) b) = 2 * length b"
    using base16.encode_length [of pad32 b] bc by simp
  show "c \<in> set (hex_encode (ref_sdk d) b) \<Longrightarrow> hex_digit c"
    using base16.encode_digits [of c pad32 b] bc by simp
  show "even (length s) \<Longrightarrow> \<forall>c\<in>set s. hex_digit c \<Longrightarrow> \<exists>b. hex_decode (ref_sdk d) s = Inr b"
    using base16.decode_total [of s pad32] bc by simp
  show "length b = 32 \<Longrightarrow> link_to_string (ref_sdk d) (link_from_bytes (ref_sdk d) b) =
      ''0x'' @ SHA3_256_MULTIHASH_PREFIX @ hex_encode (ref_sdk d) b"
  proof -
    have "base16_encode [22, 32] = SHA3_256_MULTIHASH_PREFIX"
      by code_simp
    then have "base16_encode (22 # 32 # b) = SHA3_256_MULTIHASH_PREFIX @ base16_encode b"
      using base16_encode_append [of "[22, 32]" b] by simp
    then show ?thesis
      by (simp add: ref_sdk_def)
  qed
qed (auto simp: ref_sdk_def)

text \<open>What a mint produces: the keys of the witnesses in order, and their hashes are of 32 bytes.\<close>

lemma mint_keys:
  assumes "mint_witnesses_for_epoch x snapshot batch outcomes = Minted ws"
  shows "map (\<lambda>w. (mw_leaf w, mw_submitter_did w, mw_epoch_id w, mw_method w)) ws =
      concat (map (\<lambda>e. map (\<lambda>(m, _). (le_leaf e, le_submitter_did e, ss_epoch_id snapshot, m)) outcomes)
                (ss_leaves snapshot))"
proof -
  obtain objects where objects: "collect_results (method_objects x batch) outcomes = Inr objects"
    and loop: "sign_loop x (ss_epoch_id snapshot) (sign_items (ss_leaves snapshot) outcomes objects) = Minted ws"
    using assms by (rule mint_cases)
  let ?items = "sign_items (ss_leaves snapshot) outcomes objects"
  note all2 = sign_loop_Minted [OF loop]
  have len: "length objects = length outcomes"
    using collect_results_InrD [OF objects] by simp
  have "map (\<lambda>w. (mw_leaf w, mw_submitter_did w, mw_epoch_id w, mw_method w)) ws =
      map (\<lambda>(entry, m). (le_leaf entry, le_submitter_did entry, ss_epoch_id snapshot, m))
        (map (\<lambda>(entry, m, obj). (entry, m)) ?items)"
    using all2 by (induction rule: list_all2_induct) (auto dest: sign_witness_fields)
  also have "\<dots> = concat (map (\<lambda>e. map (\<lambda>(m, _). (le_leaf e, le_submitter_did e, ss_epoch_id snapshot, m)) outcomes)
                (ss_leaves snapshot))"
    unfolding sign_items_keys [OF len] by (simp add: map_concat comp_def case_prod_unfold)
  finally show ?thesis .
qed

lemma mint_hashes_ok:
  assumes "mint_witnesses_for_epoch x snapshot batch outcomes = Minted ws" "w \<in> set ws"
  shows "hash32_ok (mw_object_hash w) \<and> hash32_ok (mw_signature_hash w)"
proof -
  obtain objects where loop: "sign_loop x (ss_epoch_id snapshot) (sign_items (ss_leaves snapshot) outcomes objects) = Minted ws"
    using assms(1) by (rule mint_cases)
  from sign_loop_Minted [OF loop] assms(2) show ?thesis
    by (induction rule: list_all2_induct) (auto dest: sign_witness_fields(6,7) revision_link_to_hash_length)
qed

section \<open>Properties\<close>

lemma sign_items_object:
  assumes "(entry, m, Some (link, rv)) \<in> set (sign_items entries outcomes objects)"
  obtains i objs where "i < length entries" "entries ! i = entry" "objs \<in> set objects"
    "i < length objs" "objs ! i = (link, rv)"
  using assms
  by (auto simp: sign_items_def slice_get_def in_set_enumerate_eq split: if_splits dest!: set_zip_rightD)

lemma method_objects_typed:
  assumes "method_objects x b mo = Inr objs" "i < length objs" "objs ! i = (link, rv)"
  shows "\<exists>obj. rv = Typed obj \<and> ob_previous obj = Some (link_from_bytes x (eb_leaves b ! i))"
proof -
  obtain rs where "collect_results (\<lambda>(tree, leaf). added_timestamp x tree leaf) (zip rs (eb_leaves b)) = Inr objs"
    using assms(1) by (auto simp: method_objects_def split: sum.splits)
  from collect_results_InrD [OF this] assms(2,3)
  have "added_timestamp x (rs ! i) (eb_leaves b ! i) = Inr (link, rv)"
    by auto
  then show ?thesis by (rule added_timestamp_typed)
qed

text \<open>
  C24: Minting is complete and ordered: on success there is exactly one witness for every leaf of the
  snapshot and every method, leaves in batch order and methods in the given order, each carrying
  its leaf, its submitter and the epoch; and each witness's object revision is a typed timestamp
  object whose previous revision is the link of that leaf.
\<close>

theorem mint_witnesses_complete:
  assumes "mint_witnesses_for_epoch x snapshot batch outcomes = Minted ws"
  shows "map (\<lambda>w. (mw_leaf w, mw_submitter_did w, mw_epoch_id w, mw_method w)) ws =
      concat (map (\<lambda>e. map (\<lambda>(m, _). (le_leaf e, le_submitter_did e, ss_epoch_id snapshot, m)) outcomes)
                (ss_leaves snapshot))
    \<and> (\<forall>w\<in>set ws. \<exists>obj. mw_object_revision w = Typed obj
          \<and> ob_previous obj = Some (link_from_bytes x (mw_leaf w)))"
proof -
  obtain objects where leaves: "map le_leaf (ss_leaves snapshot) = eb_leaves batch"
    and objects: "collect_results (method_objects x batch) outcomes = Inr objects"
    and loop: "sign_loop x (ss_epoch_id snapshot) (sign_items (ss_leaves snapshot) outcomes objects) = Minted ws"
    using assms by (rule mint_cases)
  let ?items = "sign_items (ss_leaves snapshot) outcomes objects"
  note all2 = sign_loop_Minted [OF loop]
  have len: "length objects = length outcomes"
    using collect_results_InrD [OF objects] by simp
  note keys = mint_keys [OF assms]
  have "\<exists>obj. mw_object_revision w = Typed obj \<and> ob_previous obj = Some (link_from_bytes x (mw_leaf w))"
    if "w \<in> set ws" for w
  proof -
    from that obtain k where k: "k < length ws" "ws ! k = w"
      by (auto simp: in_set_conv_nth)
    obtain entry m obj where ik: "?items ! k = (entry, m, obj)"
      by (cases "?items ! k") auto
    from list_all2_nthD2 [OF all2 k(1)] obtain link rv where obj: "obj = Some (link, rv)"
      and sign: "sign_witness x (le_leaf entry) (le_submitter_did entry) (ss_epoch_id snapshot) m link rv = Inr w"
      unfolding ik k(2) by auto
    have item: "(entry, m, Some (link, rv)) \<in> set ?items"
      using ik obj k(1) list_all2_lengthD [OF all2] by (metis nth_mem)
    from item obtain i objs where i: "i < length (ss_leaves snapshot)" "ss_leaves snapshot ! i = entry"
      and objs: "objs \<in> set objects" "i < length objs" "objs ! i = (link, rv)"
      by (rule sign_items_object)
    from objs(1) len obtain mo where "method_objects x batch mo = Inr objs"
      using collect_results_InrD [OF objects] by (metis in_set_conv_nth)
    from method_objects_typed [OF this objs(2,3)] i leaves sign_witness_fields [OF sign] show ?thesis
      by (metis nth_map)
  qed
  with keys show ?thesis by blast
qed

text \<open>A concrete epoch of two leaves, used to instantiate the properties of this and later theories.\<close>

definition demo_leaf :: "nat \<Rightarrow> hash32" where
  "demo_leaf n = replicate 32 (word_of_nat n)"

definition demo_snapshot :: sealed_snapshot where
  "demo_snapshot = \<lparr>ss_epoch_id = 7, ss_opened_at = 100, ss_closed_at = 160,
     ss_leaves = [\<lparr>le_leaf = demo_leaf 1, le_submitter_did = ''did:a''\<rparr>,
                  \<lparr>le_leaf = demo_leaf 2, le_submitter_did = ''did:b''\<rparr>]\<rparr>"

definition demo_batch :: epoch_batch where
  "demo_batch = from_parts (ref_sdk ''did:svc'')
     \<lparr>pb_merkle_root = ''0x1620'' @ base16_encode (replicate 32 7), pb_rest = []\<rparr> [demo_leaf 1, demo_leaf 2]"

definition demo_value :: timestamp_value where
  "demo_value = \<lparr>tv_merkle_proof = [], tv_sender_account_address = ''0xabc'', tv_tsa_provider = [],
     tv_transaction_hash = ''0xfeed'', tv_smart_contract_address = ''0xc0'', tv_network = ''sepolia'',
     tv_merkle_root = [], tv_timestamp = 160, tv_batch_tree_size = 0, tv_batch_leaf_index = 0,
     tv_shielding_nonce = []\<rparr>"

lemma demo_prepare:
  "epoch_batch_prepare (ref_sdk ''did:svc'') (map le_leaf (ss_leaves demo_snapshot)) = Inr (Some demo_batch)"
  by (simp add: epoch_batch_prepare_def demo_batch_def demo_snapshot_def from_parts_def Let_def)
    (simp add: ref_sdk_def)

lemma demo_leaves_ok: "\<forall>e\<in>set (ss_leaves demo_snapshot). hash32_ok (le_leaf e)"
  by (simp add: demo_snapshot_def demo_leaf_def)

lemma demo_mint:
  "\<exists>ws. mint_witnesses_for_epoch (ref_sdk ''did:svc'') demo_snapshot demo_batch [(Evm, from_value Evm demo_value)] = Minted ws"
proof -
  have "case mint_witnesses_for_epoch (ref_sdk ''did:svc'') demo_snapshot demo_batch [(Evm, from_value Evm demo_value)] of
      Minted _ \<Rightarrow> True | _ \<Rightarrow> False"
    by code_simp
  then show ?thesis
    by (auto split: mint_outcome.splits)
qed

theorem mint_witnesses_complete_witness:
  "\<exists>ws. mint_witnesses_for_epoch (ref_sdk ''did:svc'') demo_snapshot demo_batch
          [(Evm, from_value Evm demo_value)] = Minted ws
    \<and> map (\<lambda>w. (mw_leaf w, mw_submitter_did w, mw_epoch_id w, mw_method w)) ws =
        [(demo_leaf 1, ''did:a'', 7, Evm), (demo_leaf 2, ''did:b'', 7, Evm)]"
proof -
  from demo_mint obtain ws where ws: "mint_witnesses_for_epoch (ref_sdk ''did:svc'') demo_snapshot demo_batch
      [(Evm, from_value Evm demo_value)] = Minted ws" ..
  from mint_witnesses_complete [OF this] ws show ?thesis
    by (simp add: demo_snapshot_def)
qed

text \<open>
  C25: A pending record written at seal time restores to exactly the snapshot and the batch it was
  made from, so a later tick, also after a restart, anchors the same root and mints for the same
  leaves and submitters.
\<close>

theorem pending_restore_round_trip:
  assumes "aqua_sdk x" and "\<forall>e\<in>set (ss_leaves snapshot). hash32_ok (le_leaf e)"
    and "epoch_batch_prepare x (map le_leaf (ss_leaves snapshot)) = Inr (Some batch)"
  shows "restore x (pending_new x snapshot batch methods) = Inr (snapshot, batch)"
  using aqua_sdk.restore_new [OF assms] .

theorem pending_restore_round_trip_witness:
  "restore (ref_sdk ''did:svc'') (pending_new (ref_sdk ''did:svc'') demo_snapshot demo_batch [Evm, Qtsa])
     = Inr (demo_snapshot, demo_batch)"
  using pending_restore_round_trip [OF ref.aqua_sdk_axioms demo_leaves_ok demo_prepare] .

text \<open>
  The wire form of a stored digest (the tip in tree responses) parses back to that digest
  through \<open>parse_leaf_hex\<close>, so a tip copied from a response addresses the same witness.
\<close>

theorem revision_wire_hex_round_trip:
  assumes "aqua_sdk x" and "hash32_ok digest"
  shows "parse_leaf_hex x (revision_wire_hex x digest) = Inr digest"
  using aqua_sdk.wire_hex_parses [OF assms] .

theorem revision_wire_hex_round_trip_witness:
  "parse_leaf_hex (ref_sdk ''did:svc'') (revision_wire_hex (ref_sdk ''did:svc'') (demo_leaf 9)) = Inr (demo_leaf 9)"
  by (rule revision_wire_hex_round_trip [OF ref.aqua_sdk_axioms]) (simp add: demo_leaf_def)

text \<open>
  The minter never panics on a prepared or restored batch: the slice index into the objects of
  a method is always in range, because the producer answers one tree per carrier.
\<close>

theorem mint_never_panics:
  assumes "aqua_sdk x" and "restore x p = Inr (snapshot, batch)"
  shows "mint_witnesses_for_epoch x snapshot batch outcomes \<noteq> MintPanic"
proof -
  have "length (eb_carriers batch) = length (eb_leaves batch)"
    using assms(2) by (auto simp: restore_def from_parts_def split: sum.splits)
  then show ?thesis
    by (rule aqua_sdk.mint_no_panic [OF assms(1)])
qed

theorem mint_never_panics_witness:
  "mint_witnesses_for_epoch (ref_sdk ''did:svc'') demo_snapshot demo_batch [(Qtsa, from_value Qtsa demo_value)] \<noteq> MintPanic"
  by (rule mint_never_panics [OF ref.aqua_sdk_axioms
      aqua_sdk.restore_new [OF ref.aqua_sdk_axioms demo_leaves_ok demo_prepare]])

end
