(* ===== verification/Partition.thy ===== *)
theory Partition
  imports Prelude
begin

text \<open>
  A fjall partition: an ordered map from byte-string keys to values, iterated in the
  lexicographic order of the keys.  fjall itself is not part of the sources; the locale
  \<open>ordered_partition\<close> states what the store relies on (reads after writes, order of iteration), and
  the association list sorted by key below is the representation the store model computes with.
\<close>

type_synonym 'v partition = "(bytes \<times> 'v) list"

section \<open>The contract\<close>

locale ordered_partition =
  fixes get :: "'p \<Rightarrow> bytes \<Rightarrow> 'v option"
    and insert :: "bytes \<Rightarrow> 'v \<Rightarrow> 'p \<Rightarrow> 'p"
    and remove :: "bytes \<Rightarrow> 'p \<Rightarrow> 'p"
    and entries :: "'p \<Rightarrow> (bytes \<times> 'v) list"
    and wf :: "'p \<Rightarrow> bool"
  assumes wf_insert: "wf p \<Longrightarrow> wf (insert k v p)"
    and wf_remove: "wf p \<Longrightarrow> wf (remove k p)"
    and get_insert: "wf p \<Longrightarrow> get (insert k v p) k' = (if k' = k then Some v else get p k')"
    and get_remove: "wf p \<Longrightarrow> get (remove k p) k' = (if k' = k then None else get p k')"
    and entries_sorted: "wf p \<Longrightarrow> sorted_wrt (<) (map fst (entries p))"
    and entries_get: "wf p \<Longrightarrow> (k, v) \<in> set (entries p) \<longleftrightarrow> get p k = Some v"
begin

lemma entries_distinct: "wf p \<Longrightarrow> distinct (map fst (entries p))"
  using entries_sorted strict_sorted_iff by blast

lemma entries_insert_set:
  "wf p \<Longrightarrow> set (entries (insert k v p)) = {e. e = (k, v) \<or> fst e \<noteq> k \<and> e \<in> set (entries p)}"
  by (auto simp: entries_get wf_insert get_insert split: if_splits)

lemma entries_remove_set:
  "wf p \<Longrightarrow> set (entries (remove k p)) = {e. fst e \<noteq> k \<and> e \<in> set (entries p)}"
  by (auto simp: entries_get wf_remove get_remove split: if_splits)

lemma last_entry_max:
  assumes "wf p" "entries p \<noteq> []" "get p k = Some v"
  shows "k \<le> fst (last (entries p))"
proof -
  have "k \<in> set (map fst (entries p))"
    using assms(1,3) entries_get by force
  then obtain i where i: "i < length (entries p)" "k = map fst (entries p) ! i"
    by (auto simp: in_set_conv_nth)
  have s: "sorted (map fst (entries p))"
    using entries_sorted [OF assms(1)] strict_sorted_imp_sorted by blast
  have "map fst (entries p) ! i \<le> map fst (entries p) ! (length (entries p) - 1)"
    using s i(1) by (intro sorted_nth_mono) auto
  then show ?thesis
    using i assms(2) by (simp add: last_conv_nth)
qed

lemma last_entry_get:
  "wf p \<Longrightarrow> entries p \<noteq> [] \<Longrightarrow> get p (fst (last (entries p))) = Some (snd (last (entries p)))"
  using entries_get [of p "fst (last (entries p))" "snd (last (entries p))"] by simp

end

section \<open>Key-sorted association lists\<close>

abbreviation part_get :: "'v partition \<Rightarrow> bytes \<Rightarrow> 'v option" where
  "part_get \<equiv> map_of"

fun part_insert :: "bytes \<Rightarrow> 'v \<Rightarrow> 'v partition \<Rightarrow> 'v partition" where
  "part_insert k v [] = [(k, v)]"
| "part_insert k v ((k', v') # p) =
     (if k < k' then (k, v) # (k', v') # p
      else if k = k' then (k, v) # p
      else (k', v') # part_insert k v p)"

definition part_remove :: "bytes \<Rightarrow> 'v partition \<Rightarrow> 'v partition" where
  "part_remove k p = filter (\<lambda>(k', v). k' \<noteq> k) p"

text \<open>\<open>range(..=upper)\<close>, \<open>prefix(p)\<close> and \<open>last_key_value()\<close>.\<close>

definition part_range_to :: "bytes \<Rightarrow> 'v partition \<Rightarrow> 'v partition" where
  "part_range_to upper p = filter (\<lambda>(k, v). k \<le> upper) p"

definition part_prefix :: "bytes \<Rightarrow> 'v partition \<Rightarrow> 'v partition" where
  "part_prefix pre p = filter (\<lambda>(k, v). take (length pre) k = pre) p"

definition part_last :: "'v partition \<Rightarrow> (bytes \<times> 'v) option" where
  "part_last p = (if p = [] then None else Some (last p))"

definition part_wf :: "'v partition \<Rightarrow> bool" where
  "part_wf p \<longleftrightarrow> sorted_wrt (<) (map fst p)"

lemma part_wf_Nil [simp]: "part_wf []"
  by (simp add: part_wf_def)

lemma set_part_insert: "set (part_insert k v p) \<subseteq> {(k, v)} \<union> set p"
  by (induction k v p rule: part_insert.induct) auto

lemma part_wf_insert [simp]: "part_wf p \<Longrightarrow> part_wf (part_insert k v p)"
proof (induction k v p rule: part_insert.induct)
  case (1 k v)
  then show ?case by (simp add: part_wf_def)
next
  case (2 k v k' v' p)
  consider "k < k'" | "k = k'" | "k' < k" by (meson linorder_neqE)
  then show ?case
  proof cases
    case 1
    with 2 show ?thesis by (auto simp: part_wf_def)
  next
    case 2
    with "2.prems" show ?thesis by (auto simp: part_wf_def)
  next
    case 3
    then have eq: "part_insert k v ((k', v') # p) = (k', v') # part_insert k v p"
      by auto
    have "part_wf (part_insert k v p)"
      using 2 3 by (auto simp: part_wf_def)
    moreover have "\<forall>x\<in>set (part_insert k v p). k' < fst x"
      using set_part_insert [of k v p] 2 3 by (auto simp: part_wf_def)
    ultimately show ?thesis
      unfolding eq by (simp add: part_wf_def)
  qed
qed

lemma sorted_wrt_filter_fst: "sorted_wrt (<) (map fst p) \<Longrightarrow> sorted_wrt (<) (map fst (filter P p))"
  by (induction p) auto

lemma part_wf_remove [simp]: "part_wf p \<Longrightarrow> part_wf (part_remove k p)"
  by (simp add: part_wf_def part_remove_def sorted_wrt_filter_fst)

lemma part_get_insert [simp]: "part_get (part_insert k v p) k' = (if k' = k then Some v else part_get p k')"
  by (induction k v p rule: part_insert.induct) auto

lemma part_get_remove [simp]: "part_get (part_remove k p) k' = (if k' = k then None else part_get p k')"
  by (induction p) (auto simp: part_remove_def)

interpretation part: ordered_partition part_get part_insert part_remove "\<lambda>p. p" part_wf
proof unfold_locales
  fix p :: "'v partition" and k v
  assume "part_wf p"
  then show "sorted_wrt (<) (map fst p)"
    by (simp add: part_wf_def)
  have "distinct (map fst p)"
    using \<open>part_wf p\<close> by (simp add: part_wf_def strict_sorted_iff)
  then show "(k, v) \<in> set p \<longleftrightarrow> part_get p k = Some v"
    by simp
qed simp_all

end
