(* ===== verification/Store.thy ===== *)
theory Store
  imports Witness Partition
begin

text \<open>
  The store (\<open>crates/aqua-timestamp-core/src/storage.rs\<close>) and the rows of the leaderboard
  (\<open>leaderboard.rs\<close>).

  The content of the keyspace is the record \<open>db\<close>, one partition per field.  Encoded values
  (postcard and serde\_json output) are of a type \<open>'b\<close> that only the codec functions of
  \<open>store_api\<close> look into; DIDs are stored as the bytes of the string.  A \<open>store\<close> holds the
  content readers see, the content that is synced to disk, the read errors of the device (a key
  of a partition that cannot be read), and the outcomes of the coming writes: a write may fail
  before anything is applied, or be applied and fail to sync.  A batch is applied at once.
\<close>

section \<open>Data\<close>

datatype store_error = SE_Fjall string | SE_Encode string | SE_Decode string | SE_BadLeavesKey nat
  | SE_BadLeafTipsKey nat | SE_WitnessJson string | SE_UnknownMethodByte u8 | SE_Pending witness_error

record tip_pair_index =
  ti_object_hash :: hash32
  ti_signature_hash :: hash32
  ti_leaf :: hash32
  ti_method_byte :: u8
  ti_epoch_id :: u64
  ti_submitter_did :: did
  ti_object_file_name :: string
  ti_signature_file_name :: string

record contributor_entry =
  ce_did :: did
  ce_fuel_contributed_wei :: u128
  ce_fuel_contributed_sat :: u64
  ce_hashes_submitted :: u64
  ce_last_active :: u64

record 'b store_api = sdk_api +
  enc_epoch :: "epoch_record \<Rightarrow> string + 'b"
  dec_epoch :: "'b \<Rightarrow> string + epoch_record"
  enc_tip_pair :: "tip_pair_index \<Rightarrow> string + 'b"
  dec_tip_pair :: "'b \<Rightarrow> string + tip_pair_index"
  enc_contributor :: "contributor_entry \<Rightarrow> string + 'b"
  dec_contributor :: "'b \<Rightarrow> string + contributor_entry"
  enc_pending :: "pending_epoch \<Rightarrow> string + 'b"
  dec_pending :: "'b \<Rightarrow> string + pending_epoch"
  enc_revision :: "any_revision \<Rightarrow> string + 'b"
  dec_revision :: "'b \<Rightarrow> string + any_revision"

datatype partition_id = P_epochs | P_epoch_leaves | P_witness_revisions | P_leaf_to_tips | P_leaf_owner
  | P_tip_to_pair | P_contributor_stats | P_watcher_watermark | P_pending_anchors | P_pending_leaves
  | P_self_checked_tips

record 'b db =
  db_epochs :: "'b partition"
  db_epoch_leaves :: "string partition"
  db_witness_revisions :: "'b partition"
  db_leaf_to_tips :: "bytes partition"
  db_leaf_owner :: "string partition"
  db_tip_to_pair :: "'b partition"
  db_contributor_stats :: "'b partition"
  db_watcher_watermark :: "bytes partition"
  db_pending_anchors :: "'b partition"
  db_pending_leaves :: "bytes partition"
  db_self_checked_tips :: "unit partition"

datatype write_outcome = Write_ok | Commit_err string | Persist_err string

record 'b store =
  st_db :: "'b db"
  st_disk :: "'b db"
  st_read_err :: "partition_id \<Rightarrow> bytes \<Rightarrow> string option"
  st_writes :: "write_outcome list"

definition empty_db :: "'b db" where
  "empty_db = \<lparr>db_epochs = [], db_epoch_leaves = [], db_witness_revisions = [], db_leaf_to_tips = [],
     db_leaf_owner = [], db_tip_to_pair = [], db_contributor_stats = [], db_watcher_watermark = [],
     db_pending_anchors = [], db_pending_leaves = [], db_self_checked_tips = []\<rparr>"

text \<open>Opening a keyspace: the partitions as they are on disk, created empty on demand.\<close>

definition store_open :: "'b db \<Rightarrow> 'b store" where
  "store_open disk = \<lparr>st_db = disk, st_disk = disk, st_read_err = (\<lambda>_ _. None), st_writes = []\<rparr>"

section \<open>Keys\<close>

definition LEAF_TO_TIPS_KEY_LEN :: nat where
  "LEAF_TO_TIPS_KEY_LEN = 32 + 1"

definition EPOCH_LEAVES_KEY_LEN :: nat where
  "EPOCH_LEAVES_KEY_LEN = 8 + 32"

definition compose_leaf_to_tips_key :: "hash32 \<Rightarrow> u8 \<Rightarrow> bytes" where
  "compose_leaf_to_tips_key leaf mb = leaf @ [mb]"

definition compose_leaves_key :: "u64 \<Rightarrow> hash32 \<Rightarrow> bytes" where
  "compose_leaves_key epoch_id leaf = to_be_bytes epoch_id @ leaf"

definition u64_from_be_slice :: "bytes \<Rightarrow> store_error + u64" where
  "u64_from_be_slice bs =
     (if length bs \<noteq> 8 then Inl (SE_BadLeavesKey (length bs)) else Inr (from_be_bytes bs))"

definition str_bytes :: "string \<Rightarrow> bytes" where
  "str_bytes s = map (\<lambda>c. of_nat (of_char c)) s"

section \<open>Reads and writes of the keyspace\<close>

definition fj_read :: "'b store \<Rightarrow> partition_id \<Rightarrow> bytes \<Rightarrow> 'a \<Rightarrow> store_error + 'a" where
  "fj_read s p k a = (case st_read_err s p k of Some e \<Rightarrow> Inl (SE_Fjall e) | None \<Rightarrow> Inr a)"

datatype 'b batch_op = Put_epochs bytes 'b | Put_epoch_leaves bytes string
  | Put_witness_revisions bytes 'b | Put_leaf_to_tips bytes bytes | Put_leaf_owner bytes string
  | Put_tip_to_pair bytes 'b | Put_contributor_stats bytes 'b | Put_watcher_watermark bytes bytes
  | Put_pending_anchors bytes 'b | Put_pending_leaves bytes bytes | Put_self_checked_tips bytes
  | Del_pending_leaves bytes | Del_pending_anchors bytes

fun apply_op :: "'b batch_op \<Rightarrow> 'b db \<Rightarrow> 'b db" where
  "apply_op (Put_epochs k v) d = d\<lparr>db_epochs := part_insert k v (db_epochs d)\<rparr>"
| "apply_op (Put_epoch_leaves k v) d = d\<lparr>db_epoch_leaves := part_insert k v (db_epoch_leaves d)\<rparr>"
| "apply_op (Put_witness_revisions k v) d = d\<lparr>db_witness_revisions := part_insert k v (db_witness_revisions d)\<rparr>"
| "apply_op (Put_leaf_to_tips k v) d = d\<lparr>db_leaf_to_tips := part_insert k v (db_leaf_to_tips d)\<rparr>"
| "apply_op (Put_leaf_owner k v) d = d\<lparr>db_leaf_owner := part_insert k v (db_leaf_owner d)\<rparr>"
| "apply_op (Put_tip_to_pair k v) d = d\<lparr>db_tip_to_pair := part_insert k v (db_tip_to_pair d)\<rparr>"
| "apply_op (Put_contributor_stats k v) d = d\<lparr>db_contributor_stats := part_insert k v (db_contributor_stats d)\<rparr>"
| "apply_op (Put_watcher_watermark k v) d = d\<lparr>db_watcher_watermark := part_insert k v (db_watcher_watermark d)\<rparr>"
| "apply_op (Put_pending_anchors k v) d = d\<lparr>db_pending_anchors := part_insert k v (db_pending_anchors d)\<rparr>"
| "apply_op (Put_pending_leaves k v) d = d\<lparr>db_pending_leaves := part_insert k v (db_pending_leaves d)\<rparr>"
| "apply_op (Put_self_checked_tips k) d = d\<lparr>db_self_checked_tips := part_insert k () (db_self_checked_tips d)\<rparr>"
| "apply_op (Del_pending_leaves k) d = d\<lparr>db_pending_leaves := part_remove k (db_pending_leaves d)\<rparr>"
| "apply_op (Del_pending_anchors k) d = d\<lparr>db_pending_anchors := part_remove k (db_pending_anchors d)\<rparr>"

definition apply_batch :: "'b batch_op list \<Rightarrow> 'b db \<Rightarrow> 'b db" where
  "apply_batch ops d = fold apply_op ops d"

definition commit_and_persist :: "'b batch_op list \<Rightarrow> 'b store \<Rightarrow> (store_error + unit) \<times> 'b store" where
  "commit_and_persist ops s =
     (let d = apply_batch ops (st_db s); rest = tl (st_writes s)
      in (case st_writes s of
            Commit_err e # _ \<Rightarrow> (Inl (SE_Fjall e), s\<lparr>st_writes := rest\<rparr>)
          | Persist_err e # _ \<Rightarrow> (Inl (SE_Fjall e), s\<lparr>st_db := d, st_writes := rest\<rparr>)
          | _ \<Rightarrow> (Inr (), s\<lparr>st_db := d, st_disk := d, st_writes := rest\<rparr>)))"

section \<open>Sealed epochs and witnesses\<close>

definition tip_index_of :: "minted_witness \<Rightarrow> tip_pair_index" where
  "tip_index_of w =
     \<lparr>ti_object_hash = mw_object_hash w, ti_signature_hash = mw_signature_hash w, ti_leaf = mw_leaf w,
      ti_method_byte = method_byte (mw_method w), ti_epoch_id = mw_epoch_id w,
      ti_submitter_did = mw_submitter_did w, ti_object_file_name = mw_object_file_name w,
      ti_signature_file_name = mw_signature_file_name w\<rparr>"

definition witness_ops :: "('b, 'z) store_api_scheme \<Rightarrow> minted_witness \<Rightarrow> store_error + 'b batch_op list" where
  "witness_ops x w =
     and_then (map_err SE_WitnessJson (enc_revision x (mw_object_revision w))) (\<lambda>obj_json.
     and_then (map_err SE_WitnessJson (enc_revision x (mw_signature_revision w))) (\<lambda>sig_json.
     and_then (map_err SE_Encode (enc_tip_pair x (tip_index_of w))) (\<lambda>index_bytes.
     Inr [Put_witness_revisions (mw_object_hash w) obj_json,
          Put_witness_revisions (mw_signature_hash w) sig_json,
          Put_leaf_to_tips (compose_leaf_to_tips_key (mw_leaf w) (method_byte (mw_method w))) (mw_signature_hash w),
          Put_tip_to_pair (mw_signature_hash w) index_bytes])))"

definition write_witnesses ::
  "('b, 'z) store_api_scheme \<Rightarrow> minted_witness list \<Rightarrow> store_error + 'b batch_op list" where
  "write_witnesses x ws = and_then (collect_results (witness_ops x) ws) (\<lambda>opss. Inr (concat opss))"

definition pending_ops :: "('b, 'z) store_api_scheme \<Rightarrow> pending_epoch \<Rightarrow> store_error + 'b batch_op list" where
  "pending_ops x p =
     and_then (map_err SE_WitnessJson (enc_pending x p)) (\<lambda>json.
     and_then (map_err SE_Pending (leaf_hashes x p)) (\<lambda>leaves.
     Inr (Put_pending_anchors (to_be_bytes (pe_epoch_id p)) json #
          concat (map (\<lambda>leaf. map (\<lambda>m. Put_pending_leaves (compose_leaf_to_tips_key leaf (method_byte m))
                                           (to_be_bytes (pe_epoch_id p))) (pe_methods p)) leaves))))"

definition leaf_ops :: "u64 \<Rightarrow> leaf_entry list \<Rightarrow> 'b batch_op list" where
  "leaf_ops epoch_id leaves =
     concat (map (\<lambda>e. [Put_epoch_leaves (compose_leaves_key epoch_id (le_leaf e)) (le_submitter_did e),
                       Put_leaf_owner (le_leaf e) (le_submitter_did e)]) leaves)"

definition sealed_ops ::
  "('b, 'z) store_api_scheme \<Rightarrow> epoch_record \<Rightarrow> leaf_entry list \<Rightarrow> minted_witness list \<Rightarrow> pending_epoch option
   \<Rightarrow> store_error + 'b batch_op list" where
  "sealed_ops x rec leaves ws pending =
     and_then (case pending of None \<Rightarrow> Inr [] | Some p \<Rightarrow> pending_ops x p) (\<lambda>p_ops.
     and_then (map_err SE_Encode (enc_epoch x rec)) (\<lambda>encoded.
     and_then (write_witnesses x ws) (\<lambda>w_ops.
     Inr (p_ops @ [Put_epochs (to_be_bytes (er_id rec)) encoded] @ leaf_ops (er_id rec) leaves @ w_ops))))"

definition persist_sealed_epoch_with_pending ::
  "('b, 'z) store_api_scheme \<Rightarrow> epoch_record \<Rightarrow> leaf_entry list \<Rightarrow> minted_witness list \<Rightarrow> pending_epoch option
   \<Rightarrow> 'b store \<Rightarrow> (store_error + unit) \<times> 'b store" where
  "persist_sealed_epoch_with_pending x rec leaves ws pending s =
     (case sealed_ops x rec leaves ws pending of
        Inl e \<Rightarrow> (Inl e, s) | Inr ops \<Rightarrow> commit_and_persist ops s)"

definition persist_sealed_epoch ::
  "('b, 'z) store_api_scheme \<Rightarrow> epoch_record \<Rightarrow> leaf_entry list \<Rightarrow> minted_witness list
   \<Rightarrow> 'b store \<Rightarrow> (store_error + unit) \<times> 'b store" where
  "persist_sealed_epoch x rec leaves ws s = persist_sealed_epoch_with_pending x rec leaves ws None s"

text \<open>The pending lookups of this epoch that \<open>done\<close> retires: read one by one, kept when they point elsewhere.\<close>

definition retired_lookup ::
  "'b store \<Rightarrow> u64 \<Rightarrow> anchor_method \<Rightarrow> hash32 \<Rightarrow> store_error + 'b batch_op list" where
  "retired_lookup s epoch_id done leaf =
     (let key = compose_leaf_to_tips_key leaf (method_byte done)
      in and_then (fj_read s P_pending_leaves key (part_get (db_pending_leaves (st_db s)) key)) (\<lambda>v.
         Inr (if v = Some (to_be_bytes epoch_id) then [Del_pending_leaves key] else [])))"

definition minted_ops ::
  "('b, 'z) store_api_scheme \<Rightarrow> pending_epoch \<Rightarrow> anchor_method \<Rightarrow> minted_witness list \<Rightarrow> 'b store
   \<Rightarrow> store_error + 'b batch_op list" where
  "minted_ops x remaining done ws s =
     and_then (write_witnesses x ws) (\<lambda>w_ops.
     and_then (map_err SE_Pending (leaf_hashes x remaining)) (\<lambda>leaves.
     and_then (collect_results (retired_lookup s (pe_epoch_id remaining) done) leaves) (\<lambda>dels.
     and_then (if pe_methods remaining = [] then Inr [Del_pending_anchors (to_be_bytes (pe_epoch_id remaining))]
               else and_then (map_err SE_WitnessJson (enc_pending x remaining)) (\<lambda>json.
                    Inr [Put_pending_anchors (to_be_bytes (pe_epoch_id remaining)) json])) (\<lambda>p_ops.
     Inr (w_ops @ map (\<lambda>w. Put_self_checked_tips (mw_signature_hash w)) ws @ concat dels @ p_ops)))))"

definition persist_pending_minted ::
  "('b, 'z) store_api_scheme \<Rightarrow> pending_epoch \<Rightarrow> anchor_method \<Rightarrow> minted_witness list
   \<Rightarrow> 'b store \<Rightarrow> (store_error + unit) \<times> 'b store" where
  "persist_pending_minted x remaining done ws s =
     (case minted_ops x remaining done ws s of
        Inl e \<Rightarrow> (Inl e, s) | Inr ops \<Rightarrow> commit_and_persist ops s)"

definition save_pending ::
  "('b, 'z) store_api_scheme \<Rightarrow> pending_epoch \<Rightarrow> 'b store \<Rightarrow> (store_error + unit) \<times> 'b store" where
  "save_pending x p s =
     (case enc_pending x p of
        Inl e \<Rightarrow> (Inl (SE_WitnessJson e), s)
      | Inr json \<Rightarrow> commit_and_persist [Put_pending_anchors (to_be_bytes (pe_epoch_id p)) json] s)"

definition list_pending_epochs :: "('b, 'z) store_api_scheme \<Rightarrow> 'b store \<Rightarrow> store_error + pending_epoch list" where
  "list_pending_epochs x s =
     collect_results (\<lambda>(k, v). and_then (fj_read s P_pending_anchors k v) (\<lambda>v. map_err SE_WitnessJson (dec_pending x v)))
       (db_pending_anchors (st_db s))"

definition get_pending_epoch_for_leaf ::
  "'b store \<Rightarrow> hash32 \<Rightarrow> anchor_method \<Rightarrow> store_error + u64 option" where
  "get_pending_epoch_for_leaf s leaf m =
     (let key = compose_leaf_to_tips_key leaf (method_byte m)
      in and_then (fj_read s P_pending_leaves key (part_get (db_pending_leaves (st_db s)) key)) (\<lambda>r.
         (case r of None \<Rightarrow> Inr None | Some v \<Rightarrow> and_then (u64_from_be_slice v) (\<lambda>n. Inr (Some n)))))"

definition is_epoch_pending ::
  "('b, 'z) store_api_scheme \<Rightarrow> 'b store \<Rightarrow> u64 \<Rightarrow> anchor_method \<Rightarrow> store_error + bool" where
  "is_epoch_pending x s epoch_id m =
     (let key = to_be_bytes epoch_id
      in and_then (fj_read s P_pending_anchors key (part_get (db_pending_anchors (st_db s)) key)) (\<lambda>r.
         (case r of None \<Rightarrow> Inr False
          | Some v \<Rightarrow> and_then (map_err SE_WitnessJson (dec_pending x v)) (\<lambda>p. Inr (m \<in> set (pe_methods p))))))"

section \<open>Epoch reads\<close>

definition get_epoch :: "('b, 'z) store_api_scheme \<Rightarrow> 'b store \<Rightarrow> u64 \<Rightarrow> store_error + epoch_record option" where
  "get_epoch x s eid =
     (let key = to_be_bytes eid
      in and_then (fj_read s P_epochs key (part_get (db_epochs (st_db s)) key)) (\<lambda>r.
         (case r of None \<Rightarrow> Inr None
          | Some v \<Rightarrow> and_then (map_err SE_Decode (dec_epoch x v)) (\<lambda>rec. Inr (Some rec)))))"

definition last_sealed_epoch_id :: "'b store \<Rightarrow> store_error + u64 option" where
  "last_sealed_epoch_id s =
     (case part_last (db_epochs (st_db s)) of
        None \<Rightarrow> Inr None
      | Some (k, v) \<Rightarrow> and_then (fj_read s P_epochs k ()) (\<lambda>_.
          and_then (u64_from_be_slice k) (\<lambda>n. Inr (Some n))))"

fun list_epochs_loop ::
  "('b, 'z) store_api_scheme \<Rightarrow> 'b store \<Rightarrow> nat \<Rightarrow> 'b partition \<Rightarrow> epoch_record list
   \<Rightarrow> store_error + epoch_record list \<times> u64 option" where
  "list_epochs_loop x s limit [] out = Inr (out, None)"
| "list_epochs_loop x s limit ((k, v) # kvs) out =
     and_then (fj_read s P_epochs k v) (\<lambda>v.
     and_then (map_err SE_Decode (dec_epoch x v)) (\<lambda>rec.
     if length out = limit then Inr (out, Some (er_id rec))
     else list_epochs_loop x s limit kvs (out @ [rec])))"

definition list_epochs_desc ::
  "('b, 'z) store_api_scheme \<Rightarrow> 'b store \<Rightarrow> u64 option \<Rightarrow> nat \<Rightarrow> store_error + epoch_record list \<times> u64 option" where
  "list_epochs_desc x s start limit =
     (if limit = 0 then Inr ([], start)
      else let upper = (case start of Some n \<Rightarrow> to_be_bytes n | None \<Rightarrow> to_be_bytes u64_max)
           in list_epochs_loop x s limit (rev (part_range_to upper (db_epochs (st_db s)))) [])"

definition list_epoch_leaves :: "'b store \<Rightarrow> u64 \<Rightarrow> store_error + (bytes \<times> string) list" where
  "list_epoch_leaves s eid =
     collect_results (\<lambda>(k, v). and_then (fj_read s P_epoch_leaves k v) (\<lambda>v.
         if length k \<noteq> EPOCH_LEAVES_KEY_LEN then Inl (SE_BadLeavesKey (length k)) else Inr (drop 8 k, v)))
       (part_prefix (to_be_bytes eid) (db_epoch_leaves (st_db s)))"

definition persist_now :: "'b store \<Rightarrow> (store_error + unit) \<times> 'b store" where
  "persist_now s = commit_and_persist [] s"

section \<open>Witness reads\<close>

definition get_revision_json :: "'b store \<Rightarrow> hash32 \<Rightarrow> store_error + 'b option" where
  "get_revision_json s h = fj_read s P_witness_revisions h (part_get (db_witness_revisions (st_db s)) h)"

definition get_tip_pair :: "('b, 'z) store_api_scheme \<Rightarrow> 'b store \<Rightarrow> hash32 \<Rightarrow> store_error + tip_pair_index option" where
  "get_tip_pair x s h =
     and_then (fj_read s P_tip_to_pair h (part_get (db_tip_to_pair (st_db s)) h)) (\<lambda>r.
     (case r of None \<Rightarrow> Inr None
      | Some v \<Rightarrow> and_then (map_err SE_Decode (dec_tip_pair x v)) (\<lambda>idx. Inr (Some idx))))"

definition is_self_checked :: "'b store \<Rightarrow> hash32 \<Rightarrow> store_error + bool" where
  "is_self_checked s h =
     fj_read s P_self_checked_tips h (part_get (db_self_checked_tips (st_db s)) h \<noteq> None)"

definition get_tip_for_leaf :: "'b store \<Rightarrow> hash32 \<Rightarrow> anchor_method \<Rightarrow> store_error + hash32 option" where
  "get_tip_for_leaf s leaf m =
     (let key = compose_leaf_to_tips_key leaf (method_byte m)
      in and_then (fj_read s P_leaf_to_tips key (part_get (db_leaf_to_tips (st_db s)) key)) (\<lambda>r.
         (case r of None \<Rightarrow> Inr None
          | Some b \<Rightarrow> if length b \<noteq> 32 then Inl (SE_BadLeafTipsKey (length b)) else Inr (Some b))))"

definition get_leaf_owner :: "'b store \<Rightarrow> hash32 \<Rightarrow> store_error + string option" where
  "get_leaf_owner s leaf = fj_read s P_leaf_owner leaf (part_get (db_leaf_owner (st_db s)) leaf)"

text \<open>
  \<open>sort_by\<close> is stable: descending by epoch and then ascending by tip is a sort by tip followed by
  a sort by descending epoch.
\<close>

definition list_witness_tips_for_did ::
  "('b, 'z) store_api_scheme \<Rightarrow> 'b store \<Rightarrow> did \<Rightarrow> store_error + (u64 \<times> hash32) list" where
  "list_witness_tips_for_did x s d =
     and_then (collect_results (\<lambda>(k, v). and_then (fj_read s P_tip_to_pair k v) (\<lambda>v.
         if length k \<noteq> 32 then Inr []
         else and_then (map_err SE_Decode (dec_tip_pair x v)) (\<lambda>idx.
              Inr (if ti_submitter_did idx = d then [(ti_epoch_id idx, k)] else []))))
       (db_tip_to_pair (st_db s))) (\<lambda>out.
     Inr (sort_key (\<lambda>(e, t). u64_max - e) (sort_key snd (concat out))))"

definition list_witnesses_for_did_in_epoch ::
  "('b, 'z) store_api_scheme \<Rightarrow> 'b store \<Rightarrow> did \<Rightarrow> u64 \<Rightarrow> anchor_method \<Rightarrow> store_error + tip_pair_index list" where
  "list_witnesses_for_did_in_epoch x s d epoch_id m =
     and_then (collect_results (\<lambda>(k, v). and_then (fj_read s P_tip_to_pair k v) (\<lambda>v.
         and_then (map_err SE_Decode (dec_tip_pair x v)) (\<lambda>idx.
         Inr (if ti_epoch_id idx = epoch_id \<and> ti_method_byte idx = method_byte m \<and> ti_submitter_did idx = d
              then [idx] else []))))
       (db_tip_to_pair (st_db s))) (\<lambda>out.
     Inr (sort_key ti_signature_file_name (concat out)))"

section \<open>Contributors, watermarks and totals\<close>

definition upsert_contributors_and_watermark ::
  "('b, 'z) store_api_scheme \<Rightarrow> (bytes \<times> contributor_entry) list \<Rightarrow> string \<Rightarrow> u64 \<Rightarrow> 'b store
   \<Rightarrow> (store_error + unit) \<times> 'b store" where
  "upsert_contributors_and_watermark x updates chain block_number s =
     (case collect_results (\<lambda>(addr, entry). and_then (map_err SE_Encode (enc_contributor x entry)) (\<lambda>v.
              Inr (Put_contributor_stats addr v))) updates of
        Inl e \<Rightarrow> (Inl e, s)
      | Inr ops \<Rightarrow> commit_and_persist (ops @ [Put_watcher_watermark (str_bytes chain) (to_be_bytes block_number)]) s)"

definition get_contributor ::
  "('b, 'z) store_api_scheme \<Rightarrow> 'b store \<Rightarrow> bytes \<Rightarrow> store_error + contributor_entry option" where
  "get_contributor x s addr =
     and_then (fj_read s P_contributor_stats addr (part_get (db_contributor_stats (st_db s)) addr)) (\<lambda>r.
     (case r of None \<Rightarrow> Inr None
      | Some v \<Rightarrow> and_then (map_err SE_Decode (dec_contributor x v)) (\<lambda>e. Inr (Some e))))"

definition all_contributors :: "('b, 'z) store_api_scheme \<Rightarrow> 'b store \<Rightarrow> store_error + contributor_entry list" where
  "all_contributors x s =
     collect_results (\<lambda>(k, v). and_then (fj_read s P_contributor_stats k v) (\<lambda>v. map_err SE_Decode (dec_contributor x v)))
       (db_contributor_stats (st_db s))"

definition list_contributors_sorted ::
  "('b, 'z) store_api_scheme \<Rightarrow> 'b store \<Rightarrow> nat \<Rightarrow> store_error + contributor_entry list" where
  "list_contributors_sorted x s limit =
     and_then (all_contributors x s) (\<lambda>entries.
     Inr (take limit (sort_key (\<lambda>e. - 1 - ce_fuel_contributed_wei e) entries)))"

definition get_watermark :: "'b store \<Rightarrow> string \<Rightarrow> store_error + u64 option" where
  "get_watermark s chain =
     and_then (fj_read s P_watcher_watermark (str_bytes chain) (part_get (db_watcher_watermark (st_db s)) (str_bytes chain))) (\<lambda>r.
     (case r of None \<Rightarrow> Inr None
      | Some b \<Rightarrow> if length b \<noteq> 8 then Inl (SE_BadLeavesKey (length b)) else Inr (Some (from_be_bytes b))))"

definition set_watermark :: "string \<Rightarrow> u64 \<Rightarrow> 'b store \<Rightarrow> (store_error + unit) \<times> 'b store" where
  "set_watermark chain block s =
     commit_and_persist [Put_watcher_watermark (str_bytes chain) (to_be_bytes block)] s"

definition store_totals :: "('b, 'z) store_api_scheme \<Rightarrow> 'b store \<Rightarrow> store_error + u64 \<times> u64" where
  "store_totals x s =
     and_then (collect_results (\<lambda>(k, v). and_then (fj_read s P_epochs k v) (\<lambda>v. map_err SE_Decode (dec_epoch x v)))
       (db_epochs (st_db s))) (\<lambda>recs.
     Inr (of_nat (length recs), sum_list (map er_leaf_count recs)))"

definition contributor_count :: "'b store \<Rightarrow> store_error + nat" where
  "contributor_count s =
     and_then (collect_results (\<lambda>(k, v). fj_read s P_contributor_stats k ()) (db_contributor_stats (st_db s))) (\<lambda>us.
     Inr (length us))"

section \<open>The store as one map\<close>

text \<open>
  The abstract view of a keyspace: a map from partition and key to a cell.  \<open>db_get\<close> is the
  abstraction of a \<open>db\<close>, \<open>op_key\<close> and \<open>op_cell\<close> say what an operation of a batch assigns, and a
  batch refines the corresponding assignments made in order.
\<close>

datatype 'b cell = Blob 'b | Text string | Raw bytes | Mark

fun db_get :: "partition_id \<Rightarrow> 'b db \<Rightarrow> bytes \<Rightarrow> 'b cell option" where
  "db_get P_epochs d k = map_option Blob (part_get (db_epochs d) k)"
| "db_get P_epoch_leaves d k = map_option Text (part_get (db_epoch_leaves d) k)"
| "db_get P_witness_revisions d k = map_option Blob (part_get (db_witness_revisions d) k)"
| "db_get P_leaf_to_tips d k = map_option Raw (part_get (db_leaf_to_tips d) k)"
| "db_get P_leaf_owner d k = map_option Text (part_get (db_leaf_owner d) k)"
| "db_get P_tip_to_pair d k = map_option Blob (part_get (db_tip_to_pair d) k)"
| "db_get P_contributor_stats d k = map_option Blob (part_get (db_contributor_stats d) k)"
| "db_get P_watcher_watermark d k = map_option Raw (part_get (db_watcher_watermark d) k)"
| "db_get P_pending_anchors d k = map_option Blob (part_get (db_pending_anchors d) k)"
| "db_get P_pending_leaves d k = map_option Raw (part_get (db_pending_leaves d) k)"
| "db_get P_self_checked_tips d k = map_option (\<lambda>_. Mark) (part_get (db_self_checked_tips d) k)"

fun op_key :: "'b batch_op \<Rightarrow> partition_id \<times> bytes" where
  "op_key (Put_epochs k v) = (P_epochs, k)"
| "op_key (Put_epoch_leaves k _) = (P_epoch_leaves, k)"
| "op_key (Put_witness_revisions k _) = (P_witness_revisions, k)"
| "op_key (Put_leaf_to_tips k _) = (P_leaf_to_tips, k)"
| "op_key (Put_leaf_owner k _) = (P_leaf_owner, k)"
| "op_key (Put_tip_to_pair k _) = (P_tip_to_pair, k)"
| "op_key (Put_contributor_stats k _) = (P_contributor_stats, k)"
| "op_key (Put_watcher_watermark k _) = (P_watcher_watermark, k)"
| "op_key (Put_pending_anchors k _) = (P_pending_anchors, k)"
| "op_key (Put_pending_leaves k _) = (P_pending_leaves, k)"
| "op_key (Put_self_checked_tips k) = (P_self_checked_tips, k)"
| "op_key (Del_pending_leaves k) = (P_pending_leaves, k)"
| "op_key (Del_pending_anchors k) = (P_pending_anchors, k)"

fun op_cell :: "'b batch_op \<Rightarrow> 'b cell option" where
  "op_cell (Put_epochs _ v) = Some (Blob v)"
| "op_cell (Put_epoch_leaves _ v) = Some (Text v)"
| "op_cell (Put_witness_revisions _ v) = Some (Blob v)"
| "op_cell (Put_leaf_to_tips _ v) = Some (Raw v)"
| "op_cell (Put_leaf_owner _ v) = Some (Text v)"
| "op_cell (Put_tip_to_pair _ v) = Some (Blob v)"
| "op_cell (Put_contributor_stats _ v) = Some (Blob v)"
| "op_cell (Put_watcher_watermark _ v) = Some (Raw v)"
| "op_cell (Put_pending_anchors _ v) = Some (Blob v)"
| "op_cell (Put_pending_leaves _ v) = Some (Raw v)"
| "op_cell (Put_self_checked_tips _) = Some Mark"
| "op_cell (Del_pending_leaves _) = None"
| "op_cell (Del_pending_anchors _) = None"

definition db_wf :: "'b db \<Rightarrow> bool" where
  "db_wf d \<longleftrightarrow> part_wf (db_epochs d) \<and> part_wf (db_epoch_leaves d) \<and> part_wf (db_witness_revisions d)
     \<and> part_wf (db_leaf_to_tips d) \<and> part_wf (db_leaf_owner d) \<and> part_wf (db_tip_to_pair d)
     \<and> part_wf (db_contributor_stats d) \<and> part_wf (db_watcher_watermark d)
     \<and> part_wf (db_pending_anchors d) \<and> part_wf (db_pending_leaves d) \<and> part_wf (db_self_checked_tips d)"

lemma db_get_apply_op:
  "db_get p (apply_op o' d) k = (if op_key o' = (p, k) then op_cell o' else db_get p d k)"
  by (cases o'; cases p) auto

lemma db_wf_apply_op: "db_wf d \<Longrightarrow> db_wf (apply_op o' d)"
  by (cases o') (simp_all add: db_wf_def)

lemma db_wf_apply_batch [simp]: "db_wf d \<Longrightarrow> db_wf (apply_batch ops d)"
  unfolding apply_batch_def by (induction ops arbitrary: d) (simp_all add: db_wf_apply_op)

lemma db_wf_empty [simp]: "db_wf empty_db"
  by (simp add: db_wf_def empty_db_def)

lemma apply_batch_simps [simp]:
  "apply_batch [] d = d" "apply_batch (o' # ops) d = apply_batch ops (apply_op o' d)"
  "apply_batch (ops @ ops') d = apply_batch ops' (apply_batch ops d)"
  by (simp_all add: apply_batch_def)

lemma db_get_untouched:
  "(\<And>o'. o' \<in> set ops \<Longrightarrow> op_key o' \<noteq> (p, k)) \<Longrightarrow> db_get p (apply_batch ops d) k = db_get p d k"
  by (induction ops arbitrary: d) (simp_all add: db_get_apply_op)

lemma db_get_assigned:
  assumes "\<And>o'. o' \<in> set ops \<Longrightarrow> op_key o' = (p, k) \<Longrightarrow> op_cell o' = c"
    and "\<exists>o'\<in>set ops. op_key o' = (p, k)"
  shows "db_get p (apply_batch ops d) k = c"
  using assms
proof (induction ops arbitrary: d)
  case Nil
  then show ?case by simp
next
  case (Cons o' ops)
  show ?case
  proof (cases "\<exists>o''\<in>set ops. op_key o'' = (p, k)")
    case True
    then show ?thesis using Cons by simp
  next
    case False
    then have "db_get p (apply_batch ops (apply_op o' d)) k = db_get p (apply_op o' d) k"
      by (intro db_get_untouched) auto
    with False Cons.prems show ?thesis
      by (auto simp: db_get_apply_op)
  qed
qed

text \<open>Every cell of the content after a batch was assigned by the batch or was there before.\<close>

lemma db_get_cases:
  assumes "db_get p (apply_batch ops d) k = c"
  shows "db_get p d k = c \<or> (\<exists>o'\<in>set ops. op_key o' = (p, k) \<and> op_cell o' = c)"
  using assms by (induction ops arbitrary: d) (fastforce simp: db_get_apply_op split: if_splits)+

lemma db_get_Some_iff [simp]:
  "db_get P_epochs d k = Some (Blob v) \<longleftrightarrow> part_get (db_epochs d) k = Some v"
  "db_get P_epoch_leaves d k = Some (Text t) \<longleftrightarrow> part_get (db_epoch_leaves d) k = Some t"
  "db_get P_witness_revisions d k = Some (Blob v) \<longleftrightarrow> part_get (db_witness_revisions d) k = Some v"
  "db_get P_leaf_to_tips d k = Some (Raw b) \<longleftrightarrow> part_get (db_leaf_to_tips d) k = Some b"
  "db_get P_leaf_owner d k = Some (Text t) \<longleftrightarrow> part_get (db_leaf_owner d) k = Some t"
  "db_get P_tip_to_pair d k = Some (Blob v) \<longleftrightarrow> part_get (db_tip_to_pair d) k = Some v"
  "db_get P_contributor_stats d k = Some (Blob v) \<longleftrightarrow> part_get (db_contributor_stats d) k = Some v"
  "db_get P_watcher_watermark d k = Some (Raw b) \<longleftrightarrow> part_get (db_watcher_watermark d) k = Some b"
  "db_get P_pending_anchors d k = Some (Blob v) \<longleftrightarrow> part_get (db_pending_anchors d) k = Some v"
  "db_get P_pending_leaves d k = Some (Raw b) \<longleftrightarrow> part_get (db_pending_leaves d) k = Some b"
  "db_get P_self_checked_tips d k = Some Mark \<longleftrightarrow> part_get (db_self_checked_tips d) k = Some ()"
  by auto

declare db_get.simps [simp del]

lemma commit_cases:
  assumes "commit_and_persist ops s = (r, s')"
  obtains (ok) "r = Inr ()" "st_db s' = apply_batch ops (st_db s)" "st_disk s' = st_db s'"
      "st_read_err s' = st_read_err s" "st_writes s' = tl (st_writes s)"
  | (refused) e where "r = Inl (SE_Fjall e)" "st_db s' = st_db s" "st_disk s' = st_disk s"
      "st_read_err s' = st_read_err s" "st_writes s' = tl (st_writes s)"
  | (unsynced) e where "r = Inl (SE_Fjall e)" "st_db s' = apply_batch ops (st_db s)" "st_disk s' = st_disk s"
      "st_read_err s' = st_read_err s" "st_writes s' = tl (st_writes s)"
  using assms by (auto simp: commit_and_persist_def Let_def split: list.splits write_outcome.splits)

lemma commit_Inr:
  "commit_and_persist ops s = (Inr u, s') \<Longrightarrow>
     st_db s' = apply_batch ops (st_db s) \<and> st_disk s' = st_db s' \<and> st_read_err s' = st_read_err s"
  by (erule commit_cases) auto

lemma commit_no_faults [simp]:
  "st_writes s = [] \<Longrightarrow> commit_and_persist ops s =
     (Inr (), s\<lparr>st_db := apply_batch ops (st_db s), st_disk := apply_batch ops (st_db s)\<rparr>)"
  by (simp add: commit_and_persist_def Let_def)

section \<open>Keys and batches\<close>

lemma compose_leaf_to_tips_key_inject [simp]:
  "compose_leaf_to_tips_key l b = compose_leaf_to_tips_key l' b' \<longleftrightarrow> l = l' \<and> b = b'"
  by (simp add: compose_leaf_to_tips_key_def)

lemma compose_leaves_key_inject [simp]:
  "compose_leaves_key e l = compose_leaves_key e' l' \<longleftrightarrow> e = e' \<and> l = l'"
  by (simp add: compose_leaves_key_def)

lemma u64_from_be_slice_to_be [simp]: "u64_from_be_slice (to_be_bytes n) = Inr n"
  by (simp add: u64_from_be_slice_def)

lemma u64_from_be_slice_Inr: "u64_from_be_slice v = Inr n \<longleftrightarrow> v = to_be_bytes n"
  by (auto simp: u64_from_be_slice_def to_from_be_bytes)

lemma fj_read_Inr [simp]: "fj_read s p k a = Inr b \<longleftrightarrow> st_read_err s p k = None \<and> a = b"
  by (auto simp: fj_read_def split: option.splits)

lemma witness_ops_InrD:
  assumes "witness_ops x w = Inr os"
  obtains oj sj ib where "enc_revision x (mw_object_revision w) = Inr oj"
    "enc_revision x (mw_signature_revision w) = Inr sj" "enc_tip_pair x (tip_index_of w) = Inr ib"
    "os = [Put_witness_revisions (mw_object_hash w) oj, Put_witness_revisions (mw_signature_hash w) sj,
       Put_leaf_to_tips (compose_leaf_to_tips_key (mw_leaf w) (method_byte (mw_method w))) (mw_signature_hash w),
       Put_tip_to_pair (mw_signature_hash w) ib]"
  using assms by (auto simp: witness_ops_def)

lemma write_witnesses_InrD:
  assumes "write_witnesses x ws = Inr ops"
  shows "o' \<in> set ops \<longleftrightarrow> (\<exists>w\<in>set ws. \<exists>os. witness_ops x w = Inr os \<and> o' \<in> set os)"
    and "w \<in> set ws \<Longrightarrow> \<exists>os. witness_ops x w = Inr os"
proof -
  obtain oss where oss: "collect_results (witness_ops x) ws = Inr oss" "ops = concat oss"
    using assms by (auto simp: write_witnesses_def)
  show "o' \<in> set ops \<longleftrightarrow> (\<exists>w\<in>set ws. \<exists>os. witness_ops x w = Inr os \<and> o' \<in> set os)"
    using collect_results_InrD [OF oss(1)] oss(2)
    by (fastforce simp: in_set_conv_nth [of _ oss] in_set_conv_nth [of _ ws])
  show "w \<in> set ws \<Longrightarrow> \<exists>os. witness_ops x w = Inr os"
    using collect_results_nth [OF oss(1)] by blast
qed

lemma write_witnesses_Nil [simp]: "write_witnesses x [] = Inr []"
  by (simp add: write_witnesses_def)

lemma write_witnesses_parts:
  "write_witnesses x ws = Inr ops \<Longrightarrow> o' \<in> set ops \<Longrightarrow>
     fst (op_key o') \<in> {P_witness_revisions, P_leaf_to_tips, P_tip_to_pair}"
  by (auto simp: write_witnesses_InrD(1) elim!: witness_ops_InrD)

lemma pending_ops_InrD:
  assumes "pending_ops x p = Inr ops"
  obtains json leaves where "enc_pending x p = Inr json" "leaf_hashes x p = Inr leaves"
    "set ops = insert (Put_pending_anchors (to_be_bytes (pe_epoch_id p)) json)
       {Put_pending_leaves (compose_leaf_to_tips_key l (method_byte m)) (to_be_bytes (pe_epoch_id p))
         |l m. l \<in> set leaves \<and> m \<in> set (pe_methods p)}"
  using assms that by (auto simp: pending_ops_def) blast

lemma sealed_ops_InrD:
  assumes "sealed_ops x r leaves ws pending = Inr ops"
  obtains p_ops encoded w_ops where
    "case pending of None \<Rightarrow> p_ops = [] | Some p \<Rightarrow> pending_ops x p = Inr p_ops"
    "enc_epoch x r = Inr encoded" "write_witnesses x ws = Inr w_ops"
    "ops = p_ops @ [Put_epochs (to_be_bytes (er_id r)) encoded] @ leaf_ops (er_id r) leaves @ w_ops"
  using assms that by (auto simp: sealed_ops_def split: option.splits)

lemma leaf_ops_set:
  "set (leaf_ops n leaves) = (\<Union>e\<in>set leaves.
     {Put_epoch_leaves (compose_leaves_key n (le_leaf e)) (le_submitter_did e),
      Put_leaf_owner (le_leaf e) (le_submitter_did e)})"
  by (auto simp: leaf_ops_def)

lemma pending_ops_parts:
  assumes "case pending of None \<Rightarrow> p_ops = [] | Some p \<Rightarrow> pending_ops x p = Inr p_ops" "o' \<in> set p_ops"
  shows "fst (op_key o') \<in> {P_pending_anchors, P_pending_leaves}"
  using assms by (auto split: option.splits elim!: pending_ops_InrD)

lemma sealed_epoch_cell:
  assumes ops: "sealed_ops x r leaves ws pending = Inr ops"
  shows "\<exists>v. enc_epoch x r = Inr v \<and> part_get (db_epochs (apply_batch ops d)) (to_be_bytes (er_id r)) = Some v"
proof -
  obtain p_ops encoded w_ops where *: "case pending of None \<Rightarrow> p_ops = [] | Some p \<Rightarrow> pending_ops x p = Inr p_ops"
    "enc_epoch x r = Inr encoded" "write_witnesses x ws = Inr w_ops"
    "ops = p_ops @ [Put_epochs (to_be_bytes (er_id r)) encoded] @ leaf_ops (er_id r) leaves @ w_ops"
    using ops by (rule sealed_ops_InrD)
  have "db_get P_epochs (apply_batch ops d) (to_be_bytes (er_id r)) = Some (Blob encoded)"
    using pending_ops_parts [OF *(1)] write_witnesses_parts [OF *(3)]
    by (intro db_get_assigned) (fastforce simp: *(4) leaf_ops_set)+
  then show ?thesis
    using *(2) by simp
qed

lemma sealed_owner_cell:
  assumes ops: "sealed_ops x r leaves ws pending = Inr ops"
    and e: "e \<in> set leaves" and dist: "distinct (map le_leaf leaves)"
  shows "part_get (db_leaf_owner (apply_batch ops d)) (le_leaf e) = Some (le_submitter_did e)"
proof -
  obtain p_ops encoded w_ops where *: "case pending of None \<Rightarrow> p_ops = [] | Some p \<Rightarrow> pending_ops x p = Inr p_ops"
    "enc_epoch x r = Inr encoded" "write_witnesses x ws = Inr w_ops"
    "ops = p_ops @ [Put_epochs (to_be_bytes (er_id r)) encoded] @ leaf_ops (er_id r) leaves @ w_ops"
    using ops by (rule sealed_ops_InrD)
  have same: "le_submitter_did e' = le_submitter_did e" if "e' \<in> set leaves" "le_leaf e' = le_leaf e" for e'
    using that e dist by (metis distinct_map inj_onD)
  have "db_get P_leaf_owner (apply_batch ops d) (le_leaf e) = Some (Text (le_submitter_did e))"
  proof (rule db_get_assigned)
    show "\<exists>o'\<in>set ops. op_key o' = (P_leaf_owner, le_leaf e)"
      using e by (force simp: *(4) leaf_ops_set)
    show "op_cell o' = Some (Text (le_submitter_did e))" if "o' \<in> set ops" "op_key o' = (P_leaf_owner, le_leaf e)" for o'
      using that same pending_ops_parts [OF *(1), of o'] write_witnesses_parts [OF *(3), of o']
      by (auto simp: *(4) leaf_ops_set)
  qed
  then show ?thesis by simp
qed

section \<open>Codec laws\<close>

locale store_codec = aqua_sdk x for x :: "('b, 'z) store_api_scheme" +
  assumes epoch_codec: "enc_epoch x r = Inr v \<Longrightarrow> dec_epoch x v = Inr r"
    and tip_codec: "enc_tip_pair x t = Inr v \<Longrightarrow> dec_tip_pair x v = Inr t"
    and contributor_codec: "enc_contributor x c = Inr v \<Longrightarrow> dec_contributor x v = Inr c"
    and pending_codec: "enc_pending x p = Inr v \<Longrightarrow> dec_pending x v = Inr p"
    and revision_codec: "enc_revision x a = Inr v \<Longrightarrow> dec_revision x v = Inr a"
begin

lemma sealed_epoch_readable:
  assumes "sealed_ops x r leaves ws pending = Inr ops" and "st_db s = apply_batch ops d"
    and "st_read_err s = (\<lambda>_ _. None)"
  shows "get_epoch x s (er_id r) = Inr (Some r)"
  using sealed_epoch_cell [OF assms(1), of d] epoch_codec assms(2,3) by (auto simp: get_epoch_def fj_read_def)

lemma sealed_leaf_owner:
  assumes "sealed_ops x r leaves ws pending = Inr ops" and "st_db s = apply_batch ops d"
    and "st_read_err s = (\<lambda>_ _. None)" and "e \<in> set leaves" and "distinct (map le_leaf leaves)"
  shows "get_leaf_owner s (le_leaf e) = Inr (Some (le_submitter_did e))"
  using sealed_owner_cell [OF assms(1,4,5), of d] assms(2,3) by (simp add: get_leaf_owner_def fj_read_def)

lemma sealed_pending_lookup:
  assumes ops: "sealed_ops x r leaves ws (Some p) = Inr ops" and db: "st_db s = apply_batch ops d"
    and rd: "st_read_err s = (\<lambda>_ _. None)"
    and leaf: "leaf_hashes x p = Inr ls" "l \<in> set ls" and m: "m \<in> set (pe_methods p)"
  shows "get_pending_epoch_for_leaf s l m = Inr (Some (pe_epoch_id p))"
    and "is_epoch_pending x s (pe_epoch_id p) m = Inr True"
proof -
  obtain p_ops encoded w_ops where *: "pending_ops x p = Inr p_ops" "enc_epoch x r = Inr encoded"
    "write_witnesses x ws = Inr w_ops"
    "ops = p_ops @ [Put_epochs (to_be_bytes (er_id r)) encoded] @ leaf_ops (er_id r) leaves @ w_ops"
    using ops by (auto elim!: sealed_ops_InrD)
  obtain json where json: "enc_pending x p = Inr json"
    and p_ops: "set p_ops = insert (Put_pending_anchors (to_be_bytes (pe_epoch_id p)) json)
       {Put_pending_leaves (compose_leaf_to_tips_key l (method_byte m)) (to_be_bytes (pe_epoch_id p))
         |l m. l \<in> set ls \<and> m \<in> set (pe_methods p)}"
    using *(1) leaf(1) by (auto elim!: pending_ops_InrD)
  have "Put_pending_leaves (compose_leaf_to_tips_key l (method_byte m)) (to_be_bytes (pe_epoch_id p)) \<in> set ops"
    using leaf(2) m by (auto simp: *(4) p_ops)
  then have ex: "\<exists>o'\<in>set ops. op_key o' = (P_pending_leaves, compose_leaf_to_tips_key l (method_byte m))"
    by (metis op_key.simps(10))
  have "db_get P_pending_leaves (apply_batch ops d) (compose_leaf_to_tips_key l (method_byte m)) = Some (Raw (to_be_bytes (pe_epoch_id p)))"
    using write_witnesses_parts [OF *(3)]
    by (intro db_get_assigned ex) (fastforce simp: *(4) leaf_ops_set p_ops)
  then show "get_pending_epoch_for_leaf s l m = Inr (Some (pe_epoch_id p))"
    using rd by (simp add: get_pending_epoch_for_leaf_def db fj_read_def)
  have "db_get P_pending_anchors (apply_batch ops d) (to_be_bytes (pe_epoch_id p)) = Some (Blob json)"
    using write_witnesses_parts [OF *(3)]
    by (intro db_get_assigned) (fastforce simp: *(4) leaf_ops_set p_ops)+
  then show "is_epoch_pending x s (pe_epoch_id p) m = Inr True"
    using rd m pending_codec [OF json] by (simp add: is_epoch_pending_def db fj_read_def)
qed

end

section \<open>Serving a method\<close>

lemma minted_ops_InrD:
  assumes "minted_ops x remaining done ws s = Inr ops"
  obtains w_ops leaves dels p_ops where "write_witnesses x ws = Inr w_ops"
    "leaf_hashes x remaining = Inr leaves"
    "collect_results (retired_lookup s (pe_epoch_id remaining) done) leaves = Inr dels"
    "ops = w_ops @ map (\<lambda>w. Put_self_checked_tips (mw_signature_hash w)) ws @ concat dels @ p_ops"
    "\<forall>o'\<in>set p_ops. op_key o' = (P_pending_anchors, to_be_bytes (pe_epoch_id remaining))"
    "pe_methods remaining = [] \<longrightarrow> p_ops = [Del_pending_anchors (to_be_bytes (pe_epoch_id remaining))]"
    "pe_methods remaining \<noteq> [] \<longrightarrow> (\<exists>json. enc_pending x remaining = Inr json
        \<and> p_ops = [Put_pending_anchors (to_be_bytes (pe_epoch_id remaining)) json])"
proof -
  from assms obtain w_ops leaves dels p_ops where *: "write_witnesses x ws = Inr w_ops"
    "leaf_hashes x remaining = Inr leaves"
    "collect_results (retired_lookup s (pe_epoch_id remaining) done) leaves = Inr dels"
    "(if pe_methods remaining = [] then Inr [Del_pending_anchors (to_be_bytes (pe_epoch_id remaining))]
      else and_then (map_err SE_WitnessJson (enc_pending x remaining)) (\<lambda>json.
           Inr [Put_pending_anchors (to_be_bytes (pe_epoch_id remaining)) json])) = Inr p_ops"
    "ops = w_ops @ map (\<lambda>w. Put_self_checked_tips (mw_signature_hash w)) ws @ concat dels @ p_ops"
    unfolding minted_ops_def by auto
  show thesis
    by (rule that [OF *(1,2,3,5)]) (use *(4) in \<open>auto split: if_splits\<close>)
qed

lemma retired_lookup_set:
  assumes "collect_results (retired_lookup s n done) leaves = Inr dels"
  shows "set (concat dels) = Del_pending_leaves ` {k. \<exists>l\<in>set leaves. k = compose_leaf_to_tips_key l (method_byte done)
           \<and> part_get (db_pending_leaves (st_db s)) k = Some (to_be_bytes n)}"
proof -
  have "retired_lookup s n done l = Inr os \<Longrightarrow> set os = Del_pending_leaves `
      {k. k = compose_leaf_to_tips_key l (method_byte done) \<and> part_get (db_pending_leaves (st_db s)) k = Some (to_be_bytes n)}"
    for l os
    by (auto simp: retired_lookup_def Let_def)
  then have "set (dels ! i) = Del_pending_leaves ` {k. k = compose_leaf_to_tips_key (leaves ! i) (method_byte done)
      \<and> part_get (db_pending_leaves (st_db s)) k = Some (to_be_bytes n)}" if "i < length leaves" for i
    using collect_results_InrD [OF assms] that by blast
  moreover have "set (concat dels) = (\<Union>i<length leaves. set (dels ! i))"
    using collect_results_InrD [OF assms] by (auto simp: set_conv_nth [of dels])
  ultimately have "set (concat dels) = (\<Union>i<length leaves. Del_pending_leaves ` {k. k = compose_leaf_to_tips_key (leaves ! i) (method_byte done)
      \<and> part_get (db_pending_leaves (st_db s)) k = Some (to_be_bytes n)})"
    by simp
  moreover have "{k. \<exists>l\<in>set leaves. k = compose_leaf_to_tips_key l (method_byte done)
      \<and> part_get (db_pending_leaves (st_db s)) k = Some (to_be_bytes n)} =
    (\<Union>i<length leaves. {k. k = compose_leaf_to_tips_key (leaves ! i) (method_byte done)
      \<and> part_get (db_pending_leaves (st_db s)) k = Some (to_be_bytes n)})"
    by (auto simp: in_set_conv_nth [of _ leaves])
  ultimately show ?thesis
    by (simp only: image_UN)
qed

lemma minted_ops_set:
  assumes "minted_ops x remaining done ws s = Inr ops"
  obtains w_ops leaves p_ops where "write_witnesses x ws = Inr w_ops"
    "leaf_hashes x remaining = Inr leaves"
    "set ops = set w_ops \<union> (\<lambda>w. Put_self_checked_tips (mw_signature_hash w)) ` set ws \<union>
       Del_pending_leaves ` {k. \<exists>l\<in>set leaves. k = compose_leaf_to_tips_key l (method_byte done)
           \<and> part_get (db_pending_leaves (st_db s)) k = Some (to_be_bytes (pe_epoch_id remaining))} \<union> set p_ops"
    "\<forall>o'\<in>set p_ops. op_key o' = (P_pending_anchors, to_be_bytes (pe_epoch_id remaining))"
proof -
  obtain w_ops leaves dels p_ops where *: "write_witnesses x ws = Inr w_ops"
    "leaf_hashes x remaining = Inr leaves"
    "collect_results (retired_lookup s (pe_epoch_id remaining) done) leaves = Inr dels"
    "ops = w_ops @ map (\<lambda>w. Put_self_checked_tips (mw_signature_hash w)) ws @ concat dels @ p_ops"
    "\<forall>o'\<in>set p_ops. op_key o' = (P_pending_anchors, to_be_bytes (pe_epoch_id remaining))"
    using assms by (rule minted_ops_InrD)
  show thesis
    by (rule that [OF *(1,2) _ *(5)])
      (simp only: *(4) set_append set_map retired_lookup_set [OF *(3)] Un_assoc)
qed

lemma minted_self_checked:
  assumes "minted_ops x remaining done ws s = Inr ops"
  shows "part_get (db_self_checked_tips (apply_batch ops d)) k \<noteq> None \<longleftrightarrow>
    k \<in> mw_signature_hash ` set ws \<or> part_get (db_self_checked_tips d) k \<noteq> None"
proof -
  obtain w_ops leaves p_ops where *: "write_witnesses x ws = Inr w_ops"
    "set ops = set w_ops \<union> (\<lambda>w. Put_self_checked_tips (mw_signature_hash w)) ` set ws \<union>
       Del_pending_leaves ` {k. \<exists>l\<in>set leaves. k = compose_leaf_to_tips_key l (method_byte done)
           \<and> part_get (db_pending_leaves (st_db s)) k = Some (to_be_bytes (pe_epoch_id remaining))} \<union> set p_ops"
    "\<forall>o'\<in>set p_ops. op_key o' = (P_pending_anchors, to_be_bytes (pe_epoch_id remaining))"
    using assms by (rule minted_ops_set)
  have key: "o' \<in> set ops \<Longrightarrow> op_key o' = (P_self_checked_tips, k) \<Longrightarrow>
      op_cell o' = Some Mark \<and> k \<in> mw_signature_hash ` set ws" for o'
    using write_witnesses_parts [OF *(1), of o'] *(3) by (auto simp: *(2))
  have "db_get P_self_checked_tips (apply_batch ops d) k =
      (if k \<in> mw_signature_hash ` set ws then Some Mark else db_get P_self_checked_tips d k)"
  proof (cases "k \<in> mw_signature_hash ` set ws")
    case True
    then have "Put_self_checked_tips k \<in> set ops"
      by (auto simp: *(2))
    then have "\<exists>o'\<in>set ops. op_key o' = (P_self_checked_tips, k)"
      by (metis op_key.simps(11))
    then show ?thesis
      using key True by (simp add: db_get_assigned)
  next
    case False
    then have "db_get P_self_checked_tips (apply_batch ops d) k = db_get P_self_checked_tips d k"
      by (intro db_get_untouched) (use key in blast)
    then show ?thesis
      by (simp only: False if_False)
  qed
  then show ?thesis
    by (cases "part_get (db_self_checked_tips d) k") (auto simp: db_get.simps split: if_splits)
qed

text \<open>
  The pending lookups after a method is served: exactly those of its own epoch and method are gone;
  one that points to a later epoch, or belongs to another leaf or method, is kept.
\<close>

lemma minted_pending_lookups:
  assumes ops: "minted_ops x remaining done ws s = Inr ops" and leaves: "leaf_hashes x remaining = Inr leaves"
  shows "part_get (db_pending_leaves (apply_batch ops (st_db s))) k =
    (if (\<exists>l\<in>set leaves. k = compose_leaf_to_tips_key l (method_byte done))
        \<and> part_get (db_pending_leaves (st_db s)) k = Some (to_be_bytes (pe_epoch_id remaining))
     then None else part_get (db_pending_leaves (st_db s)) k)"
proof -
  let ?gone = "{k. \<exists>l\<in>set leaves. k = compose_leaf_to_tips_key l (method_byte done)
           \<and> part_get (db_pending_leaves (st_db s)) k = Some (to_be_bytes (pe_epoch_id remaining))}"
  obtain w_ops leaves' p_ops where *: "write_witnesses x ws = Inr w_ops" "leaf_hashes x remaining = Inr leaves'"
    "set ops = set w_ops \<union> (\<lambda>w. Put_self_checked_tips (mw_signature_hash w)) ` set ws \<union>
       Del_pending_leaves ` {k. \<exists>l\<in>set leaves'. k = compose_leaf_to_tips_key l (method_byte done)
           \<and> part_get (db_pending_leaves (st_db s)) k = Some (to_be_bytes (pe_epoch_id remaining))} \<union> set p_ops"
    "\<forall>o'\<in>set p_ops. op_key o' = (P_pending_anchors, to_be_bytes (pe_epoch_id remaining))"
    using ops by (rule minted_ops_set)
  have set_ops: "set ops = set w_ops \<union> (\<lambda>w. Put_self_checked_tips (mw_signature_hash w)) ` set ws \<union>
      Del_pending_leaves ` ?gone \<union> set p_ops"
    using *(2,3) leaves by simp
  have key: "o' \<in> set ops \<Longrightarrow> op_key o' = (P_pending_leaves, k) \<Longrightarrow> op_cell o' = None \<and> k \<in> ?gone" for o'
    using write_witnesses_parts [OF *(1), of o'] *(4) by (auto simp: set_ops)
  have "db_get P_pending_leaves (apply_batch ops (st_db s)) k =
      (if k \<in> ?gone then None else db_get P_pending_leaves (st_db s) k)"
  proof (cases "k \<in> ?gone")
    case True
    then have "Del_pending_leaves k \<in> set ops"
      by (simp add: set_ops)
    then have "\<exists>o'\<in>set ops. op_key o' = (P_pending_leaves, k)"
      by (metis op_key.simps(12))
    then show ?thesis
      using key True by (simp add: db_get_assigned)
  next
    case False
    then have "db_get P_pending_leaves (apply_batch ops (st_db s)) k = db_get P_pending_leaves (st_db s) k"
      by (intro db_get_untouched) (use key in blast)
    then show ?thesis
      by (simp only: False if_False)
  qed
  then show ?thesis
    by (cases "k \<in> ?gone") (auto simp: db_get.simps option.map_comp dest: option.inj_map_strong [rotated])
qed

lemma minted_tip_cells:
  assumes ops: "minted_ops x remaining done ws s = Inr ops" and w: "w \<in> set ws"
    and sig: "distinct (map mw_signature_hash ws)" and leaf: "distinct (map (\<lambda>w. (mw_leaf w, mw_method w)) ws)"
  shows "\<exists>ib. enc_tip_pair x (tip_index_of w) = Inr ib
      \<and> part_get (db_tip_to_pair (apply_batch ops d)) (mw_signature_hash w) = Some ib"
    and "part_get (db_leaf_to_tips (apply_batch ops d)) (compose_leaf_to_tips_key (mw_leaf w) (method_byte (mw_method w)))
      = Some (mw_signature_hash w)"
proof -
  obtain w_ops leaves p_ops where *: "write_witnesses x ws = Inr w_ops"
    "set ops = set w_ops \<union> (\<lambda>w. Put_self_checked_tips (mw_signature_hash w)) ` set ws \<union>
       Del_pending_leaves ` {k. \<exists>l\<in>set leaves. k = compose_leaf_to_tips_key l (method_byte done)
           \<and> part_get (db_pending_leaves (st_db s)) k = Some (to_be_bytes (pe_epoch_id remaining))} \<union> set p_ops"
    "\<forall>o'\<in>set p_ops. op_key o' = (P_pending_anchors, to_be_bytes (pe_epoch_id remaining))"
    using ops by (rule minted_ops_set)
  obtain os where os: "witness_ops x w = Inr os"
    using write_witnesses_InrD(2) [OF *(1) w] by blast
  then obtain ib where ib: "enc_tip_pair x (tip_index_of w) = Inr ib"
    and mem: "Put_tip_to_pair (mw_signature_hash w) ib \<in> set os"
      "Put_leaf_to_tips (compose_leaf_to_tips_key (mw_leaf w) (method_byte (mw_method w))) (mw_signature_hash w) \<in> set os"
    by (auto elim!: witness_ops_InrD)
  have in_ops: "o' \<in> set os \<Longrightarrow> o' \<in> set ops" for o'
    using *(2) os w write_witnesses_InrD(1) [OF *(1)] by blast
  have same_sig: "w' \<in> set ws \<Longrightarrow> mw_signature_hash w' = mw_signature_hash w \<Longrightarrow> w' = w" for w'
    using sig w by (meson distinct_map inj_onD)
  have same_leaf: "w' \<in> set ws \<Longrightarrow> mw_leaf w' = mw_leaf w \<Longrightarrow> mw_method w' = mw_method w \<Longrightarrow> w' = w" for w'
    using leaf w unfolding distinct_map inj_on_def by blast
  have from_w: "\<exists>w'\<in>set ws. \<exists>os'. witness_ops x w' = Inr os' \<and> o' \<in> set os'"
    if "o' \<in> set ops" "fst (op_key o') \<in> {P_tip_to_pair, P_leaf_to_tips}" for o'
    using that *(3) write_witnesses_InrD(1) [OF *(1)] by (auto simp: *(2))
  have "db_get P_tip_to_pair (apply_batch ops d) (mw_signature_hash w) = Some (Blob ib)"
  proof (rule db_get_assigned)
    show "op_cell o' = Some (Blob ib)" if o': "o' \<in> set ops" "op_key o' = (P_tip_to_pair, mw_signature_hash w)" for o'
      using from_w [OF o'(1)] o'(2) ib by (auto elim!: witness_ops_InrD dest!: same_sig)
    show "\<exists>o'\<in>set ops. op_key o' = (P_tip_to_pair, mw_signature_hash w)"
      using in_ops [OF mem(1)] by (metis op_key.simps(6))
  qed
  with ib show "\<exists>ib. enc_tip_pair x (tip_index_of w) = Inr ib
      \<and> part_get (db_tip_to_pair (apply_batch ops d)) (mw_signature_hash w) = Some ib"
    by simp
  have "db_get P_leaf_to_tips (apply_batch ops d) (compose_leaf_to_tips_key (mw_leaf w) (method_byte (mw_method w)))
      = Some (Raw (mw_signature_hash w))"
  proof (rule db_get_assigned)
    show "op_cell o' = Some (Raw (mw_signature_hash w))" if o': "o' \<in> set ops"
      "op_key o' = (P_leaf_to_tips, compose_leaf_to_tips_key (mw_leaf w) (method_byte (mw_method w)))" for o'
      using from_w [OF o'(1)] o'(2) by (auto elim!: witness_ops_InrD dest!: same_leaf)
    show "\<exists>o'\<in>set ops. op_key o' = (P_leaf_to_tips, compose_leaf_to_tips_key (mw_leaf w) (method_byte (mw_method w)))"
      using in_ops [OF mem(2)] by (metis op_key.simps(4))
  qed
  then show "part_get (db_leaf_to_tips (apply_batch ops d)) (compose_leaf_to_tips_key (mw_leaf w) (method_byte (mw_method w)))
      = Some (mw_signature_hash w)"
    by simp
qed

text \<open>The two revisions of a served witness, when no two revisions of the batch share a hash.\<close>

lemma minted_revision_cells:
  assumes ops: "minted_ops x remaining done ws s = Inr ops" and w: "w \<in> set ws"
    and dist: "distinct (map mw_object_hash ws @ map mw_signature_hash ws)"
  shows "\<exists>b. enc_revision x (mw_object_revision w) = Inr b
      \<and> part_get (db_witness_revisions (apply_batch ops d)) (mw_object_hash w) = Some b"
    and "\<exists>b. enc_revision x (mw_signature_revision w) = Inr b
      \<and> part_get (db_witness_revisions (apply_batch ops d)) (mw_signature_hash w) = Some b"
proof -
  obtain w_ops leaves p_ops where *: "write_witnesses x ws = Inr w_ops"
    "set ops = set w_ops \<union> (\<lambda>w. Put_self_checked_tips (mw_signature_hash w)) ` set ws \<union>
       Del_pending_leaves ` {k. \<exists>l\<in>set leaves. k = compose_leaf_to_tips_key l (method_byte done)
           \<and> part_get (db_pending_leaves (st_db s)) k = Some (to_be_bytes (pe_epoch_id remaining))} \<union> set p_ops"
    "\<forall>o'\<in>set p_ops. op_key o' = (P_pending_anchors, to_be_bytes (pe_epoch_id remaining))"
    using ops by (rule minted_ops_set)
  obtain os where os: "witness_ops x w = Inr os"
    using write_witnesses_InrD(2) [OF *(1) w] by blast
  then obtain oj sj where oj: "enc_revision x (mw_object_revision w) = Inr oj" "Put_witness_revisions (mw_object_hash w) oj \<in> set os"
    and sj: "enc_revision x (mw_signature_revision w) = Inr sj" "Put_witness_revisions (mw_signature_hash w) sj \<in> set os"
    by (auto elim!: witness_ops_InrD)
  have in_ops: "o' \<in> set os \<Longrightarrow> o' \<in> set ops" for o'
    using *(2) os w write_witnesses_InrD(1) [OF *(1)] by blast
  have from_w: "\<exists>w'\<in>set ws. \<exists>os'. witness_ops x w' = Inr os' \<and> o' \<in> set os'"
    if "o' \<in> set ops" "fst (op_key o') = P_witness_revisions" for o'
    using that *(3) write_witnesses_InrD(1) [OF *(1)] by (auto simp: *(2))
  have same: "w' \<in> set ws \<Longrightarrow> mw_object_hash w' = mw_object_hash w \<Longrightarrow> w' = w"
    "w' \<in> set ws \<Longrightarrow> mw_signature_hash w' = mw_signature_hash w \<Longrightarrow> w' = w"
    "w' \<in> set ws \<Longrightarrow> mw_object_hash w' \<noteq> mw_signature_hash w"
    "w' \<in> set ws \<Longrightarrow> mw_signature_hash w' \<noteq> mw_object_hash w" for w'
    using dist w by (auto simp: distinct_map inj_on_def)
  have "db_get P_witness_revisions (apply_batch ops d) (mw_object_hash w) = Some (Blob oj)"
  proof (rule db_get_assigned)
    show "op_cell o' = Some (Blob oj)" if o': "o' \<in> set ops" "op_key o' = (P_witness_revisions, mw_object_hash w)" for o'
    proof -
      obtain w' os' where w': "w' \<in> set ws" "witness_ops x w' = Inr os'" "o' \<in> set os'"
        using from_w [OF o'(1)] o'(2) by auto
      then show ?thesis
        using o'(2) oj(1) same(1) [OF w'(1)] same(4) [OF w'(1)] by (auto elim!: witness_ops_InrD)
    qed
    show "\<exists>o'\<in>set ops. op_key o' = (P_witness_revisions, mw_object_hash w)"
      using in_ops [OF oj(2)] by (metis op_key.simps(3))
  qed
  with oj(1) show "\<exists>b. enc_revision x (mw_object_revision w) = Inr b
      \<and> part_get (db_witness_revisions (apply_batch ops d)) (mw_object_hash w) = Some b"
    by simp
  have "db_get P_witness_revisions (apply_batch ops d) (mw_signature_hash w) = Some (Blob sj)"
  proof (rule db_get_assigned)
    show "op_cell o' = Some (Blob sj)" if o': "o' \<in> set ops" "op_key o' = (P_witness_revisions, mw_signature_hash w)" for o'
    proof -
      obtain w' os' where w': "w' \<in> set ws" "witness_ops x w' = Inr os'" "o' \<in> set os'"
        using from_w [OF o'(1)] o'(2) by auto
      then show ?thesis
        using o'(2) sj(1) same(2) [OF w'(1)] same(3) [OF w'(1)] by (auto elim!: witness_ops_InrD)
    qed
    show "\<exists>o'\<in>set ops. op_key o' = (P_witness_revisions, mw_signature_hash w)"
      using in_ops [OF sj(2)] by (metis op_key.simps(3))
  qed
  with sj(1) show "\<exists>b. enc_revision x (mw_signature_revision w) = Inr b
      \<and> part_get (db_witness_revisions (apply_batch ops d)) (mw_signature_hash w) = Some b"
    by simp
qed

text \<open>The pending record after a method is served, and when a served batch can be built.\<close>

lemma minted_pending_record:
  assumes ops: "minted_ops x remaining done ws s = Inr ops"
  shows "if pe_methods remaining = []
    then part_get (db_pending_anchors (apply_batch ops d)) (to_be_bytes (pe_epoch_id remaining)) = None
    else \<exists>b. enc_pending x remaining = Inr b
      \<and> part_get (db_pending_anchors (apply_batch ops d)) (to_be_bytes (pe_epoch_id remaining)) = Some b"
proof -
  obtain w_ops leaves dels p_ops where *: "write_witnesses x ws = Inr w_ops" "leaf_hashes x remaining = Inr leaves"
    "collect_results (retired_lookup s (pe_epoch_id remaining) done) leaves = Inr dels"
    "ops = w_ops @ map (\<lambda>w. Put_self_checked_tips (mw_signature_hash w)) ws @ concat dels @ p_ops"
    "\<forall>o'\<in>set p_ops. op_key o' = (P_pending_anchors, to_be_bytes (pe_epoch_id remaining))"
    "pe_methods remaining = [] \<longrightarrow> p_ops = [Del_pending_anchors (to_be_bytes (pe_epoch_id remaining))]"
    "pe_methods remaining \<noteq> [] \<longrightarrow> (\<exists>json. enc_pending x remaining = Inr json
        \<and> p_ops = [Put_pending_anchors (to_be_bytes (pe_epoch_id remaining)) json])"
    using ops by (rule minted_ops_InrD)
  show ?thesis
    using *(6,7) by (cases "pe_methods remaining = []") (auto simp: *(4))
qed

section \<open>The epoch log\<close>

text \<open>The sealed epochs in ascending order, as the \<open>epochs\<close> partition holds them.\<close>

definition epochs_ok :: "('b, 'z) store_api_scheme \<Rightarrow> 'b db \<Rightarrow> bool" where
  "epochs_ok x d \<longleftrightarrow> part_wf (db_epochs d)
     \<and> (\<forall>(k, v)\<in>set (db_epochs d). \<exists>r. dec_epoch x v = Inr r \<and> k = to_be_bytes (er_id r))"

definition epoch_log :: "('b, 'z) store_api_scheme \<Rightarrow> 'b db \<Rightarrow> epoch_record list" where
  "epoch_log x d = map (\<lambda>(k, v). projr (dec_epoch x v)) (db_epochs d)"

definition epochs_upto :: "('b, 'z) store_api_scheme \<Rightarrow> 'b db \<Rightarrow> u64 \<Rightarrow> epoch_record list" where
  "epochs_upto x d n = rev (filter (\<lambda>r. er_id r \<le> n) (epoch_log x d))"

lemma epochs_ok_keys:
  "epochs_ok x d \<Longrightarrow> map fst (db_epochs d) = map (\<lambda>r. to_be_bytes (er_id r)) (epoch_log x d)"
  by (auto simp: epochs_ok_def epoch_log_def)

lemma epoch_log_sorted: "epochs_ok x d \<Longrightarrow> sorted_wrt (\<lambda>r r'. er_id r < er_id r') (epoch_log x d)"
  using epochs_ok_keys [of x d]
  by (simp add: epochs_ok_def part_wf_def sorted_wrt_map [symmetric, of "(<)" "\<lambda>r. to_be_bytes (er_id r)"])
    (simp add: sorted_wrt_map)

lemma range_to_log:
  assumes "epochs_ok x d"
  shows "map (\<lambda>(k, v). projr (dec_epoch x v)) (rev (part_range_to (to_be_bytes n) (db_epochs d))) = epochs_upto x d n"
proof -
  have "filter (\<lambda>(k, v). k \<le> to_be_bytes n) p = filter (\<lambda>(k, v). er_id (projr (dec_epoch x v)) \<le> n) p"
    if "\<forall>(k, v)\<in>set p. \<exists>r. dec_epoch x v = Inr r \<and> k = to_be_bytes (er_id r)" for p
    using that by (intro filter_cong) auto
  then show ?thesis
    using assms by (simp add: epochs_ok_def part_range_to_def epochs_upto_def epoch_log_def filter_map
        rev_map comp_def case_prod_unfold)
qed

lemma list_epochs_loop_eq:
  assumes "\<forall>(k, v)\<in>set kvs. \<exists>r. dec_epoch x v = Inr r" "st_read_err s = (\<lambda>_ _. None)" "length out \<le> limit"
  shows "list_epochs_loop x s limit kvs out =
    (let recs = map (\<lambda>(k, v). projr (dec_epoch x v)) kvs; n = limit - length out
     in Inr (out @ take n recs, if n < length recs then Some (er_id (recs ! n)) else None))"
  using assms
proof (induction kvs arbitrary: out)
  case Nil
  then show ?case by simp
next
  case (Cons kv kvs)
  obtain k v where kv: "kv = (k, v)" by fastforce
  then obtain r where r: "dec_epoch x v = Inr r"
    using Cons.prems(1) by auto
  show ?case
  proof (cases "length out = limit")
    case True
    then show ?thesis
      using kv r Cons.prems(2) by (simp add: fj_read_def)
  next
    case False
    then have n: "limit - length out = Suc (limit - length (out @ [r]))"
      using Cons.prems(3) by simp
    show ?thesis
      using Cons.IH [of "out @ [r]"] Cons.prems False kv r
      unfolding n by (simp add: fj_read_def Let_def)
  qed
qed

lemma filter_desc_drop:
  fixes f :: "'a \<Rightarrow> u64"
  assumes "sorted_wrt (\<lambda>a b. f b < f a) L" "i < length L"
  shows "filter (\<lambda>a. f a \<le> f (L ! i)) L = drop i L"
  using assms
proof (induction L arbitrary: i)
  case Nil
  then show ?case by simp
next
  case (Cons a L)
  show ?case
  proof (cases i)
    case 0
    then show ?thesis using Cons.prems(1) by (auto simp: filter_id_conv)
  next
    case (Suc j)
    then have "\<not> f a \<le> f (L ! j)"
      using Cons.prems by (simp add: not_le)
    then show ?thesis using Cons Suc by simp
  qed
qed

lemma epochs_upto_desc: "epochs_ok x d \<Longrightarrow> sorted_wrt (\<lambda>a b. er_id b < er_id a) (epochs_upto x d n)"
  unfolding epochs_upto_def sorted_wrt_rev using epoch_log_sorted sorted_wrt_filter by blast

lemma epochs_upto_drop:
  assumes "epochs_ok x d" "i < length (epochs_upto x d n)"
  shows "epochs_upto x d (er_id (epochs_upto x d n ! i)) = drop i (epochs_upto x d n)"
proof -
  let ?c = "er_id (epochs_upto x d n ! i)"
  have "?c \<le> n"
    using assms(2) nth_mem [OF assms(2)] by (auto simp: epochs_upto_def)
  then have "epochs_upto x d ?c = filter (\<lambda>r. er_id r \<le> ?c) (epochs_upto x d n)"
    unfolding epochs_upto_def by (simp add: rev_filter [symmetric]) (intro filter_cong, auto)
  also have "\<dots> = drop i (epochs_upto x d n)"
    by (rule filter_desc_drop [OF epochs_upto_desc [OF assms(1)] assms(2)])
  finally show ?thesis .
qed

lemma epochs_ok_batch:
  assumes "epochs_ok x d"
    and "\<And>k v. Put_epochs k v \<in> set ops \<Longrightarrow> \<exists>r. dec_epoch x v = Inr r \<and> k = to_be_bytes (er_id r)"
  shows "epochs_ok x (apply_batch ops d)"
  using assms
proof (induction ops arbitrary: d)
  case Nil
  then show ?case by simp
next
  case (Cons o' ops)
  have "epochs_ok x (apply_op o' d)"
  proof (cases "\<exists>k v. o' = Put_epochs k v")
    case True
    then obtain k v where o': "o' = Put_epochs k v" by blast
    then have kv: "\<exists>r. dec_epoch x v = Inr r \<and> k = to_be_bytes (er_id r)"
      using Cons.prems(2) [of k v] by simp
    show ?thesis
      using Cons.prems(1) kv set_part_insert [of k v "db_epochs d"] o' by (auto simp: epochs_ok_def)
  next
    case False
    then have "db_epochs (apply_op o' d) = db_epochs d"
      by (cases o') auto
    then show ?thesis using Cons.prems(1) by (simp add: epochs_ok_def)
  qed
  then show ?case
    using Cons by simp
qed

context store_codec
begin

lemma sealed_puts_epoch:
  assumes "sealed_ops x r leaves ws pending = Inr ops" "Put_epochs k v \<in> set ops"
  shows "dec_epoch x v = Inr r \<and> k = to_be_bytes (er_id r)"
proof -
  obtain p_ops encoded w_ops where *: "case pending of None \<Rightarrow> p_ops = [] | Some p \<Rightarrow> pending_ops x p = Inr p_ops"
    "enc_epoch x r = Inr encoded" "write_witnesses x ws = Inr w_ops"
    "ops = p_ops @ [Put_epochs (to_be_bytes (er_id r)) encoded] @ leaf_ops (er_id r) leaves @ w_ops"
    using assms(1) by (rule sealed_ops_InrD)
  show ?thesis
    using assms(2) pending_ops_parts [OF *(1), of "Put_epochs k v"] write_witnesses_parts [OF *(3), of "Put_epochs k v"]
      epoch_codec [OF *(2)]
    by (auto simp: *(4) leaf_ops_set)
qed

lemma sealed_epochs_ok:
  "sealed_ops x r leaves ws pending = Inr ops \<Longrightarrow> epochs_ok x d \<Longrightarrow> epochs_ok x (apply_batch ops d)"
  by (rule epochs_ok_batch) (auto dest: sealed_puts_epoch)

end

section \<open>A reference codec\<close>

datatype ref_blob = B_epoch epoch_record | B_tip tip_pair_index | B_contributor contributor_entry
  | B_pending pending_epoch | B_revision any_revision

definition ref_store_api :: "did \<Rightarrow> ref_blob store_api" where
  "ref_store_api signer = sdk_api.extend (ref_sdk signer)
     (store_api.fields
       (\<lambda>r. Inr (B_epoch r)) (\<lambda>b. case b of B_epoch r \<Rightarrow> Inr r | _ \<Rightarrow> Inl ''not an epoch'')
       (\<lambda>t. Inr (B_tip t)) (\<lambda>b. case b of B_tip t \<Rightarrow> Inr t | _ \<Rightarrow> Inl ''not a tip'')
       (\<lambda>c. Inr (B_contributor c)) (\<lambda>b. case b of B_contributor c \<Rightarrow> Inr c | _ \<Rightarrow> Inl ''not a contributor'')
       (\<lambda>p. Inr (B_pending p)) (\<lambda>b. case b of B_pending p \<Rightarrow> Inr p | _ \<Rightarrow> Inl ''not a pending epoch'')
       (\<lambda>a. Inr (B_revision a)) (\<lambda>b. case b of B_revision a \<Rightarrow> Inr a | _ \<Rightarrow> Inl ''not a revision''))"

lemma ref_store_api_sdk:
  "sdk_api.truncate (ref_store_api d) = ref_sdk d"
  by (simp add: ref_store_api_def sdk_api.defs)

lemma aqua_sdk_truncate:
  assumes "aqua_sdk (sdk_api.truncate x)"
  shows "aqua_sdk x"
proof -
  have eqs: "hex_encode (sdk_api.truncate x) = hex_encode x" "hex_decode (sdk_api.truncate x) = hex_decode x"
    "link_from_bytes (sdk_api.truncate x) = link_from_bytes x" "link_to_string (sdk_api.truncate x) = link_to_string x"
    "multihash_decode (sdk_api.truncate x) = multihash_decode x"
    "finish_batch_timestamp (sdk_api.truncate x) = finish_batch_timestamp x"
    by (simp_all add: sdk_api.defs)
  from assms show ?thesis
    unfolding aqua_sdk_def aqua_sdk_axioms_def hex_codec_def eqs by blast
qed

interpretation ref_store: store_codec "ref_store_api d" for d
proof -
  have "aqua_sdk (ref_store_api d)"
    by (rule aqua_sdk_truncate) (simp add: ref_store_api_sdk ref.aqua_sdk_axioms)
  then show "store_codec (ref_store_api d)"
    by (rule store_codec.intro, unfold_locales)
      (auto simp: ref_store_api_def sdk_api.defs store_api.defs)
qed

section \<open>Properties\<close>

text \<open>
  C14: A sealed epoch is durable as a whole or not at all.  When persisting returns success, the
  content is synced and the epoch record, the owner of every leaf and the pending lookup of every
  leaf and method read back as written; when it returns an error, nothing of it is on disk.
\<close>

theorem sealed_epoch_all_or_nothing:
  assumes codec: "store_codec x"
    and run: "persist_sealed_epoch_with_pending x rec leaves ws (Some p) s = (r, s')"
    and reads: "st_read_err s = (\<lambda>_ _. None)"
    and dist: "distinct (map le_leaf leaves)" and ls: "leaf_hashes x p = Inr ls"
  shows "case r of
      Inl e \<Rightarrow> st_disk s' = st_disk s
    | Inr _ \<Rightarrow> st_disk s' = st_db s' \<and> get_epoch x s' (er_id rec) = Inr (Some rec)
        \<and> (\<forall>e\<in>set leaves. get_leaf_owner s' (le_leaf e) = Inr (Some (le_submitter_did e)))
        \<and> (\<forall>l\<in>set ls. \<forall>m\<in>set (pe_methods p).
              get_pending_epoch_for_leaf s' l m = Inr (Some (pe_epoch_id p))
              \<and> is_epoch_pending x s' (pe_epoch_id p) m = Inr True)"
proof (cases "sealed_ops x rec leaves ws (Some p)")
  case (Inl e)
  then show ?thesis
    using run by (auto simp: persist_sealed_epoch_with_pending_def)
next
  case (Inr ops)
  then have c: "commit_and_persist ops s = (r, s')"
    using run by (simp add: persist_sealed_epoch_with_pending_def)
  show ?thesis
  proof (cases r)
    case (Inl e)
    with c show ?thesis by (auto elim: commit_cases)
  next
    case (Inr u)
    have db: "st_db s' = apply_batch ops (st_db s)" "st_disk s' = st_db s'" "st_read_err s' = (\<lambda>_ _. None)"
      using commit_Inr [OF c [unfolded Inr]] reads by simp_all
    note ops = \<open>sealed_ops x rec leaves ws (Some p) = Inr ops\<close>
    show ?thesis
      using store_codec.sealed_epoch_readable [OF codec ops db(1,3)]
        store_codec.sealed_leaf_owner [OF codec ops db(1,3) _ dist]
        store_codec.sealed_pending_lookup [OF codec ops db(1,3) ls] db(2) Inr
      by simp
  qed
qed

definition demo_record :: epoch_record where
  "demo_record = \<lparr>er_id = 7, er_opened_at = 100, er_closed_at = 160, er_merkle_root = replicate 32 7,
     er_leaf_count = 2, er_hash_type = HASH_TYPE_LABEL\<rparr>"

definition demo_pending :: pending_epoch where
  "demo_pending = pending_new (ref_sdk ''did:svc'') demo_snapshot demo_batch [Evm, Qtsa]"

abbreviation demo_api :: "ref_blob store_api" where
  "demo_api \<equiv> ref_store_api ''did:svc''"

lemma demo_api_hex [simp]: "hex_encode demo_api = base16_encode" "hex_decode demo_api = base16_decode"
  by (simp_all add: ref_store_api_def sdk_api.defs ref_sdk_def)

lemma demo_pending_eq: "demo_pending = pending_new demo_api demo_snapshot demo_batch [Evm, Qtsa]"
  by (simp add: demo_pending_def pending_new_def hex_lower_bytes_def)

lemma demo_leaf_hashes: "leaf_hashes demo_api demo_pending = Inr [demo_leaf 1, demo_leaf 2]"
  using ref_store.leaf_hashes_new [OF demo_leaves_ok, of "''did:svc''" demo_batch "[Evm, Qtsa]"]
  by (simp add: demo_pending_eq) (simp add: demo_snapshot_def)

lemma demo_sealed_ops: "\<exists>ops. sealed_ops demo_api demo_record (ss_leaves demo_snapshot) [] (Some demo_pending) = Inr ops"
  by (simp add: sealed_ops_def pending_ops_def demo_leaf_hashes) (simp add: ref_store_api_def store_api.defs sdk_api.defs)

theorem sealed_epoch_all_or_nothing_witness:
  "\<exists>s'. persist_sealed_epoch_with_pending demo_api demo_record (ss_leaves demo_snapshot) [] (Some demo_pending)
          (store_open empty_db) = (Inr (), s')
     \<and> st_disk s' = st_db s' \<and> get_epoch demo_api s' 7 = Inr (Some demo_record)"
proof -
  let ?r = "persist_sealed_epoch_with_pending demo_api demo_record (ss_leaves demo_snapshot) [] (Some demo_pending) (store_open empty_db)"
  obtain ops where "sealed_ops demo_api demo_record (ss_leaves demo_snapshot) [] (Some demo_pending) = Inr ops"
    using demo_sealed_ops by blast
  then obtain s' where s': "?r = (Inr (), s')"
    by (simp add: persist_sealed_epoch_with_pending_def store_open_def)
  have "distinct (map le_leaf (ss_leaves demo_snapshot))"
    by (simp add: demo_snapshot_def demo_leaf_def)
  with sealed_epoch_all_or_nothing [OF ref_store.store_codec_axioms s' _ _ demo_leaf_hashes] show ?thesis
    using s' by (simp add: store_open_def demo_record_def)
qed

text \<open>
  C15: Serving a method is one atomic step.  When \<open>persist_pending_minted\<close> succeeds, every witness it
  wrote is found by its tip and by its leaf and method and carries the self-checked mark, and of the
  pending lookups exactly those of this epoch and method are gone: a leaf resubmitted in a later
  pending epoch still points there.
\<close>

theorem pending_minted_serves:
  assumes codec: "store_codec x"
    and run: "persist_pending_minted x remaining done ws s = (Inr u, s')"
    and reads: "st_read_err s = (\<lambda>_ _. None)"
    and sigs: "distinct (map mw_signature_hash ws)" "\<forall>w\<in>set ws. hash32_ok (mw_signature_hash w)"
    and keys: "distinct (map (\<lambda>w. (mw_leaf w, mw_method w)) ws)"
    and ls: "leaf_hashes x remaining = Inr ls"
  shows "(\<forall>w\<in>set ws. is_self_checked s' (mw_signature_hash w) = Inr True
            \<and> get_tip_pair x s' (mw_signature_hash w) = Inr (Some (tip_index_of w))
            \<and> get_tip_for_leaf s' (mw_leaf w) (mw_method w) = Inr (Some (mw_signature_hash w)))
    \<and> (\<forall>l m. get_pending_epoch_for_leaf s' l m =
          (if l \<in> set ls \<and> m = done \<and> get_pending_epoch_for_leaf s l m = Inr (Some (pe_epoch_id remaining))
           then Inr None else get_pending_epoch_for_leaf s l m))
    \<and> st_disk s' = st_db s'"
proof -
  obtain ops where ops: "minted_ops x remaining done ws s = Inr ops" and c: "commit_and_persist ops s = (Inr u, s')"
    using run by (auto simp: persist_pending_minted_def split: sum.splits)
  have db: "st_db s' = apply_batch ops (st_db s)" "st_disk s' = st_db s'" "st_read_err s' = (\<lambda>_ _. None)"
    using commit_Inr [OF c] reads by simp_all
  have served: "is_self_checked s' (mw_signature_hash w) = Inr True
      \<and> get_tip_pair x s' (mw_signature_hash w) = Inr (Some (tip_index_of w))
      \<and> get_tip_for_leaf s' (mw_leaf w) (mw_method w) = Inr (Some (mw_signature_hash w))" if w: "w \<in> set ws" for w
  proof -
    obtain ib where "enc_tip_pair x (tip_index_of w) = Inr ib"
      "part_get (db_tip_to_pair (st_db s')) (mw_signature_hash w) = Some ib"
      using minted_tip_cells(1) [OF ops w sigs(1) keys] unfolding db by blast
    moreover from this(1) have "dec_tip_pair x ib = Inr (tip_index_of w)"
      by (rule store_codec.tip_codec [OF codec])
    ultimately show ?thesis
      using minted_tip_cells(2) [OF ops w sigs(1) keys] minted_self_checked [OF ops, of "st_db s" "mw_signature_hash w"]
        w sigs(2) db
      by (auto simp: is_self_checked_def get_tip_pair_def get_tip_for_leaf_def fj_read_def)
  qed
  have "get_pending_epoch_for_leaf s' l m =
      (if l \<in> set ls \<and> m = done \<and> get_pending_epoch_for_leaf s l m = Inr (Some (pe_epoch_id remaining))
       then Inr None else get_pending_epoch_for_leaf s l m)" for l m
  proof -
    let ?k = "compose_leaf_to_tips_key l (method_byte m)"
    have "get_pending_epoch_for_leaf s l m = Inr (Some (pe_epoch_id remaining)) \<longleftrightarrow>
        part_get (db_pending_leaves (st_db s)) ?k = Some (to_be_bytes (pe_epoch_id remaining))"
      using reads by (auto simp: get_pending_epoch_for_leaf_def fj_read_def u64_from_be_slice_Inr split: option.splits)
    then show ?thesis
      using minted_pending_lookups [OF ops ls, of ?k] db reads
      by (auto simp: get_pending_epoch_for_leaf_def fj_read_def)
  qed
  with served db(2) show ?thesis by blast
qed

definition demo_sealed_store :: "ref_blob store" where
  "demo_sealed_store = snd (persist_sealed_epoch_with_pending demo_api demo_record (ss_leaves demo_snapshot) []
     (Some demo_pending) (store_open empty_db))"

definition demo_witnesses :: "minted_witness list" where
  "demo_witnesses = (case mint_witnesses_for_epoch (ref_sdk ''did:svc'') demo_snapshot demo_batch
     [(Evm, from_value Evm demo_value)] of Minted ws \<Rightarrow> ws | _ \<Rightarrow> [])"

lemma demo_sealed_store_reads: "st_read_err demo_sealed_store = (\<lambda>_ _. None)" "st_writes demo_sealed_store = []"
  by (simp_all add: demo_sealed_store_def persist_sealed_epoch_with_pending_def store_open_def split: sum.splits)

lemma demo_witnesses_keys:
  "distinct (map mw_signature_hash demo_witnesses)" "\<forall>w\<in>set demo_witnesses. hash32_ok (mw_signature_hash w)"
  "distinct (map (\<lambda>w. (mw_leaf w, mw_method w)) demo_witnesses)" "length demo_witnesses = 2"
  by code_simp+

lemma demo_write_witnesses: "\<exists>ops. write_witnesses demo_api ws = Inr ops"
proof -
  have "\<exists>os. witness_ops demo_api w = Inr os" for w
    by (simp add: witness_ops_def ref_store_api_def sdk_api.defs store_api.defs)
  then show ?thesis
    unfolding write_witnesses_def using collect_results_all [of ws "witness_ops demo_api" "\<lambda>w. projr (witness_ops demo_api w)"]
    by (metis and_then_simps(2) sum.sel(2))
qed

lemma demo_enc_pending [simp]: "enc_pending demo_api p = Inr (B_pending p)"
  by (simp add: ref_store_api_def sdk_api.defs store_api.defs)

theorem pending_minted_serves_witness:
  "\<exists>s'. persist_pending_minted demo_api (demo_pending\<lparr>pe_methods := [Qtsa]\<rparr>) Evm demo_witnesses demo_sealed_store = (Inr (), s')
     \<and> length demo_witnesses = 2
     \<and> (\<forall>w\<in>set demo_witnesses. get_tip_pair demo_api s' (mw_signature_hash w) = Inr (Some (tip_index_of w)))"
proof -
  let ?p = "demo_pending\<lparr>pe_methods := [Qtsa]\<rparr>"
  have ls: "leaf_hashes demo_api ?p = Inr [demo_leaf 1, demo_leaf 2]"
    using demo_leaf_hashes by (simp add: leaf_hashes_def)
  obtain w_ops where w_ops: "write_witnesses demo_api demo_witnesses = Inr w_ops"
    using demo_write_witnesses by blast
  have "collect_results (retired_lookup demo_sealed_store n Evm) ls = Inr (map (\<lambda>l. projr (retired_lookup demo_sealed_store n Evm l)) ls)" for n ls
    by (rule collect_results_all) (simp add: retired_lookup_def Let_def fj_read_def demo_sealed_store_reads)
  then obtain ops where "minted_ops demo_api ?p Evm demo_witnesses demo_sealed_store = Inr ops"
    by (simp add: minted_ops_def w_ops ls)
  then obtain s' where s': "persist_pending_minted demo_api ?p Evm demo_witnesses demo_sealed_store = (Inr (), s')"
    by (simp add: persist_pending_minted_def demo_sealed_store_reads)
  from pending_minted_serves [OF ref_store.store_codec_axioms s' demo_sealed_store_reads(1) demo_witnesses_keys(1,2,3) ls]
  show ?thesis
    using s' demo_witnesses_keys(4) by blast
qed

lemma demo_epochs_ok: "epochs_ok demo_api (st_db demo_sealed_store)"
proof -
  obtain ops where ops: "sealed_ops demo_api demo_record (ss_leaves demo_snapshot) [] (Some demo_pending) = Inr ops"
    using demo_sealed_ops by blast
  then have db: "st_db demo_sealed_store = apply_batch ops empty_db"
    by (simp add: demo_sealed_store_def persist_sealed_epoch_with_pending_def store_open_def)
  have "epochs_ok demo_api empty_db"
    by (simp add: epochs_ok_def empty_db_def)
  then show ?thesis
    unfolding db by (rule ref_store.sealed_epochs_ok [OF ops])
qed

text \<open>
  C21: Pagination of the epoch list.  On a store whose epochs are keyed by their ids, a page is the
  first \<open>limit\<close> records of the ids up to \<open>start\<close> in descending order, the cursor is present exactly when
  more records follow, and a page followed by the list its cursor denotes is the list it was taken
  from: following the cursors visits every epoch once, newest first.
\<close>

theorem list_epochs_pages:
  assumes "epochs_ok x (st_db s)" and "st_read_err s = (\<lambda>_ _. None)" and "0 < limit"
  shows "case list_epochs_desc x s start limit of
      Inl e \<Rightarrow> False
    | Inr (page, cursor) \<Rightarrow>
        (let upto = (case start of None \<Rightarrow> u64_max | Some n \<Rightarrow> n); all = epochs_upto x (st_db s) upto
         in page = take limit all
            \<and> (case cursor of None \<Rightarrow> page = all | Some c \<Rightarrow> page @ epochs_upto x (st_db s) c = all))"
proof -
  define n where "n = (case start of None \<Rightarrow> u64_max | Some n \<Rightarrow> n)"
  let ?kvs = "rev (part_range_to (to_be_bytes n) (db_epochs (st_db s)))"
  let ?all = "epochs_upto x (st_db s) n"
  have dec: "\<forall>(k, v)\<in>set ?kvs. \<exists>r. dec_epoch x v = Inr r"
    using assms(1) by (auto simp: epochs_ok_def part_range_to_def)
  have "list_epochs_desc x s start limit = list_epochs_loop x s limit ?kvs []"
    using assms(3) by (auto simp: list_epochs_desc_def n_def split: option.splits)
  also have "\<dots> = Inr (take limit ?all, if limit < length ?all then Some (er_id (?all ! limit)) else None)"
    using list_epochs_loop_eq [OF dec assms(2), of "[]" limit] range_to_log [OF assms(1), of n]
    by (simp add: Let_def)
  finally show ?thesis
    using epochs_upto_drop [OF assms(1), of limit n] by (simp add: n_def [symmetric] Let_def)
qed

theorem list_epochs_pages_witness:
  "case list_epochs_desc demo_api demo_sealed_store None 5 of
     Inl e \<Rightarrow> False
   | Inr (page, cursor) \<Rightarrow> page = take 5 (epochs_upto demo_api (st_db demo_sealed_store) u64_max)"
  using list_epochs_pages [OF demo_epochs_ok demo_sealed_store_reads(1), of 5 None]
  by (auto simp: Let_def split: sum.splits prod.splits)

text \<open>
  The highest sealed epoch.  On such a store \<open>last_sealed_epoch_id\<close> answers \<open>None\<close> exactly when no
  epoch is stored, and otherwise the numerically greatest stored id: the big-endian keys make the
  byte order of the partition the order of the ids.
\<close>

theorem last_sealed_is_maximum:
  assumes "epochs_ok x (st_db s)" and "st_read_err s = (\<lambda>_ _. None)"
  shows "case last_sealed_epoch_id s of
      Inl e \<Rightarrow> False
    | Inr None \<Rightarrow> epoch_log x (st_db s) = []
    | Inr (Some n) \<Rightarrow> n \<in> er_id ` set (epoch_log x (st_db s)) \<and> (\<forall>r\<in>set (epoch_log x (st_db s)). er_id r \<le> n)"
proof (cases "db_epochs (st_db s) = []")
  case True
  then show ?thesis
    by (simp add: last_sealed_epoch_id_def part_last_def epoch_log_def)
next
  case False
  let ?log = "epoch_log x (st_db s)"
  have ne: "?log \<noteq> []"
    using False by (simp add: epoch_log_def)
  have key: "fst (last (db_epochs (st_db s))) = to_be_bytes (er_id (last ?log))"
    using epochs_ok_keys [OF assms(1)] False ne by (metis last_map)
  then have "last_sealed_epoch_id s = Inr (Some (er_id (last ?log)))"
    using False assms(2)
    by (auto simp: last_sealed_epoch_id_def part_last_def fj_read_def split: prod.splits)
  moreover have "er_id r \<le> er_id (last ?log)" if "r \<in> set ?log" for r
  proof -
    have "to_be_bytes (er_id r) \<in> set (map fst (db_epochs (st_db s)))"
      using that epochs_ok_keys [OF assms(1)] by simp
    then obtain v where "part_get (db_epochs (st_db s)) (to_be_bytes (er_id r)) = Some v"
      using assms(1) unfolding epochs_ok_def by (metis map_of_eq_None_iff not_None_eq list.set_map)
    then have "to_be_bytes (er_id r) \<le> fst (last (db_epochs (st_db s)))"
      using part.last_entry_max False assms(1) by (auto simp: epochs_ok_def)
    then show ?thesis by (simp add: key)
  qed
  ultimately show ?thesis
    using ne by simp
qed

theorem last_sealed_is_maximum_witness:
  "case last_sealed_epoch_id demo_sealed_store of
     Inl e \<Rightarrow> False
   | Inr None \<Rightarrow> epoch_log demo_api (st_db demo_sealed_store) = []
   | Inr (Some n) \<Rightarrow> \<forall>r\<in>set (epoch_log demo_api (st_db demo_sealed_store)). er_id r \<le> n"
  using last_sealed_is_maximum [OF demo_epochs_ok demo_sealed_store_reads(1)]
  by (auto split: sum.splits option.splits)

end
