(* ===== verification/Selfcheck.thy ===== *)
theory Selfcheck
  imports Store
begin

text \<open>
  The pre-serve self-check (\<open>crates/aqua-timestamp-core/src/selfcheck.rs\<close>).

  The SDK's public check functions are the fields of \<open>check_api\<close>.  A chain host is what the node
  answers to a request, a TSA host the token verification it performs; both are data of
  \<open>self_check_hosts\<close>.  The reason texts of verdicts are kept as the source formats them, with the
  debug text of SDK values as strings.
\<close>

section \<open>Interface to the SDK's checks\<close>

type_synonym chain_host = "string \<Rightarrow> string"

datatype verify_level = QualifiedVerified | LevelVerified | OtherLevel string

type_synonym web_host = "string \<Rightarrow> string \<Rightarrow> u64 \<Rightarrow> string + verify_level \<times> string"

datatype evm_finality = Finalized | OtherFinality string

datatype evm_invalid_reason = MalformedClaim | ContractMismatch | SenderMismatch | InputMismatch | Reverted

datatype evm_not_evaluable_reason = UnsupportedNetwork | NetworkNotConfigured | NotFound | OtherReason string

datatype evm_anchor_verdict = AnchorVerified | AnchorInvalid evm_invalid_reason
  | AnchorNotEvaluable evm_not_evaluable_reason string

datatype leaf_verdict = LeafVerified | LeafOther string

record 'b check_api = "'b store_api" +
  parse_batch_digest :: "string \<Rightarrow> string + hash32"
  parse_batch_proof :: "json \<Rightarrow> string + hash32 list"
  shielded_leaf :: "revision_link \<Rightarrow> hash32 \<Rightarrow> string + hash32"
  verify_batch_inclusion :: "hash32 \<Rightarrow> u64 \<Rightarrow> u64 \<Rightarrow> hash32 list \<Rightarrow> hash32 \<Rightarrow> string + unit"
  classify_signature_leaf :: "signature_revision \<Rightarrow> revision_link \<Rightarrow> string + leaf_verdict"
  evm_claim_from_payload :: "json \<Rightarrow> string"
  judge_evm_anchor :: "string \<Rightarrow> chain_host \<Rightarrow> evm_finality \<Rightarrow> evm_anchor_verdict"
  invalid_reason_json :: "evm_invalid_reason \<Rightarrow> string"
  not_evaluable_reason_str :: "evm_not_evaluable_reason \<Rightarrow> string"

text \<open>\<open>serde_json::Value::get\<close>, \<open>as_str\<close> and \<open>as_u64\<close>.\<close>

fun json_get :: "json \<Rightarrow> string \<Rightarrow> json option" where
  "json_get (JObj kvs) k = map_of kvs k"
| "json_get _ k = None"

fun json_as_str :: "json \<Rightarrow> string option" where
  "json_as_str (JStr s) = Some s"
| "json_as_str _ = None"

fun json_as_u64 :: "json \<Rightarrow> u64 option" where
  "json_as_u64 (JU64 n) = Some n"
| "json_as_u64 _ = None"

section \<open>Data\<close>

record self_check_hosts =
  sh_blockchain :: "chain_host option"
  sh_tsa :: "web_host option"
  sh_evm_finality :: evm_finality

definition default_hosts :: self_check_hosts where
  "default_hosts = \<lparr>sh_blockchain = None, sh_tsa = None, sh_evm_finality = Finalized\<rparr>"

datatype self_check_verdict = Verified | NotYet string | Missing string
  | Failed (failed_reason: string) (anchor_at_fault: bool)

definition failed :: "string \<Rightarrow> self_check_verdict" where
  "failed reason = Failed reason False"

definition anchor_failed :: "string \<Rightarrow> self_check_verdict" where
  "anchor_failed reason = Failed reason True"

definition ANCHOR_FIELDS :: "string list" where
  "ANCHOR_FIELDS = [''network'', ''transaction_hash'', ''merkle_root'', ''smart_contract_address'',
     ''sender_account_address'', ''tsa_provider'', ''timestamp'']"

definition anchor_fields :: "json \<Rightarrow> json option list" where
  "anchor_fields payloads = map (json_get payloads) ANCHOR_FIELDS"

section \<open>The checks\<close>

definition payload_text :: "json \<Rightarrow> string \<Rightarrow> string + string" where
  "payload_text payloads field =
     (case Option.bind (json_get payloads field) json_as_str of None \<Rightarrow> Inl (''missing '' @ field) | Some s \<Rightarrow> Inr s)"

definition payload_integer :: "json \<Rightarrow> string \<Rightarrow> string + u64" where
  "payload_integer payloads field =
     (case Option.bind (json_get payloads field) json_as_u64 of None \<Rightarrow> Inl (''missing '' @ field) | Some n \<Rightarrow> Inr n)"

text \<open>\<open>Display\<close> of an integer.\<close>

fun show_nat :: "nat \<Rightarrow> string" where
  "show_nat n = (if n < 10 then [char_of (48 + n)] else show_nat (n div 10) @ [char_of (48 + n mod 10)])"

declare show_nat.simps [simp del]

text \<open>\<open>MAX_LEAVES_PER_EPOCH as u64\<close>, with a code equation that does not count in unary.\<close>

definition max_leaves_u64 :: u64 where
  "max_leaves_u64 = of_nat MAX_LEAVES_PER_EPOCH"

lemma max_leaves_u64_code [code]: "max_leaves_u64 = 1048576"
  by (simp add: max_leaves_u64_def MAX_LEAVES_PER_EPOCH_def)

definition batch_inclusion :: "('b, 'z) check_api_scheme \<Rightarrow> json \<Rightarrow> revision_link \<Rightarrow> string + unit" where
  "batch_inclusion x payloads target =
     and_then (payload_text payloads ''merkle_root'') (\<lambda>merkle_root.
     and_then (payload_integer payloads ''batch_tree_size'') (\<lambda>size.
     if size > max_leaves_u64 then Inl (''batch_tree_size '' @ show_nat (unat size) @ '' exceeds the template maximum '' @ show_nat (unat max_leaves_u64))
     else
     and_then (payload_integer payloads ''batch_leaf_index'') (\<lambda>index.
     and_then (case json_get payloads ''merkle_proof'' of None \<Rightarrow> Inl ''missing merkle_proof'' | Some p \<Rightarrow> Inr p) (\<lambda>proof_json.
     and_then (payload_text payloads ''shielding_nonce'') (\<lambda>nonce_text.
     and_then (map_err (\<lambda>e. ''shielding_nonce: '' @ e) (parse_batch_digest x nonce_text)) (\<lambda>nonce.
     and_then (map_err (\<lambda>e. ''merkle_proof: '' @ e) (parse_batch_proof x proof_json)) (\<lambda>pf.
     and_then (map_err (\<lambda>e. ''merkle_root: '' @ e) (parse_batch_root x merkle_root)) (\<lambda>root.
     and_then (map_err (\<lambda>e. ''leaf: '' @ e) (shielded_leaf x target nonce)) (\<lambda>leaf.
     map_err (\<lambda>e. ''the inclusion proof: '' @ e) (verify_batch_inclusion x leaf index size pf root))))))))))"

definition content_and_inclusion :: "('b, 'z) check_api_scheme \<Rightarrow> minted_witness \<Rightarrow> self_check_verdict + json" where
  "content_and_inclusion x w =
     (let leaf_link = link_from_bytes x (mw_leaf w); olink = link_from_bytes x (mw_object_hash w)
      in (case mw_object_revision w of
            Typed object \<Rightarrow>
              (case object_link x Sha3_256 object of
                 Inl e \<Rightarrow> Inl (failed (''timestamp revision hash: '' @ e))
               | Inr link \<Rightarrow>
                   if link \<noteq> olink then Inl (failed ''timestamp revision does not hash to its key'')
                   else if ob_previous object \<noteq> Some leaf_link
                   then Inl (failed ''timestamp revision does not chain to the leaf'')
                   else (case batch_inclusion x (ob_payloads object) leaf_link of
                           Inl reason \<Rightarrow> Inl (failed (''batch inclusion: '' @ reason))
                         | Inr _ \<Rightarrow> Inr (ob_payloads object)))
          | _ \<Rightarrow> Inl (failed ''timestamp revision is not a typed object'')))"

definition check_tsa :: "json \<Rightarrow> self_check_hosts \<Rightarrow> self_check_verdict" where
  "check_tsa payloads hosts =
     (case sh_tsa hosts of
        None \<Rightarrow> failed ''no TSA host configured for the self-check''
      | Some host \<Rightarrow>
          (case (Option.bind (json_get payloads ''transaction_hash'') json_as_str,
                 Option.bind (json_get payloads ''merkle_root'') json_as_str,
                 Option.bind (json_get payloads ''timestamp'') json_as_u64) of
             (Some response, Some root, Some time) \<Rightarrow>
               (case host response root time of
                  Inl e \<Rightarrow> anchor_failed (''TSA token: '' @ e)
                | Inr (QualifiedVerified, _) \<Rightarrow> Verified
                | Inr (LevelVerified, _) \<Rightarrow> Verified
                | Inr (OtherLevel l, message) \<Rightarrow> anchor_failed (''TSA token '' @ l @ '': '' @ message))
           | _ \<Rightarrow> failed ''qTSA payload lacks transaction_hash, merkle_root or timestamp''))"

definition reason_str :: "('b, 'z) check_api_scheme \<Rightarrow> evm_invalid_reason \<Rightarrow> string" where
  "reason_str x r = invalid_reason_json x r"

definition check_evm :: "('b, 'z) check_api_scheme \<Rightarrow> json \<Rightarrow> self_check_hosts \<Rightarrow> self_check_verdict" where
  "check_evm x payloads hosts =
     (case sh_blockchain hosts of
        None \<Rightarrow> failed ''no chain host configured for the self-check''
      | Some host \<Rightarrow>
          (case judge_evm_anchor x (evm_claim_from_payload x payloads) host (sh_evm_finality hosts) of
             AnchorVerified \<Rightarrow> Verified
           | AnchorInvalid reason \<Rightarrow>
               (let text = ''EVM anchor invalid: '' @ reason_str x reason
                in (case reason of MalformedClaim \<Rightarrow> failed text
                    | ContractMismatch \<Rightarrow> anchor_failed text | SenderMismatch \<Rightarrow> anchor_failed text
                    | InputMismatch \<Rightarrow> anchor_failed text | Reverted \<Rightarrow> anchor_failed text))
           | AnchorNotEvaluable reason finality \<Rightarrow>
               (let text = ''EVM anchor not evaluable: '' @ not_evaluable_reason_str x reason @ '' ('' @ finality @ '')''
                in (case reason of UnsupportedNetwork \<Rightarrow> failed text | NetworkNotConfigured \<Rightarrow> failed text
                    | NotFound \<Rightarrow> Missing text | _ \<Rightarrow> NotYet text))))"

fun judge_anchor :: "('b, 'z) check_api_scheme \<Rightarrow> anchor_method \<Rightarrow> json \<Rightarrow> self_check_hosts \<Rightarrow> self_check_verdict" where
  "judge_anchor x Qtsa payloads hosts = check_tsa payloads hosts"
| "judge_anchor x Evm payloads hosts = check_evm x payloads hosts"

definition service_signature :: "('b, 'z) check_api_scheme \<Rightarrow> minted_witness \<Rightarrow> did \<Rightarrow> self_check_verdict" where
  "service_signature x w service_did =
     (let olink = link_from_bytes x (mw_object_hash w); slink = link_from_bytes x (mw_signature_hash w)
      in (case mw_signature_revision w of
            Signature sig \<Rightarrow>
              (case classify_signature_leaf x sig slink of
                 Inl e \<Rightarrow> failed (''signature: '' @ e)
               | Inr (LeafOther v) \<Rightarrow> failed (''signature: '' @ v)
               | Inr LeafVerified \<Rightarrow>
                   if sg_previous sig \<noteq> olink then failed ''signature does not sign the timestamp revision''
                   else if sg_signer sig \<noteq> service_did
                   then failed (''signature signer '' @ sg_signer sig @ '' is not the service DID '' @ service_did)
                   else Verified)
          | _ \<Rightarrow> failed ''signature revision is not a signature''))"

definition verify_minted_witness ::
  "('b, 'z) check_api_scheme \<Rightarrow> minted_witness \<Rightarrow> did \<Rightarrow> self_check_hosts \<Rightarrow> self_check_verdict" where
  "verify_minted_witness x w service_did hosts =
     (case content_and_inclusion x w of
        Inl v \<Rightarrow> v
      | Inr payloads \<Rightarrow>
          (let anchor = judge_anchor x (mw_method w) payloads hosts
           in if anchor \<noteq> Verified then anchor else service_signature x w service_did))"

definition verify_in_batch ::
  "('b, 'z) check_api_scheme \<Rightarrow> did \<Rightarrow> anchor_method \<Rightarrow> json option list \<Rightarrow> minted_witness \<Rightarrow> self_check_verdict" where
  "verify_in_batch x service_did m judged w =
     (case content_and_inclusion x w of
        Inl v \<Rightarrow> v
      | Inr payloads \<Rightarrow>
          if mw_method w \<noteq> m \<or> anchor_fields payloads \<noteq> judged
          then failed ''anchor fields differ from the judged anchor''
          else service_signature x w service_did)"

fun verify_minted_batch ::
  "('b, 'z) check_api_scheme \<Rightarrow> minted_witness list \<Rightarrow> did \<Rightarrow> self_check_hosts \<Rightarrow> self_check_verdict list" where
  "verify_minted_batch x [] service_did hosts = []"
| "verify_minted_batch x (first # ws) service_did hosts =
     (let n = length (first # ws)
      in (case content_and_inclusion x first of
            Inl v \<Rightarrow> replicate n v
          | Inr judged \<Rightarrow>
              (let anchor = judge_anchor x (mw_method first) judged hosts
               in if anchor \<noteq> Verified then replicate n anchor
                  else map (verify_in_batch x service_did (mw_method first) (anchor_fields judged)) (first # ws))))"

section \<open>Lemmas\<close>

lemma failed_neq [simp]: "failed r \<noteq> Verified" "Verified \<noteq> failed r" "failed r \<noteq> Missing t" "failed r \<noteq> NotYet t"
  "anchor_failed r \<noteq> Verified" "Verified \<noteq> anchor_failed r" "failed r = Failed t b \<longleftrightarrow> r = t \<and> \<not> b"
  "Failed t b = failed r \<longleftrightarrow> r = t \<and> \<not> b" "anchor_failed r = Failed t b \<longleftrightarrow> r = t \<and> b" "anchor_failed r \<noteq> Missing t" "anchor_failed r \<noteq> NotYet t"
  by (auto simp: failed_def anchor_failed_def)

lemma content_and_inclusion_Inr:
  "content_and_inclusion x w = Inr payloads \<longleftrightarrow>
     (\<exists>obj. mw_object_revision w = Typed obj \<and> payloads = ob_payloads obj
        \<and> object_link x Sha3_256 obj = Inr (link_from_bytes x (mw_object_hash w))
        \<and> ob_previous obj = Some (link_from_bytes x (mw_leaf w))
        \<and> batch_inclusion x (ob_payloads obj) (link_from_bytes x (mw_leaf w)) = Inr ())"
  by (auto simp: content_and_inclusion_def Let_def split: any_revision.splits sum.splits if_splits)

lemma content_and_inclusion_Inl:
  "content_and_inclusion x w = Inl v \<Longrightarrow> \<exists>reason. v = failed reason"
  by (auto simp: content_and_inclusion_def Let_def split: any_revision.splits sum.splits if_splits)

lemma service_signature_Verified:
  "service_signature x w d = Verified \<longleftrightarrow>
     (\<exists>sig. mw_signature_revision w = Signature sig
        \<and> classify_signature_leaf x sig (link_from_bytes x (mw_signature_hash w)) = Inr LeafVerified
        \<and> sg_previous sig = link_from_bytes x (mw_object_hash w) \<and> sg_signer sig = d)"
  by (auto simp: service_signature_def Let_def split: any_revision.splits sum.splits leaf_verdict.splits)

lemma service_signature_not_fault:
  "service_signature x w d = Verified \<or> (\<exists>reason. service_signature x w d = failed reason)"
  by (auto simp: service_signature_def Let_def split: any_revision.splits sum.splits leaf_verdict.splits)

lemma verify_minted_witness_Verified:
  "verify_minted_witness x w d hosts = Verified \<longleftrightarrow>
     (\<exists>payloads. content_and_inclusion x w = Inr payloads \<and> judge_anchor x (mw_method w) payloads hosts = Verified
        \<and> service_signature x w d = Verified)"
  by (cases "content_and_inclusion x w") (auto simp: verify_minted_witness_def Let_def dest: content_and_inclusion_Inl)

lemma length_verify_minted_batch [simp]: "length (verify_minted_batch x ws d hosts) = length ws"
  by (cases "(x, ws, d, hosts)" rule: verify_minted_batch.cases) (simp_all add: Let_def split: sum.splits)

lemma check_tsa_fields:
  assumes "anchor_fields p = anchor_fields q"
  shows "check_tsa p hosts = check_tsa q hosts"
proof -
  have "json_get p ''transaction_hash'' = json_get q ''transaction_hash''"
    "json_get p ''merkle_root'' = json_get q ''merkle_root''" "json_get p ''timestamp'' = json_get q ''timestamp''"
    using assms by (simp_all add: anchor_fields_def ANCHOR_FIELDS_def)
  then show ?thesis
    by (simp only: check_tsa_def)
qed

lemma bind_json_as_str: "Option.bind j json_as_str = Some s \<longleftrightarrow> j = Some (JStr s)"
  by (cases j; cases "the j") auto

lemma bind_json_as_u64: "Option.bind j json_as_u64 = Some n \<longleftrightarrow> j = Some (JU64 n)"
  by (cases j; cases "the j") auto

lemma check_tsa_at_fault:
  assumes "check_tsa p hosts = Failed reason True"
  obtains host response root time where "sh_tsa hosts = Some host"
    "json_get p ''transaction_hash'' = Some (JStr response)" "json_get p ''merkle_root'' = Some (JStr root)"
    "json_get p ''timestamp'' = Some (JU64 time)"
    "\<forall>msg. host response root time \<noteq> Inr (QualifiedVerified, msg) \<and> host response root time \<noteq> Inr (LevelVerified, msg)"
proof -
  obtain host response root time where *: "sh_tsa hosts = Some host"
    "json_get p ''transaction_hash'' = Some (JStr response)" "json_get p ''merkle_root'' = Some (JStr root)"
    "json_get p ''timestamp'' = Some (JU64 time)"
    using assms unfolding check_tsa_def
    by (auto simp: bind_json_as_str bind_json_as_u64 split: option.splits)
  have "host response root time \<noteq> Inr (QualifiedVerified, msg) \<and> host response root time \<noteq> Inr (LevelVerified, msg)" for msg
    using assms by (auto simp: check_tsa_def *)
  with * that show thesis by blast
qed

text \<open>
  What makes judging one anchor enough: the SDK's claim reads nothing of a payload beyond the
  anchor fields.
\<close>

locale anchor_claims =
  fixes x :: "('b, 'z) check_api_scheme"
  assumes claim_fields: "anchor_fields p = anchor_fields q \<Longrightarrow> evm_claim_from_payload x p = evm_claim_from_payload x q"
begin

lemma judge_anchor_fields:
  assumes "anchor_fields p = anchor_fields q"
  shows "judge_anchor x m p hosts = judge_anchor x m q hosts"
  by (cases m) (simp_all only: judge_anchor.simps check_evm_def check_tsa_fields [OF assms] claim_fields [OF assms])

lemma verify_in_batch_eq:
  assumes "judge_anchor x m judged hosts = Verified"
  shows "verify_in_batch x d m (anchor_fields judged) w =
    (case content_and_inclusion x w of Inl v \<Rightarrow> v
     | Inr p \<Rightarrow> if mw_method w \<noteq> m \<or> anchor_fields p \<noteq> anchor_fields judged
               then failed ''anchor fields differ from the judged anchor'' else verify_minted_witness x w d hosts)"
proof (cases "content_and_inclusion x w")
  case (Inl v)
  then show ?thesis by (simp add: verify_in_batch_def)
next
  case (Inr p)
  show ?thesis
  proof (cases "mw_method w \<noteq> m \<or> anchor_fields p \<noteq> anchor_fields judged")
    case True
    with Inr show ?thesis by (simp add: verify_in_batch_def)
  next
    case False
    then have "judge_anchor x (mw_method w) p hosts = Verified"
      using assms judge_anchor_fields [of p judged m hosts] by simp
    with Inr False show ?thesis
      by (simp add: verify_in_batch_def verify_minted_witness_def)
  qed
qed

lemma batch_sound:
  assumes "i < length ws" "verify_minted_batch x ws d hosts ! i = Verified"
  shows "verify_minted_witness x (ws ! i) d hosts = Verified"
proof -
  obtain first rest where ws: "ws = first # rest"
    using assms(1) by (cases ws) auto
  obtain judged where judged: "content_and_inclusion x first = Inr judged"
    "judge_anchor x (mw_method first) judged hosts = Verified"
    using assms by (auto simp: ws Let_def nth_Cons' split: sum.splits if_splits dest: content_and_inclusion_Inl)
  then have "verify_minted_batch x ws d hosts = map (verify_in_batch x d (mw_method first) (anchor_fields judged)) ws"
    by (simp add: ws Let_def)
  then have "verify_in_batch x d (mw_method first) (anchor_fields judged) (ws ! i) = Verified"
    using assms by simp
  then show ?thesis
    using verify_in_batch_eq [OF judged(2)] by (auto split: sum.splits if_splits dest: content_and_inclusion_Inl)
qed

lemma batch_complete:
  assumes all: "\<forall>w\<in>set ws. verify_minted_witness x w d hosts = Verified"
    and same: "\<forall>w\<in>set ws. \<forall>w'\<in>set ws. mw_method w = mw_method w' \<and>
      (\<forall>p p'. content_and_inclusion x w = Inr p \<longrightarrow> content_and_inclusion x w' = Inr p' \<longrightarrow> anchor_fields p = anchor_fields p')"
  shows "verify_minted_batch x ws d hosts = replicate (length ws) Verified"
proof (cases ws)
  case Nil
  then show ?thesis by simp
next
  case (Cons first rest)
  then obtain judged where judged: "content_and_inclusion x first = Inr judged"
    "judge_anchor x (mw_method first) judged hosts = Verified"
    using all by (auto simp: verify_minted_witness_Verified)
  have "verify_in_batch x d (mw_method first) (anchor_fields judged) w = Verified" if w: "w \<in> set ws" for w
  proof -
    obtain p where p: "content_and_inclusion x w = Inr p"
      using all w by (auto simp: verify_minted_witness_Verified)
    have "mw_method w = mw_method first" "anchor_fields p = anchor_fields judged"
      using same w p judged(1) Cons by auto
    with p all w show ?thesis
      by (simp add: verify_in_batch_eq [OF judged(2)])
  qed
  then have "map (verify_in_batch x d (mw_method first) (anchor_fields judged)) ws = map (\<lambda>w. Verified) ws"
    by (intro map_cong) auto
  then show ?thesis
    using judged Cons by (simp add: Let_def map_replicate_const)
qed

text \<open>The verdicts of the batch, in terms of the verdicts of the witnesses alone.\<close>

lemma batch_verdicts:
  assumes "ws \<noteq> []"
  shows "case content_and_inclusion x (hd ws) of
      Inl v \<Rightarrow> verify_minted_batch x ws d hosts = replicate (length ws) (verify_minted_witness x (hd ws) d hosts)
    | Inr judged \<Rightarrow>
        if judge_anchor x (mw_method (hd ws)) judged hosts \<noteq> Verified
        then verify_minted_batch x ws d hosts = replicate (length ws) (verify_minted_witness x (hd ws) d hosts)
        else \<forall>i<length ws. verify_minted_batch x ws d hosts ! i =
          (case content_and_inclusion x (ws ! i) of
             Inl v \<Rightarrow> v
           | Inr p \<Rightarrow> if mw_method (ws ! i) = mw_method (hd ws) \<and> anchor_fields p = anchor_fields judged
               then verify_minted_witness x (ws ! i) d hosts
               else failed ''anchor fields differ from the judged anchor'')"
proof -
  obtain first rest where ws: "ws = first # rest"
    using assms by (cases ws) auto
  show ?thesis
  proof (cases "content_and_inclusion x first")
    case (Inl v)
    then show ?thesis by (simp add: ws Let_def verify_minted_witness_def)
  next
    case (Inr judged)
    show ?thesis
    proof (cases "judge_anchor x (mw_method first) judged hosts = Verified")
      case False
      with Inr show ?thesis by (simp add: ws Let_def verify_minted_witness_def)
    next
      case True
      then have batch: "verify_minted_batch x ws d hosts = map (verify_in_batch x d (mw_method first) (anchor_fields judged)) ws"
        using Inr by (simp add: ws Let_def)
      have "verify_minted_batch x ws d hosts ! i =
          (case content_and_inclusion x (ws ! i) of
             Inl v \<Rightarrow> v
           | Inr p \<Rightarrow> if mw_method (ws ! i) = mw_method first \<and> anchor_fields p = anchor_fields judged
               then verify_minted_witness x (ws ! i) d hosts
               else failed ''anchor fields differ from the judged anchor'')" if "i < length ws" for i
        using that verify_in_batch_eq [OF True, of d "ws ! i"] by (simp add: batch split: sum.split)
      moreover have first: "hd ws = first" by (simp add: ws)
      ultimately show ?thesis using True Inr unfolding first by simp
    qed
  qed
qed

end

section \<open>A reference instance\<close>

text \<open>
  The reference SDK with checks that accept what it mints, and a chain host that answers whether a
  transaction is final, unknown, at fault or still pending.
\<close>

definition ref_claim :: "json \<Rightarrow> string" where
  "ref_claim p = (case Option.bind (json_get p ''transaction_hash'') json_as_str of None \<Rightarrow> [] | Some s \<Rightarrow> s)"

definition ref_check_api :: "did \<Rightarrow> ref_blob check_api" where
  "ref_check_api signer = store_api.extend (ref_store_api signer)
     (check_api.fields
       (\<lambda>s. Inr (replicate 32 0)) (\<lambda>j. Inr []) (\<lambda>l n. Inr (drop 2 l))
       (\<lambda>leaf i n pf root. if i < n then Inr () else Inl ''index'')
       (\<lambda>sig l. Inr LeafVerified)
       ref_claim
       (\<lambda>claim host fin. if host claim = ''final'' then AnchorVerified
          else if host claim = ''unknown'' then AnchorNotEvaluable NotFound []
          else if host claim = ''fault'' then AnchorInvalid InputMismatch
          else AnchorNotEvaluable (OtherReason ''pending'') [])
       (\<lambda>r. ''invalid'') (\<lambda>r. ''not evaluable''))"

interpretation ref_check: anchor_claims "ref_check_api d" for d
  by unfold_locales
    (simp add: ref_check_api_def store_api.defs check_api.defs ref_claim_def anchor_fields_def ANCHOR_FIELDS_def)

section \<open>Properties\<close>

text \<open>
  What \<open>Verified\<close> means.  A witness passes the self-check exactly when its timestamp revision
  hashes to its key and chains to the client's leaf, the leaf is included under the payload's root,
  the anchor is accepted by the method's host, and the signature revision is valid, signs that
  timestamp revision and is the service's own.
\<close>

theorem verified_iff_all_checks:
  "verify_minted_witness x w service_did hosts = Verified \<longleftrightarrow>
     (\<exists>obj sig. mw_object_revision w = Typed obj \<and> mw_signature_revision w = Signature sig
        \<and> object_link x Sha3_256 obj = Inr (link_from_bytes x (mw_object_hash w))
        \<and> ob_previous obj = Some (link_from_bytes x (mw_leaf w))
        \<and> batch_inclusion x (ob_payloads obj) (link_from_bytes x (mw_leaf w)) = Inr ()
        \<and> judge_anchor x (mw_method w) (ob_payloads obj) hosts = Verified
        \<and> classify_signature_leaf x sig (link_from_bytes x (mw_signature_hash w)) = Inr LeafVerified
        \<and> sg_previous sig = link_from_bytes x (mw_object_hash w) \<and> sg_signer sig = service_did)"
  by (auto simp: verify_minted_witness_Verified content_and_inclusion_Inr service_signature_Verified)

text \<open>
  C18: What judging the anchor once decides.  With an SDK whose claim reads nothing of a payload
  beyond the anchor fields (\<open>anchor_claims\<close>), the batch check answers one verdict per witness and
  never accepts a witness that would not pass the full check on its own.  If the first witness fails
  its content check or its anchor, all witnesses get the verdict the first one has on its own;
  otherwise a witness of the method and the anchor fields judged gets exactly the verdict it has on
  its own, one whose content check fails that failure, and any other one is refused.  So on
  witnesses of one method with equal anchor fields, as minting produces them, the batch accepts all
  exactly when each passes alone.  (The verdicts are not the same witness by witness: a failure of
  the first witness is given to all of them.)
\<close>

theorem batch_check_equivalent:
  assumes "anchor_claims x"
  shows "length (verify_minted_batch x ws service_did hosts) = length ws
    \<and> (\<forall>i<length ws. verify_minted_batch x ws service_did hosts ! i = Verified \<longrightarrow>
          verify_minted_witness x (ws ! i) service_did hosts = Verified)
    \<and> ((\<forall>w\<in>set ws. \<forall>w'\<in>set ws. mw_method w = mw_method w' \<and>
          (\<forall>p p'. content_and_inclusion x w = Inr p \<longrightarrow> content_and_inclusion x w' = Inr p' \<longrightarrow>
             anchor_fields p = anchor_fields p')) \<longrightarrow>
       (verify_minted_batch x ws service_did hosts = replicate (length ws) Verified \<longleftrightarrow>
        (\<forall>w\<in>set ws. verify_minted_witness x w service_did hosts = Verified)))
    \<and> (ws \<noteq> [] \<longrightarrow>
       (case content_and_inclusion x (hd ws) of
          Inl v \<Rightarrow> verify_minted_batch x ws service_did hosts
              = replicate (length ws) (verify_minted_witness x (hd ws) service_did hosts)
        | Inr judged \<Rightarrow>
            if judge_anchor x (mw_method (hd ws)) judged hosts \<noteq> Verified
            then verify_minted_batch x ws service_did hosts
              = replicate (length ws) (verify_minted_witness x (hd ws) service_did hosts)
            else \<forall>i<length ws. verify_minted_batch x ws service_did hosts ! i =
              (case content_and_inclusion x (ws ! i) of
                 Inl v \<Rightarrow> v
               | Inr p \<Rightarrow> if mw_method (ws ! i) = mw_method (hd ws) \<and> anchor_fields p = anchor_fields judged
                   then verify_minted_witness x (ws ! i) service_did hosts
                   else failed ''anchor fields differ from the judged anchor'')))"
proof (intro conjI allI impI iffI)
  show "length (verify_minted_batch x ws service_did hosts) = length ws"
    by simp
  show "verify_minted_witness x (ws ! i) service_did hosts = Verified"
    if "i < length ws" "verify_minted_batch x ws service_did hosts ! i = Verified" for i
    using anchor_claims.batch_sound [OF assms that] .
  show "\<forall>w\<in>set ws. verify_minted_witness x w service_did hosts = Verified"
    if "verify_minted_batch x ws service_did hosts = replicate (length ws) Verified"
    using that anchor_claims.batch_sound [OF assms, of _ ws service_did hosts] by (metis in_set_conv_nth nth_replicate)
qed (rule anchor_claims.batch_complete [OF assms], assumption+, rule anchor_claims.batch_verdicts [OF assms])

definition demo_hosts :: "string \<Rightarrow> self_check_hosts" where
  "demo_hosts answer = \<lparr>sh_blockchain = Some (\<lambda>_. answer), sh_tsa = None, sh_evm_finality = Finalized\<rparr>"

lemma demo_batch_verified:
  "verify_minted_batch (ref_check_api ''did:svc'') demo_witnesses ''did:svc'' (demo_hosts ''final'') = [Verified, Verified]"
  by code_simp

theorem batch_check_equivalent_witness:
  "verify_minted_witness (ref_check_api ''did:svc'') (demo_witnesses ! 1) ''did:svc'' (demo_hosts ''final'') = Verified"
  using batch_check_equivalent [OF ref_check.anchor_claims_axioms, of "''did:svc''" demo_witnesses "''did:svc''" "demo_hosts ''final''"]
    demo_batch_verified demo_witnesses_keys(4)
  by simp

text \<open>
  An anchor is found at fault only when it is: a verdict that discards the stored anchor comes
  from the TSA host rejecting the token, or from the chain judging the transaction invalid for a
  reason other than our own malformed claim.
\<close>

theorem anchor_at_fault_only_for_bad_anchors:
  assumes "verify_minted_witness x w service_did hosts = Failed reason True"
  shows "\<exists>obj. mw_object_revision w = Typed obj \<and>
    (case mw_method w of
       Qtsa \<Rightarrow> \<exists>host response root time. sh_tsa hosts = Some host
          \<and> (\<forall>msg. host response root time \<noteq> Inr (QualifiedVerified, msg) \<and> host response root time \<noteq> Inr (LevelVerified, msg))
          \<and> json_get (ob_payloads obj) ''transaction_hash'' = Some (JStr response)
          \<and> json_get (ob_payloads obj) ''merkle_root'' = Some (JStr root)
          \<and> json_get (ob_payloads obj) ''timestamp'' = Some (JU64 time)
     | Evm \<Rightarrow> \<exists>host r. sh_blockchain hosts = Some host \<and> r \<noteq> MalformedClaim
          \<and> judge_evm_anchor x (evm_claim_from_payload x (ob_payloads obj)) host (sh_evm_finality hosts) = AnchorInvalid r)"
proof -
  obtain payloads where p: "content_and_inclusion x w = Inr payloads"
    using assms by (cases "content_and_inclusion x w") (auto simp: verify_minted_witness_def dest: content_and_inclusion_Inl)
  then obtain obj where obj: "mw_object_revision w = Typed obj" "payloads = ob_payloads obj"
    by (auto simp: content_and_inclusion_Inr)
  have j: "judge_anchor x (mw_method w) (ob_payloads obj) hosts = Failed reason True"
    using assms p obj service_signature_not_fault [of x w service_did]
    by (auto simp: verify_minted_witness_def Let_def split: if_splits)
  show ?thesis
  proof (cases "mw_method w")
    case Evm
    then show ?thesis
      using j obj by (auto simp: check_evm_def Let_def split: option.splits evm_anchor_verdict.splits
          evm_invalid_reason.splits evm_not_evaluable_reason.splits)
  next
    case Qtsa
    then have "check_tsa (ob_payloads obj) hosts = Failed reason True"
      using j by simp
    then show ?thesis
      using Qtsa obj by (elim check_tsa_at_fault) simp
  qed
qed

theorem anchor_at_fault_only_for_bad_anchors_witness:
  "\<exists>obj host r. mw_object_revision (demo_witnesses ! 0) = Typed obj
     \<and> sh_blockchain (demo_hosts ''fault'') = Some host \<and> r \<noteq> MalformedClaim
     \<and> judge_evm_anchor (ref_check_api ''did:svc'') (evm_claim_from_payload (ref_check_api ''did:svc'') (ob_payloads obj)) host Finalized
         = AnchorInvalid r"
proof -
  have "verify_minted_witness (ref_check_api ''did:svc'') (demo_witnesses ! 0) ''did:svc'' (demo_hosts ''fault'')
      = Failed ''EVM anchor invalid: invalid'' True" and "mw_method (demo_witnesses ! 0) = Evm"
    by code_simp+
  then show ?thesis
    using anchor_at_fault_only_for_bad_anchors [of "ref_check_api ''did:svc''" "demo_witnesses ! 0" "''did:svc''" "demo_hosts ''fault''"]
    by (auto simp: demo_hosts_def)
qed

end
