(* ===== verification/Sealer.thy ===== *)
theory Sealer
  imports Selfcheck
begin

text \<open>
  The seal cycle (\<open>crates/aqua-timestamp-core/src/sealer.rs\<close>): one tick settles every pending
  epoch, closes the open epoch, persists it with every method pending, and settles it.

  What the outside does over time is indexed by a moment, a counter of the \<open>world\<close> that every
  provider call, mint and self-check advances: the SDK at a moment, what a provider or a host
  answers at a moment, and whether the blocking self-check task panics.  The world also keeps the
  list of provider calls made, for the properties about them.  Log output is not modelled, except
  that the states in which it is written are.  A panic of the minter unwinds through the tick.
\<close>

section \<open>Data\<close>

type_synonym 'b sdk_at = "nat \<Rightarrow> 'b check_api"
type_synonym provider = "nat \<Rightarrow> string \<Rightarrow> anchor_error + timestamp_value"

definition DEFAULT_EVM_NOT_FOUND_TIMEOUT_SECS :: u64 where
  "DEFAULT_EVM_NOT_FOUND_TIMEOUT_SECS = 3600"

definition DEFAULT_MAX_ANCHOR_FAULTS :: u32 where
  "DEFAULT_MAX_ANCHOR_FAULTS = 3"

record witness_context =
  wc_service_eth_address :: string
  wc_methods :: "anchor_method list"
  wc_evm_anchor :: "provider option"
  wc_qtsa_anchor :: "provider option"
  wc_blockchain :: "(nat \<Rightarrow> chain_host) option"
  wc_tsa :: "(nat \<Rightarrow> web_host) option"
  wc_evm_finality :: evm_finality
  wc_evm_not_found_timeout_secs :: u64
  wc_max_anchor_faults :: u32
  wc_service_did :: did
  wc_check_panics :: "nat \<Rightarrow> bool"

definition hosts_at :: "witness_context \<Rightarrow> nat \<Rightarrow> self_check_hosts" where
  "hosts_at ctx n = \<lparr>sh_blockchain = map_option (\<lambda>h. h n) (wc_blockchain ctx),
     sh_tsa = map_option (\<lambda>h. h n) (wc_tsa ctx), sh_evm_finality = wc_evm_finality ctx\<rparr>"

text \<open>\<open>WitnessContext::new\<close>: \<open>did_pkh\<close> is what the signer derives, if it derives one.\<close>

definition context_new :: "did option \<Rightarrow> string \<Rightarrow> anchor_method list \<Rightarrow> witness_context" where
  "context_new did_pkh service_eth_address methods =
     \<lparr>wc_service_eth_address = service_eth_address, wc_methods = methods,
      wc_evm_anchor = None, wc_qtsa_anchor = None, wc_blockchain = None, wc_tsa = None,
      wc_evm_finality = sh_evm_finality default_hosts,
      wc_evm_not_found_timeout_secs = DEFAULT_EVM_NOT_FOUND_TIMEOUT_SECS,
      wc_max_anchor_faults = DEFAULT_MAX_ANCHOR_FAULTS,
      wc_service_did = (case did_pkh of Some d \<Rightarrow> d | None \<Rightarrow> []),
      wc_check_panics = (\<lambda>_. False)\<rparr>"

definition with_self_check ::
  "(nat \<Rightarrow> chain_host) option \<Rightarrow> (nat \<Rightarrow> web_host) option \<Rightarrow> evm_finality \<Rightarrow> witness_context \<Rightarrow> witness_context" where
  "with_self_check chain tsa fin ctx = ctx\<lparr>wc_blockchain := chain, wc_tsa := tsa, wc_evm_finality := fin\<rparr>"

definition with_evm_anchor :: "provider \<Rightarrow> witness_context \<Rightarrow> witness_context" where
  "with_evm_anchor p ctx = ctx\<lparr>wc_evm_anchor := Some p\<rparr>"

definition with_qtsa_anchor :: "provider \<Rightarrow> witness_context \<Rightarrow> witness_context" where
  "with_qtsa_anchor p ctx = ctx\<lparr>wc_qtsa_anchor := Some p\<rparr>"

fun context_provider :: "witness_context \<Rightarrow> anchor_method \<Rightarrow> provider option" where
  "context_provider ctx Evm = wc_evm_anchor ctx"
| "context_provider ctx Qtsa = wc_qtsa_anchor ctx"

datatype seal_error = SealStore store_error | SealWitness witness_error | MissingProvider anchor_method
  | MissingSelfCheckHost anchor_method | NoServiceDid

fun host_missing :: "witness_context \<Rightarrow> anchor_method \<Rightarrow> bool" where
  "host_missing ctx Evm \<longleftrightarrow> wc_blockchain ctx = None"
| "host_missing ctx Qtsa \<longleftrightarrow> wc_tsa ctx = None"

definition validate :: "witness_context \<Rightarrow> seal_error + unit" where
  "validate ctx =
     (case find (\<lambda>m. context_provider ctx m = None) (wc_methods ctx) of
        Some m \<Rightarrow> Inl (MissingProvider m)
      | None \<Rightarrow> (case find (host_missing ctx) (wc_methods ctx) of
        Some m \<Rightarrow> Inl (MissingSelfCheckHost m)
      | None \<Rightarrow> if wc_service_did ctx = [] then Inl NoServiceDid else Inr ()))"

record provider_call =
  pc_method :: anchor_method
  pc_epoch :: u64
  pc_ok :: bool

record 'b world =
  w_store :: "'b store"
  w_moment :: nat
  w_calls :: "provider_call list"

section \<open>Settling one method of one epoch\<close>

definition anchor_root ::
  "witness_context \<Rightarrow> anchor_method \<Rightarrow> u64 \<Rightarrow> string \<Rightarrow> 'b world \<Rightarrow> timestamp_value option \<times> 'b world" where
  "anchor_root ctx m epoch_id root w =
     (case context_provider ctx m of
        None \<Rightarrow> (None, w)
      | Some anchor \<Rightarrow>
          (let n = w_moment w; r = anchor n root;
               call = \<lparr>pc_method = m, pc_epoch = epoch_id, pc_ok = (case r of Inr _ \<Rightarrow> True | Inl _ \<Rightarrow> False)\<rparr>;
               w' = w\<lparr>w_moment := Suc n, w_calls := w_calls w @ [call]\<rparr>
           in (case r of Inr v \<Rightarrow> (Some v, w') | Inl e \<Rightarrow> (None, w'))))"

definition world_save_pending :: "'b sdk_at \<Rightarrow> pending_epoch \<Rightarrow> 'b world \<Rightarrow> (store_error + unit) \<times> 'b world" where
  "world_save_pending x p w =
     (case save_pending (x (w_moment w)) p (w_store w) of (r, s) \<Rightarrow> (r, w\<lparr>w_store := s\<rparr>))"

definition store_anchor :: "'b sdk_at \<Rightarrow> pending_epoch \<Rightarrow> 'b world \<Rightarrow> bool \<times> 'b world" where
  "store_anchor x p w =
     (case world_save_pending x p w of
        (Inr _, w1) \<Rightarrow> (True, w1)
      | (Inl _, w1) \<Rightarrow> (case world_save_pending x p w1 of
          (Inr _, w2) \<Rightarrow> (True, w2)
        | (Inl _, w2) \<Rightarrow> (False, w2)))"

definition settle_missing ::
  "'b sdk_at \<Rightarrow> witness_context \<Rightarrow> anchor_method \<Rightarrow> u64 \<Rightarrow> pending_epoch \<Rightarrow> 'b world \<Rightarrow> pending_epoch \<times> 'b world" where
  "settle_missing x ctx m now p w =
     (case anchor_first_seen m now p of
        (None, p') \<Rightarrow> (p', w)
      | (Some (first_seen, changed), p') \<Rightarrow>
          if sat_sub now first_seen < wc_evm_not_found_timeout_secs ctx
          then (if changed then (p', snd (world_save_pending x p' w)) else (p', w))
          else (let p2 = drop_anchor m (snd (count_anchor_fault m p'))
                in (p2, snd (world_save_pending x p2 w))))"

definition self_check :: "'b sdk_at \<Rightarrow> witness_context \<Rightarrow> minted_witness list \<Rightarrow> nat \<Rightarrow> self_check_verdict list" where
  "self_check x ctx minted n =
     (if wc_check_panics ctx n then replicate (length minted) (Failed ''self-check task: panic'' False)
      else verify_minted_batch (x n) minted (wc_service_did ctx) (hosts_at ctx n))"

datatype settle_outcome = Served "minted_witness list" | StaysPending | Panicked

text \<open>Step 1 of \<open>settle_method\<close>: the stored anchor, or one provider call whose result is stored first.\<close>

definition obtain_anchor ::
  "'b sdk_at \<Rightarrow> witness_context \<Rightarrow> anchor_method \<Rightarrow> u64 \<Rightarrow> pending_epoch \<Rightarrow> anchor_method set \<Rightarrow> 'b world
   \<Rightarrow> timestamp_value option \<times> pending_epoch \<times> anchor_method set \<times> 'b world" where
  "obtain_anchor x ctx m now p down w =
     (case pending_anchor p m of
        Some v \<Rightarrow> (Some v, p, down, w)
      | None \<Rightarrow>
          if m \<in> down then (None, p, down, w)
          else if anchor_fault_count p m \<ge> wc_max_anchor_faults ctx then (None, p, down, w)
          else (case anchor_root ctx m (pe_epoch_id p) (pending_anchor_root p) w of
                  (None, w1) \<Rightarrow> (None, p, insert m down, w1)
                | (Some v, w1) \<Rightarrow>
                    (let p1 = set_anchor m v now p
                     in (case store_anchor x p1 w1 of
                           (True, w2) \<Rightarrow> (Some v, p1, down, w2)
                         | (False, w2) \<Rightarrow> (None, p1, insert m down, w2)))))"

text \<open>Step 2: mint from the anchor.\<close>

definition mint_pending :: "('b, 'z) check_api_scheme \<Rightarrow> anchor_method \<Rightarrow> timestamp_value \<Rightarrow> pending_epoch \<Rightarrow> mint_outcome" where
  "mint_pending x m v p =
     (case restore x p of
        Inl e \<Rightarrow> MintErr e
      | Inr (snapshot, batch) \<Rightarrow> mint_witnesses_for_epoch x snapshot batch [(m, from_value m v)])"

text \<open>Step 4: write the witnesses for serving and drop the method from the record.\<close>

definition remaining_after :: "anchor_method \<Rightarrow> pending_epoch \<Rightarrow> pending_epoch" where
  "remaining_after m p = drop_anchor m (p\<lparr>pe_methods := filter (\<lambda>m'. m' \<noteq> m) (pe_methods p)\<rparr>)"

definition serve ::
  "'b sdk_at \<Rightarrow> anchor_method \<Rightarrow> minted_witness list \<Rightarrow> pending_epoch \<Rightarrow> 'b world
   \<Rightarrow> settle_outcome \<times> pending_epoch \<times> 'b world" where
  "serve x m minted p w =
     (case persist_pending_minted (x (w_moment w)) (remaining_after m p) m minted (w_store w) of
        (Inl e, s) \<Rightarrow> (StaysPending, p, w\<lparr>w_store := s\<rparr>)
      | (Inr _, s) \<Rightarrow> (Served minted, remaining_after m p, w\<lparr>w_store := s\<rparr>))"

definition settle_method ::
  "'b sdk_at \<Rightarrow> witness_context \<Rightarrow> u64 \<Rightarrow> anchor_method \<Rightarrow> pending_epoch \<Rightarrow> anchor_method set \<Rightarrow> 'b world
   \<Rightarrow> settle_outcome \<times> pending_epoch \<times> anchor_method set \<times> 'b world" where
  "settle_method x ctx now m p down w =
     (if m \<notin> set (wc_methods ctx) then (StaysPending, p, down, w)
      else (case obtain_anchor x ctx m now p down w of
        (None, p1, down1, w1) \<Rightarrow> (StaysPending, p1, down1, w1)
      | (Some v, p1, down1, w1) \<Rightarrow>
          (let n = w_moment w1; w2 = w1\<lparr>w_moment := Suc n\<rparr>
           in (case mint_pending (x n) m v p1 of
                 MintPanic \<Rightarrow> (Panicked, p1, down1, w2)
               | MintErr e \<Rightarrow> (StaysPending, p1, down1, w2)
               | Minted minted \<Rightarrow>
                   (let verdicts = self_check x ctx minted n
                    in (case find (\<lambda>(w, v). v \<noteq> Verified) (zip minted verdicts) of
                          Some (_, NotYet r) \<Rightarrow> (StaysPending, p1, down1, w2)
                        | Some (_, Missing r) \<Rightarrow>
                            (case settle_missing x ctx m now p1 w2 of (p2, w3) \<Rightarrow> (StaysPending, p2, down1, w3))
                        | Some (_, Failed r at_fault) \<Rightarrow>
                            if at_fault
                            then (let p2 = drop_anchor m (snd (count_anchor_fault m p1))
                                  in (StaysPending, p2, insert m down1, snd (world_save_pending x p2 w2)))
                            else (StaysPending, p1, down1, w2)
                        | _ \<Rightarrow> (case serve x m minted p1 w2 of (r, p2, w3) \<Rightarrow> (r, p2, down1, w3))))))))"

section \<open>The tick\<close>

fun settle_methods ::
  "'b sdk_at \<Rightarrow> witness_context \<Rightarrow> u64 \<Rightarrow> anchor_method list \<Rightarrow> pending_epoch \<Rightarrow> anchor_method set \<Rightarrow> 'b world
   \<Rightarrow> bool \<times> minted_witness list \<times> pending_epoch \<times> anchor_method set \<times> 'b world" where
  "settle_methods x ctx now [] p down w = (False, [], p, down, w)"
| "settle_methods x ctx now (m # ms) p down w =
     (case settle_method x ctx now m p down w of
        (Panicked, p1, down1, w1) \<Rightarrow> (True, [], p1, down1, w1)
      | (StaysPending, p1, down1, w1) \<Rightarrow> settle_methods x ctx now ms p1 down1 w1
      | (Served ws, p1, down1, w1) \<Rightarrow>
          (case settle_methods x ctx now ms p1 down1 w1 of
             (b, ws', p2, down2, w2) \<Rightarrow> (b, ws @ ws', p2, down2, w2)))"

fun retry_loop ::
  "'b sdk_at \<Rightarrow> witness_context \<Rightarrow> u64 \<Rightarrow> pending_epoch list \<Rightarrow> anchor_method set \<Rightarrow> 'b world
   \<Rightarrow> bool \<times> minted_witness list \<times> anchor_method set \<times> 'b world" where
  "retry_loop x ctx now [] down w = (False, [], down, w)"
| "retry_loop x ctx now (p # ps) down w =
     (case settle_methods x ctx now (pe_methods p) p down w of
        (True, ws, p1, down1, w1) \<Rightarrow> (True, ws, down1, w1)
      | (False, ws, p1, down1, w1) \<Rightarrow>
          (case retry_loop x ctx now ps down1 w1 of
             (b, ws', down2, w2) \<Rightarrow> (b, ws @ ws', down2, w2)))"

definition retry_pending ::
  "'b sdk_at \<Rightarrow> witness_context \<Rightarrow> u64 \<Rightarrow> 'b world \<Rightarrow> bool \<times> minted_witness list \<times> anchor_method set \<times> 'b world" where
  "retry_pending x ctx now w =
     (case list_pending_epochs (x (w_moment w)) (w_store w) of
        Inl e \<Rightarrow> (False, [], {}, w)
      | Inr pendings \<Rightarrow> retry_loop x ctx now pendings {} w)"

definition build_record ::
  "('b, 'z) check_api_scheme \<Rightarrow> sealed_snapshot \<Rightarrow> epoch_batch option \<Rightarrow> witness_error + epoch_record" where
  "build_record x snapshot batch =
     and_then (case batch of Some b \<Rightarrow> root_digest x b | None \<Rightarrow> Inr (empty_merkle_root x)) (\<lambda>root.
     Inr \<lparr>er_id = ss_epoch_id snapshot, er_opened_at = ss_opened_at snapshot,
          er_closed_at = ss_closed_at snapshot, er_merkle_root = root,
          er_leaf_count = of_nat (length (ss_leaves snapshot)), er_hash_type = HASH_TYPE_LABEL\<rparr>)"

datatype seal_result = SealOk epoch_record "minted_witness list" | SealErr seal_error | SealPanic

definition pending_for ::
  "('b, 'z) check_api_scheme \<Rightarrow> witness_context option \<Rightarrow> sealed_snapshot \<Rightarrow> epoch_batch option \<Rightarrow> pending_epoch option" where
  "pending_for x ctx snapshot batch =
     (case (ctx, batch) of
        (Some c, Some b) \<Rightarrow> if wc_methods c \<noteq> [] then Some (pending_new x snapshot b (wc_methods c)) else None
      | _ \<Rightarrow> None)"

text \<open>The closing half of the tick: swap, prepare, persist, settle.\<close>

definition close_epoch ::
  "'b sdk_at \<Rightarrow> witness_context option \<Rightarrow> u64 \<Rightarrow> u64 \<Rightarrow> minted_witness list \<Rightarrow> anchor_method set
   \<Rightarrow> accumulator_inner \<Rightarrow> 'b world \<Rightarrow> seal_result \<times> accumulator_inner \<times> 'b world" where
  "close_epoch x ctx closed_at duration_secs witnesses down acc w =
     (let (snapshot, acc') = swap_and_open_next closed_at closed_at duration_secs acc;
          api = x (w_moment w);
          leaves = map le_leaf (ss_leaves snapshot)
      in (case epoch_batch_prepare api leaves of
            Inl e \<Rightarrow> (SealErr (SealWitness e), acc', w)
          | Inr batch \<Rightarrow> (case build_record api snapshot batch of
            Inl e \<Rightarrow> (SealErr (SealWitness e), acc', w)
          | Inr record \<Rightarrow>
              (let pending = pending_for api ctx snapshot batch
               in (case persist_sealed_epoch_with_pending api record (ss_leaves snapshot) [] pending (w_store w) of
                     (Inl e, s) \<Rightarrow> (SealErr (SealStore e), acc', w\<lparr>w_store := s\<rparr>)
                   | (Inr _, s) \<Rightarrow>
                       (let w1 = w\<lparr>w_store := s, w_moment := Suc (w_moment w)\<rparr>
                        in (case (ctx, pending) of
                              (Some c, Some p) \<Rightarrow>
                                (case settle_methods x c closed_at (pe_methods p) p down w1 of
                                   (True, _, _, _, w2) \<Rightarrow> (SealPanic, acc', w2)
                                 | (False, minted, _, _, w2) \<Rightarrow> (SealOk record (witnesses @ minted), acc', w2))
                            | _ \<Rightarrow> (SealOk record witnesses, acc', w1)))))))) "

definition seal_once ::
  "'b sdk_at \<Rightarrow> witness_context option \<Rightarrow> u64 \<Rightarrow> u64 \<Rightarrow> accumulator_inner \<Rightarrow> 'b world
   \<Rightarrow> seal_result \<times> accumulator_inner \<times> 'b world" where
  "seal_once x ctx closed_at duration_secs acc w =
     (case ctx of
        None \<Rightarrow> close_epoch x None closed_at duration_secs [] {} acc w
      | Some c \<Rightarrow> (case validate c of
          Inl e \<Rightarrow> (SealErr e, acc, w)
        | Inr _ \<Rightarrow> (case retry_pending x c closed_at w of
            (True, _, _, w1) \<Rightarrow> (SealPanic, acc, w1)
          | (False, witnesses, down, w1) \<Rightarrow>
              close_epoch x (Some c) closed_at duration_secs witnesses down acc w1)))"

section \<open>What a tick keeps\<close>

definition vouched :: "'b sdk_at \<Rightarrow> witness_context \<Rightarrow> minted_witness \<Rightarrow> bool" where
  "vouched x ctx mw \<longleftrightarrow> (\<exists>n. verify_minted_witness (x n) mw (wc_service_did ctx) (hosts_at ctx n) = Verified)"

lemma find_zip_None:
  assumes "length vs = length ws" "find (\<lambda>(w, v). v \<noteq> c) (zip ws vs) = None" "i < length ws"
  shows "vs ! i = c"
proof -
  have mem: "zip ws vs ! i \<in> set (zip ws vs)"
    using assms by (intro nth_mem) simp
  have all: "\<forall>e\<in>set (zip ws vs). \<not> (\<lambda>(w, v). v \<noteq> c) e"
    using assms(2) by (auto simp: find_None_iff)
  from bspec [OF all mem] show ?thesis using assms(1,3) by simp
qed

lemma self_check_vouched:
  assumes claims: "anchor_claims (x n)"
    and none: "find (\<lambda>(w, v). v \<noteq> Verified) (zip minted (self_check x ctx minted n)) = None"
    and mw: "mw \<in> set minted"
  shows "vouched x ctx mw"
proof -
  obtain i where i: "i < length minted" "minted ! i = mw"
    using mw by (auto simp: in_set_conv_nth)
  have v: "self_check x ctx minted n ! i = Verified"
    by (rule find_zip_None [OF _ none i(1)]) (simp add: self_check_def)
  show ?thesis
  proof (cases "wc_check_panics ctx n")
    case True
    then show ?thesis using v i by (simp add: self_check_def)
  next
    case False
    then have "verify_minted_batch (x n) minted (wc_service_did ctx) (hosts_at ctx n) ! i = Verified"
      using v by (simp add: self_check_def)
    then show ?thesis
      using anchor_claims.batch_sound [OF claims i(1)] i(2) by (auto simp: vouched_def)
  qed
qed

lemma anchor_root_store [simp]: "anchor_root ctx m e root w = (r, w') \<Longrightarrow> w_store w' = w_store w"
  by (auto simp: anchor_root_def Let_def split: option.splits sum.splits)

lemma pending_anchor_first_seen:
  assumes "anchor_first_seen m now p = (r, p')"
  shows "pending_anchor p' m' = pending_anchor p m'" and "r \<noteq> None \<Longrightarrow> pending_anchor p m \<noteq> None"
    and "anchor_fault_count p' m' = anchor_fault_count p m'"
proof -
  show "pending_anchor p' m' = pending_anchor p m'"
  proof (cases "m' = m")
    case True
    then show ?thesis
      using assms find_update_first [of "\<lambda>a. sa_method a = m" "\<lambda>a. a\<lparr>sa_first_seen := Some now\<rparr>" "pe_anchors p"]
      by (auto simp: anchor_first_seen_def pending_anchor_def split: option.splits)
  next
    case False
    then show ?thesis
      using assms find_update_first_other [of "\<lambda>a. sa_method a = m" "\<lambda>a. sa_method a = m'" "\<lambda>a. a\<lparr>sa_first_seen := Some now\<rparr>" "pe_anchors p"]
      by (auto simp: anchor_first_seen_def pending_anchor_def split: option.splits)
  qed
  show "r \<noteq> None \<Longrightarrow> pending_anchor p m \<noteq> None"
    using assms by (auto simp: anchor_first_seen_def pending_anchor_def split: option.splits)
  show "anchor_fault_count p' m' = anchor_fault_count p m'"
    using anchor_first_seen_frame(5) [OF assms] by (simp add: anchor_fault_count_def)
qed

text \<open>The ways \<open>obtain_anchor\<close> and \<open>settle_method\<close> can go, as elimination rules.\<close>

lemma obtain_anchor_cases:
  assumes "obtain_anchor x ctx m now p down w = (v, p1, down1, w1)"
  obtains (stored) tv where "pending_anchor p m = Some tv" "v = Some tv" "p1 = p" "down1 = down" "w1 = w"
  | (skipped) "pending_anchor p m = None" "m \<in> down \<or> wc_max_anchor_faults ctx \<le> anchor_fault_count p m"
      "v = None" "p1 = p" "down1 = down" "w1 = w"
  | (call_failed) "pending_anchor p m = None" "m \<notin> down" "anchor_fault_count p m < wc_max_anchor_faults ctx"
      "anchor_root ctx m (pe_epoch_id p) (pending_anchor_root p) w = (None, w1)"
      "v = None" "p1 = p" "down1 = insert m down"
  | (anchored) tv wa where "pending_anchor p m = None" "m \<notin> down" "anchor_fault_count p m < wc_max_anchor_faults ctx"
      "anchor_root ctx m (pe_epoch_id p) (pending_anchor_root p) w = (Some tv, wa)"
      "store_anchor x (set_anchor m tv now p) wa = (True, w1)"
      "v = Some tv" "p1 = set_anchor m tv now p" "down1 = down"
  | (unstored) tv wa where "pending_anchor p m = None" "m \<notin> down" "anchor_fault_count p m < wc_max_anchor_faults ctx"
      "anchor_root ctx m (pe_epoch_id p) (pending_anchor_root p) w = (Some tv, wa)"
      "store_anchor x (set_anchor m tv now p) wa = (False, w1)"
      "v = None" "p1 = set_anchor m tv now p" "down1 = insert m down"
proof (cases "pending_anchor p m")
  case (Some tv)
  then have "v = Some tv" "p1 = p" "down1 = down" "w1 = w"
    using assms by (simp_all add: obtain_anchor_def)
  with Some show thesis by (rule stored)
next
  case None
  show thesis
  proof (cases "m \<in> down \<or> wc_max_anchor_faults ctx \<le> anchor_fault_count p m")
    case True
    then have "v = None" "p1 = p" "down1 = down" "w1 = w"
      using assms None by (auto simp: obtain_anchor_def split: if_splits)
    with None True show thesis by (rule skipped)
  next
    case False
    obtain r wa where r: "anchor_root ctx m (pe_epoch_id p) (pending_anchor_root p) w = (r, wa)" by fastforce
    have nd: "m \<notin> down" "anchor_fault_count p m < wc_max_anchor_faults ctx"
      using False by (simp_all add: not_le)
    have oa: "obtain_anchor x ctx m now p down w =
        (case (r, wa) of (None, w1) \<Rightarrow> (None, p, insert m down, w1)
         | (Some v, w1) \<Rightarrow> (let p1 = set_anchor m v now p in (case store_anchor x p1 w1 of
             (True, w2) \<Rightarrow> (Some v, p1, down, w2) | (False, w2) \<Rightarrow> (None, p1, insert m down, w2))))"
      using None False by (simp add: obtain_anchor_def r)
    show thesis
    proof (cases r)
      case None
      then have "v = None" "p1 = p" "down1 = insert m down" "w1 = wa"
        using assms oa by simp_all
      then show thesis
        using r None by (intro call_failed [OF \<open>pending_anchor p m = None\<close> nd]) simp_all
    next
      case (Some tv)
      note r = r [unfolded Some]
      obtain b wb where sa: "store_anchor x (set_anchor m tv now p) wa = (b, wb)" by fastforce
      show thesis
      proof (cases b)
        case True
        then have "v = Some tv" "p1 = set_anchor m tv now p" "down1 = down" "w1 = wb"
          using assms oa Some sa by simp_all
        then show thesis
          using sa True by (intro anchored [OF None nd r]) simp_all
      next
        case False
        then have "v = None" "p1 = set_anchor m tv now p" "down1 = insert m down" "w1 = wb"
          using assms oa Some sa by simp_all
        then show thesis
          using sa False by (intro unstored [OF None nd r]) simp_all
      qed
    qed
  qed
qed

lemma obtain_anchor_Some:
  "obtain_anchor x ctx m now p down w = (Some v, p1, down1, w1) \<Longrightarrow> pending_anchor p1 m = Some v"
  by (erule obtain_anchor_cases) auto

lemma settle_method_cases:
  assumes "settle_method x ctx now m p down w = (r, p', down', w')"
  obtains (disabled) "m \<notin> set (wc_methods ctx)" "r = StaysPending" "p' = p" "down' = down" "w' = w"
  | (no_anchor) "m \<in> set (wc_methods ctx)" "obtain_anchor x ctx m now p down w = (None, p', down', w')" "r = StaysPending"
  | (no_mint) v wa where "m \<in> set (wc_methods ctx)" "obtain_anchor x ctx m now p down w = (Some v, p', down', wa)"
      "\<forall>ws. mint_pending (x (w_moment wa)) m v p' \<noteq> Minted ws" "w' = wa\<lparr>w_moment := Suc (w_moment wa)\<rparr>"
      "r = StaysPending \<or> r = Panicked \<and> mint_pending (x (w_moment wa)) m v p' = MintPanic"
  | (kept) v wa ws where "m \<in> set (wc_methods ctx)" "obtain_anchor x ctx m now p down w = (Some v, p', down', wa)"
      "mint_pending (x (w_moment wa)) m v p' = Minted ws" "w' = wa\<lparr>w_moment := Suc (w_moment wa)\<rparr>" "r = StaysPending"
  | (missing) v p1 wa ws where "m \<in> set (wc_methods ctx)" "obtain_anchor x ctx m now p down w = (Some v, p1, down', wa)"
      "mint_pending (x (w_moment wa)) m v p1 = Minted ws"
      "settle_missing x ctx m now p1 (wa\<lparr>w_moment := Suc (w_moment wa)\<rparr>) = (p', w')" "r = StaysPending"
  | (at_fault) v p1 down1 wa ws where "m \<in> set (wc_methods ctx)"
      "obtain_anchor x ctx m now p down w = (Some v, p1, down1, wa)"
      "mint_pending (x (w_moment wa)) m v p1 = Minted ws" "p' = drop_anchor m (snd (count_anchor_fault m p1))"
      "down' = insert m down1" "w' = snd (world_save_pending x p' (wa\<lparr>w_moment := Suc (w_moment wa)\<rparr>))" "r = StaysPending"
  | (served) v p1 wa ws where "m \<in> set (wc_methods ctx)"
      "obtain_anchor x ctx m now p down w = (Some v, p1, down', wa)"
      "mint_pending (x (w_moment wa)) m v p1 = Minted ws"
      "find (\<lambda>(w, v). v \<noteq> Verified) (zip ws (self_check x ctx ws (w_moment wa))) = None"
      "serve x m ws p1 (wa\<lparr>w_moment := Suc (w_moment wa)\<rparr>) = (r, p', w')"
proof (cases "m \<in> set (wc_methods ctx)")
  case False
  then show thesis using assms disabled by (simp add: settle_method_def)
next
  case True
  obtain v p1 down1 wa where oa: "obtain_anchor x ctx m now p down w = (v, p1, down1, wa)"
    by (metis prod_cases4)
  show thesis
  proof (cases v)
    case None
    then show thesis using assms True oa no_anchor by (simp add: settle_method_def)
  next
    case (Some tv)
    note here = assms True oa Some
    let ?w2 = "wa\<lparr>w_moment := Suc (w_moment wa)\<rparr>"
    show thesis
    proof (cases "mint_pending (x (w_moment wa)) m tv p1")
      case (MintErr e)
      then show thesis using here no_mint by (simp add: settle_method_def)
    next
      case MintPanic
      then show thesis using here no_mint by (simp add: settle_method_def)
    next
      case (Minted ws)
      let ?f = "find (\<lambda>(w, v). v \<noteq> Verified) (zip ws (self_check x ctx ws (w_moment wa)))"
      show thesis
      proof (cases ?f)
        case None
        with here Minted show thesis
          using served by (auto simp: settle_method_def split: prod.splits)
      next
        case (Some wv)
        then have nv: "snd wv \<noteq> Verified" by (auto dest: find_Some_set)
        obtain p2 w3 where sm: "settle_missing x ctx m now p1 ?w2 = (p2, w3)" by fastforce
        show thesis
        proof (cases "snd wv")
          case (NotYet t)
          with here Minted Some show thesis using kept by (cases wv) (simp add: settle_method_def)
        next
          case (Missing t)
          with here Minted Some sm show thesis using missing by (cases wv) (simp add: settle_method_def)
        next
          case (Failed t b)
          with here Minted Some show thesis
            using kept at_fault by (cases wv; cases b) (simp_all add: settle_method_def Let_def)
        qed (use nv in simp)
      qed
    qed
  qed
qed

text \<open>
  An invariant of the store together with one of the pending records.  Everything settling does to
  the store is saving a record or serving self-checked witnesses, so settling keeps what these two
  writes keep; a tick also seals an epoch.
\<close>

locale settle_invariant =
  fixes x :: "'b sdk_at" and ctx :: witness_context
    and I :: "'b store \<Rightarrow> bool" and R :: "pending_epoch \<Rightarrow> bool"
  assumes claims: "anchor_claims (x n)"
    and save: "I s \<Longrightarrow> R p \<Longrightarrow> save_pending (x n) p s = (r, s') \<Longrightarrow> I s'"
    and minted: "I s \<Longrightarrow> R p \<Longrightarrow> persist_pending_minted (x n) (remaining_after m p) m ws s = (r, s') \<Longrightarrow>
      (\<And>mw. mw \<in> set ws \<Longrightarrow> vouched x ctx mw) \<Longrightarrow> I s'"
    and set_anchor: "R p \<Longrightarrow> pending_anchor p m = None \<Longrightarrow> anchor_fault_count p m < wc_max_anchor_faults ctx \<Longrightarrow>
      R (set_anchor m v now p)"
    and fault: "R p \<Longrightarrow> pending_anchor p m \<noteq> None \<Longrightarrow> R (drop_anchor m (snd (count_anchor_fault m p)))"
    and seen: "R p \<Longrightarrow> anchor_first_seen m now p = (fs, p') \<Longrightarrow> R p'"
    and remaining: "R p \<Longrightarrow> R (remaining_after m p)"
begin

lemma world_save: "I (w_store w) \<Longrightarrow> R p \<Longrightarrow> world_save_pending x p w = (r, w') \<Longrightarrow> I (w_store w')"
  by (auto simp: world_save_pending_def split: prod.splits intro: save)

lemma world_save_snd: "I (w_store w) \<Longrightarrow> R p \<Longrightarrow> I (w_store (snd (world_save_pending x p w)))"
  by (metis prod.collapse world_save)

lemma store_anchor_inv: "I (w_store w) \<Longrightarrow> R p \<Longrightarrow> store_anchor x p w = (b, w') \<Longrightarrow> I (w_store w')"
  by (auto simp: store_anchor_def split: prod.splits sum.splits dest: world_save)

lemma obtain_anchor_inv:
  assumes "I (w_store w)" "R p" "obtain_anchor x ctx m now p down w = (v, p1, down1, w1)"
  shows "I (w_store w1) \<and> R p1"
  using assms(3)
proof (cases rule: obtain_anchor_cases)
  case (anchored tv wa)
  then show ?thesis using assms(1,2) set_anchor store_anchor_inv by (metis anchor_root_store)
next
  case (unstored tv wa)
  then show ?thesis using assms(1,2) set_anchor store_anchor_inv by (metis anchor_root_store)
qed (use assms(1,2) in simp_all)

lemma settle_missing_inv:
  assumes "I (w_store w)" "R p" "settle_missing x ctx m now p w = (p', w')"
  shows "I (w_store w') \<and> R p'"
proof -
  obtain fs p1 where fs: "anchor_first_seen m now p = (fs, p1)" by fastforce
  have p1: "R p1" "fs \<noteq> None \<Longrightarrow> pending_anchor p1 m \<noteq> None"
    using seen [OF assms(2) fs] pending_anchor_first_seen(1,2) [OF fs] by simp_all
  then show ?thesis
    using assms(1,3) fault [OF p1(1), of m]
    by (auto simp: settle_missing_def fs Let_def world_save_snd split: option.splits if_splits)
qed

lemma serve_inv:
  assumes "I (w_store w)" "R p" "serve x m ws p w = (r, p', w')" "\<And>mw. mw \<in> set ws \<Longrightarrow> vouched x ctx mw"
  shows "I (w_store w') \<and> R p'"
  using assms minted [OF assms(1,2) _ assms(4)] remaining [OF assms(2)]
  by (auto simp: serve_def split: prod.splits sum.splits)

lemma settle_method_inv:
  assumes I: "I (w_store w)" and R: "R p" and run: "settle_method x ctx now m p down w = (r, p', down', w')"
  shows "I (w_store w') \<and> R p'"
  using run
proof (cases rule: settle_method_cases)
  case (no_mint v wa)
  then show ?thesis using obtain_anchor_inv [OF I R] by simp
next
  case (kept v wa ws)
  then show ?thesis using obtain_anchor_inv [OF I R] by simp
next
  case (missing v p1 wa ws)
  have "I (w_store wa) \<and> R p1"
    using obtain_anchor_inv [OF I R missing(2)] .
  then show ?thesis using settle_missing_inv [OF _ _ missing(4)] by simp
next
  case (at_fault v p1 down1 wa ws)
  have "R p'"
    using at_fault obtain_anchor_inv [OF I R] obtain_anchor_Some fault by (metis option.distinct(1))
  with at_fault show ?thesis using obtain_anchor_inv [OF I R] world_save_snd by simp
next
  case (served v p1 wa ws)
  then show ?thesis
    using obtain_anchor_inv [OF I R] serve_inv [OF _ _ served(5)] self_check_vouched [OF claims served(4)] by simp
qed (use I R obtain_anchor_inv [OF I R] in simp_all)

lemma settle_methods_inv:
  "I (w_store w) \<Longrightarrow> R p \<Longrightarrow> settle_methods x ctx now ms p down w = (b, ws, p', down', w') \<Longrightarrow> I (w_store w') \<and> R p'"
proof (induction ms arbitrary: p down w ws)
  case Nil
  then show ?case by simp
next
  case (Cons m ms)
  obtain r p1 down1 w1 where sm: "settle_method x ctx now m p down w = (r, p1, down1, w1)" by (metis prod_cases4)
  note inv1 = settle_method_inv [OF Cons.prems(1,2) sm]
  show ?case
    using Cons.IH [of w1 p1 down1] inv1 Cons.prems(3) sm
    by (cases r) (auto split: prod.splits)
qed

end

locale tick_invariant = settle_invariant +
  assumes sealed: "I s \<Longrightarrow> persist_sealed_epoch_with_pending (x n) er ls [] pending s = (r, s') \<Longrightarrow>
      (\<And>p. pending = Some p \<Longrightarrow> R p) \<Longrightarrow> I s'"
    and listed: "I s \<Longrightarrow> list_pending_epochs (x n) s = Inr ps \<Longrightarrow> p \<in> set ps \<Longrightarrow> R p"
    and new: "R (pending_new (x n) snap b ms)"
begin

lemma retry_loop_inv:
  "I (w_store w) \<Longrightarrow> \<forall>p\<in>set ps. R p \<Longrightarrow> retry_loop x ctx now ps down w = (b, ws, down', w') \<Longrightarrow> I (w_store w')"
proof (induction ps arbitrary: down w ws)
  case Nil
  then show ?case by simp
next
  case (Cons p ps)
  obtain c ws1 p1 down1 w1 where sm: "settle_methods x ctx now (pe_methods p) p down w = (c, ws1, p1, down1, w1)"
    by (metis prod_cases5)
  have "I (w_store w1)"
    using settle_methods_inv [OF Cons.prems(1) _ sm] Cons.prems(2) by simp
  then show ?case
    using Cons.IH [of w1 down1] Cons.prems(2,3) sm by (cases c) (auto split: prod.splits)
qed

lemma retry_pending_inv:
  "I (w_store w) \<Longrightarrow> retry_pending x ctx now w = (b, ws, down, w') \<Longrightarrow> I (w_store w')"
  by (auto simp: retry_pending_def split: sum.splits intro: retry_loop_inv listed)

lemma close_epoch_inv:
  assumes "I (w_store w)" "c = None \<or> c = Some ctx" "close_epoch x c t d ws down acc w = (r, acc', w')"
  shows "I (w_store w')"
proof -
  have R: "pending_for (x n) c snap b = Some p \<Longrightarrow> R p" for n snap b p
    by (auto simp: pending_for_def split: option.splits if_splits intro: new)
  show ?thesis
    using assms
    by (auto simp: close_epoch_def Let_def split: prod.splits sum.splits option.splits bool.splits
        intro: sealed R dest!: settle_methods_inv [rotated 2])
qed

lemma seal_once_inv:
  assumes "I (w_store w)" "c = None \<or> c = Some ctx" "seal_once x c t d acc w = (r, acc', w')"
  shows "I (w_store w')"
  using assms
  by (auto simp: seal_once_def split: option.splits sum.splits prod.splits bool.splits
      dest: retry_pending_inv intro: close_epoch_inv)

end

section \<open>Only verified witnesses are servable\<close>

text \<open>
  Every tip the routes can reach, by mark, by index or by leaf, is one of a given set or belongs to
  a witness that passed the self-check.
\<close>

definition tips_vouched :: "'b sdk_at \<Rightarrow> witness_context \<Rightarrow> hash32 set \<Rightarrow> 'b db \<Rightarrow> bool" where
  "tips_vouched x ctx old d \<longleftrightarrow>
     (\<forall>k. (part_get (db_self_checked_tips d) k \<noteq> None \<or> part_get (db_tip_to_pair d) k \<noteq> None
           \<or> (\<exists>lk. part_get (db_leaf_to_tips d) lk = Some k)) \<longrightarrow>
        k \<in> old \<or> (\<exists>mw. vouched x ctx mw \<and> mw_signature_hash mw = k))"

lemma commit_both:
  assumes "commit_and_persist ops s = (r, s')" "J (st_db s)" "J (st_disk s)" "J (st_db s) \<Longrightarrow> J (apply_batch ops (st_db s))"
  shows "J (st_db s') \<and> J (st_disk s')"
  using assms(1) by (cases rule: commit_cases) (use assms in auto)

lemma tips_vouched_batch:
  assumes d: "tips_vouched x ctx old d"
    and ops: "\<And>o'. o' \<in> set ops \<Longrightarrow>
      (case o' of Put_self_checked_tips k \<Rightarrow> \<exists>mw. vouched x ctx mw \<and> mw_signature_hash mw = k
       | Put_tip_to_pair k v \<Rightarrow> \<exists>mw. vouched x ctx mw \<and> mw_signature_hash mw = k
       | Put_leaf_to_tips lk k \<Rightarrow> \<exists>mw. vouched x ctx mw \<and> mw_signature_hash mw = k
       | _ \<Rightarrow> True)"
  shows "tips_vouched x ctx old (apply_batch ops d)"
  using assms
proof (induction ops arbitrary: d)
  case Nil
  then show ?case by simp
next
  case (Cons o' ops)
  have "tips_vouched x ctx old (apply_op o' d)"
    using Cons.prems(1) Cons.prems(2) [of o']
    by (cases o') (auto simp: tips_vouched_def split: if_splits)
  then show ?case
    using Cons.IH Cons.prems(2) by simp
qed

lemma write_witnesses_ops_cases:
  assumes "write_witnesses x ws = Inr ops" "o' \<in> set ops"
  shows "\<exists>mw\<in>set ws. (\<exists>h v. o' = Put_witness_revisions h v) \<or> (\<exists>k. o' = Put_leaf_to_tips k (mw_signature_hash mw))
    \<or> (\<exists>v. o' = Put_tip_to_pair (mw_signature_hash mw) v)"
  using assms by (fastforce simp: write_witnesses_InrD(1) elim!: witness_ops_InrD)

lemma minted_ops_vouched:
  assumes "minted_ops y q m ws s = Inr ops" "\<And>mw. mw \<in> set ws \<Longrightarrow> vouched x ctx mw" "tips_vouched x ctx old d"
  shows "tips_vouched x ctx old (apply_batch ops d)"
proof (rule tips_vouched_batch [OF assms(3)])
  fix o' assume o': "o' \<in> set ops"
  obtain w_ops leaves p_ops where *: "write_witnesses y ws = Inr w_ops"
    "set ops = set w_ops \<union> (\<lambda>w. Put_self_checked_tips (mw_signature_hash w)) ` set ws \<union>
       Del_pending_leaves ` {k. \<exists>l\<in>set leaves. k = compose_leaf_to_tips_key l (method_byte m)
           \<and> part_get (db_pending_leaves (st_db s)) k = Some (to_be_bytes (pe_epoch_id q))} \<union> set p_ops"
    "\<forall>o'\<in>set p_ops. op_key o' = (P_pending_anchors, to_be_bytes (pe_epoch_id q))"
    using assms(1) by (rule minted_ops_set)
  consider "o' \<in> set w_ops" | mw where "mw \<in> set ws" "o' = Put_self_checked_tips (mw_signature_hash mw)"
    | k where "o' = Del_pending_leaves k" | "o' \<in> set p_ops"
    using o' *(2) by blast
  then show "case o' of Put_self_checked_tips k \<Rightarrow> \<exists>mw. vouched x ctx mw \<and> mw_signature_hash mw = k
       | Put_tip_to_pair k v \<Rightarrow> \<exists>mw. vouched x ctx mw \<and> mw_signature_hash mw = k
       | Put_leaf_to_tips lk k \<Rightarrow> \<exists>mw. vouched x ctx mw \<and> mw_signature_hash mw = k
       | _ \<Rightarrow> True"
  proof cases
    case 1
    then show ?thesis
      using write_witnesses_ops_cases [OF *(1)] assms(2) by fastforce
  next
    case 4
    then show ?thesis using *(3) by (cases o' rule: batch_op.exhaust) auto
  qed (use assms(2) in auto)
qed

lemma sealed_ops_vouched:
  assumes "sealed_ops y er ls [] pending = Inr ops" "tips_vouched x ctx old d"
  shows "tips_vouched x ctx old (apply_batch ops d)"
proof (rule tips_vouched_batch [OF assms(2)])
  fix o' assume o': "o' \<in> set ops"
  obtain p_ops encoded w_ops where *: "case pending of None \<Rightarrow> p_ops = [] | Some p \<Rightarrow> pending_ops y p = Inr p_ops"
    "enc_epoch y er = Inr encoded" "write_witnesses y [] = Inr w_ops"
    "ops = p_ops @ [Put_epochs (to_be_bytes (er_id er)) encoded] @ leaf_ops (er_id er) ls @ w_ops"
    using assms(1) by (rule sealed_ops_InrD)
  show "case o' of Put_self_checked_tips k \<Rightarrow> \<exists>mw. vouched x ctx mw \<and> mw_signature_hash mw = k
       | Put_tip_to_pair k v \<Rightarrow> \<exists>mw. vouched x ctx mw \<and> mw_signature_hash mw = k
       | Put_leaf_to_tips lk k \<Rightarrow> \<exists>mw. vouched x ctx mw \<and> mw_signature_hash mw = k
       | _ \<Rightarrow> True"
    using o' pending_ops_parts [OF *(1), of o'] *(3,4)
    by (cases o' rule: batch_op.exhaust) (auto simp: leaf_ops_set)
qed

lemma tick_vouched:
  assumes "\<And>n. anchor_claims (x n)"
  shows "tick_invariant x ctx (\<lambda>s. tips_vouched x ctx old (st_db s) \<and> tips_vouched x ctx old (st_disk s)) (\<lambda>_. True)"
proof (intro tick_invariant.intro settle_invariant.intro tick_invariant_axioms.intro, goal_cases)
  case (1 n)
  then show ?case by (rule assms)
next
  case (2 s p n r s')
  then show ?case
    by (auto simp: save_pending_def split: sum.splits
        dest!: commit_both [where J = "tips_vouched x ctx old"] intro: tips_vouched_batch)
next
  case (3 s p n m ws r s')
  then show ?case
    by (auto simp: persist_pending_minted_def split: sum.splits
        dest!: commit_both [where J = "tips_vouched x ctx old"] intro: minted_ops_vouched)
next
  case (8 s n er ls pending r s')
  then show ?case
    by (auto simp: persist_sealed_epoch_with_pending_def split: sum.splits
        dest!: commit_both [where J = "tips_vouched x ctx old"] intro: sealed_ops_vouched)
qed simp_all

section \<open>Bounded anchor faults\<close>

definition anchor_bounds :: "u32 \<Rightarrow> pending_epoch \<Rightarrow> bool" where
  "anchor_bounds cap p \<longleftrightarrow> (\<forall>m. anchor_fault_count p m \<le> cap \<and> (pending_anchor p m \<noteq> None \<longrightarrow> anchor_fault_count p m < cap))"

definition pendings_all :: "'b sdk_at \<Rightarrow> (pending_epoch \<Rightarrow> bool) \<Rightarrow> 'b db \<Rightarrow> bool" where
  "pendings_all x R d \<longleftrightarrow> (\<forall>n k v p. (k, v) \<in> set (db_pending_anchors d) \<longrightarrow> dec_pending (x n) v = Inr p \<longrightarrow> R p)"

definition pending_codec_stable :: "'b sdk_at \<Rightarrow> bool" where
  "pending_codec_stable x \<longleftrightarrow> (\<forall>n n' p v. enc_pending (x n) p = Inr v \<longrightarrow> dec_pending (x n') v = Inr p)"

lemma pendings_all_batch:
  assumes "pendings_all x R d"
    and "\<And>k v. Put_pending_anchors k v \<in> set ops \<Longrightarrow> \<exists>n p. enc_pending (x n) p = Inr v \<and> R p"
    and "pending_codec_stable x"
  shows "pendings_all x R (apply_batch ops d)"
  using assms(1,2)
proof (induction ops arbitrary: d)
  case Nil
  then show ?case by simp
next
  case (Cons o' ops)
  have "pendings_all x R (apply_op o' d)"
  proof (cases "\<exists>k v. o' = Put_pending_anchors k v")
    case True
    then obtain k v where o': "o' = Put_pending_anchors k v" by blast
    then obtain n p where p: "enc_pending (x n) p = Inr v" "R p"
      using Cons.prems(2) [of k v] by auto
    then have "dec_pending (x n') v = Inr q \<Longrightarrow> R q" for n' q
      using assms(3) by (auto simp: pending_codec_stable_def)
    then show ?thesis
      using Cons.prems(1) set_part_insert [of k v "db_pending_anchors d"] o' by (auto simp: pendings_all_def)
  next
    case False
    then have "set (db_pending_anchors (apply_op o' d)) \<subseteq> set (db_pending_anchors d)"
      by (cases o') (auto simp: part_remove_def)
    then show ?thesis
      using Cons.prems(1) by (auto simp: pendings_all_def)
  qed
  then show ?case
    unfolding apply_batch_simps by (rule Cons.IH) (use Cons.prems(2) in auto)
qed

lemma anchor_fault_count_frame [simp]:
  "anchor_fault_count (set_anchor m v now p) m' = anchor_fault_count p m'"
  "anchor_fault_count (drop_anchor m p) m' = anchor_fault_count p m'"
  "anchor_fault_count (remaining_after m p) m' = anchor_fault_count p m'"
  by (simp_all add: anchor_fault_count_def remaining_after_def)

lemma pending_anchor_remaining [simp]:
  "pending_anchor (remaining_after m p) m' = (if m' = m then None else pending_anchor p m')"
  by (simp add: remaining_after_def) (simp add: pending_anchor_def)

lemma anchor_bounds_fault:
  assumes "anchor_bounds cap p" "pending_anchor p m \<noteq> None"
  shows "anchor_bounds cap (drop_anchor m (snd (count_anchor_fault m p)))"
proof -
  obtain n q where q: "count_anchor_fault m p = (n, q)" by fastforce
  have n: "n = anchor_fault_count p m + 1" "anchor_fault_count q m' = (if m' = m then n else anchor_fault_count p m')" for m'
    using count_anchor_fault_count [OF q] by auto
  have "anchor_fault_count p m < cap"
    using assms by (auto simp: anchor_bounds_def)
  then have "n \<le> cap"
    unfolding n(1) by (rule inc_le)
  moreover have "pending_anchor q m' = pending_anchor p m'" for m'
    using count_anchor_fault_frame(5) [OF q] by (simp add: pending_anchor_def)
  ultimately show ?thesis
    using assms(1) by (simp add: anchor_bounds_def q n(2))
qed

lemma persist_pending_minted_cases:
  assumes "persist_pending_minted y q m ws s = (r, s')"
  obtains (err) "s' = s" | (run) ops where "minted_ops y q m ws s = Inr ops" "commit_and_persist ops s = (r, s')"
  using assms that by (auto simp: persist_pending_minted_def split: sum.splits)

lemma minted_put_pending:
  assumes "minted_ops y q m ws s = Inr ops" "Put_pending_anchors k v \<in> set ops"
  shows "enc_pending y q = Inr v"
proof -
  obtain w_ops leaves dels p_ops where *: "write_witnesses y ws = Inr w_ops" "leaf_hashes y q = Inr leaves"
    "collect_results (retired_lookup s (pe_epoch_id q) m) leaves = Inr dels"
    "ops = w_ops @ map (\<lambda>w. Put_self_checked_tips (mw_signature_hash w)) ws @ concat dels @ p_ops"
    "\<forall>o'\<in>set p_ops. op_key o' = (P_pending_anchors, to_be_bytes (pe_epoch_id q))"
    "pe_methods q = [] \<longrightarrow> p_ops = [Del_pending_anchors (to_be_bytes (pe_epoch_id q))]"
    "pe_methods q \<noteq> [] \<longrightarrow> (\<exists>json. enc_pending y q = Inr json
        \<and> p_ops = [Put_pending_anchors (to_be_bytes (pe_epoch_id q)) json])"
    using assms(1) by (rule minted_ops_InrD)
  have "Put_pending_anchors k v \<notin> set w_ops"
    using write_witnesses_parts [OF *(1)] by fastforce
  moreover have "Put_pending_anchors k v \<notin> set (concat dels)"
    unfolding retired_lookup_set [OF *(3)] by blast
  ultimately have "Put_pending_anchors k v \<in> set p_ops"
    using assms(2) by (auto simp: *(4))
  with *(6,7) show ?thesis by (cases "pe_methods q = []") auto
qed

lemma sealed_put_pending:
  assumes "sealed_ops y er ls ws pending = Inr ops" "Put_pending_anchors k v \<in> set ops"
  shows "\<exists>p. pending = Some p \<and> enc_pending y p = Inr v"
proof -
  obtain p_ops encoded w_ops where *: "case pending of None \<Rightarrow> p_ops = [] | Some p \<Rightarrow> pending_ops y p = Inr p_ops"
    "write_witnesses y ws = Inr w_ops"
    "ops = p_ops @ [Put_epochs (to_be_bytes (er_id er)) encoded] @ leaf_ops (er_id er) ls @ w_ops"
    using assms(1) by (rule sealed_ops_InrD)
  have "Put_pending_anchors k v \<notin> set w_ops"
    using write_witnesses_parts [OF *(2)] by fastforce
  then have "Put_pending_anchors k v \<in> set p_ops"
    using assms(2) by (auto simp: *(3) leaf_ops_set)
  with *(1) show ?thesis
    by (auto split: option.splits elim!: pending_ops_InrD)
qed

lemma list_pending_get:
  assumes "list_pending_epochs y s = Inr ps" "p \<in> set ps"
  shows "\<exists>k v. (k, v) \<in> set (db_pending_anchors (st_db s)) \<and> dec_pending y v = Inr p"
proof -
  obtain i where i: "i < length ps" "ps ! i = p"
    using assms(2) by (auto simp: in_set_conv_nth)
  let ?kvs = "db_pending_anchors (st_db s)"
  have len: "length ps = length ?kvs"
    and *: "(\<lambda>(k, v). and_then (fj_read s P_pending_anchors k v) (\<lambda>v. map_err SE_WitnessJson (dec_pending y v))) (?kvs ! i) = Inr (ps ! i)"
    using collect_results_InrD [OF assms(1) [unfolded list_pending_epochs_def]] i(1) by auto
  obtain k v where kv: "?kvs ! i = (k, v)" by fastforce
  with * i have "dec_pending y v = Inr p" by simp
  moreover have "(k, v) \<in> set ?kvs"
    using kv i(1) len by (metis nth_mem)
  ultimately show ?thesis by blast
qed

lemma tick_bounds:
  assumes claims: "\<And>n. anchor_claims (x n)" and codec: "pending_codec_stable x"
  shows "tick_invariant x ctx
    (\<lambda>s. pendings_all x (anchor_bounds (wc_max_anchor_faults ctx)) (st_db s)
       \<and> pendings_all x (anchor_bounds (wc_max_anchor_faults ctx)) (st_disk s))
    (anchor_bounds (wc_max_anchor_faults ctx))"
proof (intro tick_invariant.intro settle_invariant.intro tick_invariant_axioms.intro, goal_cases)
  case (1 n)
  then show ?case by (rule claims)
next
  case (2 s p n r s')
  then show ?case
    by (auto simp: save_pending_def split: sum.splits
        dest!: commit_both [where J = "pendings_all x (anchor_bounds (wc_max_anchor_faults ctx))"]
        intro!: pendings_all_batch codec) blast+
next
  case (3 s p n m ws r s')
  have rem: "anchor_bounds (wc_max_anchor_faults ctx) (remaining_after m p)"
    using 3(2) by (auto simp: anchor_bounds_def)
  from 3(3) show ?case
  proof (cases rule: persist_pending_minted_cases)
    case err
    with 3(1) show ?thesis by simp
  next
    case (run ops)
    have "pendings_all x (anchor_bounds (wc_max_anchor_faults ctx)) (apply_batch ops (st_db s))"
    proof (rule pendings_all_batch [OF _ _ codec])
      fix k v assume "Put_pending_anchors k v \<in> set ops"
      then have "enc_pending (x n) (remaining_after m p) = Inr v"
        by (rule minted_put_pending [OF run(1)])
      with rem show "\<exists>n p. enc_pending (x n) p = Inr v \<and> anchor_bounds (wc_max_anchor_faults ctx) p"
        by blast
    qed (use 3(1) in simp)
    with commit_both [OF run(2), where J = "pendings_all x (anchor_bounds (wc_max_anchor_faults ctx))"] 3(1)
    show ?thesis by blast
  qed
next
  case (4 p m v now)
  then show ?case by (simp add: anchor_bounds_def)
next
  case (5 p m)
  then show ?case by (rule anchor_bounds_fault)
next
  case (6 p m now fs p')
  then show ?case using pending_anchor_first_seen(1,3) by (simp add: anchor_bounds_def)
next
  case (7 p m)
  then show ?case by (simp add: anchor_bounds_def)
next
  case (8 s n er ls pending r s')
  then show ?case
    by (auto simp: persist_sealed_epoch_with_pending_def split: sum.splits
        dest!: commit_both [where J = "pendings_all x (anchor_bounds (wc_max_anchor_faults ctx))"]
        intro!: pendings_all_batch codec) (meson sealed_put_pending)+
next
  case (9 s n ps p)
  then show ?case using list_pending_get by (fastforce simp: pendings_all_def)
next
  case (10 n snap b ms)
  then show ?case by (simp add: anchor_bounds_def anchor_fault_count_def pending_anchor_def pending_new_def)
qed

section \<open>Provider calls of a tick\<close>

text \<open>
  The calls a piece of the tick adds: every one is for a method that was not down, at most one of a
  method fails, and none follows a failure of its method, which is down from then on.
\<close>

definition calls_ok :: "anchor_method set \<Rightarrow> provider_call list \<Rightarrow> anchor_method set \<Rightarrow> bool" where
  "calls_ok down cs down' \<longleftrightarrow> down \<subseteq> down'
     \<and> (\<forall>c\<in>set cs. pc_method c \<notin> down)
     \<and> (\<forall>i<length cs. \<not> pc_ok (cs ! i) \<longrightarrow> pc_method (cs ! i) \<in> down'
          \<and> (\<forall>j. i < j \<longrightarrow> j < length cs \<longrightarrow> pc_method (cs ! j) \<noteq> pc_method (cs ! i)))"

lemma calls_ok_Nil [simp]: "down \<subseteq> down' \<Longrightarrow> calls_ok down [] down'"
  by (simp add: calls_ok_def)

lemma calls_ok_mono: "calls_ok down cs down1 \<Longrightarrow> down1 \<subseteq> down2 \<Longrightarrow> calls_ok down cs down2"
  unfolding calls_ok_def by blast

lemma calls_ok_append:
  assumes a: "calls_ok down cs down1" and b: "calls_ok down1 ds down2"
  shows "calls_ok down (cs @ ds) down2"
proof -
  have sub: "down \<subseteq> down1" "down1 \<subseteq> down2"
    using a b by (auto simp: calls_ok_def)
  have "pc_method ((cs @ ds) ! i) \<in> down2 \<and>
      (\<forall>j. i < j \<longrightarrow> j < length (cs @ ds) \<longrightarrow> pc_method ((cs @ ds) ! j) \<noteq> pc_method ((cs @ ds) ! i))"
    if i: "i < length (cs @ ds)" "\<not> pc_ok ((cs @ ds) ! i)" for i
  proof (cases "i < length cs")
    case True
    then have "\<not> pc_ok (cs ! i)" using i(2) by (simp add: nth_append)
    then have *: "pc_method (cs ! i) \<in> down1" "\<forall>j. i < j \<longrightarrow> j < length cs \<longrightarrow> pc_method (cs ! j) \<noteq> pc_method (cs ! i)"
      using a True by (auto simp: calls_ok_def)
    have "pc_method (ds ! (j - length cs)) \<noteq> pc_method (cs ! i)" if "length cs \<le> j" "j < length cs + length ds" for j
    proof -
      have "ds ! (j - length cs) \<in> set ds"
        using that by (intro nth_mem) simp
      then have "pc_method (ds ! (j - length cs)) \<notin> down1"
        using b by (simp add: calls_ok_def)
      then show ?thesis using *(1) by metis
    qed
    then show ?thesis
      using * True sub by (auto simp: nth_append)
  next
    case False
    then have k: "i - length cs < length ds" "\<not> pc_ok (ds ! (i - length cs))"
      using i by (auto simp: nth_append)
    then have *: "pc_method (ds ! (i - length cs)) \<in> down2"
      "\<forall>j. i - length cs < j \<longrightarrow> j < length ds \<longrightarrow> pc_method (ds ! j) \<noteq> pc_method (ds ! (i - length cs))"
      using b by (auto simp: calls_ok_def)
    show ?thesis
    proof (intro conjI allI impI)
      show "pc_method ((cs @ ds) ! i) \<in> down2"
        using * False by (simp add: nth_append)
      fix j assume j: "i < j" "j < length (cs @ ds)"
      have "pc_method (ds ! (j - length cs)) \<noteq> pc_method (ds ! (i - length cs))"
        using *(2) j False by (auto simp: diff_less_mono)
      then show "pc_method ((cs @ ds) ! j) \<noteq> pc_method ((cs @ ds) ! i)"
        using False j by (simp add: nth_append)
    qed
  qed
  moreover have "\<forall>c\<in>set (cs @ ds). pc_method c \<notin> down"
    using a b sub by (auto simp: calls_ok_def)
  ultimately show ?thesis
    using sub unfolding calls_ok_def by blast
qed

lemma world_save_calls [simp]: "w_calls (snd (world_save_pending x p w)) = w_calls w"
  "w_moment (snd (world_save_pending x p w)) = w_moment w"
  by (simp_all add: world_save_pending_def split: prod.splits)

lemma world_save_calls_eq: "world_save_pending x p w = (r, w') \<Longrightarrow> w_calls w' = w_calls w"
  using world_save_calls(1) [of x p w] by simp

lemma store_anchor_calls: "store_anchor x p w = (b, w') \<Longrightarrow> w_calls w' = w_calls w"
  by (auto simp: store_anchor_def split: prod.splits sum.splits dest!: world_save_calls_eq)

lemma settle_missing_calls: "settle_missing x ctx m now p w = (p', w') \<Longrightarrow> w_calls w' = w_calls w"
  by (auto simp: settle_missing_def Let_def split: prod.splits option.splits if_splits)

lemma serve_calls: "serve x m ws p w = (r, p', w') \<Longrightarrow> w_calls w' = w_calls w"
  by (auto simp: serve_def split: prod.splits sum.splits)

lemma calls_ok_single:
  "m \<notin> down \<Longrightarrow> calls_ok down [\<lparr>pc_method = m, pc_epoch = e, pc_ok = True\<rparr>] down"
  "m \<notin> down \<Longrightarrow> calls_ok down [\<lparr>pc_method = m, pc_epoch = e, pc_ok = ok\<rparr>] (insert m down)"
  by (auto simp: calls_ok_def)

lemma anchor_root_calls:
  assumes "anchor_root ctx m e root w = (r, w')"
  shows "w_calls w' = w_calls w \<and> r = None
     \<or> w_calls w' = w_calls w @ [\<lparr>pc_method = m, pc_epoch = e, pc_ok = (r \<noteq> None)\<rparr>]"
proof (cases "context_provider ctx m")
  case None
  with assms show ?thesis by (simp add: anchor_root_def)
next
  case (Some anchor)
  show ?thesis
  proof (cases "anchor (w_moment w) root")
    case (Inl e')
    have "w' = w\<lparr>w_moment := Suc (w_moment w),
        w_calls := w_calls w @ [\<lparr>pc_method = m, pc_epoch = e, pc_ok = False\<rparr>]\<rparr>" and "r = None"
      using assms Some Inl by (simp_all add: anchor_root_def Let_def)
    then show ?thesis by simp
  next
    case (Inr v)
    have "w' = w\<lparr>w_moment := Suc (w_moment w),
        w_calls := w_calls w @ [\<lparr>pc_method = m, pc_epoch = e, pc_ok = True\<rparr>]\<rparr>" and "r = Some v"
      using assms Some Inr by (simp_all add: anchor_root_def Let_def)
    then show ?thesis by simp
  qed
qed

lemma obtain_anchor_calls:
  assumes "obtain_anchor x ctx m now p down w = (v, p1, down1, w1)"
  shows "\<exists>cs. w_calls w1 = w_calls w @ cs \<and> calls_ok down cs down1 \<and> length cs \<le> 1
    \<and> (\<forall>c\<in>set cs. pc_method c = m \<and> pc_epoch c = pe_epoch_id p \<and> pending_anchor p m = None
          \<and> anchor_fault_count p m < wc_max_anchor_faults ctx)"
  using assms
proof (cases rule: obtain_anchor_cases)
  case call_failed
  let ?c = "\<lparr>pc_method = m, pc_epoch = pe_epoch_id p, pc_ok = False\<rparr>"
  have "w_calls w1 = w_calls w @ [] \<or> w_calls w1 = w_calls w @ [?c]"
    using anchor_root_calls [OF call_failed(4)] by simp
  then show ?thesis
  proof
    assume "w_calls w1 = w_calls w @ []"
    then show ?thesis by (intro exI [of _ "[]"]) (simp add: call_failed(7) subset_insertI)
  next
    assume "w_calls w1 = w_calls w @ [?c]"
    then show ?thesis
      by (intro exI [of _ "[?c]"]) (simp add: call_failed(1,2,3,7) calls_ok_single)
  qed
next
  case (anchored tv wa)
  let ?c = "\<lparr>pc_method = m, pc_epoch = pe_epoch_id p, pc_ok = True\<rparr>"
  have "w_calls w1 = w_calls w @ [?c]"
    using anchor_root_calls [OF anchored(4)] store_anchor_calls [OF anchored(5)] by simp
  then show ?thesis
    by (intro exI [of _ "[?c]"]) (simp add: anchored(1,2,3,8) calls_ok_single)
next
  case (unstored tv wa)
  let ?c = "\<lparr>pc_method = m, pc_epoch = pe_epoch_id p, pc_ok = True\<rparr>"
  have "w_calls w1 = w_calls w @ [?c]"
    using anchor_root_calls [OF unstored(4)] store_anchor_calls [OF unstored(5)] by simp
  then show ?thesis
    by (intro exI [of _ "[?c]"]) (simp add: unstored(1,2,3,8) calls_ok_single)
qed auto

lemma settle_method_calls:
  assumes "settle_method x ctx now m p down w = (r, p', down', w')"
  shows "\<exists>cs. w_calls w' = w_calls w @ cs \<and> calls_ok down cs down' \<and> length cs \<le> 1
    \<and> (\<forall>c\<in>set cs. m \<in> set (wc_methods ctx) \<and> pc_method c = m \<and> pc_epoch c = pe_epoch_id p \<and> pending_anchor p m = None
          \<and> anchor_fault_count p m < wc_max_anchor_faults ctx)"
  using assms
proof (cases rule: settle_method_cases)
  case (at_fault v p1 down1 wa ws)
  from obtain_anchor_calls [OF at_fault(2)] obtain cs where cs: "w_calls wa = w_calls w @ cs" "calls_ok down cs down1" "length cs \<le> 1"
    "\<forall>c\<in>set cs. pc_method c = m \<and> pc_epoch c = pe_epoch_id p \<and> pending_anchor p m = None
          \<and> anchor_fault_count p m < wc_max_anchor_faults ctx" by blast
  then show ?thesis
    using at_fault by (intro exI [of _ cs]) (auto intro: calls_ok_mono)
qed (auto dest!: obtain_anchor_calls settle_missing_calls serve_calls)

lemma settle_methods_calls:
  "settle_methods x ctx now ms p down w = (b, ws, p', down', w') \<Longrightarrow>
     \<exists>cs. w_calls w' = w_calls w @ cs \<and> calls_ok down cs down'"
proof (induction ms arbitrary: p down w ws)
  case Nil
  then show ?case by simp
next
  case (Cons m ms)
  obtain r p1 down1 w1 where sm: "settle_method x ctx now m p down w = (r, p1, down1, w1)" by (metis prod_cases4)
  then obtain cs where cs: "w_calls w1 = w_calls w @ cs" "calls_ok down cs down1"
    using settle_method_calls by blast
  have step: "\<exists>cs'. w_calls w' = w_calls w @ cs' \<and> calls_ok down cs' down'"
    if "w_calls w' = w_calls w1 @ ds" "calls_ok down1 ds down'" for ds
    using that cs by (intro exI [of _ "cs @ ds"]) (simp add: calls_ok_append)
  show ?case
    using Cons.IH [of p1 down1 w1] Cons.prems sm cs step
    by (cases r) (auto split: prod.splits)
qed

lemma retry_loop_calls:
  "retry_loop x ctx now ps down w = (b, ws, down', w') \<Longrightarrow> \<exists>cs. w_calls w' = w_calls w @ cs \<and> calls_ok down cs down'"
proof (induction ps arbitrary: down w ws)
  case Nil
  then show ?case by simp
next
  case (Cons p ps)
  obtain c ws1 p1 down1 w1 where sm: "settle_methods x ctx now (pe_methods p) p down w = (c, ws1, p1, down1, w1)"
    by (metis prod_cases5)
  then obtain cs where cs: "w_calls w1 = w_calls w @ cs" "calls_ok down cs down1"
    using settle_methods_calls by blast
  have step: "\<exists>cs'. w_calls w' = w_calls w @ cs' \<and> calls_ok down cs' down'"
    if "w_calls w' = w_calls w1 @ ds" "calls_ok down1 ds down'" for ds
    using that cs by (intro exI [of _ "cs @ ds"]) (simp add: calls_ok_append)
  show ?case
    using Cons.IH [of down1 w1] Cons.prems sm cs step by (cases c) (auto split: prod.splits)
qed

lemma retry_pending_calls:
  "retry_pending x ctx now w = (b, ws, down, w') \<Longrightarrow> \<exists>cs. w_calls w' = w_calls w @ cs \<and> calls_ok {} cs down"
  by (auto simp: retry_pending_def split: sum.splits dest: retry_loop_calls)

text \<open>The shape of closing an epoch, with everything after the swap.\<close>

lemma close_epoch_cases:
  assumes "close_epoch x c t d ws down acc w = (r, acc', w')"
  obtains snapshot where "swap_and_open_next t t d acc = (snapshot, acc')"
    and "(\<exists>e. r = SealErr e \<and> st_disk (w_store w') = st_disk (w_store w) \<and> w_calls w' = w_calls w)
       \<or> (\<exists>batch er s w1. epoch_batch_prepare (x (w_moment w)) (map le_leaf (ss_leaves snapshot)) = Inr batch
           \<and> build_record (x (w_moment w)) snapshot batch = Inr er
           \<and> persist_sealed_epoch_with_pending (x (w_moment w)) er (ss_leaves snapshot) []
               (pending_for (x (w_moment w)) c snapshot batch) (w_store w) = (Inr (), s)
           \<and> w1 = w\<lparr>w_store := s, w_moment := Suc (w_moment w)\<rparr>
           \<and> (case (c, pending_for (x (w_moment w)) c snapshot batch) of
                (Some c', Some p) \<Rightarrow> (\<exists>b minted p' down'. settle_methods x c' t (pe_methods p) p down w1 = (b, minted, p', down', w')
                    \<and> r = (if b then SealPanic else SealOk er (ws @ minted)))
              | _ \<Rightarrow> r = SealOk er ws \<and> w' = w1))"
proof -
  obtain snapshot acc1 where sw: "swap_and_open_next t t d acc = (snapshot, acc1)" by fastforce
  let ?api = "x (w_moment w)"
  have acc: "acc1 = acc'"
    using assms sw by (auto simp: close_epoch_def Let_def split: sum.splits prod.splits option.splits bool.splits)
  show thesis
  proof (rule that [OF sw [unfolded acc]])
    show "(\<exists>e. r = SealErr e \<and> st_disk (w_store w') = st_disk (w_store w) \<and> w_calls w' = w_calls w)
       \<or> (\<exists>batch er s w1. epoch_batch_prepare (x (w_moment w)) (map le_leaf (ss_leaves snapshot)) = Inr batch
           \<and> build_record (x (w_moment w)) snapshot batch = Inr er
           \<and> persist_sealed_epoch_with_pending (x (w_moment w)) er (ss_leaves snapshot) []
               (pending_for (x (w_moment w)) c snapshot batch) (w_store w) = (Inr (), s)
           \<and> w1 = w\<lparr>w_store := s, w_moment := Suc (w_moment w)\<rparr>
           \<and> (case (c, pending_for (x (w_moment w)) c snapshot batch) of
                (Some c', Some p) \<Rightarrow> (\<exists>b minted p' down'. settle_methods x c' t (pe_methods p) p down w1 = (b, minted, p', down', w')
                    \<and> r = (if b then SealPanic else SealOk er (ws @ minted)))
              | _ \<Rightarrow> r = SealOk er ws \<and> w' = w1))"
    proof (cases "epoch_batch_prepare ?api (map le_leaf (ss_leaves snapshot))")
      case (Inl e)
      then show ?thesis using assms sw by (auto simp: close_epoch_def)
    next
      case prep: (Inr batch)
      show ?thesis
      proof (cases "build_record ?api snapshot batch")
        case (Inl e)
        then show ?thesis using assms sw prep by (auto simp: close_epoch_def)
      next
        case rec: (Inr er)
        let ?pend = "pending_for ?api c snapshot batch"
        obtain pr s where ps: "persist_sealed_epoch_with_pending ?api er (ss_leaves snapshot) [] ?pend (w_store w) = (pr, s)" by fastforce
        show ?thesis
        proof (cases pr)
          case (Inl e)
          have "st_disk s = st_disk (w_store w)"
            using ps Inl by (auto simp: persist_sealed_epoch_with_pending_def split: sum.splits elim: commit_cases)
          then show ?thesis using assms sw prep rec ps Inl by (auto simp: close_epoch_def Let_def)
        next
          case (Inr u)
          let ?w1 = "w\<lparr>w_store := s, w_moment := Suc (w_moment w)\<rparr>"
          have run: "(r, acc', w') = (case (c, ?pend) of
              (Some c', Some p) \<Rightarrow> (case settle_methods x c' t (pe_methods p) p down ?w1 of
                   (True, _, _, _, w2) \<Rightarrow> (SealPanic, acc1, w2)
                 | (False, minted, _, _, w2) \<Rightarrow> (SealOk er (ws @ minted), acc1, w2))
            | _ \<Rightarrow> (SealOk er ws, acc1, ?w1))"
            using assms sw prep rec ps Inr by (simp add: close_epoch_def Let_def)
          show ?thesis
            using prep rec ps Inr run
            by (intro disjI2 exI [of _ batch] exI [of _ er] exI [of _ s] exI [of _ ?w1])
              (auto split: option.splits prod.splits bool.splits)
        qed
      qed
    qed
  qed
qed

end
