(* ===== verification/Config.thy ===== *)
theory Config
  imports Sealer
begin

text \<open>
  The configuration (\<open>crates/aqua-timestamp/src/config.rs\<close>): its sections with their defaults, the
  chain parsing, and the start-up checks.  Reading the TOML text is the \<open>toml\<close> crate's; the records
  below are what it produces.  The SDK's chain naming is the record \<open>chain_api\<close>.  An \<open>anyhow\<close>
  message is a constructor of \<open>config_error\<close> that carries what the message names.
\<close>

section \<open>Data\<close>

record server_config =
  sc_listen :: string

record identity_config =
  ic_chain_id :: u64
  ic_trust_domain :: string
  ic_dns :: string
  ic_ip :: string

record auth_config =
  ac_challenge_ttl_secs :: u64
  ac_session_ttl_secs :: u64
  ac_allowed_dids :: "did list"

record storage_config =
  stc_path :: string

record anchor_config =
  anc_evm_network :: "string option"

record evm_anchor_config =
  ec_enabled :: bool
  ec_rpc_url :: string
  ec_chain :: string
  ec_network_label :: "string option"
  ec_self_check_finality :: evm_finality
  ec_not_found_timeout_secs :: u64

record qtsa_anchor_config =
  qc_enabled :: bool
  qc_url :: string
  qc_min_request_interval_secs :: u64

record anchors_config =
  acs_evm :: evm_anchor_config
  acs_qtsa :: qtsa_anchor_config

record bonding_curve_config =
  bc_enabled :: bool
  bc_n_half :: u64
  bc_poll_interval_secs :: u64
  bc_min_balance_multiplier :: u64

record leaderboard_config =
  lc_enabled :: bool
  lc_poll_interval_secs :: u64
  lc_rpc_url :: string
  lc_max_pool_size :: nat
  lc_wallet_address :: "string option"

record epoch_config =
  epc_duration_secs :: u64
  epc_max_leaves_per_request :: nat

record config =
  cfg_server :: server_config
  cfg_identity :: identity_config
  cfg_auth :: auth_config
  cfg_storage :: storage_config
  cfg_epoch :: epoch_config
  cfg_anchor_legacy :: anchor_config
  cfg_anchors :: anchors_config
  cfg_bonding_curve :: bonding_curve_config
  cfg_leaderboard :: leaderboard_config

section \<open>Defaults\<close>

definition default_evm_rpc_url :: string where
  "default_evm_rpc_url = ''https://ethereum-sepolia-rpc.publicnode.com''"

definition default_evm_chain :: string where
  "default_evm_chain = ''sepolia''"

definition default_identity_config :: identity_config where
  "default_identity_config =
     \<lparr>ic_chain_id = 1, ic_trust_domain = ''timestamp'', ic_dns = ''openwitness.org'', ic_ip = ''142.93.168.4''\<rparr>"

definition default_auth_config :: auth_config where
  "default_auth_config = \<lparr>ac_challenge_ttl_secs = 300, ac_session_ttl_secs = 3600, ac_allowed_dids = []\<rparr>"

definition default_storage_config :: storage_config where
  "default_storage_config = \<lparr>stc_path = ''/var/lib/aqua-timestamp/state''\<rparr>"

definition default_evm_anchor_config :: evm_anchor_config where
  "default_evm_anchor_config =
     \<lparr>ec_enabled = True, ec_rpc_url = default_evm_rpc_url, ec_chain = default_evm_chain,
      ec_network_label = None, ec_self_check_finality = Finalized,
      ec_not_found_timeout_secs = DEFAULT_EVM_NOT_FOUND_TIMEOUT_SECS\<rparr>"

definition default_qtsa_anchor_config :: qtsa_anchor_config where
  "default_qtsa_anchor_config =
     \<lparr>qc_enabled = True, qc_url = ''http://timestamp.sectigo.com/qualified'', qc_min_request_interval_secs = 16\<rparr>"

definition default_bonding_curve_config :: bonding_curve_config where
  "default_bonding_curve_config =
     \<lparr>bc_enabled = False, bc_n_half = 7200, bc_poll_interval_secs = 12, bc_min_balance_multiplier = 2\<rparr>"

definition default_leaderboard_config :: leaderboard_config where
  "default_leaderboard_config =
     \<lparr>lc_enabled = True, lc_poll_interval_secs = 15, lc_rpc_url = default_evm_rpc_url,
      lc_max_pool_size = 500, lc_wallet_address = None\<rparr>"

definition default_epoch_config :: epoch_config where
  "default_epoch_config = \<lparr>epc_duration_secs = 600, epc_max_leaves_per_request = 10000\<rparr>"

text \<open>A file that holds only \<open>[server]\<close>.\<close>

definition default_config :: "string \<Rightarrow> config" where
  "default_config listen =
     \<lparr>cfg_server = \<lparr>sc_listen = listen\<rparr>, cfg_identity = default_identity_config, cfg_auth = default_auth_config,
      cfg_storage = default_storage_config, cfg_epoch = default_epoch_config,
      cfg_anchor_legacy = \<lparr>anc_evm_network = None\<rparr>,
      cfg_anchors = \<lparr>acs_evm = default_evm_anchor_config, acs_qtsa = default_qtsa_anchor_config\<rparr>,
      cfg_bonding_curve = default_bonding_curve_config, cfg_leaderboard = default_leaderboard_config\<rparr>"

section \<open>str::parse::<u64> and str::trim\<close>

datatype parse_int_error = PI_Empty | PI_InvalidDigit | PI_PosOverflow

definition digit_val :: "char \<Rightarrow> nat option" where
  "digit_val c = (let n = of_char c :: nat in if 48 \<le> n \<and> n \<le> 57 then Some (n - 48) else None)"

fun parse_digits :: "string \<Rightarrow> int \<Rightarrow> parse_int_error + int" where
  "parse_digits [] acc = Inr acc"
| "parse_digits (c # cs) acc =
     (case digit_val c of
        None \<Rightarrow> Inl PI_InvalidDigit
      | Some d \<Rightarrow> if acc * 10 + int d < 2 ^ 64 then parse_digits cs (acc * 10 + int d) else Inl PI_PosOverflow)"

definition parse_u64 :: "string \<Rightarrow> parse_int_error + u64" where
  "parse_u64 s =
     (case s of
        [] \<Rightarrow> Inl PI_Empty
      | c # cs \<Rightarrow>
          if c = CHR ''+'' \<and> cs \<noteq> [] then and_then (parse_digits cs 0) (\<lambda>n. Inr (of_int n))
          else and_then (parse_digits s 0) (\<lambda>n. Inr (of_int n)))"

text \<open>The ASCII whitespace that \<open>trim\<close> removes; the strings trimmed here are ASCII.\<close>

definition is_space :: "char \<Rightarrow> bool" where
  "is_space c \<longleftrightarrow> of_char c \<in> {9, 10, 11, 12, 13, 32 :: nat}"

definition str_trim :: "string \<Rightarrow> string" where
  "str_trim s = rev (dropWhile is_space (rev (dropWhile is_space s)))"

section \<open>The chain\<close>

datatype evm_chain = Mainnet | Sepolia | Holesky | Custom u64

record chain_api =
  chain_id :: "evm_chain \<Rightarrow> u64"
  network_claim :: "evm_chain \<Rightarrow> string"
  chain_id_for_network :: "string \<Rightarrow> u64 option"

datatype config_error = UnknownChain string | InvalidChainId string parse_int_error
  | NotFoundTimeoutZero | NetworkNotReadBack string | LabelMismatch string string
  | EmptyMnemonic | EmptyRpcUrl | EmptyTsaUrl

definition evm_chain :: "evm_anchor_config \<Rightarrow> config_error + evm_chain" where
  "evm_chain c =
     (let s = ec_chain c
      in if s = ''mainnet'' then Inr Mainnet
         else if s = ''sepolia'' then Inr Sepolia
         else if s = ''holesky'' then Inr Holesky
         else if starts_with ''custom:'' s
         then and_then (map_err (InvalidChainId s) (parse_u64 (drop (length ''custom:'') s))) (\<lambda>n. Inr (Custom n))
         else Inl (UnknownChain s))"

fun check_labels :: "chain_api \<Rightarrow> evm_chain \<Rightarrow> (string \<times> string option) list \<Rightarrow> config_error + unit" where
  "check_labels a chain [] = Inr ()"
| "check_labels a chain ((setting, None) # ls) = check_labels a chain ls"
| "check_labels a chain ((setting, Some label) # ls) =
     (if chain_id_for_network a label \<noteq> Some (chain_id a chain) then Inl (LabelMismatch setting label)
      else check_labels a chain ls)"

definition check_evm_chain_source :: "chain_api \<Rightarrow> config \<Rightarrow> config_error + unit" where
  "check_evm_chain_source a cfg =
     (let evm = acs_evm (cfg_anchors cfg)
      in if \<not> ec_enabled evm then Inr ()
         else and_then (evm_chain evm) (\<lambda>chain.
              if ec_not_found_timeout_secs evm = 0 then Inl NotFoundTimeoutZero
              else let claim = network_claim a chain
                   in if chain_id_for_network a claim \<noteq> Some (chain_id a chain) then Inl (NetworkNotReadBack claim)
                      else check_labels a chain
                        [(''anchors.evm.network_label'', ec_network_label evm),
                         (''anchor.evm_network'', anc_evm_network (cfg_anchor_legacy cfg))]))"

definition check_enabled_anchors :: "config \<Rightarrow> string \<Rightarrow> config_error + unit" where
  "check_enabled_anchors cfg mnemonic =
     (let evm = acs_evm (cfg_anchors cfg); qtsa = acs_qtsa (cfg_anchors cfg)
      in and_then
           (if ec_enabled evm
            then if str_trim mnemonic = [] then Inl EmptyMnemonic
                 else if str_trim (ec_rpc_url evm) = [] then Inl EmptyRpcUrl
                 else and_then (evm_chain evm) (\<lambda>_. Inr ())
            else Inr ()) (\<lambda>_.
         if qc_enabled qtsa \<and> str_trim (qc_url qtsa) = [] then Inl EmptyTsaUrl else Inr ()))"

definition leaderboard_chain_id :: "config \<Rightarrow> u64" where
  "leaderboard_chain_id cfg =
     (let s = ec_chain (acs_evm (cfg_anchors cfg))
      in if s = ''mainnet'' then 1
         else if s = ''sepolia'' then 11155111
         else if s = ''holesky'' then 17000
         else if starts_with ''custom:'' s
         then (case parse_u64 (drop (length ''custom:'') s) of Inr n \<Rightarrow> n | Inl _ \<Rightarrow> 11155111)
         else 11155111)"

definition throttle :: "qtsa_anchor_config \<Rightarrow> u64 option" where
  "throttle q = (if qc_min_request_interval_secs q = 0 then None else Some (qc_min_request_interval_secs q))"

definition watched_address :: "leaderboard_config \<Rightarrow> string \<Rightarrow> string" where
  "watched_address l service_address = (case lc_wallet_address l of Some a \<Rightarrow> a | None \<Rightarrow> service_address)"

text \<open>\<open>load\<close>: the file system and the TOML parser are parameters.\<close>

definition load_config :: "(string \<Rightarrow> string + string) \<Rightarrow> (string \<Rightarrow> string + config) \<Rightarrow> string \<Rightarrow> string + config" where
  "load_config read_file parse path = and_then (read_file path) parse"

section \<open>Numbers\<close>

lemma digit_val_char [simp]: "d < 10 \<Longrightarrow> digit_val (char_of (48 + d)) = Some d"
  by (simp add: digit_val_def)

lemma show_nat_ne [simp]: "show_nat n \<noteq> []"
  by (subst show_nat.simps) simp

lemma hd_show_nat: "\<exists>d<10::nat. hd (show_nat n) = char_of (48 + d)"
proof (induction n rule: show_nat.induct)
  case (1 n)
  show ?case
  proof (cases "n < 10")
    case True
    then show ?thesis by (subst show_nat.simps) auto
  next
    case False
    then show ?thesis using 1 by (subst show_nat.simps) simp
  qed
qed

lemma parse_digits_append:
  "parse_digits (xs @ ys) acc = and_then (parse_digits xs acc) (parse_digits ys)"
  by (induction xs arbitrary: acc) (auto split: option.splits)

lemma parse_digits_show_nat: "n < 2 ^ 64 \<Longrightarrow> parse_digits (show_nat n) 0 = Inr (int n)"
proof (induction n rule: show_nat.induct)
  case (1 n)
  show ?case
  proof (cases "n < 10")
    case True
    then show ?thesis using 1 by (subst show_nat.simps) simp
  next
    case False
    have "parse_digits (show_nat (n div 10)) 0 = Inr (int (n div 10))"
      using 1 False by simp
    moreover have "int (n div 10) * 10 + int (n mod 10) = int n"
      by presburger
    moreover have "int n < 2 ^ 64"
      using "1.prems" by simp
    ultimately show ?thesis
      using False by (subst show_nat.simps) (simp add: parse_digits_append)
  qed
qed

lemma parse_u64_show_nat: "parse_u64 (show_nat (unat n)) = Inr n"
proof -
  obtain c cs where s: "show_nat (unat n) = c # cs"
    using show_nat_ne by (meson neq_Nil_conv)
  obtain d :: nat where "d < 10" "c = char_of (48 + d)"
    using hd_show_nat [of "unat n"] s by auto
  then have "digit_val c = Some d" by simp
  moreover have "digit_val CHR ''+'' = None"
    by code_simp
  ultimately have "c \<noteq> CHR ''+''" by auto
  moreover have "parse_digits (c # cs) 0 = Inr (int (unat n))"
    using parse_digits_show_nat [of "unat n"] unsigned_less [of n, where ?'a = nat] s by simp
  ultimately show ?thesis
    by (simp add: parse_u64_def s del: parse_digits.simps)
qed

section \<open>The SDK's chain names\<close>

text \<open>
  What the service relies on: the chain ids of the named chains and of a custom one, and that the
  network written into a payload reads back as the chain it came from for the ids the SDK supports.
\<close>

locale evm_chains =
  fixes a :: "'z chain_api_scheme"
  assumes ids: "chain_id a Mainnet = 1" "chain_id a Sepolia = 11155111" "chain_id a Holesky = 17000"
      "chain_id a (Custom n) = n"
    and named_claims: "c \<in> {Mainnet, Sepolia, Holesky} \<Longrightarrow> chain_id_for_network a (network_claim a c) = Some (chain_id a c)"
begin

lemma leaderboard_follows_anchor:
  assumes "evm_chain (acs_evm (cfg_anchors cfg)) = Inr c"
  shows "leaderboard_chain_id cfg = chain_id a c"
  using assms ids by (auto simp: evm_chain_def leaderboard_chain_id_def Let_def split: if_splits)

lemma default_chain_ok: "check_evm_chain_source (chain_api.truncate a) (default_config l) = Inr ()"
  using named_claims [of Sepolia]
  by (simp add: check_evm_chain_source_def default_config_def default_evm_anchor_config_def default_evm_chain_def
      evm_chain_def DEFAULT_EVM_NOT_FOUND_TIMEOUT_SECS_def chain_api.defs)

end

definition ref_chain_api :: chain_api where
  "ref_chain_api =
     \<lparr>chain_id = (\<lambda>c. case c of Mainnet \<Rightarrow> 1 | Sepolia \<Rightarrow> 11155111 | Holesky \<Rightarrow> 17000 | Custom n \<Rightarrow> n),
      network_claim = (\<lambda>c. case c of Mainnet \<Rightarrow> ''mainnet'' | Sepolia \<Rightarrow> ''sepolia'' | Holesky \<Rightarrow> ''holesky''
         | Custom n \<Rightarrow> ''evm:'' @ show_nat (unat n)),
      chain_id_for_network = (\<lambda>s. if s = ''mainnet'' then Some 1 else if s = ''sepolia'' then Some 11155111
         else if s = ''holesky'' then Some 17000
         else case strip_prefix ''evm:'' s of None \<Rightarrow> None
           | Some t \<Rightarrow> (case parse_u64 t of Inr n \<Rightarrow> if 1 \<le> n \<and> n < 2 ^ 53 then Some n else None | Inl _ \<Rightarrow> None))\<rparr>"

interpretation ref_chains: evm_chains ref_chain_api
  by unfold_locales (auto simp: ref_chain_api_def)

section \<open>The checks\<close>

lemma check_labels_iff:
  "check_labels a chain ls = Inr () \<longleftrightarrow> (\<forall>(s, l)\<in>set ls. \<forall>label. l = Some label \<longrightarrow> chain_id_for_network a label = Some (chain_id a chain))"
  by (induction a chain ls rule: check_labels.induct) auto

text \<open>
  One chain source.  The chain check passes exactly when EVM anchoring is off, or the configured
  chain parses, the not-found timeout is positive, the network the payloads will carry reads back as
  that chain's id, and every deprecated label that is set names the same chain.
\<close>

theorem check_evm_chain_source_iff:
  "check_evm_chain_source a cfg = Inr () \<longleftrightarrow>
     (let evm = acs_evm (cfg_anchors cfg) in
      \<not> ec_enabled evm \<or>
      (\<exists>c. evm_chain evm = Inr c \<and> ec_not_found_timeout_secs evm \<noteq> 0
        \<and> chain_id_for_network a (network_claim a c) = Some (chain_id a c)
        \<and> list_all (\<lambda>l. case l of None \<Rightarrow> True | Some label \<Rightarrow> chain_id_for_network a label = Some (chain_id a c))
             [ec_network_label evm, anc_evm_network (cfg_anchor_legacy cfg)]))"
  by (auto simp: check_evm_chain_source_def Let_def check_labels_iff split: if_splits option.splits)

text \<open>
  The chain setting round-trips: \<open>custom:<id>\<close> is read as the chain with that id, for every
  64-bit id, and the leaderboard watches the chain the anchors are sent to whenever the setting is
  valid.
\<close>

theorem evm_chain_custom_round_trip:
  assumes "evm_chains a"
  shows "evm_chain (e\<lparr>ec_chain := ''custom:'' @ show_nat (unat n)\<rparr>) = Inr (Custom n)
    \<and> (evm_chain (acs_evm (cfg_anchors cfg)) = Inr c \<longrightarrow> leaderboard_chain_id cfg = chain_id a c)"
proof -
  have "starts_with ''custom:'' (''custom:'' @ s)" for s
    by (rule starts_with_append)
  then have "evm_chain (e\<lparr>ec_chain := ''custom:'' @ show_nat (unat n)\<rparr>) = Inr (Custom n)"
    by (simp add: evm_chain_def parse_u64_show_nat)
  then show ?thesis
    using evm_chains.leaderboard_follows_anchor [OF assms] by blast
qed

theorem evm_chain_custom_round_trip_witness:
  "evm_chain (default_evm_anchor_config\<lparr>ec_chain := ''custom:'' @ show_nat (unat (137 :: u64))\<rparr>) = Inr (Custom 137)
    \<and> leaderboard_chain_id (default_config ''0.0.0.0:80'') = chain_id ref_chain_api Sepolia"
  using evm_chain_custom_round_trip [OF ref_chains.evm_chains_axioms, where e = default_evm_anchor_config and n = 137
      and cfg = "default_config ''0.0.0.0:80''" and c = Sepolia]
  by (simp add: default_config_def default_evm_anchor_config_def default_evm_chain_def evm_chain_def)

end
