(* ===== verification/Auth.thy ===== *)
theory Auth
  imports Config
begin

text \<open>
  Authentication (\<open>crates/aqua-timestamp/src/auth.rs\<close>) and the allowlist (\<open>state.rs\<close>).

  The challenge store, the session store and the CAIP-122 verification are the \<open>aqua-auth\<close> crate's:
  they are the fields of \<open>auth_api\<close>, over store states \<open>'c\<close> and \<open>'s\<close>, and their documented
  behaviour is the locale \<open>auth_stores\<close>.  A handler is a function of the stores; its answer is the
  response type or an \<open>auth_api_error\<close> with the HTTP status.
\<close>

section \<open>Responses\<close>

datatype body = JsonBody json | TextBody string

record response =
  rs_status :: nat
  rs_headers :: "(string \<times> string) list"
  rs_body :: body

definition json_response :: "nat \<Rightarrow> json \<Rightarrow> response" where
  "json_response status j = \<lparr>rs_status = status, rs_headers = [(''content-type'', ''application/json'')], rs_body = JsonBody j\<rparr>"

record auth_api_error =
  ae_status :: nat
  ae_msg :: string

definition unauthorized :: "string \<Rightarrow> auth_api_error" where
  "unauthorized msg = \<lparr>ae_status = 401, ae_msg = msg\<rparr>"

definition forbidden :: "string \<Rightarrow> auth_api_error" where
  "forbidden msg = \<lparr>ae_status = 403, ae_msg = msg\<rparr>"

definition bad_request :: "string \<Rightarrow> auth_api_error" where
  "bad_request msg = \<lparr>ae_status = 400, ae_msg = msg\<rparr>"

definition unavailable :: "string \<Rightarrow> auth_api_error" where
  "unavailable msg = \<lparr>ae_status = 503, ae_msg = msg\<rparr>"

definition internal_error :: "string \<Rightarrow> auth_api_error" where
  "internal_error msg = \<lparr>ae_status = 500, ae_msg = msg\<rparr>"

lemmas status_simps [simp] = unauthorized_def forbidden_def bad_request_def unavailable_def internal_error_def

definition error_response :: "auth_api_error \<Rightarrow> response" where
  "error_response e = json_response (ae_status e) (JObj [(''error'', JStr (ae_msg e))])"

section \<open>The aqua-auth interface\<close>

record challenge =
  ch_nonce :: string
  ch_did :: did
  ch_message :: string
  ch_expires_at :: u64

record session =
  se_token :: string
  se_did :: did
  se_valid_until :: u64
  se_created_at :: u64

datatype auth_error = SessionStoreFull string | OtherAuthError string

fun auth_error_text :: "auth_error \<Rightarrow> string" where
  "auth_error_text (SessionStoreFull s) = s"
| "auth_error_text (OtherAuthError s) = s"

record ('c, 's) auth_api = codec_api +
  challenge_create :: "'c \<Rightarrow> did \<Rightarrow> (auth_error + challenge) \<times> 'c"
  challenge_validate :: "'c \<Rightarrow> string \<Rightarrow> (auth_error + challenge) \<times> 'c"
  verify_caip122 :: "did \<Rightarrow> string \<Rightarrow> bytes \<Rightarrow> auth_error + bool"
  session_create :: "'s \<Rightarrow> did \<Rightarrow> (auth_error + session) \<times> 's"
  session_validate :: "'s \<Rightarrow> string \<Rightarrow> auth_error + did"
  hex_error_text :: "from_hex_error \<Rightarrow> string"

section \<open>Handlers\<close>

record challenge_response =
  cr_nonce :: string
  cr_message :: string
  cr_expires_at :: u64

record session_request_body =
  sr_did :: did
  sr_nonce :: string
  sr_signature :: string

record session_response =
  sp_token :: string
  sp_did :: did
  sp_valid_until :: u64
  sp_created_at :: u64

definition challenge :: "('c, 's) auth_api \<Rightarrow> did \<Rightarrow> 'c \<Rightarrow> (auth_api_error + challenge_response) \<times> 'c" where
  "challenge x d c =
     (case challenge_create x c d of
        (Inl e, c') \<Rightarrow> (Inl (bad_request (''challenge: '' @ auth_error_text e)), c')
      | (Inr ch, c') \<Rightarrow>
          (Inr \<lparr>cr_nonce = ch_nonce ch, cr_message = ch_message ch, cr_expires_at = ch_expires_at ch\<rparr>, c'))"

definition session ::
  "('c, 's) auth_api \<Rightarrow> session_request_body \<Rightarrow> 'c \<times> 's \<Rightarrow> (auth_api_error + session_response) \<times> 'c \<times> 's" where
  "session x req st =
     (case st of (c, s) \<Rightarrow>
       (case challenge_validate x c (sr_nonce req) of
          (Inl e, c') \<Rightarrow> (Inl (unauthorized (''challenge: '' @ auth_error_text e)), c', s)
        | (Inr ch, c') \<Rightarrow>
            if ch_did ch \<noteq> sr_did req then (Inl (unauthorized ''did does not match challenge''), c', s)
            else (case hex_decode x (trim_start_matches ''0x'' (sr_signature req)) of
              Inl e \<Rightarrow> (Inl (bad_request (''signature hex: '' @ hex_error_text x e)), c', s)
            | Inr sig_bytes \<Rightarrow> (case verify_caip122 x (sr_did req) (ch_message ch) sig_bytes of
                Inl e \<Rightarrow> (Inl (bad_request (''signature: '' @ auth_error_text e)), c', s)
              | Inr ok \<Rightarrow>
                  if \<not> ok then (Inl (unauthorized ''signature verification failed''), c', s)
                  else (case session_create x s (sr_did req) of
                    (Inl (SessionStoreFull _), s') \<Rightarrow> (Inl (unavailable ''session store at capacity, retry later''), c', s')
                  | (Inl (OtherAuthError _), s') \<Rightarrow> (Inl (internal_error ''could not create session''), c', s')
                  | (Inr se, s') \<Rightarrow>
                      (Inr \<lparr>sp_token = se_token se, sp_did = se_did se, sp_valid_until = se_valid_until se,
                            sp_created_at = se_created_at se\<rparr>, c', s'))))))"

text \<open>\<open>HeaderValue::to_str\<close>: visible ASCII, space and tab only.\<close>

definition header_to_str :: "string \<Rightarrow> string option" where
  "header_to_str v = (if list_all (\<lambda>c. of_char c = (9::nat) \<or> 32 \<le> (of_char c :: nat) \<and> (of_char c :: nat) < 127) v then Some v else None)"

definition bearer_did :: "('c, 's) auth_api \<Rightarrow> 's \<Rightarrow> string option \<Rightarrow> auth_api_error + did" where
  "bearer_did x s authorization =
     (case Option.bind authorization header_to_str of
        None \<Rightarrow> Inl (unauthorized ''missing authorization header'')
      | Some v \<Rightarrow> (case strip_prefix ''Bearer '' v of
          None \<Rightarrow> Inl (unauthorized ''authorization scheme must be Bearer'')
        | Some rest \<Rightarrow>
            (let token = str_trim rest
             in if token = [] then Inl (unauthorized ''empty bearer token'')
                else (case session_validate x s token of
                        Inr d \<Rightarrow> Inr d
                      | Inl e \<Rightarrow> Inl (unauthorized (''bearer: '' @ auth_error_text e))))))"

definition is_allowed :: "config \<Rightarrow> did \<Rightarrow> bool" where
  "is_allowed cfg d = (let l = ac_allowed_dids (cfg_auth cfg) in l = [] \<or> list_ex (\<lambda>d'. d' = d) l)"

section \<open>The stores\<close>

text \<open>
  What the handlers rely on: \<open>issued\<close> are the challenges a store still accepts and \<open>live\<close> the
  tokens a session store still accepts, with their DIDs.  A challenge names the DID it was created
  for and is consumed by its validation; a session belongs to the DID it was created for.
\<close>

locale auth_stores =
  fixes x :: "('c, 's) auth_api" and issued :: "'c \<Rightarrow> challenge set" and live :: "'s \<Rightarrow> (string \<times> did) set"
  assumes create_ok: "challenge_create x c d = (Inr ch, c') \<Longrightarrow> ch_did ch = d \<and> issued c' \<subseteq> insert ch (issued c)"
    and create_err: "challenge_create x c d = (Inl e, c') \<Longrightarrow> issued c' \<subseteq> issued c"
    and validate_ok: "challenge_validate x c n = (Inr ch, c') \<Longrightarrow> ch \<in> issued c \<and> ch_nonce ch = n \<and> issued c' \<subseteq> issued c - {ch}"
    and validate_err: "challenge_validate x c n = (Inl e, c') \<Longrightarrow> issued c' \<subseteq> issued c"
    and session_ok: "session_create x s d = (Inr se, s') \<Longrightarrow> se_did se = d \<and> live s' \<subseteq> insert (se_token se, d) (live s)"
    and session_err: "session_create x s d = (Inl e, s') \<Longrightarrow> live s' \<subseteq> live s"
    and bearer_live: "session_validate x s t = Inr d \<Longrightarrow> (t, d) \<in> live s"
begin

lemma session_outcomes:
  assumes "session x req (c, s) = (r, c', s')"
  shows "issued c' \<subseteq> issued c \<and>
    (case r of
       Inl e \<Rightarrow> live s' \<subseteq> live s
     | Inr p \<Rightarrow> \<exists>ch sig. ch \<in> issued c \<and> ch \<notin> issued c' \<and> ch_did ch = sr_did req \<and> ch_nonce ch = sr_nonce req
           \<and> verify_caip122 x (sr_did req) (ch_message ch) sig = Inr True
           \<and> sp_did p = sr_did req \<and> live s' \<subseteq> insert (sp_token p, sr_did req) (live s))"
proof -
  obtain v c1 where v: "challenge_validate x c (sr_nonce req) = (v, c1)" by fastforce
  show ?thesis
  proof (cases v)
    case (Inl e)
    then show ?thesis using assms v validate_err [of c "sr_nonce req"] by (auto simp: session_def)
  next
    case (Inr ch)
    note ch = validate_ok [OF v [unfolded Inr]]
    show ?thesis
    proof (cases "ch_did ch = sr_did req")
      case False
      then show ?thesis using assms v Inr ch by (auto simp: session_def)
    next
      case did: True
      show ?thesis
      proof (cases "hex_decode x (trim_start_matches ''0x'' (sr_signature req))")
        case (Inl e)
        then show ?thesis using assms v Inr ch did by (auto simp: session_def simp del: trim_start_matches.simps)
      next
        case sig: (Inr sig)
        show ?thesis
        proof (cases "verify_caip122 x (sr_did req) (ch_message ch) sig = Inr True")
          case False
          then show ?thesis
            using assms v Inr ch did sig
            by (auto simp: session_def simp del: trim_start_matches.simps split: sum.splits if_splits)
        next
          case ok: True
          have gone: "ch \<notin> issued c1" "issued c1 \<subseteq> issued c"
            using ch by blast+
          obtain k s1 where k: "session_create x s (sr_did req) = (k, s1)" by fastforce
          show ?thesis
          proof (cases k)
            case (Inl e)
            have "live s1 \<subseteq> live s"
              using session_err k Inl by blast
            then show ?thesis
              using assms v \<open>v = Inr ch\<close> gone did sig ok k Inl
              by (cases e) (simp_all add: session_def del: trim_start_matches.simps, auto)
          next
            case (Inr se)
            have se: "se_did se = sr_did req" "live s1 \<subseteq> insert (se_token se, sr_did req) (live s)"
              using session_ok k Inr by blast+
            have "r = Inr \<lparr>sp_token = se_token se, sp_did = se_did se, sp_valid_until = se_valid_until se,
                sp_created_at = se_created_at se\<rparr>" "c' = c1" "s' = s1"
              using assms v \<open>v = Inr ch\<close> did sig ok k Inr by (simp_all add: session_def del: trim_start_matches.simps)
            moreover have "\<exists>ch sig. ch \<in> issued c \<and> ch \<notin> issued c1 \<and> ch_did ch = sr_did req \<and> ch_nonce ch = sr_nonce req
                \<and> verify_caip122 x (sr_did req) (ch_message ch) sig = Inr True"
              using ch gone did ok by blast
            ultimately show ?thesis
              using se gone by simp
          qed
        qed
      qed
    qed
  qed
qed

end

section \<open>Executions\<close>

text \<open>
  The auth service over time: handler calls in any order, and expiry, by which the stores forget.
  \<open>as_log\<close> keeps the challenges that were issued.
\<close>

record ('c, 's) auth_sys =
  as_challenges :: 'c
  as_sessions :: 's
  as_log :: "challenge set"

datatype auth_label = Challenge did | Session session_request_body | Expire

inductive auth_step ::
  "('c, 's) auth_api \<Rightarrow> ('c \<Rightarrow> challenge set) \<Rightarrow> ('s \<Rightarrow> (string \<times> did) set)
   \<Rightarrow> ('c, 's) auth_sys \<Rightarrow> auth_label \<Rightarrow> ('c, 's) auth_sys \<Rightarrow> bool"
  for x issued live where
  challenge: "challenge x d (as_challenges \<sigma>) = (r, c') \<Longrightarrow>
    auth_step x issued live \<sigma> (Challenge d) (\<sigma>\<lparr>as_challenges := c', as_log := as_log \<sigma> \<union> issued c'\<rparr>)"
| session: "session x req (as_challenges \<sigma>, as_sessions \<sigma>) = (r, c', s') \<Longrightarrow>
    auth_step x issued live \<sigma> (Session req) (\<sigma>\<lparr>as_challenges := c', as_sessions := s'\<rparr>)"
| expire: "issued c' \<subseteq> issued (as_challenges \<sigma>) \<Longrightarrow> live s' \<subseteq> live (as_sessions \<sigma>) \<Longrightarrow>
    auth_step x issued live \<sigma> Expire (\<sigma>\<lparr>as_challenges := c', as_sessions := s'\<rparr>)"

definition auth_start :: "('c \<Rightarrow> challenge set) \<Rightarrow> ('s \<Rightarrow> (string \<times> did) set) \<Rightarrow> ('c, 's) auth_sys \<Rightarrow> bool" where
  "auth_start issued live \<sigma> \<longleftrightarrow> issued (as_challenges \<sigma>) = {} \<and> live (as_sessions \<sigma>) = {} \<and> as_log \<sigma> = {}"

interpretation auth: transition_system "auth_start issued live" "auth_step x issued live"
  for x :: "('c, 's) auth_api" and issued live .

text \<open>Every live session rests on a signature over a challenge issued to its DID.\<close>

definition proved :: "('c, 's) auth_api \<Rightarrow> challenge set \<Rightarrow> did \<Rightarrow> bool" where
  "proved x log d \<longleftrightarrow> (\<exists>ch\<in>log. ch_did ch = d \<and> (\<exists>sig. verify_caip122 x d (ch_message ch) sig = Inr True))"

definition auth_inv ::
  "('c, 's) auth_api \<Rightarrow> ('c \<Rightarrow> challenge set) \<Rightarrow> ('s \<Rightarrow> (string \<times> did) set) \<Rightarrow> ('c, 's) auth_sys \<Rightarrow> bool" where
  "auth_inv x issued live \<sigma> \<longleftrightarrow> issued (as_challenges \<sigma>) \<subseteq> as_log \<sigma>
     \<and> (\<forall>(t, d)\<in>live (as_sessions \<sigma>). proved x (as_log \<sigma>) d)"

lemma proved_mono: "proved x log d \<Longrightarrow> log \<subseteq> log' \<Longrightarrow> proved x log' d"
  unfolding proved_def by blast

context auth_stores
begin

lemma auth_inv_step:
  assumes inv: "auth_inv x issued live \<sigma>" and step: "auth_step x issued live \<sigma> l \<tau>"
  shows "auth_inv x issued live \<tau>"
  using step
proof cases
  case (challenge d r c')
  then show ?thesis
    using inv by (auto simp: auth_inv_def split_def intro: proved_mono)
next
  case (session req r c' s')
  note out = session_outcomes [OF session(3)]
  show ?thesis
  proof (cases r)
    case (Inl e)
    then show ?thesis
      using out inv session(2) by (auto simp: auth_inv_def)
  next
    case (Inr p)
    then obtain ch sig where "ch \<in> issued (as_challenges \<sigma>)" "ch_did ch = sr_did req"
      "verify_caip122 x (sr_did req) (ch_message ch) sig = Inr True"
      and live: "live s' \<subseteq> insert (sp_token p, sr_did req) (live (as_sessions \<sigma>))"
      using out by auto
    then have "proved x (as_log \<sigma>) (sr_did req)"
      using inv unfolding auth_inv_def proved_def by blast
    then show ?thesis
      using out inv live session(2) by (auto simp: auth_inv_def)
  qed
next
  case (expire c' s')
  then show ?thesis
    using inv by (auto simp: auth_inv_def)
qed

lemma auth_inv_reach: "auth.reach issued live x \<sigma> \<Longrightarrow> auth_inv x issued live \<sigma>"
proof (rule auth.invariant_reach)
  show "auth_inv x issued live \<sigma>" if "auth_start issued live \<sigma>" for \<sigma>
    using that by (simp add: auth_start_def auth_inv_def)
qed (auto intro: auth_inv_step)

end

section \<open>Reference stores\<close>

text \<open>
  In-memory stores: a list of open challenges with a counter for nonces, a list of sessions with a
  counter for tokens and a capacity of two.  A signature verifies when it is the bytes of the message.
\<close>

definition ref_auth :: "(nat \<times> challenge list, nat \<times> session list) auth_api" where
  "ref_auth = codec_api.extend (codec_api.truncate (ref_sdk ''''))
     (auth_api.fields
       (\<lambda>(n, cs) d. if d = [] then (Inl (OtherAuthError ''empty did''), (n, cs))
          else let ch = \<lparr>ch_nonce = show_nat n, ch_did = d, ch_message = ''sign in '' @ d @ '' '' @ show_nat n, ch_expires_at = 300\<rparr>
               in (Inr ch, (Suc n, ch # cs)))
       (\<lambda>(n, cs) nonce. case find (\<lambda>ch. ch_nonce ch = nonce) cs of
            None \<Rightarrow> (Inl (OtherAuthError ''challenge not found''), (n, cs))
          | Some ch \<Rightarrow> (Inr ch, (n, filter (\<lambda>ch'. ch' \<noteq> ch) cs)))
       (\<lambda>d msg sig. Inr (sig = str_bytes msg))
       (\<lambda>(n, ss) d. if length ss \<ge> 2 then (Inl (SessionStoreFull ''full''), (n, ss))
          else let se = \<lparr>se_token = ''token'' @ show_nat n, se_did = d, se_valid_until = 3600, se_created_at = 0\<rparr>
               in (Inr se, (Suc n, se # ss)))
       (\<lambda>(n, ss) t. case find (\<lambda>se. se_token se = t) ss of
            None \<Rightarrow> Inl (OtherAuthError ''unknown token'') | Some se \<Rightarrow> Inr (se_did se))
       (\<lambda>e. ''bad hex''))"

definition ref_issued :: "nat \<times> challenge list \<Rightarrow> challenge set" where
  "ref_issued c = set (snd c)"

definition ref_live :: "nat \<times> session list \<Rightarrow> (string \<times> did) set" where
  "ref_live s = (\<lambda>se. (se_token se, se_did se)) ` set (snd s)"

interpretation ref_auth: auth_stores ref_auth ref_issued ref_live
  by unfold_locales
    (auto simp: ref_auth_def codec_api.defs auth_api.defs ref_issued_def ref_live_def Let_def
      split: prod.splits option.splits if_splits dest!: find_Some_set)

section \<open>Properties\<close>

text \<open>
  C7: Nobody acts as a DID without its key.  After any sequence of challenge and session requests
  and expiries, a request that the bearer extractor lets through as a DID follows a session request
  in which a signature by that DID was verified over the message of a challenge the service had
  issued to that DID.
\<close>

theorem bearer_did_proved:
  assumes "auth_stores x issued live" and "auth.reach issued live x \<sigma>"
    and "bearer_did x (as_sessions \<sigma>) header = Inr d"
  shows "\<exists>ch\<in>as_log \<sigma>. ch_did ch = d \<and> (\<exists>sig. verify_caip122 x d (ch_message ch) sig = Inr True)"
proof -
  obtain t where "session_validate x (as_sessions \<sigma>) t = Inr d"
    using assms(3) by (auto simp: bearer_did_def Let_def split: option.splits if_splits sum.splits)
  then have "(t, d) \<in> live (as_sessions \<sigma>)"
    by (rule auth_stores.bearer_live [OF assms(1)])
  then have "proved x (as_log \<sigma>) d"
    using auth_stores.auth_inv_reach [OF assms(1,2)] by (auto simp: auth_inv_def)
  then show ?thesis by (simp add: proved_def)
qed

definition demo_login :: session_request_body where
  "demo_login = \<lparr>sr_did = ''did:a'', sr_nonce = ''0'', sr_signature = ''0x'' @ hex_encode ref_auth (str_bytes ''sign in did:a 0'')\<rparr>"

theorem bearer_did_proved_witness:
  "\<exists>\<sigma>. auth.reach ref_issued ref_live ref_auth \<sigma> \<and> bearer_did ref_auth (as_sessions \<sigma>) (Some ''Bearer token0'') = Inr ''did:a''
    \<and> (\<exists>ch\<in>as_log \<sigma>. ch_did ch = ''did:a'')"
proof -
  let ?\<sigma>0 = "\<lparr>as_challenges = (0, []), as_sessions = (0, []), as_log = {}\<rparr> :: (nat \<times> challenge list, nat \<times> session list) auth_sys"
  let ?c1 = "snd (challenge ref_auth ''did:a'' (0, []))"
  let ?\<sigma>1 = "?\<sigma>0\<lparr>as_challenges := ?c1, as_log := {} \<union> ref_issued ?c1\<rparr>"
  let ?r2 = "session ref_auth demo_login (?c1, (0, []))"
  let ?\<sigma>2 = "?\<sigma>1\<lparr>as_challenges := fst (snd ?r2), as_sessions := snd (snd ?r2)\<rparr>"
  have "auth.reach ref_issued ref_live ref_auth ?\<sigma>0"
    by (rule auth.reach_start) (simp add: auth_start_def ref_issued_def ref_live_def)
  moreover have "auth_step ref_auth ref_issued ref_live ?\<sigma>0 (Challenge ''did:a'') ?\<sigma>1"
    using auth_step.challenge [of ref_auth "''did:a''" ?\<sigma>0 "fst (challenge ref_auth ''did:a'' (0, []))" ?c1] by simp
  moreover have "auth_step ref_auth ref_issued ref_live ?\<sigma>1 (Session demo_login) ?\<sigma>2"
    using auth_step.session [of ref_auth demo_login ?\<sigma>1 "fst ?r2" "fst (snd ?r2)" "snd (snd ?r2)"] by simp
  ultimately have reach: "auth.reach ref_issued ref_live ref_auth ?\<sigma>2"
    by (meson auth.reach_step)
  have run: "bearer_did ref_auth (snd (snd ?r2)) (Some ''Bearer token0'') = Inr ''did:a''"
    by code_simp
  have "\<exists>ch\<in>as_log ?\<sigma>2. ch_did ch = ''did:a'' \<and> (\<exists>sig. verify_caip122 ref_auth ''did:a'' (ch_message ch) sig = Inr True)"
    by (rule bearer_did_proved [OF ref_auth.auth_stores_axioms reach]) (use run in simp)
  with reach run show ?thesis
    by (intro exI [of _ ?\<sigma>2]) auto
qed

end
