(* ===== verification/Seal_Cycle.thy ===== *)
theory Seal_Cycle
  imports Sealer
begin

text \<open>
  The seal cycle over time.  The aggregator's core is a transition system: clients submit, the
  sealer ticks, the device starts or stops failing, and the process restarts from what is synced to
  disk.  The properties of this theory hold in every reachable state, or of every tick.
\<close>

section \<open>The system\<close>

record 'b sys =
  sy_acc :: accumulator_inner
  sy_world :: "'b world"

datatype sys_label = Submit "hash32 list" did | Tick u64 u64
  | Faults "partition_id \<Rightarrow> bytes \<Rightarrow> string option" "write_outcome list" | Restart u64 u64 u64

definition sys_start :: "'b sys \<Rightarrow> bool" where
  "sys_start \<sigma> \<longleftrightarrow> (\<exists>n t d cap. sy_acc \<sigma> = with_leaf_cap n t d cap) \<and> w_store (sy_world \<sigma>) = store_open empty_db"

inductive sys_step :: "'b sdk_at \<Rightarrow> witness_context \<Rightarrow> 'b sys \<Rightarrow> sys_label \<Rightarrow> 'b sys \<Rightarrow> bool"
  for x ctx where
  submit: "append_batch batch d (sy_acc \<sigma>) = (r, acc') \<Longrightarrow> sys_step x ctx \<sigma> (Submit batch d) (\<sigma>\<lparr>sy_acc := acc'\<rparr>)"
| tick: "seal_once x (Some ctx) closed_at dur (sy_acc \<sigma>) (sy_world \<sigma>) = (r, acc', w') \<Longrightarrow>
    sys_step x ctx \<sigma> (Tick closed_at dur) \<lparr>sy_acc = acc', sy_world = w'\<rparr>"
| faults: "sys_step x ctx \<sigma> (Faults rd wr)
    (\<sigma>\<lparr>sy_world := (sy_world \<sigma>)\<lparr>w_store := (w_store (sy_world \<sigma>))\<lparr>st_read_err := rd, st_writes := wr\<rparr>\<rparr>\<rparr>)"
| restart: "sys_step x ctx \<sigma> (Restart n t d)
    \<lparr>sy_acc = accumulator_new n t d,
     sy_world = (sy_world \<sigma>)\<lparr>w_store := store_open (st_disk (w_store (sy_world \<sigma>)))\<rparr>\<rparr>"

interpretation sys: transition_system sys_start "sys_step x ctx" for x ctx .

text \<open>An invariant of ticks that holds of the empty store and survives a restart holds always.\<close>

lemma tick_invariant_reach:
  assumes inv: "tick_invariant x ctx (\<lambda>s. J (st_db s) \<and> J (st_disk s)) R" and init: "J empty_db"
    and reach: "sys.reach x ctx \<sigma>"
  shows "J (st_db (w_store (sy_world \<sigma>))) \<and> J (st_disk (w_store (sy_world \<sigma>)))"
  using reach
proof (rule sys.invariant_reach)
  show "J (st_db (w_store (sy_world \<sigma>))) \<and> J (st_disk (w_store (sy_world \<sigma>)))" if "sys_start \<sigma>" for \<sigma>
    using that init by (simp add: sys_start_def store_open_def)
  show "J (st_db (w_store (sy_world \<tau>))) \<and> J (st_disk (w_store (sy_world \<tau>)))"
    if J: "J (st_db (w_store (sy_world \<sigma>))) \<and> J (st_disk (w_store (sy_world \<sigma>)))" and step: "sys_step x ctx \<sigma> l \<tau>" for \<sigma> l \<tau>
    using step
  proof cases
    case (tick closed_at dur r acc' w')
    then show ?thesis
      using tick_invariant.seal_once_inv [OF inv J, of "Some ctx" closed_at dur "sy_acc \<sigma>" r acc' w'] by simp
  qed (use J in \<open>simp_all add: store_open_def\<close>)
qed

lemma reach_tips_vouched:
  assumes "\<And>n. anchor_claims (x n)" and "sys.reach x ctx \<sigma>"
  shows "tips_vouched x ctx {} (st_db (w_store (sy_world \<sigma>)))"
  using tick_invariant_reach [OF tick_vouched [OF assms(1)] _ assms(2), of "{}"]
  by (simp add: tips_vouched_def empty_db_def)

section \<open>Settling leaves the sealed epochs alone\<close>

abbreviation epoch_parts :: "'b db \<Rightarrow> 'b partition \<times> string partition \<times> string partition" where
  "epoch_parts d \<equiv> (db_epochs d, db_epoch_leaves d, db_leaf_owner d)"

lemma epoch_parts_batch:
  "(\<And>o'. o' \<in> set ops \<Longrightarrow> fst (op_key o') \<notin> {P_epochs, P_epoch_leaves, P_leaf_owner}) \<Longrightarrow>
     epoch_parts (apply_batch ops d) = epoch_parts d"
proof (induction ops arbitrary: d)
  case Nil
  then show ?case by simp
next
  case (Cons o' ops)
  have "epoch_parts (apply_op o' d) = epoch_parts d"
    using Cons.prems [of o'] by (cases o') auto
  with Cons show ?case by simp
qed

lemma minted_ops_epoch_parts:
  assumes "minted_ops y q m ws s = Inr ops"
  shows "epoch_parts (apply_batch ops d) = epoch_parts d"
proof (rule epoch_parts_batch)
  fix o' assume o': "o' \<in> set ops"
  obtain w_ops leaves p_ops where *: "write_witnesses y ws = Inr w_ops"
    "set ops = set w_ops \<union> (\<lambda>w. Put_self_checked_tips (mw_signature_hash w)) ` set ws \<union>
       Del_pending_leaves ` {k. \<exists>l\<in>set leaves. k = compose_leaf_to_tips_key l (method_byte m)
           \<and> part_get (db_pending_leaves (st_db s)) k = Some (to_be_bytes (pe_epoch_id q))} \<union> set p_ops"
    "\<forall>o'\<in>set p_ops. op_key o' = (P_pending_anchors, to_be_bytes (pe_epoch_id q))"
    using assms by (rule minted_ops_set)
  show "fst (op_key o') \<notin> {P_epochs, P_epoch_leaves, P_leaf_owner}"
    using o' write_witnesses_parts [OF *(1), of o'] *(3) by (auto simp: *(2))
qed

lemma settle_epoch_parts:
  assumes "\<And>n. anchor_claims (x n)"
  shows "settle_invariant x ctx (\<lambda>s. epoch_parts (st_db s) = E \<and> epoch_parts (st_disk s) = E) (\<lambda>_. True)"
proof (intro settle_invariant.intro, goal_cases)
  case (1 n)
  then show ?case by (rule assms)
next
  case (2 s p n r s')
  then show ?case
    by (auto simp: save_pending_def split: sum.splits dest!: commit_both [where J = "\<lambda>d. epoch_parts d = E"])
next
  case (3 s p n m ws r s')
  from 3(3) show ?case
  proof (cases rule: persist_pending_minted_cases)
    case err
    with 3(1) show ?thesis by simp
  next
    case (run ops)
    then show ?thesis
      using commit_both [OF run(2), where J = "\<lambda>d. epoch_parts d = E"] 3(1) minted_ops_epoch_parts [OF run(1)] by simp
  qed
qed simp_all

lemma tick_read_err:
  assumes "\<And>n. anchor_claims (x n)"
  shows "tick_invariant x ctx (\<lambda>s. st_read_err s = rd) (\<lambda>_. True)"
proof (intro tick_invariant.intro settle_invariant.intro tick_invariant_axioms.intro, goal_cases)
  case (1 n)
  then show ?case by (rule assms)
next
  case (2 s p n r s')
  then show ?case by (auto simp: save_pending_def split: sum.splits elim: commit_cases)
next
  case (3 s p n m ws r s')
  then show ?case by (auto simp: persist_pending_minted_def split: sum.splits elim: commit_cases)
next
  case (8 s n er ls pending r s')
  then show ?case by (auto simp: persist_sealed_epoch_with_pending_def split: sum.splits elim: commit_cases)
qed simp_all

lemma seal_once_read_err:
  assumes "\<And>n. anchor_claims (x n)" "seal_once x (Some ctx) t d acc w = (r, acc', w')"
  shows "st_read_err (w_store w') = st_read_err (w_store w)"
  using tick_invariant.seal_once_inv [OF tick_read_err [OF assms(1)] refl _ assms(2)] by simp

lemma seal_once_cases:
  assumes "seal_once x c t d acc w = (r, acc', w')"
  obtains (refused) ctx e where "c = Some ctx" "validate ctx = Inl e" "r = SealErr e" "acc' = acc" "w' = w"
  | (panicked) ctx ws down where "c = Some ctx" "validate ctx = Inr ()" "retry_pending x ctx t w = (True, ws, down, w')"
      "r = SealPanic" "acc' = acc"
  | (closed) ws down w1 where "close_epoch x c t d ws down acc w1 = (r, acc', w')"
      "c = None \<and> ws = [] \<and> down = {} \<and> w1 = w
       \<or> (\<exists>ctx. c = Some ctx \<and> validate ctx = Inr () \<and> retry_pending x ctx t w = (False, ws, down, w1))"
proof (cases c)
  case None
  then show thesis using assms by (intro closed [of "[]" "{}" w]) (simp_all add: seal_once_def)
next
  case (Some ctx)
  show thesis
  proof (cases "validate ctx")
    case (Inl e)
    then show thesis using assms Some by (intro refused [OF Some Inl]) (simp_all add: seal_once_def)
  next
    case (Inr u)
    obtain b ws down w1 where rp: "retry_pending x ctx t w = (b, ws, down, w1)" by (metis prod_cases4)
    show thesis
    proof (cases b)
      case True
      then show thesis
        using assms Some Inr rp by (intro panicked [OF Some, of ws down]) (simp_all add: seal_once_def)
    next
      case False
      then show thesis
        using assms Some Inr rp by (intro closed [of ws down w1]) (simp_all add: seal_once_def)
    qed
  qed
qed

lemma close_epoch_outcomes:
  assumes "close_epoch x c t d ws down acc w = (r, acc', w')"
  obtains (failed) snapshot e where "swap_and_open_next t t d acc = (snapshot, acc')" "r = SealErr e"
      "st_disk (w_store w') = st_disk (w_store w)" "w_calls w' = w_calls w"
  | (idle) snapshot batch er s where "swap_and_open_next t t d acc = (snapshot, acc')"
      "epoch_batch_prepare (x (w_moment w)) (map le_leaf (ss_leaves snapshot)) = Inr batch"
      "build_record (x (w_moment w)) snapshot batch = Inr er"
      "c = None \<or> pending_for (x (w_moment w)) c snapshot batch = None"
      "persist_sealed_epoch_with_pending (x (w_moment w)) er (ss_leaves snapshot) []
         (pending_for (x (w_moment w)) c snapshot batch) (w_store w) = (Inr (), s)"
      "r = SealOk er ws" "w' = w\<lparr>w_store := s, w_moment := Suc (w_moment w)\<rparr>"
  | (settled) snapshot batch er s ctx p b minted p' down' where "swap_and_open_next t t d acc = (snapshot, acc')"
      "epoch_batch_prepare (x (w_moment w)) (map le_leaf (ss_leaves snapshot)) = Inr batch"
      "build_record (x (w_moment w)) snapshot batch = Inr er"
      "c = Some ctx" "pending_for (x (w_moment w)) c snapshot batch = Some p"
      "persist_sealed_epoch_with_pending (x (w_moment w)) er (ss_leaves snapshot) [] (Some p) (w_store w) = (Inr (), s)"
      "settle_methods x ctx t (pe_methods p) p down (w\<lparr>w_store := s, w_moment := Suc (w_moment w)\<rparr>)
         = (b, minted, p', down', w')"
      "r = (if b then SealPanic else SealOk er (ws @ minted))"
proof -
  from assms obtain snapshot where sw: "swap_and_open_next t t d acc = (snapshot, acc')"
    and run: "(\<exists>e. r = SealErr e \<and> st_disk (w_store w') = st_disk (w_store w) \<and> w_calls w' = w_calls w)
       \<or> (\<exists>batch er s w1. epoch_batch_prepare (x (w_moment w)) (map le_leaf (ss_leaves snapshot)) = Inr batch
           \<and> build_record (x (w_moment w)) snapshot batch = Inr er
           \<and> persist_sealed_epoch_with_pending (x (w_moment w)) er (ss_leaves snapshot) []
               (pending_for (x (w_moment w)) c snapshot batch) (w_store w) = (Inr (), s)
           \<and> w1 = w\<lparr>w_store := s, w_moment := Suc (w_moment w)\<rparr>
           \<and> (case (c, pending_for (x (w_moment w)) c snapshot batch) of
                (Some c', Some p) \<Rightarrow> (\<exists>b minted p' down'. settle_methods x c' t (pe_methods p) p down w1 = (b, minted, p', down', w')
                    \<and> r = (if b then SealPanic else SealOk er (ws @ minted)))
              | _ \<Rightarrow> r = SealOk er ws \<and> w' = w1))"
    by (rule close_epoch_cases)
  from run show thesis
  proof (elim disjE exE conjE, goal_cases)
    case (1 e)
    then show ?case by (intro failed [OF sw])
  next
    case (2 batch er s w1)
    show ?case
    proof (cases "c = None \<or> pending_for (x (w_moment w)) c snapshot batch = None")
      case True
      then have "r = SealOk er ws \<and> w' = w1"
        using 2(5) by (auto split: option.splits)
      then show ?thesis
        using 2(4) by (intro idle [OF sw 2(1,2) True 2(3)]) simp_all
    next
      case False
      then obtain ctx p where cp: "c = Some ctx" "pending_for (x (w_moment w)) c snapshot batch = Some p" by auto
      then obtain b minted p' down' where
        "settle_methods x ctx t (pe_methods p) p down w1 = (b, minted, p', down', w')"
        "r = (if b then SealPanic else SealOk er (ws @ minted))"
        using 2(5) by auto
      then show ?thesis
        using 2(3,4) cp by (intro settled [OF sw 2(1,2) cp]) simp_all
    qed
  qed
qed

lemma close_epoch_calls:
  assumes "close_epoch x c t d ws down acc w = (r, acc', w')"
  shows "\<exists>cs down'. w_calls w' = w_calls w @ cs \<and> calls_ok down cs down'"
  using assms
proof (cases rule: close_epoch_outcomes)
  case (settled snapshot batch er s ctx p b minted p' down')
  from settle_methods_calls [OF settled(7)] show ?thesis by auto
qed (auto intro!: exI [of _ "[]"] exI [of _ down])

lemma seal_once_calls:
  assumes "seal_once x c t d acc w = (r, acc', w')"
  shows "\<exists>cs down'. w_calls w' = w_calls w @ cs \<and> calls_ok {} cs down'"
  using assms
proof (cases rule: seal_once_cases)
  case (panicked ctx ws down)
  from retry_pending_calls [OF panicked(3)] show ?thesis by blast
next
  case (closed ws down w1)
  obtain cs where cs: "w_calls w1 = w_calls w @ cs" "calls_ok {} cs down"
    using closed(2) retry_pending_calls by (metis append.right_neutral calls_ok_Nil order_refl)
  obtain ds down' where ds: "w_calls w' = w_calls w1 @ ds" "calls_ok down ds down'"
    using close_epoch_calls [OF closed(1)] by blast
  show ?thesis
    using cs ds calls_ok_append [OF cs(2) ds(2)] by (intro exI [of _ "cs @ ds"] exI [of _ down']) simp
qed (auto intro!: exI [of _ "[]"])

section \<open>What a closed epoch leaves on disk\<close>

text \<open>The epoch record and the owner of every leaf, as a fact about the content of the store.\<close>

definition epoch_recorded :: "'b sdk_at \<Rightarrow> epoch_record \<Rightarrow> leaf_entry list \<Rightarrow> 'b db \<Rightarrow> bool" where
  "epoch_recorded x er leaves d \<longleftrightarrow>
     (\<exists>n v. enc_epoch (x n) er = Inr v \<and> part_get (db_epochs d) (to_be_bytes (er_id er)) = Some v)
     \<and> (\<forall>e\<in>set leaves. part_get (db_leaf_owner d) (le_leaf e) = Some (le_submitter_did e))"

lemma sealed_recorded:
  assumes run: "persist_sealed_epoch_with_pending (x n) er leaves ws pending s = (Inr u, s')"
    and dist: "distinct (map le_leaf leaves)"
  shows "st_disk s' = st_db s' \<and> epoch_recorded x er leaves (st_db s')"
proof -
  obtain ops where ops: "sealed_ops (x n) er leaves ws pending = Inr ops" "commit_and_persist ops s = (Inr u, s')"
    using run by (auto simp: persist_sealed_epoch_with_pending_def split: sum.splits)
  have db: "st_db s' = apply_batch ops (st_db s)" "st_disk s' = st_db s'"
    using commit_Inr [OF ops(2)] by simp_all
  then show ?thesis
    using sealed_epoch_cell [OF ops(1), of "st_db s"] sealed_owner_cell [OF ops(1) _ dist, of _ "st_db s"]
    unfolding epoch_recorded_def db by blast
qed

lemma settle_methods_recorded:
  assumes claims: "\<And>n. anchor_claims (x n)"
    and run: "settle_methods x ctx now ms p down w = (b, ws, p', down', w')"
    and rec: "st_disk (w_store w) = st_db (w_store w)" "epoch_recorded x er leaves (st_db (w_store w))"
  shows "epoch_recorded x er leaves (st_disk (w_store w'))"
proof -
  have "epoch_parts (st_disk (w_store w')) = epoch_parts (st_db (w_store w))"
    using settle_invariant.settle_methods_inv [OF settle_epoch_parts [OF claims] _ _ run] rec(1) by simp
  then show ?thesis using rec(2) by (simp add: epoch_recorded_def)
qed

lemma build_record_fields:
  "build_record x snap batch = Inr er \<Longrightarrow>
     er_id er = ss_epoch_id snap \<and> er_closed_at er = ss_closed_at snap \<and> er_opened_at er = ss_opened_at snap
     \<and> er_leaf_count er = of_nat (length (ss_leaves snap))"
  by (auto simp: build_record_def and_then_def split: sum.splits option.splits)

lemma close_epoch_recorded:
  assumes claims: "\<And>n. anchor_claims (x n)" and dist: "distinct (map le_leaf (ai_leaves acc))"
    and run: "close_epoch x c t d ws down acc w = (SealOk er ws', acc', w')"
  shows "er_id er = ai_epoch_id acc \<and> er_leaf_count er = of_nat (length (ai_leaves acc))
    \<and> ai_leaves acc' = [] \<and> epoch_recorded x er (ai_leaves acc) (st_disk (w_store w'))"
  using run
proof (cases rule: close_epoch_outcomes)
  case (failed snapshot e)
  then show ?thesis by simp
next
  case (idle snapshot batch er' s)
  then show ?thesis
    using sealed_recorded [where x = x and n = "w_moment w", OF idle(5)] dist swap_simps [OF idle(1)] build_record_fields [OF idle(3)] by simp
next
  case (settled snapshot batch er' s ctx p b minted p' down')
  have er: "er' = er"
    using settled(8) by (simp split: if_splits)
  have snap: "ss_leaves snapshot = ai_leaves acc" "ai_leaves acc' = []" "ss_epoch_id snapshot = ai_epoch_id acc"
    using swap_simps [OF settled(1)] by simp_all
  then show ?thesis
    using settle_methods_recorded [OF claims settled(7)] sealed_recorded [where x = x and n = "w_moment w", OF settled(6)] dist
      build_record_fields [OF settled(3)] by (simp add: er)
qed

section \<open>What serving a method leaves on disk\<close>

text \<open>The encoders never fail: what the service relies on for the types it writes.\<close>

definition encoders_total :: "('b, 'z) store_api_scheme \<Rightarrow> bool" where
  "encoders_total y \<longleftrightarrow> (\<forall>a. \<exists>v. enc_revision y a = Inr v) \<and> (\<forall>t. \<exists>v. enc_tip_pair y t = Inr v)
     \<and> (\<forall>p. \<exists>v. enc_pending y p = Inr v)"

text \<open>
  A witness is served as itself: marked, indexed by its tip with its own index, and stored with its
  own two revisions under their hashes.
\<close>

definition served_as :: "('b, 'z) store_api_scheme \<Rightarrow> 'b store \<Rightarrow> minted_witness \<Rightarrow> bool" where
  "served_as y s mw \<longleftrightarrow> is_self_checked s (mw_signature_hash mw) = Inr True
     \<and> get_tip_pair y s (mw_signature_hash mw) = Inr (Some (tip_index_of mw))
     \<and> (case enc_revision y (mw_object_revision mw) of Inl _ \<Rightarrow> False
          | Inr b \<Rightarrow> get_revision_json s (mw_object_hash mw) = Inr (Some b))
     \<and> (case enc_revision y (mw_signature_revision mw) of Inl _ \<Rightarrow> False
          | Inr b \<Rightarrow> get_revision_json s (mw_signature_hash mw) = Inr (Some b))"

lemma persist_minted_total:
  assumes total: "encoders_total y" and ls: "leaf_hashes y q = Inr ls"
    and device: "st_writes s = []" "st_read_err s = (\<lambda>_ _. None)"
  shows "\<exists>s'. persist_pending_minted y q m ws s = (Inr (), s')"
proof -
  have "\<exists>os. witness_ops y w = Inr os" for w
  proof -
    obtain oj sj ib where "enc_revision y (mw_object_revision w) = Inr oj"
      "enc_revision y (mw_signature_revision w) = Inr sj" "enc_tip_pair y (tip_index_of w) = Inr ib"
      using total unfolding encoders_total_def by meson
    then show ?thesis by (simp add: witness_ops_def)
  qed
  then have "collect_results (witness_ops y) ws = Inr (map (\<lambda>w. projr (witness_ops y w)) ws)"
    by (intro collect_results_all) (metis sum.sel(2))
  moreover have "collect_results (retired_lookup s (pe_epoch_id q) m) ls
      = Inr (map (\<lambda>l. projr (retired_lookup s (pe_epoch_id q) m l)) ls)"
    by (rule collect_results_all) (simp add: retired_lookup_def Let_def fj_read_def device)
  moreover obtain j where "enc_pending y q = Inr j"
    using total unfolding encoders_total_def by meson
  ultimately have "\<exists>ops. minted_ops y q m ws s = Inr ops"
    by (simp add: minted_ops_def write_witnesses_def ls)
  then show ?thesis
    using device by (auto simp: persist_pending_minted_def)
qed

lemma mint_pending_keys:
  assumes "mint_pending y m v p = Minted minted" "leaf_hashes y p = Inr ls"
  shows "map mw_leaf minted = ls" and "\<forall>mw\<in>set minted. mw_method mw = m \<and> hash32_ok (mw_signature_hash mw)"
proof -
  let ?es = "map (\<lambda>(leaf, l). \<lparr>le_leaf = leaf, le_submitter_did = pl_submitter_did l\<rparr>) (zip ls (pe_leaves p))"
  obtain snap batch where run: "mint_witnesses_for_epoch y snap batch [(m, from_value m v)] = Minted minted"
    and es: "ss_leaves snap = ?es"
    using assms by (auto simp: mint_pending_def restore_def)
  have len: "length ls = length (pe_leaves p)"
    using assms(2) collect_results_InrD by (fastforce simp: leaf_hashes_def)
  have "concat (map (\<lambda>e. [f e]) es) = map f es" for f :: "leaf_entry \<Rightarrow> 'z" and es
    by (induction es) auto
  then have "map (\<lambda>w. (mw_leaf w, mw_submitter_did w, mw_epoch_id w, mw_method w)) minted
      = map (\<lambda>e. (le_leaf e, le_submitter_did e, ss_epoch_id snap, m)) (ss_leaves snap)"
    using mint_keys [OF run] by simp
  then have keys: "map (\<lambda>w. (mw_leaf w, mw_submitter_did w, mw_epoch_id w, mw_method w)) minted
      = map (\<lambda>e. (le_leaf e, le_submitter_did e, ss_epoch_id snap, m)) ?es"
    unfolding es .
  have "map mw_leaf minted = map le_leaf ?es"
    using arg_cong [OF keys, of "map fst"] by (simp add: comp_def)
  also have "\<dots> = ls"
    using len by (simp add: comp_def case_prod_unfold)
  finally show "map mw_leaf minted = ls" .
  have "map mw_method minted = map (\<lambda>_. m) ?es"
    using arg_cong [OF keys, of "map (\<lambda>t. snd (snd (snd t)))"] by (simp add: comp_def)
  then have "set (map mw_method minted) \<subseteq> {m}"
    by (simp only:) auto
  then show "\<forall>mw\<in>set minted. mw_method mw = m \<and> hash32_ok (mw_signature_hash mw)"
    using mint_hashes_ok [OF run] by auto
qed

lemma minted_served:
  assumes codec: "store_codec y" and run: "persist_pending_minted y q m ws s = (Inr u, s')"
    and reads: "st_read_err s = (\<lambda>_ _. None)"
    and hashes: "distinct (map mw_object_hash ws @ map mw_signature_hash ws)"
    and keys: "map mw_leaf ws = ls" "distinct ls" "\<forall>mw\<in>set ws. mw_method mw = m \<and> hash32_ok (mw_signature_hash mw)"
    and ls: "leaf_hashes y q = Inr ls" and q: "m \<notin> set (pe_methods q)"
  shows "st_disk s' = st_db s'"
    and "mw \<in> set ws \<Longrightarrow> served_as y s' mw \<and> get_tip_for_leaf s' (mw_leaf mw) m = Inr (Some (mw_signature_hash mw))"
    and "is_epoch_pending y s' (pe_epoch_id q) m = Inr False"
    and "l \<in> set ls \<Longrightarrow> get_pending_epoch_for_leaf s' l m \<noteq> Inr (Some (pe_epoch_id q))"
proof -
  obtain ops where ops: "minted_ops y q m ws s = Inr ops" and c: "commit_and_persist ops s = (Inr u, s')"
    using run by (auto simp: persist_pending_minted_def split: sum.splits)
  have db: "st_db s' = apply_batch ops (st_db s)" "st_disk s' = st_db s'" "st_read_err s' = (\<lambda>_ _. None)"
    using commit_Inr [OF c] reads by simp_all
  then show "st_disk s' = st_db s'" by simp
  have sigs: "distinct (map mw_signature_hash ws)"
    using hashes by simp
  have "distinct (map mw_leaf ws)"
    using keys(1,2) by simp
  then have leaves: "distinct (map (\<lambda>w. (mw_leaf w, mw_method w)) ws)"
    by (auto simp: distinct_map inj_on_def)
  show "served_as y s' mw \<and> get_tip_for_leaf s' (mw_leaf mw) m = Inr (Some (mw_signature_hash mw))" if mw: "mw \<in> set ws"
  proof -
    have m: "mw_method mw = m" "hash32_ok (mw_signature_hash mw)"
      using keys(3) mw by auto
    obtain ib ob sb where ib: "enc_tip_pair y (tip_index_of mw) = Inr ib"
        "part_get (db_tip_to_pair (st_db s')) (mw_signature_hash mw) = Some ib"
      and ob: "enc_revision y (mw_object_revision mw) = Inr ob"
        "part_get (db_witness_revisions (st_db s')) (mw_object_hash mw) = Some ob"
      and sb: "enc_revision y (mw_signature_revision mw) = Inr sb"
        "part_get (db_witness_revisions (st_db s')) (mw_signature_hash mw) = Some sb"
      using minted_tip_cells(1) [OF ops mw sigs leaves] minted_revision_cells [OF ops mw hashes] unfolding db by blast
    moreover have "dec_tip_pair y ib = Inr (tip_index_of mw)"
      using ib(1) by (rule store_codec.tip_codec [OF codec])
    moreover have "part_get (db_self_checked_tips (st_db s')) (mw_signature_hash mw) \<noteq> None"
      using minted_self_checked [OF ops, of "st_db s" "mw_signature_hash mw"] mw unfolding db by blast
    moreover have "part_get (db_leaf_to_tips (st_db s')) (compose_leaf_to_tips_key (mw_leaf mw) (method_byte m))
        = Some (mw_signature_hash mw)"
      using minted_tip_cells(2) [OF ops mw sigs leaves] unfolding db m .
    ultimately show ?thesis
      using m(2) db(3)
      by (auto simp: served_as_def is_self_checked_def get_tip_pair_def get_tip_for_leaf_def get_revision_json_def fj_read_def)
  qed
  show "is_epoch_pending y s' (pe_epoch_id q) m = Inr False"
    using minted_pending_record [OF ops, of "st_db s"] q store_codec.pending_codec [OF codec] db
    by (auto simp: is_epoch_pending_def fj_read_def split: if_splits)
  show "get_pending_epoch_for_leaf s' l m \<noteq> Inr (Some (pe_epoch_id q))" if "l \<in> set ls" for l
    using that minted_pending_lookups [OF ops ls, of "compose_leaf_to_tips_key l (method_byte m)"] db
    by (auto simp: get_pending_epoch_for_leaf_def fj_read_def u64_from_be_slice_Inr split: option.splits if_splits)
qed

section \<open>A concrete deployment\<close>

text \<open>
  The reference SDK with an EVM provider that succeeds and a chain that finds its transactions
  final, and a tick over two submitted leaves: the instance the properties are applied to.
\<close>

definition demo_sdk :: "ref_blob sdk_at" where
  "demo_sdk n = ref_check_api ''did:svc''"

definition demo_ctx :: witness_context where
  "demo_ctx = with_self_check (Some (\<lambda>n _. ''final'')) None Finalized
     (with_evm_anchor (\<lambda>n root. Inr demo_value) (context_new (Some ''did:svc'') ''0xabc'' [Evm]))"

definition demo_world :: "ref_blob world" where
  "demo_world = \<lparr>w_store = store_open empty_db, w_moment = 0, w_calls = []\<rparr>"

definition demo_acc :: accumulator_inner where
  "demo_acc = \<lparr>ai_epoch_id = 7, ai_opened_at = 100, ai_closes_at = 160,
     ai_leaves = [\<lparr>le_leaf = demo_leaf 1, le_submitter_did = ''did:a''\<rparr>, \<lparr>le_leaf = demo_leaf 2, le_submitter_did = ''did:b''\<rparr>],
     ai_seen = [demo_leaf 1 \<mapsto> 0, demo_leaf 2 \<mapsto> 1], ai_leaf_cap = 8\<rparr>"

definition demo_tick :: "seal_result \<times> accumulator_inner \<times> ref_blob world" where
  "demo_tick = seal_once demo_sdk (Some demo_ctx) 160 60 demo_acc demo_world"

lemma demo_tick_served:
  "case demo_tick of
     (SealOk er ws, acc', w') \<Rightarrow> er_id er = 7 \<and> length ws = 2 \<and> ai_leaves acc' = []
       \<and> part_get (db_self_checked_tips (st_db (w_store w'))) (mw_signature_hash (ws ! 0)) \<noteq> None
   | _ \<Rightarrow> False"
  by code_simp

lemma demo_claims: "anchor_claims (demo_sdk n)"
  unfolding demo_sdk_def by (rule ref_check.anchor_claims_axioms)

text \<open>On this SDK every tick keeps served tips vouched for; the locale's laws are about the model's own store writes.\<close>

interpretation demo_vouched: tick_invariant demo_sdk ctx
  "\<lambda>s. tips_vouched demo_sdk ctx {} (st_db s) \<and> tips_vouched demo_sdk ctx {} (st_disk s)" "\<lambda>_. True" for ctx
  by (rule tick_vouched [OF demo_claims])

lemma demo_codec_stable: "pending_codec_stable demo_sdk"
  by (simp add: pending_codec_stable_def demo_sdk_def ref_check_api_def ref_store_api_def
      sdk_api.defs store_api.defs check_api.defs)

definition demo_start :: "ref_blob sys" where
  "demo_start = \<lparr>sy_acc = with_leaf_cap 7 100 60 8, sy_world = demo_world\<rparr>"

lemma demo_acc_reachable: "sys.reach x ctx \<lparr>sy_acc = demo_acc, sy_world = demo_world\<rparr>"
proof -
  let ?acc1 = "snd (append_batch [demo_leaf 1] ''did:a'' (with_leaf_cap 7 100 60 8))"
  let ?acc2 = "snd (append_batch [demo_leaf 2] ''did:b'' ?acc1)"
  have submit: "sys.reach x ctx \<lparr>sy_acc = snd (append_batch batch d acc), sy_world = demo_world\<rparr>"
    if reach: "sys.reach x ctx \<lparr>sy_acc = acc, sy_world = demo_world\<rparr>" for batch d acc
  proof -
    have "sys_step x ctx \<lparr>sy_acc = acc, sy_world = demo_world\<rparr> (Submit batch d)
        (\<lparr>sy_acc = acc, sy_world = demo_world\<rparr>\<lparr>sy_acc := snd (append_batch batch d acc)\<rparr>)"
      by (rule sys_step.submit [where r = "fst (append_batch batch d acc)"]) simp
    with reach show ?thesis
      using sys.reach_step by fastforce
  qed
  have "sys.reach x ctx \<lparr>sy_acc = with_leaf_cap 7 100 60 8, sy_world = demo_world\<rparr>"
    by (rule sys.reach_start) (auto simp: sys_start_def demo_world_def)
  then have "sys.reach x ctx \<lparr>sy_acc = ?acc2, sy_world = demo_world\<rparr>"
    by (intro submit)
  moreover have "demo_leaf 1 \<noteq> demo_leaf 2"
    by (simp add: demo_leaf_def)
  then have "?acc2 = demo_acc"
    by (simp add: append_batch_def with_leaf_cap_def fresh_leaves_def push_leaf_def
        usize_sat_add_def MAX_LEAVES_PER_EPOCH_def demo_acc_def Let_def sat_add_code)
  ultimately show ?thesis by simp
qed

lemma demo_tick_reachable:
  assumes "seal_once x (Some ctx) 160 60 demo_acc demo_world = (r, acc', w')"
  shows "\<exists>acc. sys.reach x ctx \<lparr>sy_acc = acc, sy_world = w'\<rparr>"
proof -
  let ?\<sigma> = "\<lparr>sy_acc = demo_acc, sy_world = demo_world\<rparr>"
  obtain acc where "sys_step x ctx ?\<sigma> (Tick 160 60) \<lparr>sy_acc = acc, sy_world = w'\<rparr>"
    using sys_step.tick [of x ctx 160 60 ?\<sigma>] assms by auto
  then show ?thesis
    using sys.reach_step [OF demo_acc_reachable] by blast
qed

lemma demo_sdk_fields:
  "enc_epoch (demo_sdk k) = enc_epoch demo_api" "dec_epoch (demo_sdk k) = dec_epoch demo_api"
  "enc_tip_pair (demo_sdk k) = enc_tip_pair demo_api" "dec_tip_pair (demo_sdk k) = dec_tip_pair demo_api"
  "enc_contributor (demo_sdk k) = enc_contributor demo_api" "dec_contributor (demo_sdk k) = dec_contributor demo_api"
  "enc_pending (demo_sdk k) = enc_pending demo_api" "dec_pending (demo_sdk k) = dec_pending demo_api"
  "enc_revision (demo_sdk k) = enc_revision demo_api" "dec_revision (demo_sdk k) = dec_revision demo_api"
  "hex_decode (demo_sdk k) = hex_decode demo_api" "hex_error_display (demo_sdk k) = hex_error_display demo_api"
  by (simp_all add: demo_sdk_def ref_check_api_def ref_store_api_def sdk_api.defs store_api.defs check_api.defs)

lemma demo_sdk_total: "encoders_total (demo_sdk k)"
  unfolding encoders_total_def demo_sdk_fields
  by (simp add: ref_store_api_def sdk_api.defs store_api.defs)

lemma demo_sdk_codec: "store_codec (demo_sdk k)"
proof -
  have "sdk_api.truncate (demo_sdk k) = ref_sdk ''did:svc''"
    by (simp add: demo_sdk_def ref_check_api_def ref_store_api_def sdk_api.defs store_api.defs check_api.defs)
  then have "aqua_sdk (demo_sdk k)"
    by (metis aqua_sdk_truncate ref.aqua_sdk_axioms)
  moreover have "store_codec_axioms (demo_sdk k) = store_codec_axioms demo_api"
    by (simp only: store_codec_axioms_def demo_sdk_fields)
  moreover have "store_codec_axioms demo_api"
    using ref_store.store_codec_axioms [of "''did:svc''"] unfolding store_codec_def by (rule conjunct2)
  ultimately show ?thesis
    unfolding store_codec_def by (simp only: simp_thms)
qed

lemma demo_sdk_leaves: "leaf_hashes (demo_sdk k) demo_pending = Inr [demo_leaf 1, demo_leaf 2]"
proof -
  have "leaf_hashes (demo_sdk k) demo_pending = leaf_hashes demo_api demo_pending"
    unfolding leaf_hashes_def pending_leaf_hash_def demo_sdk_fields ..
  then show ?thesis
    by (simp only: demo_leaf_hashes)
qed

text \<open>The same deployment with a chain that contradicts every anchor.\<close>

definition demo_fault_ctx :: witness_context where
  "demo_fault_ctx = demo_ctx\<lparr>wc_blockchain := Some (\<lambda>n _. ''fault'')\<rparr>"

definition demo_fault_tick :: "seal_result \<times> accumulator_inner \<times> ref_blob world" where
  "demo_fault_tick = seal_once demo_sdk (Some demo_fault_ctx) 160 60 demo_acc demo_world"

lemma demo_fault_tick_pending:
  "case demo_fault_tick of (r, acc', w') \<Rightarrow>
     (case db_pending_anchors (st_db (w_store w')) of [] \<Rightarrow> False
      | e # es \<Rightarrow> (case dec_pending (demo_sdk 0) (snd e) of Inl _ \<Rightarrow> False | Inr p \<Rightarrow> anchor_fault_count p Evm = 1))"
  by code_simp

lemma demo_acc_inv: "acc_inv demo_acc"
proof -
  have "demo_leaf 1 \<noteq> demo_leaf 2"
    by (simp add: demo_leaf_def)
  then show ?thesis
    by (auto simp: acc_inv_def seen_sync_def demo_acc_def MAX_LEAVES_PER_EPOCH_def less_Suc_eq)
qed

section \<open>Properties\<close>

text \<open>
  C1: Nothing unverified is ever servable.  In every state the aggregator can reach, through any
  submissions, ticks, device faults and restarts, a tip that carries the self-checked mark, that is
  indexed, or that a leaf points to, belongs to a witness the full self-check found \<open>Verified\<close> at some
  moment.
\<close>

theorem only_verified_servable:
  assumes claims: "\<forall>n. anchor_claims (x n)" and reach: "sys.reach x ctx \<sigma>"
    and d: "d = st_db (w_store (sy_world \<sigma>))"
    and tip: "part_get (db_self_checked_tips d) tip \<noteq> None \<or> part_get (db_tip_to_pair d) tip \<noteq> None
      \<or> (\<exists>leaf_key. part_get (db_leaf_to_tips d) leaf_key = Some tip)"
  shows "\<exists>mw n. mw_signature_hash mw = tip
    \<and> verify_minted_witness (x n) mw (wc_service_did ctx) (hosts_at ctx n) = Verified"
proof -
  have "tips_vouched x ctx {} d"
    unfolding d by (rule reach_tips_vouched [OF _ reach]) (use claims in blast)
  then have "\<exists>mw. mw_signature_hash mw = tip \<and> vouched x ctx mw"
    using tip unfolding tips_vouched_def by blast
  then show ?thesis
    unfolding vouched_def by blast
qed

theorem only_verified_servable_witness:
  "\<exists>\<sigma> tip mw n. sys.reach demo_sdk demo_ctx \<sigma> \<and> part_get (db_self_checked_tips (st_db (w_store (sy_world \<sigma>)))) tip \<noteq> None
    \<and> mw_signature_hash mw = tip \<and> verify_minted_witness (demo_sdk n) mw (wc_service_did demo_ctx) (hosts_at demo_ctx n) = Verified"
proof -
  obtain er ws acc' w' where tick: "seal_once demo_sdk (Some demo_ctx) 160 60 demo_acc demo_world = (SealOk er ws, acc', w')"
    and mark: "part_get (db_self_checked_tips (st_db (w_store w'))) (mw_signature_hash (ws ! 0)) \<noteq> None"
    using demo_tick_served by (auto simp: demo_tick_def split: prod.splits seal_result.splits)
  obtain acc where reach: "sys.reach demo_sdk demo_ctx \<lparr>sy_acc = acc, sy_world = w'\<rparr>"
    using demo_tick_reachable [OF tick] by blast
  have "\<exists>mw n. mw_signature_hash mw = mw_signature_hash (ws ! 0)
      \<and> verify_minted_witness (demo_sdk n) mw (wc_service_did demo_ctx) (hosts_at demo_ctx n) = Verified"
    by (rule only_verified_servable [OF _ reach refl]) (use demo_claims mark in simp_all)
  then show ?thesis
    using reach mark by (metis sys.select_convs(2))
qed

text \<open>
  C11: Re-anchoring is bounded.  In every reachable state no stored pending record counts more faulty
  anchors of a method than the configured cap, and a record that has reached the cap holds no anchor
  of that method; so the count never overflows and, by the guard of \<open>settle_method\<close>, no further
  provider call is made for it.
\<close>

theorem anchor_faults_bounded:
  assumes "\<forall>n. anchor_claims (x n)" and "pending_codec_stable x" and "sys.reach x ctx \<sigma>"
    and "(k, v) \<in> set (db_pending_anchors (st_db (w_store (sy_world \<sigma>))))" and "dec_pending (x n) v = Inr p"
  shows "anchor_fault_count p m \<le> wc_max_anchor_faults ctx
    \<and> (pending_anchor p m \<noteq> None \<longrightarrow> anchor_fault_count p m < wc_max_anchor_faults ctx)"
proof -
  have "pendings_all x (anchor_bounds (wc_max_anchor_faults ctx)) (st_db (w_store (sy_world \<sigma>)))"
    using tick_invariant_reach [OF tick_bounds [OF _ assms(2)] _ assms(3)] assms(1)
    by (simp add: pendings_all_def empty_db_def)
  then have "anchor_bounds (wc_max_anchor_faults ctx) p"
    using assms(4,5) by (auto simp: pendings_all_def)
  then show ?thesis
    by (simp add: anchor_bounds_def)
qed

theorem anchor_faults_bounded_witness:
  "\<exists>\<sigma> k v p. sys.reach demo_sdk demo_fault_ctx \<sigma> \<and> (k, v) \<in> set (db_pending_anchors (st_db (w_store (sy_world \<sigma>))))
    \<and> dec_pending (demo_sdk 0) v = Inr p \<and> anchor_fault_count p Evm = 1
    \<and> anchor_fault_count p Evm \<le> wc_max_anchor_faults demo_fault_ctx"
proof -
  obtain r acc' w' where tick: "seal_once demo_sdk (Some demo_fault_ctx) 160 60 demo_acc demo_world = (r, acc', w')"
    by (metis prod_cases3)
  obtain k v p where kv: "(k, v) \<in> set (db_pending_anchors (st_db (w_store w')))" "dec_pending (demo_sdk 0) v = Inr p"
    "anchor_fault_count p Evm = 1"
    using demo_fault_tick_pending unfolding demo_fault_tick_def tick
    by (auto split: list.split_asm sum.split_asm) (metis list.set_intros(1) prod.collapse)
  obtain acc where reach: "sys.reach demo_sdk demo_fault_ctx \<lparr>sy_acc = acc, sy_world = w'\<rparr>"
    using demo_tick_reachable [OF tick] by blast
  have mem: "(k, v) \<in> set (db_pending_anchors (st_db (w_store (sy_world \<lparr>sy_acc = acc, sy_world = w'\<rparr>))))"
    using kv by simp
  have "anchor_fault_count p Evm \<le> wc_max_anchor_faults demo_fault_ctx"
    using anchor_faults_bounded [OF _ demo_codec_stable reach mem kv(2)] demo_claims by blast
  then show ?thesis
    using reach mem kv by blast
qed

text \<open>
  C10: A tick wastes at most one failing provider call per method: among the calls a tick makes, none
  follows a failed call of the same method, over all pending epochs and the newly closed one.
\<close>

theorem tick_one_failure_per_method:
  assumes "seal_once x (Some ctx) closed_at dur acc w = (r, acc', w')"
  shows "\<exists>cs. w_calls w' = w_calls w @ cs \<and>
    (\<forall>i j. i < j \<longrightarrow> j < length cs \<longrightarrow> \<not> pc_ok (cs ! i) \<longrightarrow> pc_method (cs ! j) \<noteq> pc_method (cs ! i))"
proof -
  obtain cs down' where cs: "w_calls w' = w_calls w @ cs" "calls_ok {} cs down'"
    using seal_once_calls [OF assms] by blast
  have "pc_method (cs ! j) \<noteq> pc_method (cs ! i)" if "i < j" "j < length cs" "\<not> pc_ok (cs ! i)" for i j
  proof -
    have "\<forall>i<length cs. \<not> pc_ok (cs ! i) \<longrightarrow> pc_method (cs ! i) \<in> down'
        \<and> (\<forall>j. i < j \<longrightarrow> j < length cs \<longrightarrow> pc_method (cs ! j) \<noteq> pc_method (cs ! i))"
      using cs(2) unfolding calls_ok_def by (elim conjE)
    from this [rule_format, OF less_trans [OF that(1,2)] that(3), THEN conjunct2, rule_format, OF that(1,2)]
    show ?thesis .
  qed
  then show ?thesis
    using cs(1) by (intro exI [of _ cs] conjI allI impI)
qed

theorem tick_one_failure_per_method_witness:
  "\<exists>r acc' w' cs. demo_fault_tick = (r, acc', w') \<and> w_calls w' = w_calls demo_world @ cs \<and>
    (\<forall>i j. i < j \<longrightarrow> j < length cs \<longrightarrow> \<not> pc_ok (cs ! i) \<longrightarrow> pc_method (cs ! j) \<noteq> pc_method (cs ! i))"
proof -
  obtain r acc' w' where tick: "demo_fault_tick = (r, acc', w')" by (metis prod_cases3)
  then show ?thesis
    using tick_one_failure_per_method [of demo_sdk demo_fault_ctx 160 60 demo_acc demo_world r acc' w']
    by (auto simp: demo_fault_tick_def)
qed

text \<open>
  C12: No second anchor while one is kept.  Settling a method of an epoch makes at most one provider
  call, for that method and epoch, and only when the method is enabled, no anchor of it is stored,
  it is not down for the tick, and its faults are below the cap.
\<close>

theorem settle_method_anchors_once:
  assumes "settle_method x ctx now m p down w = (r, p', down', w')"
  shows "w_calls w' = w_calls w \<or>
    (\<exists>ok. w_calls w' = w_calls w @ [\<lparr>pc_method = m, pc_epoch = pe_epoch_id p, pc_ok = ok\<rparr>]
       \<and> m \<in> set (wc_methods ctx) \<and> pending_anchor p m = None \<and> m \<notin> down
       \<and> anchor_fault_count p m < wc_max_anchor_faults ctx)"
proof -
  obtain cs where cs: "w_calls w' = w_calls w @ cs" "calls_ok down cs down'" "length cs \<le> 1"
    "\<forall>c\<in>set cs. m \<in> set (wc_methods ctx) \<and> pc_method c = m \<and> pc_epoch c = pe_epoch_id p \<and> pending_anchor p m = None
          \<and> anchor_fault_count p m < wc_max_anchor_faults ctx"
    using settle_method_calls [OF assms] by blast
  show ?thesis
  proof (cases cs)
    case Nil
    with cs(1) show ?thesis by simp
  next
    case (Cons c rest)
    then have c: "c \<in> set cs" and "rest = []"
      using cs(3) by simp_all
    moreover have "pc_method c \<notin> down"
      using cs(2) c unfolding calls_ok_def by (elim conjE) (rule bspec)
    then have "m \<notin> down"
      using cs(4) c by auto
    moreover have "c = \<lparr>pc_method = m, pc_epoch = pe_epoch_id p, pc_ok = pc_ok c\<rparr>"
      using cs(4) Cons by simp
    ultimately show ?thesis
      using cs(1,4) Cons by (intro disjI2 exI [of _ "pc_ok c"]) auto
  qed
qed

theorem settle_method_anchors_once_witness:
  "\<exists>r p' down' w'. settle_method demo_sdk demo_ctx 160 Evm demo_pending {} demo_world = (r, p', down', w')
     \<and> w_calls w' = [\<lparr>pc_method = Evm, pc_epoch = pe_epoch_id demo_pending, pc_ok = True\<rparr>]
     \<and> pending_anchor demo_pending Evm = None"
proof -
  have run: "case settle_method demo_sdk demo_ctx 160 Evm demo_pending {} demo_world of
      (r, p', down', w') \<Rightarrow> map pc_ok (w_calls w') = [True] \<and> w_calls demo_world = []"
    by code_simp
  obtain r p' down' w' where sm: "settle_method demo_sdk demo_ctx 160 Evm demo_pending {} demo_world = (r, p', down', w')"
    by (metis prod_cases4)
  then have "map pc_ok (w_calls w') = [True]" "w_calls demo_world = []"
    using run by simp_all
  then show ?thesis
    using settle_method_anchors_once [OF sm] sm by auto
qed

text \<open>
  C2: A sealed epoch is durable.  When a tick reports success, the accumulator has moved on with no
  leaves, and what is synced to disk (also after anchoring and settling ran) holds the epoch record
  under the epoch's id and, for every leaf of the epoch, its submitter.
\<close>

theorem sealed_epoch_durable:
  assumes claims: "\<forall>n. anchor_claims (x n)" and inv: "acc_inv acc"
    and run: "seal_once x c closed_at dur acc w = (SealOk er ws, acc', w')"
  shows "er_id er = ai_epoch_id acc \<and> er_leaf_count er = of_nat (length (ai_leaves acc)) \<and> ai_leaves acc' = []
    \<and> (\<exists>n v. enc_epoch (x n) er = Inr v \<and> part_get (db_epochs (st_disk (w_store w'))) (to_be_bytes (er_id er)) = Some v)
    \<and> (\<forall>e\<in>set (ai_leaves acc). part_get (db_leaf_owner (st_disk (w_store w'))) (le_leaf e) = Some (le_submitter_did e))"
  using run
proof (cases rule: seal_once_cases)
  case (closed ws' down w1)
  have "distinct (map le_leaf (ai_leaves acc))"
    using inv by (simp add: acc_inv_def seen_sync_def)
  then show ?thesis
    using close_epoch_recorded [OF _ _ closed(1)] claims unfolding epoch_recorded_def by blast
qed simp_all

theorem sealed_epoch_durable_witness:
  "\<exists>er ws acc' w'. demo_tick = (SealOk er ws, acc', w') \<and> er_id er = 7 \<and> er_leaf_count er = 2
    \<and> part_get (db_leaf_owner (st_disk (w_store w'))) (demo_leaf 1) = Some ''did:a''"
proof -
  obtain er ws acc' w' where tick: "seal_once demo_sdk (Some demo_ctx) 160 60 demo_acc demo_world = (SealOk er ws, acc', w')"
    using demo_tick_served by (auto simp: demo_tick_def split: prod.splits seal_result.splits)
  have "\<forall>n. anchor_claims (demo_sdk n)"
    using demo_claims by blast
  from sealed_epoch_durable [OF this demo_acc_inv tick] tick show ?thesis
    by (auto simp: demo_tick_def demo_acc_def)
qed

text \<open>
  A misconfigured tick is refused before it touches anything: when an enabled method has no
  provider or no self-check host, or the service has no DID, \<open>seal_once\<close> returns that error with the
  accumulator, the store and the provider calls as they were; and a context that has all of them
  passes \<open>validate\<close>.
\<close>

theorem misconfigured_tick_refused:
  "if (\<forall>m\<in>set (wc_methods ctx). context_provider ctx m \<noteq> None \<and> \<not> host_missing ctx m) \<and> wc_service_did ctx \<noteq> []
   then validate ctx = Inr ()
   else \<exists>e. seal_once x (Some ctx) closed_at dur acc w = (SealErr e, acc, w)"
proof -
  have "validate ctx = Inr () \<longleftrightarrow>
      (\<forall>m\<in>set (wc_methods ctx). context_provider ctx m \<noteq> None \<and> \<not> host_missing ctx m) \<and> wc_service_did ctx \<noteq> []"
    by (auto simp: validate_def find_None_iff find_Some_iff split: option.splits)
  moreover have "\<exists>e. seal_once x (Some ctx) closed_at dur acc w = (SealErr e, acc, w)" if "validate ctx \<noteq> Inr ()"
    using that by (cases "validate ctx") (auto simp: seal_once_def)
  ultimately show ?thesis by auto
qed

theorem misconfigured_tick_refused_witness:
  "validate demo_ctx = Inr () \<and>
   (\<exists>e. seal_once demo_sdk (Some (demo_ctx\<lparr>wc_evm_anchor := None\<rparr>)) 160 60 demo_acc demo_world
      = (SealErr e, demo_acc, demo_world))"
  using misconfigured_tick_refused [of demo_ctx demo_sdk 160 60 demo_acc demo_world]
    misconfigured_tick_refused [of "demo_ctx\<lparr>wc_evm_anchor := None\<rparr>" demo_sdk 160 60 demo_acc demo_world]
  by (simp add: demo_ctx_def with_self_check_def with_evm_anchor_def context_new_def)

text \<open>
  C13: What a failing close does.  Once the epoch has been swapped out, an error while preparing the
  batch, building the record or committing it returns with the accumulator already emptied and
  moved to the next epoch and with the disk unchanged: the leaves of the epoch, though accepted, are
  in neither.
\<close>

theorem failed_close_drops_leaves:
  assumes "close_epoch x c closed_at dur ws down acc w = (SealErr e, acc', w')"
  shows "ai_leaves acc' = [] \<and> ai_epoch_id acc' = sat_add (ai_epoch_id acc) 1
    \<and> st_disk (w_store w') = st_disk (w_store w) \<and> w_calls w' = w_calls w"
  using assms
proof (cases rule: close_epoch_outcomes)
  case (failed snapshot e')
  then show ?thesis using swap_simps [OF failed(1)] by simp
qed (simp_all split: if_splits)

theorem failed_close_drops_leaves_witness:
  "\<exists>e acc' w'. close_epoch demo_sdk None 160 60 [] {} demo_acc
       (demo_world\<lparr>w_store := (store_open empty_db)\<lparr>st_writes := [Commit_err ''no space'']\<rparr>\<rparr>) = (SealErr e, acc', w')
     \<and> ai_leaves demo_acc \<noteq> [] \<and> ai_leaves acc' = [] \<and> st_disk (w_store w') = empty_db"
proof -
  let ?w = "demo_world\<lparr>w_store := (store_open empty_db)\<lparr>st_writes := [Commit_err ''no space'']\<rparr>\<rparr>"
  have "case close_epoch demo_sdk None 160 60 [] {} demo_acc ?w of (SealErr e, _, _) \<Rightarrow> True | _ \<Rightarrow> False"
    by code_simp
  then obtain e acc' w' where run: "close_epoch demo_sdk None 160 60 [] {} demo_acc ?w = (SealErr e, acc', w')"
    by (auto split: prod.splits seal_result.splits)
  from failed_close_drops_leaves [OF run] run show ?thesis
    by (auto simp: store_open_def demo_acc_def)
qed

text \<open>
  An empty epoch costs nothing.  With no leaves and nothing pending, a tick whose record can be
  written seals the epoch with the empty root and a leaf count of zero, makes no provider call,
  mints nothing and leaves nothing pending.
\<close>

theorem empty_epoch_seals_quietly:
  assumes "validate ctx = Inr ()" and "ai_leaves acc = []" and "db_pending_anchors (st_db (w_store w)) = []"
    and "st_writes (w_store w) = []"
    and er: "er = \<lparr>er_id = ai_epoch_id acc, er_opened_at = ai_opened_at acc, er_closed_at = closed_at,
       er_merkle_root = empty_merkle_root (x (w_moment w)), er_leaf_count = 0, er_hash_type = HASH_TYPE_LABEL\<rparr>"
    and "enc_epoch (x (w_moment w)) er = Inr v"
  shows "\<exists>acc' w'. seal_once x (Some ctx) closed_at dur acc w = (SealOk er [], acc', w') \<and> w_calls w' = w_calls w
    \<and> db_pending_anchors (st_db (w_store w')) = [] \<and> ai_epoch_id acc' = sat_add (ai_epoch_id acc) 1"
proof -
  have "retry_pending x ctx closed_at w = (False, [], {}, w)"
    using assms(3) by (simp add: retry_pending_def list_pending_epochs_def)
  moreover obtain snap acc' where sw: "swap_and_open_next closed_at closed_at dur acc = (snap, acc')" by fastforce
  let ?ops = "[Put_epochs (to_be_bytes (er_id er)) v]"
  let ?s = "(w_store w)\<lparr>st_db := apply_batch ?ops (st_db (w_store w)), st_disk := apply_batch ?ops (st_db (w_store w))\<rparr>"
  have "build_record (x (w_moment w)) snap None = Inr er"
    using swap_simps [OF sw] assms(2) by (simp add: build_record_def er)
  moreover have "persist_sealed_epoch_with_pending (x (w_moment w)) er [] [] None (w_store w) = (Inr (), ?s)"
    using assms(4,6) by (simp add: persist_sealed_epoch_with_pending_def sealed_ops_def write_witnesses_def leaf_ops_def)
  ultimately have "seal_once x (Some ctx) closed_at dur acc w = (SealOk er [], acc', w\<lparr>w_store := ?s, w_moment := Suc (w_moment w)\<rparr>)"
    using assms(1,2) sw swap_simps [OF sw]
    by (simp add: seal_once_def close_epoch_def Let_def epoch_batch_prepare_def pending_for_def)
  then show ?thesis
    using assms(3) swap_simps [OF sw] by (simp add: apply_batch_def)
qed

theorem empty_epoch_seals_quietly_witness:
  "\<exists>er acc' w'. seal_once demo_sdk (Some demo_ctx) 160 60 (with_leaf_cap 7 100 60 8) demo_world = (SealOk er [], acc', w')
    \<and> w_calls w' = []"
proof -
  have enc: "enc_epoch (demo_sdk n) r = Inr (B_epoch r)" for n r
    by (simp add: demo_sdk_def ref_check_api_def ref_store_api_def sdk_api.defs store_api.defs check_api.defs)
  have "validate demo_ctx = Inr ()"
    by code_simp
  from empty_epoch_seals_quietly [where x = demo_sdk, OF this _ _ _ refl enc, where acc = "with_leaf_cap 7 100 60 8"
      and w = demo_world and closed_at = 160 and dur = 60] show ?thesis
    by (auto simp: demo_world_def with_leaf_cap_def store_open_def empty_db_def)
qed

text \<open>
  C9: A working environment makes progress.  Let a method of a pending epoch be enabled and provided
  for, with no anchor stored, not down and below the fault cap; let its provider answer, the device
  read and write, the encoders encode and the record's leaves decode, to distinct leaves; let the SDK
  mint, with no two of the minted revisions under one hash, and the self-check accept every witness.
  Then one call of \<open>settle_method\<close> serves the method.  There is one witness per leaf, in order, and in
  what is synced to disk each of them is marked, indexed with its own index, found by its leaf, and
  stored with its own two revisions; the method has left the pending record, in memory and on disk,
  and no leaf of the epoch waits for it any more.
\<close>

theorem settle_method_makes_progress:
  assumes m: "m \<in> set (wc_methods ctx)" "context_provider ctx m = Some prov" "pending_anchor p m = None" "m \<notin> down"
      "anchor_fault_count p m < wc_max_anchor_faults ctx"
    and answer: "prov (w_moment w) (pending_anchor_root p) = Inr v"
    and device: "st_writes (w_store w) = []" "st_read_err (w_store w) = (\<lambda>_ _. None)"
    and codec: "\<forall>k. encoders_total (x k)" "store_codec (x (Suc n))"
    and n: "n = Suc (w_moment w)" and p1: "p1 = set_anchor m v now p"
    and ls: "\<forall>k. leaf_hashes (x k) p = Inr ls" "distinct ls"
    and mint: "mint_pending (x n) m v p1 = Minted minted"
    and hashes: "distinct (map mw_object_hash minted @ map mw_signature_hash minted)"
    and ok: "\<forall>c\<in>set (self_check x ctx minted n). c = Verified"
  shows "\<exists>w'. settle_method x ctx now m p down w = (Served minted, remaining_after m p1, down, w')
    \<and> map mw_leaf minted = ls \<and> st_disk (w_store w') = st_db (w_store w')
    \<and> (\<forall>mw\<in>set minted. served_as (x (Suc n)) (w_store w') mw
          \<and> get_tip_for_leaf (w_store w') (mw_leaf mw) m = Inr (Some (mw_signature_hash mw)))
    \<and> m \<notin> set (pe_methods (remaining_after m p1))
    \<and> is_epoch_pending (x (Suc n)) (w_store w') (pe_epoch_id p) m = Inr False
    \<and> (\<forall>l\<in>set ls. get_pending_epoch_for_leaf (w_store w') l m \<noteq> Inr (Some (pe_epoch_id p)))"
proof -
  let ?call = "\<lparr>pc_method = m, pc_epoch = pe_epoch_id p, pc_ok = True\<rparr>"
  let ?wa = "w\<lparr>w_moment := n, w_calls := w_calls w @ [?call]\<rparr>"
  let ?q = "remaining_after m p1"
  obtain j where "enc_pending (x n) p1 = Inr j"
    using codec(1) unfolding encoders_total_def by meson
  then obtain s1 where save: "save_pending (x n) p1 (w_store w) = (Inr (), s1)" and s1: "st_writes s1 = []"
    "st_read_err s1 = (\<lambda>_ _. None)"
    using device by (simp add: save_pending_def)
  have ar: "anchor_root ctx m (pe_epoch_id p) (pending_anchor_root p) w = (Some v, ?wa)"
    using m answer n by (simp add: anchor_root_def Let_def)
  have sa: "store_anchor x p1 ?wa = (True, ?wa\<lparr>w_store := s1\<rparr>)"
    using save by (simp add: store_anchor_def world_save_pending_def)
  have oa: "obtain_anchor x ctx m now p down w = (Some v, p1, down, ?wa\<lparr>w_store := s1\<rparr>)"
    using m(3,4) not_le [THEN iffD2, OF m(5)] by (simp add: obtain_anchor_def ar p1 [symmetric] sa)
  have none: "find (\<lambda>(w, v). v \<noteq> Verified) (zip minted (self_check x ctx minted n)) = None"
    using ok by (auto simp: find_None_iff dest: set_zip_rightD)
  have lq: "leaf_hashes (x k) ?q = Inr ls" "leaf_hashes (x k) p1 = Inr ls" for k
    using ls(1) by (simp_all add: leaf_hashes_def remaining_after_def p1)
  obtain s2 where pm: "persist_pending_minted (x (Suc n)) ?q m minted s1 = (Inr (), s2)"
    using persist_minted_total [OF _ lq(1) s1] codec(1) by blast
  have run: "settle_method x ctx now m p down w = (Served minted, ?q, down, ?wa\<lparr>w_moment := Suc n, w_store := s2\<rparr>)"
    using m(1) oa mint none pm by (simp add: settle_method_def serve_def Let_def)
  have keys: "map mw_leaf minted = ls" "\<forall>mw\<in>set minted. mw_method mw = m \<and> hash32_ok (mw_signature_hash mw)"
    using mint_pending_keys [OF mint lq(2)] .
  have q: "pe_epoch_id ?q = pe_epoch_id p" "m \<notin> set (pe_methods ?q)"
    by (simp_all add: remaining_after_def p1)
  show ?thesis
    using minted_served [OF codec(2) pm s1(2) hashes keys(1) ls(2) keys(2) lq(1) q(2)] keys(1) q run
    by (intro exI [of _ "?wa\<lparr>w_moment := Suc n, w_store := s2\<rparr>"]) auto
qed

theorem settle_method_makes_progress_witness:
  "\<exists>minted p' w'. settle_method demo_sdk demo_ctx 160 Evm demo_pending {} demo_world = (Served minted, p', {}, w')
     \<and> map mw_leaf minted = [demo_leaf 1, demo_leaf 2]
     \<and> (\<forall>mw\<in>set minted. served_as (demo_sdk 2) (w_store w') mw) \<and> Evm \<notin> set (pe_methods p')"
proof -
  let ?p1 = "set_anchor Evm demo_value 160 demo_pending"
  have "case mint_pending (demo_sdk 1) Evm demo_value ?p1 of
      Minted minted \<Rightarrow> distinct (map mw_object_hash minted @ map mw_signature_hash minted)
        \<and> list_all (\<lambda>c. c = Verified) (self_check demo_sdk demo_ctx minted 1)
    | _ \<Rightarrow> False"
    by code_simp
  then obtain minted where minted: "mint_pending (demo_sdk 1) Evm demo_value ?p1 = Minted minted"
    "distinct (map mw_object_hash minted @ map mw_signature_hash minted)"
    "\<forall>c\<in>set (self_check demo_sdk demo_ctx minted 1). c = Verified"
    by (auto simp: list_all_iff split: mint_outcome.splits)
  have ctx: "wc_methods demo_ctx = [Evm]" "context_provider demo_ctx Evm = Some (\<lambda>n root. Inr demo_value)"
    "wc_max_anchor_faults demo_ctx = 3"
    by (simp_all add: demo_ctx_def with_self_check_def with_evm_anchor_def context_new_def DEFAULT_MAX_ANCHOR_FAULTS_def)
  have pend: "pending_anchor demo_pending Evm = None" "anchor_fault_count demo_pending Evm = 0"
    by code_simp+
  have cap: "anchor_fault_count demo_pending Evm < wc_max_anchor_faults demo_ctx"
    by (simp add: ctx pend)
  have total: "encoders_total (demo_sdk k)" and codec: "store_codec (demo_sdk k)" for k
    by (fact demo_sdk_total demo_sdk_codec)+
  have ls: "leaf_hashes (demo_sdk k) demo_pending = Inr [demo_leaf 1, demo_leaf 2]" for k
    by (fact demo_sdk_leaves)
  have "demo_leaf 1 \<noteq> demo_leaf 2"
    by (simp add: demo_leaf_def)
  then have "\<exists>w'. settle_method demo_sdk demo_ctx 160 Evm demo_pending {} demo_world = (Served minted, remaining_after Evm ?p1, {}, w')
    \<and> map mw_leaf minted = [demo_leaf 1, demo_leaf 2] \<and> st_disk (w_store w') = st_db (w_store w')
    \<and> (\<forall>mw\<in>set minted. served_as (demo_sdk (Suc 1)) (w_store w') mw
          \<and> get_tip_for_leaf (w_store w') (mw_leaf mw) Evm = Inr (Some (mw_signature_hash mw)))
    \<and> Evm \<notin> set (pe_methods (remaining_after Evm ?p1))
    \<and> is_epoch_pending (demo_sdk (Suc 1)) (w_store w') (pe_epoch_id demo_pending) Evm = Inr False
    \<and> (\<forall>l\<in>set [demo_leaf 1, demo_leaf 2]. get_pending_epoch_for_leaf (w_store w') l Evm \<noteq> Inr (Some (pe_epoch_id demo_pending)))"
    by (intro settle_method_makes_progress [OF _ ctx(2) pend(1) _ cap refl _ _ _ codec _ refl _ _ minted])
      (use ctx(1) total ls in \<open>simp_all add: demo_world_def store_open_def\<close>)
  then show ?thesis
    by (auto simp: numeral_2_eq_2)
qed

end
