(* ===== verification/Served_Origin.thy ===== *)
theory Served_Origin
  imports Seal_Cycle
begin

text \<open>
  Where the stored witnesses come from.  Serving a method (\<open>persist_pending_minted\<close> of
  \<open>storage.rs\<close>, called from \<open>settle_method\<close> of \<open>sealer.rs\<close>) is the only write to the partitions
  of the tip index, of the revisions and of the leaf lookups.  The invariant of this theory says of every
  reachable state that each index entry, revision and leaf lookup is the one that belongs to a
  witness the self-check found \<open>Verified\<close>, under that witness's own hashes.
\<close>

section \<open>The origin of an entry\<close>

text \<open>The two revisions of a witness with the hashes they are stored under.\<close>

definition witness_pair :: "minted_witness \<Rightarrow> (hash32 \<times> any_revision) list" where
  "witness_pair mw = [(mw_object_hash mw, mw_object_revision mw), (mw_signature_hash mw, mw_signature_revision mw)]"

definition index_origin :: "'b sdk_at \<Rightarrow> witness_context \<Rightarrow> hash32 \<Rightarrow> 'b \<Rightarrow> bool" where
  "index_origin x ctx k v \<longleftrightarrow> (\<exists>mw n. vouched x ctx mw \<and> mw_signature_hash mw = k
     \<and> enc_tip_pair (x n) (tip_index_of mw) = Inr v)"

definition revision_origin :: "'b sdk_at \<Rightarrow> witness_context \<Rightarrow> hash32 \<Rightarrow> 'b \<Rightarrow> bool" where
  "revision_origin x ctx h b \<longleftrightarrow> (\<exists>mw n r. vouched x ctx mw \<and> (h, r) \<in> set (witness_pair mw)
     \<and> enc_revision (x n) r = Inr b)"

definition lookup_origin :: "'b sdk_at \<Rightarrow> witness_context \<Rightarrow> bytes \<Rightarrow> hash32 \<Rightarrow> bool" where
  "lookup_origin x ctx lk k \<longleftrightarrow> (\<exists>mw. vouched x ctx mw \<and> mw_signature_hash mw = k
     \<and> lk = compose_leaf_to_tips_key (mw_leaf mw) (method_byte (mw_method mw)))"

definition db_origin :: "'b sdk_at \<Rightarrow> witness_context \<Rightarrow> 'b db \<Rightarrow> bool" where
  "db_origin x ctx d \<longleftrightarrow>
     (\<forall>k v. part_get (db_tip_to_pair d) k = Some v \<longrightarrow> index_origin x ctx k v)
     \<and> (\<forall>h b. part_get (db_witness_revisions d) h = Some b \<longrightarrow> revision_origin x ctx h b)
     \<and> (\<forall>lk k. part_get (db_leaf_to_tips d) lk = Some k \<longrightarrow> lookup_origin x ctx lk k)"

lemma db_origin_empty: "db_origin x ctx empty_db"
  by (simp add: db_origin_def empty_db_def)

section \<open>Every write keeps it\<close>

fun op_origin :: "'b sdk_at \<Rightarrow> witness_context \<Rightarrow> 'b batch_op \<Rightarrow> bool" where
  "op_origin x ctx (Put_tip_to_pair k v) = index_origin x ctx k v"
| "op_origin x ctx (Put_witness_revisions h b) = revision_origin x ctx h b"
| "op_origin x ctx (Put_leaf_to_tips lk k) = lookup_origin x ctx lk k"
| "op_origin x ctx _ = True"

lemma op_origin_other:
  "fst (op_key o') \<notin> {P_tip_to_pair, P_witness_revisions, P_leaf_to_tips} \<Longrightarrow> op_origin x ctx o'"
  by (cases o') auto

lemma db_origin_batch:
  "db_origin x ctx d \<Longrightarrow> (\<And>o'. o' \<in> set ops \<Longrightarrow> op_origin x ctx o') \<Longrightarrow> db_origin x ctx (apply_batch ops d)"
proof (induction ops arbitrary: d)
  case Nil
  then show ?case by simp
next
  case (Cons o' ops)
  have "db_origin x ctx (apply_op o' d)"
    using Cons.prems(1) Cons.prems(2) [of o'] by (cases o') (auto simp: db_origin_def)
  with Cons show ?case by simp
qed

lemma witness_ops_origin:
  assumes "witness_ops (x n) mw = Inr os" "vouched x ctx mw" "o' \<in> set os"
  shows "op_origin x ctx o'"
proof -
  obtain oj sj ib where enc: "enc_revision (x n) (mw_object_revision mw) = Inr oj"
    "enc_revision (x n) (mw_signature_revision mw) = Inr sj" "enc_tip_pair (x n) (tip_index_of mw) = Inr ib"
    and os: "os = [Put_witness_revisions (mw_object_hash mw) oj, Put_witness_revisions (mw_signature_hash mw) sj,
       Put_leaf_to_tips (compose_leaf_to_tips_key (mw_leaf mw) (method_byte (mw_method mw))) (mw_signature_hash mw),
       Put_tip_to_pair (mw_signature_hash mw) ib]"
    using assms(1) by (rule witness_ops_InrD)
  have "revision_origin x ctx (mw_object_hash mw) oj" "revision_origin x ctx (mw_signature_hash mw) sj"
    "index_origin x ctx (mw_signature_hash mw) ib"
    "lookup_origin x ctx (compose_leaf_to_tips_key (mw_leaf mw) (method_byte (mw_method mw))) (mw_signature_hash mw)"
    unfolding revision_origin_def index_origin_def lookup_origin_def witness_pair_def
    using assms(2) enc by fastforce+
  with assms(3) show ?thesis by (auto simp: os)
qed

lemma minted_ops_origin:
  assumes "minted_ops (x n) q m ws s = Inr ops" "\<And>mw. mw \<in> set ws \<Longrightarrow> vouched x ctx mw" "o' \<in> set ops"
  shows "op_origin x ctx o'"
proof -
  obtain w_ops leaves p_ops where *: "write_witnesses (x n) ws = Inr w_ops"
    "set ops = set w_ops \<union> (\<lambda>w. Put_self_checked_tips (mw_signature_hash w)) ` set ws \<union>
       Del_pending_leaves ` {k. \<exists>l\<in>set leaves. k = compose_leaf_to_tips_key l (method_byte m)
           \<and> part_get (db_pending_leaves (st_db s)) k = Some (to_be_bytes (pe_epoch_id q))} \<union> set p_ops"
    "\<forall>o'\<in>set p_ops. op_key o' = (P_pending_anchors, to_be_bytes (pe_epoch_id q))"
    using assms(1) by (rule minted_ops_set)
  show ?thesis
  proof (cases "o' \<in> set w_ops")
    case True
    then obtain mw os where "mw \<in> set ws" "witness_ops (x n) mw = Inr os" "o' \<in> set os"
      using write_witnesses_InrD(1) [OF *(1)] by blast
    then show ?thesis
      using witness_ops_origin assms(2) by blast
  next
    case False
    then show ?thesis
      using assms(3) *(3) by (intro op_origin_other) (auto simp: *(2))
  qed
qed

lemma sealed_ops_origin:
  assumes "sealed_ops y er ls [] pending = Inr ops" "o' \<in> set ops"
  shows "op_origin x ctx o'"
proof -
  obtain p_ops encoded w_ops where *: "case pending of None \<Rightarrow> p_ops = [] | Some p \<Rightarrow> pending_ops y p = Inr p_ops"
    "write_witnesses y [] = Inr w_ops"
    "ops = p_ops @ [Put_epochs (to_be_bytes (er_id er)) encoded] @ leaf_ops (er_id er) ls @ w_ops"
    using assms(1) by (rule sealed_ops_InrD)
  show ?thesis
    using assms(2) pending_ops_parts [OF *(1), of o'] *(2,3)
    by (intro op_origin_other) (auto simp: leaf_ops_set)
qed

lemma tick_origin:
  assumes "\<And>n. anchor_claims (x n)"
  shows "tick_invariant x ctx (\<lambda>s. db_origin x ctx (st_db s) \<and> db_origin x ctx (st_disk s)) (\<lambda>_. True)"
proof (intro tick_invariant.intro settle_invariant.intro tick_invariant_axioms.intro, goal_cases)
  case (1 n)
  then show ?case by (rule assms)
next
  case (2 s p n r s')
  then show ?case
    by (auto simp: save_pending_def split: sum.splits
        dest!: commit_both [where J = "db_origin x ctx"] intro: db_origin_batch)
next
  case (3 s p n m ws r s')
  from 3(3) show ?case
  proof (cases rule: persist_pending_minted_cases)
    case err
    with 3(1) show ?thesis by simp
  next
    case (run ops)
    have "db_origin x ctx (apply_batch ops (st_db s))"
      using 3(1) minted_ops_origin [OF run(1) 3(4)] by (intro db_origin_batch) simp_all
    with commit_both [OF run(2), where J = "db_origin x ctx"] 3(1) show ?thesis by blast
  qed
next
  case (8 s n er ls pending r s')
  then show ?case
    by (auto simp: persist_sealed_epoch_with_pending_def split: sum.splits
        dest!: commit_both [where J = "db_origin x ctx"] intro: db_origin_batch sealed_ops_origin)
qed simp_all

lemma reach_origin:
  assumes "\<And>n. anchor_claims (x n)" and "sys.reach x ctx \<sigma>"
  shows "db_origin x ctx (st_db (w_store (sy_world \<sigma>)))"
  using tick_invariant_reach [OF tick_origin [OF assms(1)] db_origin_empty assms(2)] by blast

section \<open>One hash, one revision\<close>

text \<open>
  What the hash of a revision stands for: the link of a hash determines the hash, and no two
  different revisions of witnesses the self-check accepts have the same hash.
\<close>

definition content_addressed :: "'b sdk_at \<Rightarrow> witness_context \<Rightarrow> bool" where
  "content_addressed x ctx \<longleftrightarrow>
     (\<forall>n n' a b. link_from_bytes (x n) a = link_from_bytes (x n') b \<longrightarrow> a = b)
     \<and> (\<forall>mw mw' h r r'. vouched x ctx mw \<longrightarrow> vouched x ctx mw' \<longrightarrow>
          (h, r) \<in> set (witness_pair mw) \<longrightarrow> (h, r') \<in> set (witness_pair mw') \<longrightarrow> r = r')"

lemma vouched_chain:
  assumes "vouched x ctx mw"
  obtains n obj sig where "mw_object_revision mw = Typed obj" "mw_signature_revision mw = Signature sig"
    "object_link (x n) Sha3_256 obj = Inr (link_from_bytes (x n) (mw_object_hash mw))"
    "ob_previous obj = Some (link_from_bytes (x n) (mw_leaf mw))"
    "classify_signature_leaf (x n) sig (link_from_bytes (x n) (mw_signature_hash mw)) = Inr LeafVerified"
    "sg_previous sig = link_from_bytes (x n) (mw_object_hash mw)" "sg_signer sig = wc_service_did ctx"
  using assms unfolding vouched_def verify_minted_witness_Verified content_and_inclusion_Inr service_signature_Verified
  by blast

text \<open>Then a tip stands for one pair, and through it for one leaf.\<close>

lemma same_tip_same_pair:
  assumes hashes: "content_addressed x ctx" and mw: "vouched x ctx mw" "vouched x ctx mw'"
    and tip: "mw_signature_hash mw = mw_signature_hash mw'"
  shows "mw_object_hash mw = mw_object_hash mw' \<and> mw_leaf mw = mw_leaf mw'"
proof -
  have links: "link_from_bytes (x k) a = link_from_bytes (x k') b \<Longrightarrow> a = b" for k k' a b
    using hashes unfolding content_addressed_def by blast
  have one: "(h, r) \<in> set (witness_pair mw) \<Longrightarrow> (h, r') \<in> set (witness_pair mw') \<Longrightarrow> r = r'" for h r r'
    using hashes mw unfolding content_addressed_def by blast
  obtain n obj sig where a: "mw_object_revision mw = Typed obj" "mw_signature_revision mw = Signature sig"
    "ob_previous obj = Some (link_from_bytes (x n) (mw_leaf mw))" "sg_previous sig = link_from_bytes (x n) (mw_object_hash mw)"
    using mw(1) by (rule vouched_chain)
  obtain n' obj' sig' where b: "mw_object_revision mw' = Typed obj'" "mw_signature_revision mw' = Signature sig'"
    "ob_previous obj' = Some (link_from_bytes (x n') (mw_leaf mw'))" "sg_previous sig' = link_from_bytes (x n') (mw_object_hash mw')"
    using mw(2) by (rule vouched_chain)
  have "mw_signature_revision mw = mw_signature_revision mw'"
    by (rule one [of "mw_signature_hash mw"]) (simp_all add: witness_pair_def tip)
  then have oh: "mw_object_hash mw = mw_object_hash mw'"
    using a(2,4) b(2,4) links [of n "mw_object_hash mw" n' "mw_object_hash mw'"] by simp
  have "mw_object_revision mw = mw_object_revision mw'"
    by (rule one [of "mw_object_hash mw"]) (simp_all add: witness_pair_def oh)
  then have "mw_leaf mw = mw_leaf mw'"
    using a(1,3) b(1,3) links [of n "mw_leaf mw" n' "mw_leaf mw'"] by simp
  with oh show ?thesis by simp
qed

lemma stored_revision:
  assumes d: "db_origin x ctx d" and hashes: "content_addressed x ctx" and mw: "vouched x ctx mw"
    and pair: "(h, r) \<in> set (witness_pair mw)" and get: "part_get (db_witness_revisions d) h = Some b"
  shows "\<exists>n. enc_revision (x n) r = Inr b"
proof -
  obtain mw' n r' where *: "vouched x ctx mw'" "(h, r') \<in> set (witness_pair mw')" "enc_revision (x n) r' = Inr b"
    using d get unfolding db_origin_def revision_origin_def by blast
  have "r' = r"
    using hashes mw pair *(1,2) unfolding content_addressed_def by blast
  with *(3) show ?thesis by blast
qed

section \<open>A deployment whose hashes name one revision\<close>

text \<open>
  The reference SDK with checks as strict as a hash can make them: it hashes the timestamp objects of
  the demo epoch only, and accepts a signature revision only under its own hash.
\<close>

definition known_objects :: "any_revision list" where
  "known_objects = map mw_object_revision demo_witnesses"

definition ref_signature_hash :: "revision_link \<Rightarrow> hash32" where
  "ref_signature_hash previous = pad32 (187 # drop 2 previous)"

definition strict_sdk :: "ref_blob sdk_at" where
  "strict_sdk n = (demo_sdk n)
     \<lparr>object_link := (\<lambda>k ob. if Typed ob \<in> set known_objects then Inr (ref_object_link ob) else Inl ''unknown object''),
      classify_signature_leaf := (\<lambda>sig l. if sg_rest sig = [] \<and> l = [22, 32] @ ref_signature_hash (sg_previous sig)
        then Inr LeafVerified else Inl ''not the hash of the signature'')\<rparr>"

definition strict_tick :: "seal_result \<times> accumulator_inner \<times> ref_blob world" where
  "strict_tick = seal_once strict_sdk (Some demo_ctx) 160 60 demo_acc demo_world"

lemma strict_claims: "anchor_claims (strict_sdk n)"
proof -
  have eq: "evm_claim_from_payload (strict_sdk n) = evm_claim_from_payload (demo_sdk n)"
    by (simp add: strict_sdk_def)
  show ?thesis
    using demo_claims [of n] unfolding anchor_claims_def eq .
qed

lemma strict_sdk_simps:
  "link_from_bytes (strict_sdk n) b = [22, 32] @ b"
  "object_link (strict_sdk n) k ob = (if Typed ob \<in> set known_objects then Inr (ref_object_link ob) else Inl ''unknown object'')"
  "classify_signature_leaf (strict_sdk n) sig l = (if sg_rest sig = [] \<and> l = [22, 32] @ ref_signature_hash (sg_previous sig)
        then Inr LeafVerified else Inl ''not the hash of the signature'')"
proof -
  have "link_from_bytes (demo_sdk n) b = [22, 32] @ b"
    by (simp add: demo_sdk_def ref_check_api_def ref_store_api_def ref_sdk_def sdk_api.defs store_api.defs check_api.defs)
  then show "link_from_bytes (strict_sdk n) b = [22, 32] @ b"
    by (simp add: strict_sdk_def)
qed (simp_all add: strict_sdk_def)

text \<open>The known objects have different hashes, the signatures over them too, and no object hash is a signature hash.\<close>

lemma known_objects_hashes:
  "\<forall>r\<in>set known_objects. \<forall>r'\<in>set known_objects. \<forall>a b. r = Typed a \<longrightarrow> r' = Typed b \<longrightarrow>
     (ref_object_link a = ref_object_link b \<or> ref_signature_hash (ref_object_link a) = ref_signature_hash (ref_object_link b)
        \<longrightarrow> a = b)
     \<and> drop 2 (ref_object_link a) \<noteq> ref_signature_hash (ref_object_link b)"
proof -
  have "list_all (\<lambda>r. list_all (\<lambda>r'. case r of Typed a \<Rightarrow> (case r' of Typed b \<Rightarrow>
       (ref_object_link a = ref_object_link b \<or> ref_signature_hash (ref_object_link a) = ref_signature_hash (ref_object_link b)
          \<longrightarrow> a = b)
       \<and> drop 2 (ref_object_link a) \<noteq> ref_signature_hash (ref_object_link b) | _ \<Rightarrow> True) | _ \<Rightarrow> True) known_objects) known_objects"
    by code_simp
  then show ?thesis
    unfolding list_all_iff by fastforce
qed

lemma strict_content_addressed: "content_addressed strict_sdk demo_ctx"
proof -
  have pair: "\<exists>a. Typed a \<in> set known_objects
      \<and> (h = drop 2 (ref_object_link a) \<and> r = Typed a
         \<or> h = ref_signature_hash (ref_object_link a)
           \<and> r = Signature \<lparr>sg_previous = ref_object_link a, sg_signer = wc_service_did demo_ctx, sg_rest = []\<rparr>)"
    if mw: "vouched strict_sdk demo_ctx mw" and hr: "(h, r) \<in> set (witness_pair mw)" for mw h r
  proof -
    from mw obtain n obj sig where *: "mw_object_revision mw = Typed obj" "mw_signature_revision mw = Signature sig"
      "object_link (strict_sdk n) Sha3_256 obj = Inr (link_from_bytes (strict_sdk n) (mw_object_hash mw))"
      "classify_signature_leaf (strict_sdk n) sig (link_from_bytes (strict_sdk n) (mw_signature_hash mw)) = Inr LeafVerified"
      "sg_previous sig = link_from_bytes (strict_sdk n) (mw_object_hash mw)" "sg_signer sig = wc_service_did demo_ctx"
      by (rule vouched_chain)
    have obj: "Typed obj \<in> set known_objects" "ref_object_link obj = [22, 32] @ mw_object_hash mw"
      using *(3) by (simp_all add: strict_sdk_simps split: if_splits)
    have sig: "sg_rest sig = []" "mw_signature_hash mw = ref_signature_hash (ref_object_link obj)" "sg_previous sig = ref_object_link obj"
      using *(4,5) obj(2) by (simp_all add: strict_sdk_simps split: if_splits)
    have "sig = \<lparr>sg_previous = ref_object_link obj, sg_signer = wc_service_did demo_ctx, sg_rest = []\<rparr>"
      using sig *(6) by (cases sig) simp
    then show ?thesis
      using hr obj sig(2) *(1,2) by (intro exI [of _ obj]) (auto simp: witness_pair_def)
  qed
  have "r = r'" if mw: "vouched strict_sdk demo_ctx mw" "vouched strict_sdk demo_ctx mw'"
    and hr: "(h, r) \<in> set (witness_pair mw)" "(h, r') \<in> set (witness_pair mw')" for mw mw' h r r'
  proof -
    obtain a b where a: "Typed a \<in> set known_objects" "h = drop 2 (ref_object_link a) \<and> r = Typed a
         \<or> h = ref_signature_hash (ref_object_link a)
           \<and> r = Signature \<lparr>sg_previous = ref_object_link a, sg_signer = wc_service_did demo_ctx, sg_rest = []\<rparr>"
      and b: "Typed b \<in> set known_objects" "h = drop 2 (ref_object_link b) \<and> r' = Typed b
         \<or> h = ref_signature_hash (ref_object_link b)
           \<and> r' = Signature \<lparr>sg_previous = ref_object_link b, sg_signer = wc_service_did demo_ctx, sg_rest = []\<rparr>"
      using pair [OF mw(1) hr(1)] pair [OF mw(2) hr(2)] by blast
    have drop2: "drop 2 (ref_object_link a) = drop 2 (ref_object_link b) \<Longrightarrow> ref_object_link a = ref_object_link b"
      by (simp add: ref_object_link_def)
    show ?thesis
      using a b drop2 known_objects_hashes by metis
  qed
  moreover have "link_from_bytes (strict_sdk n) u = link_from_bytes (strict_sdk n') v \<Longrightarrow> u = v" for n n' u v
    by (simp add: strict_sdk_simps)
  ultimately show ?thesis
    unfolding content_addressed_def by blast
qed

end
