(* ===== verification/Watcher.thy ===== *)
theory Watcher
  imports Selfcheck
begin

text \<open>
  The fuel watcher (\<open>crates/aqua-timestamp/src/watcher.rs\<close>) and the balance oracle
  (\<open>oracle.rs\<close>).  The watcher polls an Ethereum node, scans the blocks after its watermark for
  transfers to the service wallet, and credits their senders on the leaderboard.

  The node is a parameter: a \<open>chain_view\<close> holds what it answers during one cycle.  A cycle is a
  function from the loop's state (the watermark variable and the store) to the next one; \<open>None\<close>
  means that the task panicked, which the conversion of a transfer value above \<open>u128::MAX\<close> does.
\<close>

section \<open>Data\<close>

type_synonym u256 = "256 word"
type_synonym address = bytes

datatype watcher_error = W_Rpc string | W_BlockNotFound u64 | W_Parse string

record fuel_transfer =
  ft_sender :: address
  ft_value_wei :: u128
  ft_block_number :: u64
  ft_block_timestamp :: u64

record transaction =
  tx_to :: "address option"
  tx_value :: u256
  tx_signer :: address

datatype block_transactions = Full "transaction list" | HashesOnly

record block =
  bl_timestamp :: u64
  bl_transactions :: block_transactions

record chain_view =
  cv_parse_url :: "string \<Rightarrow> string + unit"
  cv_block_number :: "string + u64"
  cv_block :: "u64 \<Rightarrow> string + block option"
  cv_balance :: "address \<Rightarrow> string + u256"
  cv_gas_price :: "string + u128"

record block_watcher =
  bw_rpc_url :: string
  bw_wallet_address :: address
  bw_chain_id :: u64

section \<open>Scanning\<close>

definition latest_block :: "block_watcher \<Rightarrow> chain_view \<Rightarrow> watcher_error + u64" where
  "latest_block w view =
     and_then (map_err W_Rpc (cv_parse_url view (bw_rpc_url w))) (\<lambda>_.
     map_err W_Rpc (cv_block_number view))"

definition fuel_transfer_of :: "u64 \<Rightarrow> u64 \<Rightarrow> transaction \<Rightarrow> fuel_transfer" where
  "fuel_transfer_of n t tx =
     \<lparr>ft_sender = tx_signer tx, ft_value_wei = ucast (tx_value tx), ft_block_number = n, ft_block_timestamp = t\<rparr>"

text \<open>\<open>value().to::<u128>()\<close> panics when the value does not fit; \<open>None\<close> is that panic.\<close>

definition filter_transfers :: "transaction list \<Rightarrow> address \<Rightarrow> u64 \<Rightarrow> u64 \<Rightarrow> fuel_transfer list option" where
  "filter_transfers txs wallet n t =
     (let hits = filter (\<lambda>tx. tx_to tx = Some wallet \<and> tx_value tx > 0) txs
      in if list_all (\<lambda>tx. tx_value tx \<le> ucast (- 1 :: u128)) hits
         then Some (map (fuel_transfer_of n t) hits) else None)"

datatype scan_result = ScanOk "fuel_transfer list" | ScanErr watcher_error | ScanPanic

fun scan_loop :: "block_watcher \<Rightarrow> chain_view \<Rightarrow> u64 list \<Rightarrow> fuel_transfer list \<Rightarrow> scan_result" where
  "scan_loop w view [] transfers = ScanOk transfers"
| "scan_loop w view (n # ns) transfers =
     (case cv_block view n of
        Inl e \<Rightarrow> ScanErr (W_Rpc (''block '' @ show_nat (unat n) @ '': '' @ e))
      | Inr None \<Rightarrow> ScanErr (W_BlockNotFound n)
      | Inr (Some b) \<Rightarrow>
          (case bl_transactions b of
             HashesOnly \<Rightarrow> scan_loop w view ns transfers
           | Full txs \<Rightarrow>
               (case filter_transfers txs (bw_wallet_address w) n (bl_timestamp b) of
                  None \<Rightarrow> ScanPanic
                | Some found \<Rightarrow> scan_loop w view ns (transfers @ found))))"

definition block_range :: "u64 \<Rightarrow> u64 \<Rightarrow> u64 list" where
  "block_range a b = map of_nat [unat a ..< Suc (unat b)]"

definition scan_blocks :: "block_watcher \<Rightarrow> chain_view \<Rightarrow> u64 \<Rightarrow> u64 \<Rightarrow> scan_result" where
  "scan_blocks w view from' to' =
     (case cv_parse_url view (bw_rpc_url w) of
        Inl e \<Rightarrow> ScanErr (W_Rpc e)
      | Inr _ \<Rightarrow> scan_loop w view (block_range from' (min to' (sat_add from' 99))) [])"

definition did_for_sender :: "'z codec_api_scheme \<Rightarrow> u64 \<Rightarrow> address \<Rightarrow> did" where
  "did_for_sender x chain_id sender = ''did:pkh:eip155:'' @ show_nat (unat chain_id) @ '':0x'' @ hex_encode x sender"

section \<open>The loop\<close>

definition chain_label :: string where
  "chain_label = ''eth''"

definition start_watermark :: "block_watcher \<Rightarrow> chain_view \<Rightarrow> 'b store \<Rightarrow> u64" where
  "start_watermark w view s =
     (case get_watermark s chain_label of
        Inr (Some n) \<Rightarrow> n
      | Inr None \<Rightarrow> (case latest_block w view of Inr b \<Rightarrow> b | Inl e \<Rightarrow> 0)
      | Inl e \<Rightarrow> 0)"

text \<open>The entry a transfer gives its sender, from what the store holds before the window.\<close>

definition credited_entry ::
  "('b, 'z) store_api_scheme \<Rightarrow> u64 \<Rightarrow> 'b store \<Rightarrow> fuel_transfer \<Rightarrow> contributor_entry" where
  "credited_entry x chain_id s ft =
     (case get_contributor x s (ft_sender ft) of
        Inr (Some e) \<Rightarrow>
          e\<lparr>ce_fuel_contributed_wei := sat_add (ce_fuel_contributed_wei e) (ft_value_wei ft),
            ce_last_active := (if ft_block_timestamp ft > ce_last_active e then ft_block_timestamp ft else ce_last_active e)\<rparr>
      | _ \<Rightarrow>
          \<lparr>ce_did = did_for_sender x chain_id (ft_sender ft), ce_fuel_contributed_wei = ft_value_wei ft,
           ce_fuel_contributed_sat = 0, ce_hashes_submitted = 0, ce_last_active = ft_block_timestamp ft\<rparr>)"

definition watcher_cycle ::
  "('b, 'z) store_api_scheme \<Rightarrow> block_watcher \<Rightarrow> chain_view \<Rightarrow> u64 \<times> 'b store \<Rightarrow> (u64 \<times> 'b store) option" where
  "watcher_cycle x w view st =
     (case st of (watermark, s) \<Rightarrow>
       (case latest_block w view of
          Inl e \<Rightarrow> Some (watermark, s)
        | Inr latest \<Rightarrow>
            if latest \<le> watermark then Some (watermark, s)
            else let scan_end = min latest (sat_add watermark 100); scan_start = sat_add watermark 1
                 in (case scan_blocks w view scan_start scan_end of
                       ScanPanic \<Rightarrow> None
                     | ScanErr e \<Rightarrow> Some (watermark, s)
                     | ScanOk transfers \<Rightarrow>
                         if transfers \<noteq> []
                         then (case upsert_contributors_and_watermark x
                                      (map (\<lambda>ft. (ft_sender ft, credited_entry x (bw_chain_id w) s ft)) transfers)
                                      chain_label scan_end s of
                                 (Inl e, s') \<Rightarrow> Some (watermark, s')
                               | (Inr _, s') \<Rightarrow> Some (scan_end, s'))
                         else Some (scan_end, snd (set_watermark chain_label scan_end s)))))"

section \<open>The balance oracle\<close>

datatype oracle_error = OE_Rpc string | OE_ZeroBalance

definition TIMESTAMP_GAS_UNITS :: u128 where
  "TIMESTAMP_GAS_UNITS = 50000"

text \<open>The product of gas units and gas price is a wrapping \<open>u128\<close> multiplication in a release build.\<close>

definition alloy_balance_and_gas_cost :: "string \<Rightarrow> address \<Rightarrow> chain_view \<Rightarrow> oracle_error + u128 \<times> u128" where
  "alloy_balance_and_gas_cost rpc_url wallet view =
     and_then (map_err (\<lambda>e. OE_Rpc (''invalid RPC URL '' @ rpc_url @ '': '' @ e)) (cv_parse_url view rpc_url)) (\<lambda>_.
     and_then (map_err (\<lambda>e. OE_Rpc (''get_balance failed: '' @ e)) (cv_balance view wallet)) (\<lambda>balance.
     and_then (map_err (\<lambda>e. OE_Rpc (''get_gas_price failed: '' @ e)) (cv_gas_price view)) (\<lambda>gas_price.
     (let balance_u128 = (if balance \<le> ucast (- 1 :: u128) then ucast balance else - 1);
          gas_cost = TIMESTAMP_GAS_UNITS * gas_price
      in if balance_u128 = 0 then Inl OE_ZeroBalance else Inr (balance_u128, gas_cost)))))"

section \<open>What a scan returns\<close>

text \<open>The reference: the transfers to the wallet in one block, as the node serves it.\<close>

definition inbound :: "block_watcher \<Rightarrow> chain_view \<Rightarrow> u64 \<Rightarrow> fuel_transfer list" where
  "inbound w view n =
     (case cv_block view n of
        Inr (Some b) \<Rightarrow>
          (case bl_transactions b of
             Full txs \<Rightarrow> map (fuel_transfer_of n (bl_timestamp b))
               (filter (\<lambda>tx. tx_to tx = Some (bw_wallet_address w) \<and> tx_value tx > 0) txs)
           | HashesOnly \<Rightarrow> [])
      | _ \<Rightarrow> [])"

lemma scan_loop_spec:
  "scan_loop w view ns acc = ScanOk ts \<Longrightarrow>
     ts = acc @ concat (map (inbound w view) ns) \<and> (\<forall>n\<in>set ns. \<exists>b. cv_block view n = Inr (Some b))"
proof (induction ns arbitrary: acc)
  case Nil
  then show ?case by simp
next
  case (Cons n ns)
  then obtain b where b: "cv_block view n = Inr (Some b)"
    by (auto split: sum.splits option.splits)
  show ?case
  proof (cases "bl_transactions b")
    case HashesOnly
    then show ?thesis
      using Cons.IH [of acc] Cons.prems b by (simp add: inbound_def)
  next
    case (Full txs)
    then obtain found where found: "filter_transfers txs (bw_wallet_address w) n (bl_timestamp b) = Some found"
      using Cons.prems b by (auto split: option.splits)
    then have "inbound w view n = found"
      using b Full by (auto simp: inbound_def filter_transfers_def Let_def split: if_splits)
    then show ?thesis
      using Cons.IH [of "acc @ found"] Cons.prems b Full found by simp
  qed
qed

lemma unat_min_word: "unat (min a b) = min (unat a) (unat (b :: 'a::len word))"
  by (simp add: min_def word_le_nat_alt)

lemma watcher_window:
  fixes wm latest :: u64
  assumes "wm < latest"
  defines "e \<equiv> min latest (sat_add wm 100)"
  shows "wm < e" and "e \<le> latest" and "unat (sat_add wm 1) = Suc (unat wm)"
    and "unat e \<le> unat wm + 100" and "min e (sat_add (sat_add wm 1) 99) = e"
proof -
  have lt: "unat wm < unat latest" "unat latest < 2 ^ 64"
    using assms(1) unsigned_less [of latest, where ?'a = nat] by (simp_all add: word_less_nat_alt)
  have ue: "unat e = min (unat latest) (unat wm + 100)"
    using lt by (simp add: e_def unat_min_word sat_simps)
  show s: "unat (sat_add wm 1) = Suc (unat wm)"
    using lt by (simp add: sat_simps)
  show "wm < e" "e \<le> latest" "unat e \<le> unat wm + 100"
    using ue lt by (simp_all add: word_less_nat_alt word_le_nat_alt)
  have "unat (sat_add (sat_add wm 1) 99) = min (unat wm + 100) (2 ^ 64 - 1)"
    using s by (simp add: sat_simps)
  then have "e \<le> sat_add (sat_add wm 1) 99"
    using ue lt by (auto simp: word_le_nat_alt)
  then show "min e (sat_add (sat_add wm 1) 99) = e"
    by (simp add: min_def)
qed

lemma set_block_range: "n \<in> set (block_range a b) \<longleftrightarrow> a \<le> n \<and> n \<le> b"
proof
  assume "n \<in> set (block_range a b)"
  then obtain k where k: "n = of_nat k" "unat a \<le> k" "k \<le> unat b"
    by (auto simp: block_range_def)
  then have "unat n = k"
    using unsigned_less [of b, where ?'a = nat] by (simp add: unat_of_nat)
  then show "a \<le> n \<and> n \<le> b"
    using k by (simp add: word_le_nat_alt)
next
  assume "a \<le> n \<and> n \<le> b"
  then have "unat n \<in> {unat a ..< Suc (unat b)}" "n = of_nat (unat n)"
    by (auto simp: word_le_nat_alt)
  then show "n \<in> set (block_range a b)"
    unfolding block_range_def by (metis atLeastLessThan_upt image_eqI list.set_map)
qed

section \<open>What a cycle does\<close>

lemma watcher_cycle_cases:
  assumes "watcher_cycle x w view (wm, s) = Some (wm', s')"
  obtains (idle) "wm' = wm" "s' = s"
  | (failed) e err ups where "wm' = wm" "upsert_contributors_and_watermark x ups chain_label e s = (Inl err, s')"
  | (quiet) latest where "wm < latest" "cv_block_number view = Inr latest" "wm' = min latest (sat_add wm 100)"
      "scan_blocks w view (sat_add wm 1) wm' = ScanOk []" "s' = snd (set_watermark chain_label wm' s)"
  | (credited) latest ts where "wm < latest" "cv_block_number view = Inr latest" "wm' = min latest (sat_add wm 100)"
      "scan_blocks w view (sat_add wm 1) wm' = ScanOk ts" "ts \<noteq> []"
      "upsert_contributors_and_watermark x
         (map (\<lambda>ft. (ft_sender ft, credited_entry x (bw_chain_id w) s ft)) ts) chain_label wm' s = (Inr (), s')"
proof (cases "latest_block w view")
  case (Inl e)
  then show thesis using assms by (intro idle) (simp_all add: watcher_cycle_def)
next
  case (Inr latest)
  then have num: "cv_block_number view = Inr latest"
    by (simp add: latest_block_def)
  show thesis
  proof (cases "latest \<le> wm")
    case True
    then show thesis using assms Inr by (intro idle) (simp_all add: watcher_cycle_def)
  next
    case False
    let ?e = "min latest (sat_add wm 100)"
    let ?ups = "\<lambda>ts. map (\<lambda>ft. (ft_sender ft, credited_entry x (bw_chain_id w) s ft)) ts"
    have lt: "wm < latest" using False by simp
    have cyc: "(case scan_blocks w view (sat_add wm 1) ?e of
        ScanPanic \<Rightarrow> None | ScanErr e \<Rightarrow> Some (wm, s)
      | ScanOk ts \<Rightarrow> if ts \<noteq> [] then (case upsert_contributors_and_watermark x (?ups ts) chain_label ?e s of
            (Inl e, s') \<Rightarrow> Some (wm, s') | (Inr _, s') \<Rightarrow> Some (?e, s'))
          else Some (?e, snd (set_watermark chain_label ?e s))) = Some (wm', s')"
      using assms Inr False by (simp add: watcher_cycle_def Let_def)
    show thesis
    proof (cases "scan_blocks w view (sat_add wm 1) ?e")
      case (ScanOk ts)
      show thesis
      proof (cases "ts = []")
        case True
        then have "wm' = ?e" using cyc ScanOk by simp
        then show thesis using cyc ScanOk True lt num by (intro quiet) simp_all
      next
        case ne: False
        obtain r s1 where up: "upsert_contributors_and_watermark x (?ups ts) chain_label ?e s = (r, s1)" by fastforce
        show thesis
        proof (cases r)
          case (Inl err)
          then show thesis using cyc ScanOk ne up by (intro failed [where e = ?e and err = err and ups = "?ups ts"]) simp_all
        next
          case (Inr u)
          then have "wm' = ?e" "s' = s1" using cyc ScanOk ne up by simp_all
          then show thesis using ScanOk ne up Inr lt num by (intro credited) simp_all
        qed
      qed
    next
      case (ScanErr e)
      then show thesis using cyc by (intro idle) simp_all
    next
      case ScanPanic
      then show thesis using cyc by simp
    qed
  qed
qed

text \<open>Of several writes of one key in a batch the last one stays.\<close>

lemma contributors_last_write:
  "part_get (db_contributor_stats (apply_batch (map (\<lambda>(a, v). Put_contributor_stats a v) us) d)) k =
     (case map_of (rev us) k of Some v \<Rightarrow> Some v | None \<Rightarrow> part_get (db_contributor_stats d) k)"
proof (induction us rule: rev_induct)
  case Nil
  then show ?case by simp
next
  case (snoc u us)
  obtain a v where u: "u = (a, v)" by fastforce
  from snoc show ?case by (simp add: u split: option.splits)
qed

lemma map_of_last_key:
  assumes "\<forall>e\<in>set bs. fst e \<noteq> fst a"
  shows "map_of (rev (as @ [a] @ bs)) (fst a) = Some (snd a)"
proof -
  have "map_of (rev bs) (fst a) = None"
    using assms by (force simp: map_of_eq_None_iff)
  then show ?thesis by (cases a) (simp add: map_add_def)
qed

lemma upsert_ops:
  assumes "upsert_contributors_and_watermark x ups chain n s = (Inr u, s')"
  obtains us where "map fst us = map fst ups" "\<forall>i<length ups. enc_contributor x (snd (ups ! i)) = Inr (snd (us ! i))"
    "st_db s' = apply_batch (map (\<lambda>(a, v). Put_contributor_stats a v) us
       @ [Put_watcher_watermark (str_bytes chain) (to_be_bytes n)]) (st_db s)"
    "st_disk s' = st_db s'" "st_read_err s' = st_read_err s"
proof -
  let ?f = "\<lambda>(addr, entry). and_then (map_err SE_Encode (enc_contributor x entry)) (\<lambda>v. Inr (Put_contributor_stats addr v))"
  obtain ops where ops: "collect_results ?f ups = Inr ops"
    and c: "commit_and_persist (ops @ [Put_watcher_watermark (str_bytes chain) (to_be_bytes n)]) s = (Inr u, s')"
    using assms by (auto simp: upsert_contributors_and_watermark_def split: sum.splits)
  define us where "us = map (\<lambda>(a, e). (a, projr (enc_contributor x e))) ups"
  have len: "length ops = length ups" and nth: "\<And>i. i < length ups \<Longrightarrow> ?f (ups ! i) = Inr (ops ! i)"
    using collect_results_InrD [OF ops] by auto
  have enc: "enc_contributor x (snd (ups ! i)) = Inr (snd (us ! i)) \<and> ops ! i = Put_contributor_stats (fst (us ! i)) (snd (us ! i))"
    if "i < length ups" for i
    using nth [OF that] that by (cases "ups ! i") (auto simp: us_def)
  have "ops = map (\<lambda>(a, v). Put_contributor_stats a v) us"
    using len enc by (intro nth_equalityI) (simp_all add: us_def split_def)
  moreover have "map fst us = map fst ups"
    by (simp add: us_def split_def)
  ultimately show thesis
    using that [of us] enc commit_Inr [OF c] by simp
qed

lemma watermark_after_upsert:
  assumes "upsert_contributors_and_watermark x ups chain n s = (Inr u, s')" "st_read_err s = (\<lambda>_ _. None)"
  shows "get_watermark s' chain = Inr (Some n)"
  using assms(1)
proof (rule upsert_ops)
  fix us
  assume "st_db s' = apply_batch (map (\<lambda>(a, v). Put_contributor_stats a v) us
       @ [Put_watcher_watermark (str_bytes chain) (to_be_bytes n)]) (st_db s)" "st_read_err s' = st_read_err s"
  then show ?thesis using assms(2) by (simp add: get_watermark_def fj_read_def)
qed

text \<open>Three blocks; the first carries two transfers of one sender.\<close>

definition demo_watcher :: block_watcher where
  "demo_watcher = \<lparr>bw_rpc_url = ''http://node'', bw_wallet_address = replicate 20 7, bw_chain_id = 1\<rparr>"

definition demo_transfer :: "nat \<Rightarrow> transaction" where
  "demo_transfer v = \<lparr>tx_to = Some (replicate 20 7), tx_value = of_nat v, tx_signer = replicate 20 1\<rparr>"

definition demo_view :: chain_view where
  "demo_view = \<lparr>cv_parse_url = (\<lambda>_. Inr ()), cv_block_number = Inr 13,
     cv_block = (\<lambda>n. Inr (Some \<lparr>bl_timestamp = n, bl_transactions =
        (if n = 11 then Full [demo_transfer 5, demo_transfer 3] else Full [])\<rparr>)),
     cv_balance = (\<lambda>_. Inr 0), cv_gas_price = Inr 1\<rparr>"

definition demo_watch_api :: "ref_blob store_api" where
  "demo_watch_api = ref_store_api ''did:svc''"

section \<open>Properties\<close>

text \<open>
  C29: No block is skipped.  A cycle that does not panic either leaves the watermark, or advances it
  to at most the node's latest block and by at most 100, after having fetched every block in between
  and found exactly the transfers to the wallet they hold; so over the loop the scanned windows tile
  the chain.
\<close>

theorem watcher_scans_every_block:
  assumes "watcher_cycle x w view (wm, s) = Some (wm', s')" and "wm' \<noteq> wm"
  shows "\<exists>latest ts. cv_block_number view = Inr latest \<and> wm < wm' \<and> wm' \<le> latest \<and> unat wm' \<le> unat wm + 100
    \<and> (\<forall>n. wm < n \<and> n \<le> wm' \<longrightarrow> (\<exists>b. cv_block view n = Inr (Some b)))
    \<and> scan_blocks w view (wm + 1) wm' = ScanOk ts
    \<and> set ts = (\<Union>n\<in>{n. wm < n \<and> n \<le> wm'}. set (inbound w view n))"
proof -
  obtain latest ts where lt: "wm < latest" "cv_block_number view = Inr latest"
    and wm': "wm' = min latest (sat_add wm 100)" and scan: "scan_blocks w view (sat_add wm 1) wm' = ScanOk ts"
    using assms(1) by (cases rule: watcher_cycle_cases) (use assms(2) in auto)
  note win = watcher_window [OF lt(1), folded wm']
  have plus: "sat_add wm 1 = wm + 1"
    using lt(1) unsigned_less [of latest, where ?'a = nat] by (simp add: sat_add_def word_less_nat_alt)
  have range: "n \<in> set (block_range (wm + 1) wm') \<longleftrightarrow> wm < n \<and> n \<le> wm'" for n
    unfolding set_block_range plus [symmetric] using win(3) by (auto simp: word_le_nat_alt word_less_nat_alt)
  have loop: "scan_loop w view (block_range (wm + 1) wm') [] = ScanOk ts"
    using scan win(5) by (simp add: scan_blocks_def plus split: sum.splits)
  from scan_loop_spec [OF loop] have ts: "ts = concat (map (inbound w view) (block_range (wm + 1) wm'))"
    and fetched: "\<forall>n\<in>set (block_range (wm + 1) wm'). \<exists>b. cv_block view n = Inr (Some b)" by simp_all
  have "set ts = (\<Union>n\<in>{n. wm < n \<and> n \<le> wm'}. set (inbound w view n))"
    using range by (auto simp: ts)
  then show ?thesis
    using lt win(1,2,4) fetched range scan plus by (intro exI [of _ latest] exI [of _ ts]) simp
qed

theorem watcher_scans_every_block_witness:
  "\<exists>wm' s'. watcher_cycle demo_watch_api demo_watcher demo_view (10, store_open empty_db) = Some (wm', s')
     \<and> wm' = 13 \<and> (\<forall>n. 10 < n \<and> n \<le> 13 \<longrightarrow> (\<exists>b. cv_block demo_view n = Inr (Some b)))"
proof -
  have "case watcher_cycle demo_watch_api demo_watcher demo_view (10, store_open empty_db) of
      Some (wm', s') \<Rightarrow> wm' = 13 | None \<Rightarrow> False"
    by code_simp
  then obtain s' where run: "watcher_cycle demo_watch_api demo_watcher demo_view (10, store_open empty_db) = Some (13, s')"
    by (auto split: option.splits prod.splits)
  from watcher_scans_every_block [OF run] run show ?thesis by auto
qed

text \<open>
  C30: What a window credits.  When a window with transfers is stored, the row of each sender is the
  one computed from the row before the window and that sender's last transfer in the window: its
  fuel is the old fuel plus that one transfer.  A sender with one transfer in the window is credited
  exactly; of several transfers in one window only the last is credited.
\<close>

theorem watcher_credits_last_transfer:
  assumes codec: "store_codec x" and reads: "st_read_err s = (\<lambda>_ _. None)"
    and run: "watcher_cycle x w view (wm, s) = Some (wm', s')" and adv: "wm' \<noteq> wm"
    and scan: "scan_blocks w view (wm + 1) wm' = ScanOk (ts @ [ft] @ us)"
    and last: "ft_sender ft \<notin> ft_sender ` set us"
  shows "get_contributor x s' (ft_sender ft) = Inr (Some (credited_entry x (bw_chain_id w) s ft))
    \<and> (\<forall>e. get_contributor x s (ft_sender ft) = Inr (Some e) \<longrightarrow>
          ce_fuel_contributed_wei (credited_entry x (bw_chain_id w) s ft)
            = sat_add (ce_fuel_contributed_wei e) (ft_value_wei ft))
    \<and> st_disk s' = st_db s' \<and> get_watermark s' chain_label = Inr (Some wm')"
proof -
  let ?c = "credited_entry x (bw_chain_id w) s"
  let ?up = "\<lambda>ft. (ft_sender ft, ?c ft)"
  let ?all = "ts @ [ft] @ us"
  have up: "upsert_contributors_and_watermark x (map ?up ?all) chain_label wm' s = (Inr (), s')"
    using run
  proof (cases rule: watcher_cycle_cases)
    case (quiet latest)
    have "sat_add wm 1 = wm + 1"
      using quiet(1) unsigned_less [of latest, where ?'a = nat] by (simp add: sat_add_def word_less_nat_alt)
    then show ?thesis using quiet(4) scan by simp
  next
    case (credited latest ts')
    have "sat_add wm 1 = wm + 1"
      using credited(1) unsigned_less [of latest, where ?'a = nat] by (simp add: sat_add_def word_less_nat_alt)
    then show ?thesis using credited(4,6) scan by simp
  qed (use adv in simp_all)
  obtain vs where vs: "map fst vs = map fst (map ?up ?all)"
    "\<forall>i<length (map ?up ?all). enc_contributor x (snd (map ?up ?all ! i)) = Inr (snd (vs ! i))"
    "st_db s' = apply_batch (map (\<lambda>(a, v). Put_contributor_stats a v) vs
       @ [Put_watcher_watermark (str_bytes chain_label) (to_be_bytes wm')]) (st_db s)"
    "st_disk s' = st_db s'" "st_read_err s' = st_read_err s"
    using up by (rule upsert_ops)
  define i where "i = length ts"
  have len: "length vs = length ?all" "i < length ?all"
    using arg_cong [OF vs(1), of length] by (simp_all add: i_def)
  have at: "fst (vs ! i) = ft_sender ft" "enc_contributor x (?c ft) = Inr (snd (vs ! i))"
    using arg_cong [OF vs(1), of "\<lambda>l. l ! i"] vs(2) [rule_format, of i] len by (auto simp: i_def nth_append)
  have later: "\<forall>e\<in>set (drop (Suc i) vs). fst e \<noteq> ft_sender ft"
  proof -
    have "map fst (drop (Suc i) vs) = map ft_sender us"
      using arg_cong [OF vs(1), of "drop (Suc i)"] by (simp add: drop_map i_def)
    then have "fst ` set (drop (Suc i) vs) = ft_sender ` set us"
      by (metis list.set_map)
    then show ?thesis using last by force
  qed
  have "vs = take i vs @ [vs ! i] @ drop (Suc i) vs"
    using len by (simp add: id_take_nth_drop)
  then have "map_of (rev vs) (ft_sender ft) = Some (snd (vs ! i))"
    using later at(1) map_of_last_key by metis
  then have "part_get (db_contributor_stats (st_db s')) (ft_sender ft) = Some (snd (vs ! i))"
    using contributors_last_write [of vs "st_db s" "ft_sender ft"] vs(3) by simp
  then have "get_contributor x s' (ft_sender ft) = Inr (Some (?c ft))"
    using store_codec.contributor_codec [OF codec at(2)] vs(5) reads by (simp add: get_contributor_def fj_read_def)
  then show ?thesis
    using vs(4) watermark_after_upsert [OF up reads] by (simp add: credited_entry_def)
qed

theorem watcher_credits_last_transfer_witness:
  "\<exists>s' e. watcher_cycle demo_watch_api demo_watcher demo_view (10, store_open empty_db) = Some (13, s')
     \<and> map ft_value_wei (inbound demo_watcher demo_view 11) = [5, 3]
     \<and> get_contributor demo_watch_api s' (replicate 20 1) = Inr (Some e) \<and> ce_fuel_contributed_wei e = 3"
proof -
  let ?fts = "map (fuel_transfer_of 11 11) [demo_transfer 5, demo_transfer 3]"
  have codec: "store_codec demo_watch_api"
    unfolding demo_watch_api_def by (rule ref_store.store_codec_axioms)
  have "case watcher_cycle demo_watch_api demo_watcher demo_view (10, store_open empty_db) of
      Some (wm', s') \<Rightarrow> wm' = 13 | None \<Rightarrow> False"
    by code_simp
  then obtain s' where run: "watcher_cycle demo_watch_api demo_watcher demo_view (10, store_open empty_db) = Some (13, s')"
    by (auto split: option.splits prod.splits)
  have scan: "scan_blocks demo_watcher demo_view (10 + 1) 13 =
      ScanOk ([fuel_transfer_of 11 11 (demo_transfer 5)] @ [fuel_transfer_of 11 11 (demo_transfer 3)] @ [])"
    by code_simp
  have val: "ce_fuel_contributed_wei (credited_entry demo_watch_api 1 (store_open empty_db) (fuel_transfer_of 11 11 (demo_transfer 3))) = 3"
    "map ft_value_wei (inbound demo_watcher demo_view 11) = [5, 3]" "bw_chain_id demo_watcher = 1"
    "ft_sender (fuel_transfer_of 11 11 (demo_transfer 3)) = replicate 20 1"
    by code_simp+
  from watcher_credits_last_transfer [OF codec _ run _ scan] run val show ?thesis
    by (auto simp: store_open_def)
qed

text \<open>
  A failed cycle loses nothing.  When a cycle leaves the watermark where it was, nothing was
  synced to disk, so the window is scanned again; and it moves on with transfers in hand only when
  their rows and the new watermark were synced together.
\<close>

theorem watcher_failure_retries:
  assumes run: "watcher_cycle x w view (wm, s) = Some (wm', s')" and reads: "st_read_err s = (\<lambda>_ _. None)"
  shows "wm' = wm \<and> st_disk s' = st_disk s
    \<or> wm < wm' \<and> (scan_blocks w view (sat_add wm 1) wm' = ScanOk []
        \<or> st_disk s' = st_db s' \<and> get_watermark s' chain_label = Inr (Some wm'))"
  using run
proof (cases rule: watcher_cycle_cases)
  case (failed e err ups)
  then have "st_disk s' = st_disk s"
    by (auto simp: upsert_contributors_and_watermark_def split: sum.splits elim: commit_cases)
  with failed(1) show ?thesis by simp
next
  case (quiet latest)
  then show ?thesis using watcher_window(1) [OF quiet(1)] by simp
next
  case (credited latest ts)
  have "st_disk s' = st_db s'"
    using credited(6) by (rule upsert_ops) simp
  then show ?thesis
    using watermark_after_upsert [OF credited(6) reads] watcher_window(1) [OF credited(1)] credited(3) by simp
qed simp

theorem watcher_failure_retries_witness:
  "\<exists>s'. watcher_cycle demo_watch_api demo_watcher demo_view
        (10, (store_open empty_db)\<lparr>st_writes := [Commit_err ''full'']\<rparr>) = Some (10, s') \<and> st_disk s' = empty_db"
proof -
  let ?s = "(store_open empty_db)\<lparr>st_writes := [Commit_err ''full'']\<rparr> :: ref_blob store"
  have "case watcher_cycle demo_watch_api demo_watcher demo_view (10, ?s) of Some (wm', s') \<Rightarrow> wm' = 10 | None \<Rightarrow> False"
    by code_simp
  then obtain s' where run: "watcher_cycle demo_watch_api demo_watcher demo_view (10, ?s) = Some (10, s')"
    by (auto split: option.splits prod.splits)
  from watcher_failure_retries [OF run] run show ?thesis
    by (simp add: store_open_def)
qed

end
