(* ===== verification/Routes.thy ===== *)
theory Routes
  imports Auth Served_Origin Watcher
begin

text \<open>
  The HTTP handlers (\<open>crates/aqua-timestamp/src/routes.rs\<close>) over the application state
  (\<open>state.rs\<close>).  A handler is a function of the state; axum extracts its arguments, so a handler
  behind a bearer token takes the DID that \<open>bearer_did\<close> returned.  A JSON object is an association
  list; the order of its keys has no meaning.  Log output is not modelled.
\<close>

section \<open>State\<close>

record 'b route_api = "'b check_api" +
  revision_json :: "'b \<Rightarrow> string + json"
  from_hex_error_text :: "from_hex_error \<Rightarrow> string"

record 'b app_state =
  ap_config :: config
  ap_identity_response_json :: json
  ap_accumulator :: accumulator_inner
  ap_store :: "'b store"
  ap_witness_ctx :: witness_context
  ap_landing_html :: string
  ap_docs_html :: string
  ap_well_known_skill_md :: string
  ap_well_known_skill_auth_md :: string
  ap_uptime_secs :: u64

text \<open>The \<open>Display\<close> forms of the errors.\<close>

fun witness_error_text :: "witness_error \<Rightarrow> string" where
  "witness_error_text (WE_Object e) = ''witness object build failed: '' @ e"
| "witness_error_text (WE_Batch e) = ''witness batch failed: '' @ e"
| "witness_error_text (WE_Sign e) = ''witness signature failed: '' @ e"
| "witness_error_text (WE_Serialise e) = ''witness payload serialise failed: '' @ e"
| "witness_error_text (WE_BadHash n) = ''hash conversion: expected 32 bytes, got '' @ show_nat n"

definition hex_nibble :: "nat \<Rightarrow> char" where
  "hex_nibble n = (if n < 10 then char_of (48 + n) else char_of (87 + n))"

fun store_error_text :: "store_error \<Rightarrow> string" where
  "store_error_text (SE_Fjall e) = ''fjall: '' @ e"
| "store_error_text (SE_Encode e) = ''postcard encode: '' @ e"
| "store_error_text (SE_Decode e) = ''postcard decode: '' @ e"
| "store_error_text (SE_BadLeavesKey n) = ''epoch_leaves key has wrong length '' @ show_nat n @ '', expected 40''"
| "store_error_text (SE_BadLeafTipsKey n) = ''leaf_to_tips key has wrong length '' @ show_nat n @ '', expected 33''"
| "store_error_text (SE_WitnessJson e) = ''witness revision JSON encode/decode: '' @ e"
| "store_error_text (SE_UnknownMethodByte b) = ''witness lookup found an unknown method byte: 0x''
     @ (if unat b < 16 then [hex_nibble (unat b)] else [hex_nibble (unat b div 16), hex_nibble (unat b mod 16)])"
| "store_error_text (SE_Pending e) = ''pending epoch record: '' @ witness_error_text e"

fun leaf_parse_error_text :: "(from_hex_error \<Rightarrow> string) \<Rightarrow> leaf_parse_error \<Rightarrow> string" where
  "leaf_parse_error_text t (BadLength n) = ''leaf must be 64 hex chars or a sha3-256 multihash (1620 + 64 hex), optionally prefixed with 0x, got '' @ show_nat n"
| "leaf_parse_error_text t (BadHex e) = ''leaf contains non-hex characters: '' @ t e"

definition store_err :: "store_error \<Rightarrow> auth_api_error" where
  "store_err e = bad_request (''store: '' @ store_error_text e)"

definition jnat :: "nat \<Rightarrow> json" where
  "jnat n = JU64 (of_nat n)"

fun jopt :: "('a \<Rightarrow> json) \<Rightarrow> 'a option \<Rightarrow> json" where
  "jopt f None = JNull"
| "jopt f (Some a) = f a"

section \<open>Pages\<close>

definition ANCHOR_METHODS :: "string list" where
  "ANCHOR_METHODS = [''evm'', ''qtsa'']"

definition EPOCHS_MAX_LIMIT :: nat where
  "EPOCHS_MAX_LIMIT = 200"

definition EPOCHS_DEFAULT_LIMIT :: nat where
  "EPOCHS_DEFAULT_LIMIT = 50"

definition HEALTH_PASS_BODY :: string where
  "HEALTH_PASS_BODY = ''{'' @ [CHR 0x22] @ ''status'' @ [CHR 0x22] @ '':'' @ [CHR 0x22] @ ''pass'' @ [CHR 0x22] @ ''}''"

definition health :: response where
  "health = \<lparr>rs_status = 200, rs_headers = [(''content-type'', ''application/health+json''), (''cache-control'', ''no-store'')],
     rs_body = TextBody HEALTH_PASS_BODY\<rparr>"

record build_info =
  bi_pkg_version :: string
  bi_protocol_version :: string
  bi_git_sha :: string
  bi_git_dirty :: string

definition version :: "build_info \<Rightarrow> response" where
  "version b = \<lparr>rs_status = 200, rs_headers = [(''cache-control'', ''no-store''), (''content-type'', ''application/json'')],
     rs_body = JsonBody (JObj [(''service'', JStr ''aqua-timestamp''), (''version'', JStr (bi_pkg_version b)),
       (''protocol_version'', JStr (bi_protocol_version b)), (''revision'', JStr (bi_git_sha b)),
       (''dirty'', JBool (bi_git_dirty b = ''1''))])\<rparr>"

definition text_page :: "string \<Rightarrow> string \<Rightarrow> response" where
  "text_page ctype s = \<lparr>rs_status = 200, rs_headers = [(''content-type'', ctype)], rs_body = TextBody s\<rparr>"

definition landing_page :: "'b app_state \<Rightarrow> response" where
  "landing_page st = text_page ''text/html; charset=utf-8'' (ap_landing_html st)"

definition docs_page :: "'b app_state \<Rightarrow> response" where
  "docs_page st = text_page ''text/html; charset=utf-8'' (ap_docs_html st)"

definition well_known_skill_md :: "'b app_state \<Rightarrow> response" where
  "well_known_skill_md st = text_page ''text/markdown; charset=utf-8'' (ap_well_known_skill_md st)"

definition well_known_skill_auth_md :: "'b app_state \<Rightarrow> response" where
  "well_known_skill_auth_md st = text_page ''text/markdown; charset=utf-8'' (ap_well_known_skill_auth_md st)"

definition aqua_identity :: "'b app_state \<Rightarrow> response" where
  "aqua_identity st = json_response 200 (ap_identity_response_json st)"

definition not_found :: response where
  "not_found = json_response 404 (JObj [(''error'', JStr ''not found'')])"

definition aqua_orl :: response where
  "aqua_orl = json_response 200 (JObj
     [(''orl'', JU64 2), (''label'', JStr ''Development''), (''color'', JStr ''#F97316''), (''since'', JStr ''2026-05-17''),
      (''assessed_by'', JStr ''tim.bansemer@inblock.io''),
      (''next_level_blockers'', JArr (map JStr [''Security review not started'', ''Backup restore not verified'',
         ''Monitoring and alerting not active'', ''Dependency audit not completed''])),
      (''checklist_url'', JStr ''https://github.com/inblockio/aqua-timestamps/blob/main/ORL.md'')])"

section \<open>POST /v1/leaves\<close>

record leaves_response =
  lr_accepted :: u64
  lr_duplicates :: u64
  lr_epoch_id :: u64
  lr_epoch_closes_at :: u64
  lr_submitter_did :: did

definition leaves_response_json :: "leaves_response \<Rightarrow> json" where
  "leaves_response_json r = JObj [(''accepted'', JU64 (lr_accepted r)), (''duplicates'', JU64 (lr_duplicates r)),
     (''epoch_id'', JU64 (lr_epoch_id r)), (''epoch_closes_at'', JU64 (lr_epoch_closes_at r)),
     (''submitter_did'', JStr (lr_submitter_did r))]"

fun decode_leaves :: "('b, 'z) route_api_scheme \<Rightarrow> nat \<Rightarrow> string list \<Rightarrow> auth_api_error + hash32 list" where
  "decode_leaves x i [] = Inr []"
| "decode_leaves x i (raw # raws) =
     (case parse_leaf_hex x raw of
        Inl (BadLength len) \<Rightarrow> Inl (bad_request (''leaves['' @ show_nat i @ '']: expected 64 hex chars (optionally 0x-prefixed), got '' @ show_nat len))
      | Inl (BadHex e) \<Rightarrow> Inl (bad_request (''leaves['' @ show_nat i @ '']: non-hex character ('' @ from_hex_error_text x e @ '')''))
      | Inr leaf \<Rightarrow> and_then (decode_leaves x (Suc i) raws) (\<lambda>ls. Inr (leaf # ls)))"

definition submit_leaves ::
  "('b, 'z) route_api_scheme \<Rightarrow> did \<Rightarrow> string list \<Rightarrow> 'b app_state \<Rightarrow> (auth_api_error + leaves_response) \<times> 'b app_state" where
  "submit_leaves x d leaves st =
     (if \<not> is_allowed (ap_config st) d then (Inl (forbidden ''did not on allowlist''), st)
      else let m = epc_max_leaves_per_request (cfg_epoch (ap_config st)); n = length leaves
      in if n = 0 then (Inl (bad_request ''leaves must contain at least one hash''), st)
      else if n > m then (Inl (bad_request (''leaves: '' @ show_nat n @ '' exceeds max_leaves_per_request '' @ show_nat m)), st)
      else (case decode_leaves x 0 leaves of
          Inl e \<Rightarrow> (Inl e, st)
        | Inr decoded \<Rightarrow>
            (case append_batch decoded d (ap_accumulator st) of
               (Inl full, acc) \<Rightarrow>
                 (Inl (unavailable (''epoch '' @ show_nat (unat (ef_epoch_id full)) @ '' is full ('' @ show_nat (ef_cap full)
                    @ '' leaves, the timestamp template maximum); nothing of this batch was accepted, resubmit after epoch_closes_at ''
                    @ show_nat (unat (ef_epoch_closes_at full)))), st\<lparr>ap_accumulator := acc\<rparr>)
             | (Inr out, acc) \<Rightarrow>
                 (Inr \<lparr>lr_accepted = ao_accepted out, lr_duplicates = ao_duplicates out, lr_epoch_id = ao_epoch_id out,
                       lr_epoch_closes_at = ao_epoch_closes_at out, lr_submitter_did = d\<rparr>, st\<lparr>ap_accumulator := acc\<rparr>))))"

section \<open>GET /v1/schedule and /v1/epochs\<close>

definition schedule_error :: response where
  "schedule_error = json_response 500 (JObj [(''error'', JStr ''schedule lookup failed'')])"

definition schedule :: "('b, 'z) route_api_scheme \<Rightarrow> 'b app_state \<Rightarrow> response" where
  "schedule x st =
     (let view = current_view (ap_accumulator st); s = ap_store st
      in case and_then (last_sealed_epoch_id s) (\<lambda>last.
              and_then (case last of None \<Rightarrow> Inr None
                        | Some i \<Rightarrow> and_then (get_epoch x s i) (\<lambda>r. Inr (map_option er_closed_at r))) (\<lambda>last_at.
              and_then (store_totals x s) (\<lambda>(epochs, leaves).
              Inr (JObj [(''current_epoch_id'', JU64 (cv_epoch_id view)), (''current_epoch_opened_at'', JU64 (cv_opened_at view)),
                (''current_epoch_closes_at'', JU64 (cv_closes_at view)),
                (''epoch_duration_secs'', JU64 (epc_duration_secs (cfg_epoch (ap_config st)))),
                (''last_sealed_epoch_id'', jopt JU64 last), (''last_sealed_at'', jopt JU64 last_at),
                (''anchor_methods'', JArr (map JStr ANCHOR_METHODS)), (''epochs_total'', JU64 epochs),
                (''leaves_total'', JU64 leaves), (''uptime_secs'', JU64 (ap_uptime_secs st))])))) of
           Inl e \<Rightarrow> schedule_error
         | Inr j \<Rightarrow> json_response 200 j)"

definition clamp :: "nat \<Rightarrow> nat \<Rightarrow> nat \<Rightarrow> nat" where
  "clamp lo hi n = (if n < lo then lo else if n > hi then hi else n)"

definition epoch_item_json :: "('b, 'z) route_api_scheme \<Rightarrow> epoch_record \<Rightarrow> json" where
  "epoch_item_json x r = JObj [(''id'', JU64 (er_id r)), (''opened_at'', JU64 (er_opened_at r)),
     (''closed_at'', JU64 (er_closed_at r)), (''merkle_root'', JStr (hex_lower x (er_merkle_root r))),
     (''leaf_count'', JU64 (er_leaf_count r)), (''hash_type'', JStr (er_hash_type r))]"

definition list_epochs ::
  "('b, 'z) route_api_scheme \<Rightarrow> u64 option \<Rightarrow> nat option \<Rightarrow> 'b app_state \<Rightarrow> auth_api_error + response" where
  "list_epochs x start limit st =
     (let lim = clamp 1 EPOCHS_MAX_LIMIT (case limit of None \<Rightarrow> EPOCHS_DEFAULT_LIMIT | Some l \<Rightarrow> l)
      in and_then (map_err store_err (list_epochs_desc x (ap_store st) start lim)) (\<lambda>(records, next).
         Inr (json_response 200 (JObj [(''epochs'', JArr (map (epoch_item_json x) records)), (''next'', jopt JU64 next)]))))"

section \<open>GET /v1/leaderboard and /v1/pool/status\<close>

definition count_or :: "nat \<Rightarrow> 'b store \<Rightarrow> nat" where
  "count_or dflt s = (case contributor_count s of Inr n \<Rightarrow> n | Inl _ \<Rightarrow> dflt)"

definition wallet_json :: "contributor_entry \<Rightarrow> json" where
  "wallet_json e = JObj [(''did'', JStr (ce_did e)), (''fuel_contributed_wei'', JStr (show_nat (unat (ce_fuel_contributed_wei e)))),
     (''hashes_submitted'', JU64 (ce_hashes_submitted e)), (''last_active'', JU64 (ce_last_active e))]"

definition leaderboard :: "('b, 'z) route_api_scheme \<Rightarrow> string option \<Rightarrow> 'b app_state \<Rightarrow> response" where
  "leaderboard x q st =
     (let chain = (case q of None \<Rightarrow> ''eth'' | Some c \<Rightarrow> c); m = lc_max_pool_size (cfg_leaderboard (ap_config st)); s = ap_store st
      in if chain = ''btc''
         then json_response 200 (JObj [(''wallets'', JArr []), (''pool_count'', jnat (count_or 0 s)), (''max_pool'', jnat m)])
         else if chain \<noteq> ''eth''
         then json_response 400 (JObj [(''error'', JStr (''unknown chain '' @ [CHR 0x27] @ chain @ [CHR 0x27] @ '', expected ''
                @ [CHR 0x27] @ ''eth'' @ [CHR 0x27] @ '' or '' @ [CHR 0x27] @ ''btc'' @ [CHR 0x27]))])
         else (case list_contributors_sorted x s m of
                 Inl e \<Rightarrow> json_response 500 (JObj [(''error'', JStr ''storage error'')])
               | Inr entries \<Rightarrow>
                   (let wallets = map wallet_json entries
                    in json_response 200 (JObj [(''wallets'', JArr wallets), (''pool_count'', jnat (count_or (length wallets) s)),
                         (''max_pool'', jnat m)]))))"

definition pool_status :: "'b app_state \<Rightarrow> response" where
  "pool_status st = json_response 200 (JObj [(''current'', jnat (count_or 0 (ap_store st))),
     (''max'', jnat (lc_max_pool_size (cfg_leaderboard (ap_config st))))])"

section \<open>GET /trees: answers\<close>

definition leaf_field :: "('b, 'z) route_api_scheme \<Rightarrow> hash32 option \<Rightarrow> (string \<times> json) list" where
  "leaf_field x leaf = (case leaf of None \<Rightarrow> [] | Some l \<Rightarrow> [(''leaf'', JStr (''0x'' @ hex_encode x l))])"

definition anchor_stalled :: "('b, 'z) route_api_scheme \<Rightarrow> 'b app_state \<Rightarrow> anchor_method \<Rightarrow> u64 \<Rightarrow> bool" where
  "anchor_stalled x st m epoch_id =
     (case list_pending_epochs x (ap_store st) of
        Inr ps \<Rightarrow> list_ex (\<lambda>p. pe_epoch_id p = epoch_id \<and> pending_anchor p m = None
                    \<and> anchor_fault_count p m \<ge> wc_max_anchor_faults (ap_witness_ctx st)) ps
      | Inl e \<Rightarrow> False)"

definition anchor_stalled_response :: "('b, 'z) route_api_scheme \<Rightarrow> anchor_method \<Rightarrow> u64 \<Rightarrow> hash32 option \<Rightarrow> response" where
  "anchor_stalled_response x m epoch_id leaf = json_response 503 (JObj
     ([(''status'', JStr ''anchor_stalled''), (''method'', JStr (as_str m)), (''epoch'', JU64 epoch_id),
       (''detail'', JStr (''epoch '' @ show_nat (unat epoch_id) @ '' is sealed; its '' @ as_str m
          @ '' anchor failed too often and is not retried until the operator intervenes; polling will not change this answer, the leaf may be resubmitted for a new epoch''))]
      @ leaf_field x leaf))"

definition pending_anchor_response ::
  "('b, 'z) route_api_scheme \<Rightarrow> 'b app_state \<Rightarrow> anchor_method \<Rightarrow> u64 \<Rightarrow> hash32 option \<Rightarrow> response" where
  "pending_anchor_response x st m epoch_id leaf =
     (if anchor_stalled x st m epoch_id then anchor_stalled_response x m epoch_id leaf
      else json_response 202 (JObj
        ([(''status'', JStr ''pending''), (''method'', JStr (as_str m)), (''epoch'', JU64 epoch_id),
          (''detail'', JStr (''epoch '' @ show_nat (unat epoch_id) @ '' is sealed; its '' @ as_str m
             @ '' anchor is outstanding and retried every epoch tick''))]
         @ leaf_field x leaf)))"

definition not_verifiable_response ::
  "('b, 'z) route_api_scheme \<Rightarrow> anchor_method option \<Rightarrow> u64 \<Rightarrow> hash32 option \<Rightarrow> response" where
  "not_verifiable_response x m epoch_id leaf = json_response 410 (JObj
     ([(''status'', JStr ''not_verifiable''), (''reason'', JStr ''minted before self-check; resubmit the leaf''),
       (''epoch'', JU64 epoch_id),
       (''detail'', JStr (''the witness of epoch '' @ show_nat (unat epoch_id)
          @ '' was minted before the pre-serve self-check and is not served; submit the leaf again for a new witness''))]
      @ (case m of None \<Rightarrow> [] | Some m' \<Rightarrow> [(''method'', JStr (as_str m'))])
      @ leaf_field x leaf))"

definition not_found_response :: "string \<Rightarrow> response" where
  "not_found_response msg = json_response 404 (JObj [(''error'', JStr msg)])"

definition self_checked :: "'b app_state \<Rightarrow> hash32 \<Rightarrow> auth_api_error + bool" where
  "self_checked st tip = map_err store_err (is_self_checked (ap_store st) tip)"

text \<open>\<open>serde_json::Map::insert\<close>: a later value replaces an earlier one.\<close>

definition map_insert :: "string \<Rightarrow> json \<Rightarrow> (string \<times> json) list \<Rightarrow> (string \<times> json) list" where
  "map_insert k v kvs = (k, v) # filter (\<lambda>(k', v'). k' \<noteq> k) kvs"

definition load_pair_into_maps ::
  "('b, 'z) route_api_scheme \<Rightarrow> 'b store \<Rightarrow> tip_pair_index \<Rightarrow> (string \<times> json) list \<times> (string \<times> json) list
   \<Rightarrow> string + (string \<times> json) list \<times> (string \<times> json) list" where
  "load_pair_into_maps x s idx maps =
     (let fetch = (\<lambda>h missing. and_then (map_err (\<lambda>e. ''store: '' @ store_error_text e) (get_revision_json s h))
                    (\<lambda>r. case r of None \<Rightarrow> Inl missing | Some b \<Rightarrow> Inr b))
      in and_then (fetch (ti_object_hash idx) ''witness object revision missing in store'') (\<lambda>obj_bytes.
         and_then (fetch (ti_signature_hash idx) ''witness signature revision missing in store'') (\<lambda>sig_bytes.
         and_then (map_err (\<lambda>e. ''json: '' @ e) (revision_json x obj_bytes)) (\<lambda>obj_json.
         and_then (map_err (\<lambda>e. ''json: '' @ e) (revision_json x sig_bytes)) (\<lambda>sig_json.
         (let obj_hex = revision_wire_hex x (ti_object_hash idx); sig_hex = revision_wire_hex x (ti_signature_hash idx);
              (revisions, file_index) = maps
          in Inr (map_insert sig_hex sig_json (map_insert obj_hex obj_json revisions),
                  map_insert sig_hex (JStr (ti_signature_file_name idx))
                    (map_insert obj_hex (JStr (ti_object_file_name idx)) file_index))))))))"

definition tree_body :: "(string \<times> json) list \<times> (string \<times> json) list \<Rightarrow> json" where
  "tree_body maps = JObj [(''revisions'', JObj (fst maps)), (''file_index'', JObj (snd maps))]"

definition build_pair_body :: "('b, 'z) route_api_scheme \<Rightarrow> 'b store \<Rightarrow> tip_pair_index \<Rightarrow> string + json" where
  "build_pair_body x s idx = and_then (load_pair_into_maps x s idx ([], [])) (\<lambda>maps. Inr (tree_body maps))"

definition parse_hash32 :: "('b, 'z) route_api_scheme \<Rightarrow> string \<Rightarrow> string + hash32" where
  "parse_hash32 x input = map_err (leaf_parse_error_text (from_hex_error_text x)) (parse_leaf_hex x input)"

section \<open>GET /trees: handlers\<close>

fun keep_self_checked :: "'b app_state \<Rightarrow> (u64 \<times> hash32) list \<Rightarrow> auth_api_error + hash32 list" where
  "keep_self_checked st [] = Inr []"
| "keep_self_checked st ((e, tip) # tips) =
     and_then (self_checked st tip) (\<lambda>ok.
     and_then (keep_self_checked st tips) (\<lambda>rest. Inr (if ok then tip # rest else rest)))"

definition list_tips_for_did :: "('b, 'z) route_api_scheme \<Rightarrow> 'b app_state \<Rightarrow> did \<Rightarrow> auth_api_error + response" where
  "list_tips_for_did x st d =
     and_then (map_err store_err (list_witness_tips_for_did x (ap_store st) d)) (\<lambda>tips.
     and_then (keep_self_checked st tips) (\<lambda>kept.
     Inr (json_response 200 (JArr (map (\<lambda>t. JStr (revision_wire_hex x t)) kept)))))"

text \<open>The loop over the epoch's witnesses: the first one without the mark makes the answer 410.\<close>

fun all_self_checked :: "'b app_state \<Rightarrow> tip_pair_index list \<Rightarrow> auth_api_error + bool" where
  "all_self_checked st [] = Inr True"
| "all_self_checked st (idx # idxs) =
     and_then (self_checked st (ti_signature_hash idx)) (\<lambda>ok. if ok then all_self_checked st idxs else Inr False)"

fun load_pairs ::
  "('b, 'z) route_api_scheme \<Rightarrow> 'b store \<Rightarrow> tip_pair_index list \<Rightarrow> (string \<times> json) list \<times> (string \<times> json) list
   \<Rightarrow> string + (string \<times> json) list \<times> (string \<times> json) list" where
  "load_pairs x s [] maps = Inr maps"
| "load_pairs x s (idx # idxs) maps = and_then (load_pair_into_maps x s idx maps) (load_pairs x s idxs)"

definition union_for_epoch ::
  "('b, 'z) route_api_scheme \<Rightarrow> 'b app_state \<Rightarrow> did \<Rightarrow> u64 \<Rightarrow> anchor_method \<Rightarrow> auth_api_error + response" where
  "union_for_epoch x st d epoch_id m =
     and_then (map_err store_err (get_epoch x (ap_store st) epoch_id)) (\<lambda>epoch.
     if epoch = None then Inr (not_found_response ''epoch not sealed yet'')
     else and_then (map_err store_err (is_epoch_pending x (ap_store st) epoch_id m)) (\<lambda>pending.
     if pending then Inr (pending_anchor_response x st m epoch_id None)
     else and_then (map_err store_err (list_witnesses_for_did_in_epoch x (ap_store st) d epoch_id m)) (\<lambda>entries.
     and_then (all_self_checked st entries) (\<lambda>ok.
     if \<not> ok then Inr (not_verifiable_response x (Some m) epoch_id None)
     else and_then (map_err bad_request (load_pairs x (ap_store st) entries ([], []))) (\<lambda>maps.
     Inr (json_response 200 (tree_body maps)))))))"

definition bad_method :: "string \<Rightarrow> auth_api_error" where
  "bad_method s = bad_request (''method must be '' @ [CHR 0x27] @ ''evm'' @ [CHR 0x27] @ '' or '' @ [CHR 0x27] @ ''qtsa'' @ [CHR 0x27]
     @ '', got '' @ [CHR 0x27] @ s @ [CHR 0x27])"

definition list_or_query_trees ::
  "('b, 'z) route_api_scheme \<Rightarrow> 'b app_state \<Rightarrow> did \<Rightarrow> u64 option \<Rightarrow> string option \<Rightarrow> auth_api_error + response" where
  "list_or_query_trees x st d epoch m =
     (case (epoch, m) of
        (None, None) \<Rightarrow> list_tips_for_did x st d
      | (Some e, Some s) \<Rightarrow> (case method_parse s of
            None \<Rightarrow> Inl (bad_method s)
          | Some m' \<Rightarrow> union_for_epoch x st d e m')
      | _ \<Rightarrow> Inl (bad_request ''epoch and method must be supplied together (or omit both for the tip list)''))"

definition get_tree_by_tip :: "('b, 'z) route_api_scheme \<Rightarrow> 'b app_state \<Rightarrow> did \<Rightarrow> string \<Rightarrow> auth_api_error + response" where
  "get_tree_by_tip x st d tip_hex =
     and_then (map_err bad_request (parse_hash32 x tip_hex)) (\<lambda>tip.
     and_then (map_err store_err (get_tip_pair x (ap_store st) tip)) (\<lambda>r.
     (case r of
        None \<Rightarrow> Inr (not_found_response ''unknown tip'')
      | Some idx \<Rightarrow>
          if ti_submitter_did idx \<noteq> d then Inl (forbidden ''witness owned by a different DID'')
          else and_then (self_checked st tip) (\<lambda>ok.
               if \<not> ok then Inr (not_verifiable_response x (from_method_byte (ti_method_byte idx)) (ti_epoch_id idx) (Some (ti_leaf idx)))
               else and_then (map_err (\<lambda>e. bad_request (''store: '' @ e)) (build_pair_body x (ap_store st) idx)) (\<lambda>body.
                    Inr (json_response 200 body))))))"

definition get_tree_by_leaf ::
  "('b, 'z) route_api_scheme \<Rightarrow> 'b app_state \<Rightarrow> did \<Rightarrow> string \<Rightarrow> string option \<Rightarrow> auth_api_error + response" where
  "get_tree_by_leaf x st d leaf_hex q =
     (case q of
        None \<Rightarrow> Inl (bad_request (''missing required query parameter '' @ [CHR 0x27] @ ''method'' @ [CHR 0x27]))
      | Some method_str \<Rightarrow> (case method_parse method_str of
        None \<Rightarrow> Inl (bad_method method_str)
      | Some m \<Rightarrow>
          and_then (map_err bad_request (parse_hash32 x leaf_hex)) (\<lambda>leaf.
          and_then (map_err store_err (get_leaf_owner (ap_store st) leaf)) (\<lambda>owner.
          (case owner of
             None \<Rightarrow> Inr (not_found_response ''unknown leaf'')
           | Some o' \<Rightarrow>
               if o' \<noteq> d then Inl (forbidden ''leaf submitted by a different DID'')
               else and_then (map_err store_err (get_tip_for_leaf (ap_store st) leaf m)) (\<lambda>t.
                 (case t of
                    None \<Rightarrow>
                      and_then (map_err store_err (get_pending_epoch_for_leaf (ap_store st) leaf m)) (\<lambda>pending.
                      Inr (case pending of
                             Some epoch_id \<Rightarrow> pending_anchor_response x st m epoch_id (Some leaf)
                           | None \<Rightarrow> not_found_response ''no witness for that leaf/method yet''))
                  | Some tip \<Rightarrow>
                      and_then (map_err store_err (get_tip_pair x (ap_store st) tip)) (\<lambda>ir.
                      and_then (case ir of None \<Rightarrow> Inl (bad_request ''internal: tip_to_pair index missing for known tip'') | Some i \<Rightarrow> Inr i) (\<lambda>idx.
                      and_then (self_checked st tip) (\<lambda>ok.
                      if \<not> ok
                      then and_then (map_err store_err (get_pending_epoch_for_leaf (ap_store st) leaf m)) (\<lambda>pending.
                           Inr (case pending of
                                  Some epoch_id \<Rightarrow>
                                    if epoch_id > ti_epoch_id idx then pending_anchor_response x st m epoch_id (Some leaf)
                                    else not_verifiable_response x (Some m) (ti_epoch_id idx) (Some leaf)
                                | None \<Rightarrow> not_verifiable_response x (Some m) (ti_epoch_id idx) (Some leaf)))
                      else and_then (map_err (\<lambda>e. bad_request (''store: '' @ e)) (build_pair_body x (ap_store st) idx)) (\<lambda>body.
                           Inr (json_response 200 body))))))))))))"

text \<open>A handler behind the bearer extractor, as the router runs it.\<close>

definition answer :: "auth_api_error + response \<Rightarrow> response" where
  "answer r = (case r of Inl e \<Rightarrow> error_response e | Inr resp \<Rightarrow> resp)"

definition with_bearer ::
  "('c, 's) auth_api \<Rightarrow> 's \<Rightarrow> string option \<Rightarrow> (did \<Rightarrow> auth_api_error + response) \<Rightarrow> response" where
  "with_bearer au sessions header h = answer (and_then (bearer_did au sessions header) h)"

section \<open>Statuses\<close>

lemma response_status [simp]:
  "rs_status (json_response n j) = n" "rs_body (json_response n j) = JsonBody j"
  "rs_status (not_found_response msg) = 404"
  "rs_status (not_verifiable_response x mo e l) = 410"
  "rs_status (pending_anchor_response x st m e l) = (if anchor_stalled x st m e then 503 else 202)"
  by (simp_all add: json_response_def not_found_response_def not_verifiable_response_def
      pending_anchor_response_def anchor_stalled_response_def)

lemma parse_hash32_Inr [simp]: "parse_hash32 x s = Inr b \<longleftrightarrow> parse_leaf_hex x s = Inr b"
  by (simp add: parse_hash32_def)

lemma self_checked_Inr [simp]: "self_checked st tip = Inr b \<longleftrightarrow> is_self_checked (ap_store st) tip = Inr b"
  by (simp add: self_checked_def)

lemma tree_by_tip_200:
  assumes "get_tree_by_tip x st d h = Inr r" "rs_status r = 200"
  obtains tip idx j where "parse_leaf_hex x h = Inr tip" "get_tip_pair x (ap_store st) tip = Inr (Some idx)"
    "ti_submitter_did idx = d" "is_self_checked (ap_store st) tip = Inr True"
    "build_pair_body x (ap_store st) idx = Inr j" "r = json_response 200 j"
  using assms by (auto simp: get_tree_by_tip_def split: option.splits if_splits)

text \<open>An answer of the leaf route other than 404 is about a leaf of the caller.\<close>

lemma tree_by_leaf_owned:
  assumes "get_tree_by_leaf x st d h q = Inr r" "rs_status r \<noteq> 404"
  obtains s m leaf t where "q = Some s" "method_parse s = Some m" "parse_leaf_hex x h = Inr leaf"
    "get_leaf_owner (ap_store st) leaf = Inr (Some d)" "get_tip_for_leaf (ap_store st) leaf m = Inr t"
proof -
  obtain s where q: "q = Some s"
    using assms by (auto simp: get_tree_by_leaf_def split: option.splits)
  obtain m where m: "method_parse s = Some m"
    using assms q by (auto simp: get_tree_by_leaf_def split: option.splits)
  obtain leaf where leaf: "parse_leaf_hex x h = Inr leaf"
    using assms q m by (auto simp: get_tree_by_leaf_def)
  obtain own where own: "get_leaf_owner (ap_store st) leaf = Inr own"
    using assms q m leaf by (auto simp: get_tree_by_leaf_def)
  have d: "own = Some d"
    using assms q m leaf own by (auto simp: get_tree_by_leaf_def split: option.splits if_splits)
  obtain t where t: "get_tip_for_leaf (ap_store st) leaf m = Inr t"
    using assms q m leaf own d by (auto simp: get_tree_by_leaf_def)
  show thesis using that [OF q m leaf _ t] own d by simp
qed

lemma tree_by_leaf_200:
  assumes "get_tree_by_leaf x st d h q = Inr r" "rs_status r = 200"
  obtains leaf m tip idx j where "parse_leaf_hex x h = Inr leaf" "q = Some (as_str m)"
    "get_leaf_owner (ap_store st) leaf = Inr (Some d)" "get_tip_for_leaf (ap_store st) leaf m = Inr (Some tip)"
    "get_tip_pair x (ap_store st) tip = Inr (Some idx)" "is_self_checked (ap_store st) tip = Inr True"
    "build_pair_body x (ap_store st) idx = Inr j" "r = json_response 200 j"
proof -
  obtain s m leaf t where q: "q = Some s" and m: "method_parse s = Some m" and leaf: "parse_leaf_hex x h = Inr leaf"
    and d: "get_leaf_owner (ap_store st) leaf = Inr (Some d)" and t: "get_tip_for_leaf (ap_store st) leaf m = Inr t"
    using assms(1) by (rule tree_by_leaf_owned) (simp add: assms(2))
  obtain tip where tip: "get_tip_for_leaf (ap_store st) leaf m = Inr (Some tip)"
    using assms q m leaf d t by (cases t) (auto simp: get_tree_by_leaf_def split: option.splits if_splits)
  obtain idx where idx: "get_tip_pair x (ap_store st) tip = Inr (Some idx)"
    using assms q m leaf d tip by (auto simp: get_tree_by_leaf_def split: option.splits)
  obtain ok where ok: "is_self_checked (ap_store st) tip = Inr ok"
    using assms q m leaf d tip idx by (auto simp: get_tree_by_leaf_def)
  have "ok"
  proof (rule ccontr)
    assume "\<not> ok"
    then have "rs_status r \<noteq> 200"
      using assms(1) q m leaf d tip idx ok by (auto simp: get_tree_by_leaf_def self_checked_def split: option.splits if_splits)
    with assms(2) show False by simp
  qed
  then obtain j where "build_pair_body x (ap_store st) idx = Inr j" "r = json_response 200 j"
    using assms q m leaf d tip idx ok by (auto simp: get_tree_by_leaf_def self_checked_def)
  then show thesis
    using that [of leaf m tip idx j] leaf q method_parse_SomeD [OF m] d tip idx ok \<open>ok\<close> by simp
qed

lemma all_self_checked_True:
  "all_self_checked st idxs = Inr True \<Longrightarrow> idx \<in> set idxs \<Longrightarrow> is_self_checked (ap_store st) (ti_signature_hash idx) = Inr True"
  by (induction idxs) (auto split: if_splits)

lemma union_200:
  assumes "union_for_epoch x st d e m = Inr r" "rs_status r = 200"
  obtains entries maps where "list_witnesses_for_did_in_epoch x (ap_store st) d e m = Inr entries"
    "is_epoch_pending x (ap_store st) e m = Inr False"
    "\<forall>idx\<in>set entries. is_self_checked (ap_store st) (ti_signature_hash idx) = Inr True"
    "load_pairs x (ap_store st) entries ([], []) = Inr maps" "r = json_response 200 (tree_body maps)"
proof -
  obtain ep where ep: "get_epoch x (ap_store st) e = Inr (Some ep)"
    using assms by (auto simp: union_for_epoch_def split: if_splits)
  obtain pend where pend: "is_epoch_pending x (ap_store st) e m = Inr pend"
    using assms ep by (auto simp: union_for_epoch_def)
  have np: "\<not> pend"
    using assms ep pend by (auto simp: union_for_epoch_def split: if_splits)
  obtain entries ok where e: "list_witnesses_for_did_in_epoch x (ap_store st) d e m = Inr entries"
    and ok: "all_self_checked st entries = Inr ok"
    using assms ep pend np by (auto simp: union_for_epoch_def)
  have "ok"
    using assms ep pend np e ok by (cases ok) (auto simp: union_for_epoch_def)
  then obtain maps where "load_pairs x (ap_store st) entries ([], []) = Inr maps" "r = json_response 200 (tree_body maps)"
    using assms ep pend np e ok by (auto simp: union_for_epoch_def)
  then show thesis
    using e pend np ok \<open>ok\<close> by (intro that [of entries maps]) (auto dest: all_self_checked_True)
qed

lemma collect_concat_Inr:
  "collect_results f as = Inr out \<Longrightarrow> e \<in> set (concat out) \<Longrightarrow> \<exists>a\<in>set as. \<exists>es. f a = Inr es \<and> e \<in> set es"
proof (induction as arbitrary: out)
  case Nil
  then show ?case by simp
next
  case (Cons a as)
  obtain es out' where "f a = Inr es" "collect_results f as = Inr out'" "out = es # out'"
    using Cons.prems(1) by (auto split: sum.splits)
  then show ?case
    using Cons.IH [of out'] Cons.prems(2) by auto
qed

lemma list_witnesses_entries:
  assumes "list_witnesses_for_did_in_epoch x s d e m = Inr entries" "idx \<in> set entries"
  shows "ti_submitter_did idx = d \<and> ti_epoch_id idx = e \<and> ti_method_byte idx = method_byte m"
  using assms
  by (auto simp: list_witnesses_for_did_in_epoch_def split: if_splits dest!: collect_concat_Inr)

lemma is_self_checked_get:
  "is_self_checked s tip = Inr True \<Longrightarrow> part_get (db_self_checked_tips (st_db s)) tip \<noteq> None"
  by (auto simp: is_self_checked_def fj_read_def split: option.splits)

lemma listed_tip:
  assumes wf: "part_wf (db_tip_to_pair (st_db s))"
    and l: "list_witness_tips_for_did x s d = Inr tips" and tip: "(e, tip) \<in> set tips"
  shows "\<exists>idx. hash32_ok tip \<and> get_tip_pair x s tip = Inr (Some idx) \<and> ti_submitter_did idx = d \<and> ti_epoch_id idx = e"
proof -
  obtain kv es where kv: "kv \<in> set (db_tip_to_pair (st_db s))"
    and es: "(case kv of (k, v) \<Rightarrow> and_then (fj_read s P_tip_to_pair k v) (\<lambda>v.
         if length k \<noteq> 32 then Inr []
         else and_then (map_err SE_Decode (dec_tip_pair x v)) (\<lambda>idx.
              Inr (if ti_submitter_did idx = d then [(ti_epoch_id idx, k)] else [])))) = Inr es" "(e, tip) \<in> set es"
    using l tip by (auto simp: list_witness_tips_for_did_def dest!: collect_concat_Inr)
  obtain k v where "kv = (k, v)" by fastforce
  with es have k: "fj_read s P_tip_to_pair k v = Inr v" "length k = 32" "k = tip"
    and idx: "\<exists>idx. dec_tip_pair x v = Inr idx \<and> ti_submitter_did idx = d \<and> ti_epoch_id idx = e"
    by (auto simp: fj_read_def split: if_splits option.splits)
  have "part_get (db_tip_to_pair (st_db s)) tip = Some v"
    using kv part.entries_get [OF wf] \<open>kv = (k, v)\<close> k(3) by simp
  then show ?thesis
    using k idx by (auto simp: get_tip_pair_def fj_read_def split: option.splits)
qed

lemma keep_self_checked_spec:
  "keep_self_checked st tips = Inr kept \<Longrightarrow> tip \<in> set kept \<Longrightarrow>
     is_self_checked (ap_store st) tip = Inr True \<and> (\<exists>e. (e, tip) \<in> set tips)"
  by (induction st tips arbitrary: kept rule: keep_self_checked.induct) (fastforce split: if_splits)+

lemma decode_leaves_parses:
  "decode_leaves x i raws = Inr ls \<Longrightarrow> length ls = length raws \<and> (\<forall>raw\<in>set raws. \<exists>l\<in>set ls. parse_leaf_hex x raw = Inr l)"
proof (induction x i raws arbitrary: ls rule: decode_leaves.induct)
  case (1 x i)
  then show ?case by simp
next
  case (2 x i raw raws)
  obtain leaf ls' where "parse_leaf_hex x raw = Inr leaf" "decode_leaves x (Suc i) raws = Inr ls'" "ls = leaf # ls'"
    using "2.prems" by (auto split: sum.splits leaf_parse_error.splits)
  with "2.IH" show ?case by auto
qed

lemma decode_leaves_status: "decode_leaves x i raws = Inl e \<Longrightarrow> ae_status e = 400"
  by (induction x i raws rule: decode_leaves.induct) (auto split: sum.splits leaf_parse_error.splits simp: and_then_def)

lemma append_batch_refused_same: "append_batch b d s = (Inl e, s') \<Longrightarrow> s' = s"
  by (auto simp: append_batch_def split: if_splits prod.splits)

lemma append_batch_holds:
  assumes "acc_inv s" "append_batch b d s = (Inr a, s')" "l \<in> set b"
  shows "l \<in> le_leaf ` set (ai_leaves s')"
proof -
  obtain new where new: "ai_leaves s' = ai_leaves s @ map (entry_of d) new" "set new = set (fresh_leaves s b)"
    using append_batch_accepted [OF assms(1,2)] by blast
  have "dom (ai_seen s) = le_leaf ` set (ai_leaves s)"
    using assms(1) by (simp add: acc_inv_def seen_sync_def)
  then show ?thesis
    using assms(3) new by (cases "ai_seen s l") (force simp: fresh_leaves_def)+
qed

section \<open>What sealing an epoch leaves alone\<close>

lemma sealed_keeps_witnesses:
  assumes "persist_sealed_epoch_with_pending y rec leaves [] pending s = (Inr u, s')"
  shows "db_leaf_to_tips (st_db s') = db_leaf_to_tips (st_db s) \<and> db_tip_to_pair (st_db s') = db_tip_to_pair (st_db s)
    \<and> db_witness_revisions (st_db s') = db_witness_revisions (st_db s)
    \<and> db_self_checked_tips (st_db s') = db_self_checked_tips (st_db s) \<and> st_read_err s' = st_read_err s"
proof -
  obtain ops where ops: "sealed_ops y rec leaves [] pending = Inr ops" and c: "commit_and_persist ops s = (Inr u, s')"
    using assms by (auto simp: persist_sealed_epoch_with_pending_def split: sum.splits)
  obtain p_ops encoded w_ops where *: "case pending of None \<Rightarrow> p_ops = [] | Some p \<Rightarrow> pending_ops y p = Inr p_ops"
    "write_witnesses y [] = Inr w_ops"
    "ops = p_ops @ [Put_epochs (to_be_bytes (er_id rec)) encoded] @ leaf_ops (er_id rec) leaves @ w_ops"
    using ops by (rule sealed_ops_InrD)
  let ?kept = "\<lambda>d. (db_leaf_to_tips d, db_tip_to_pair d, db_witness_revisions d, db_self_checked_tips d)"
  have "fst (op_key o') \<in> {P_pending_anchors, P_pending_leaves, P_epochs, P_epoch_leaves, P_leaf_owner}" if "o' \<in> set ops" for o'
    using that pending_ops_parts [OF *(1), of o'] *(2) by (auto simp: *(3) leaf_ops_set)
  then have "?kept (apply_batch ops d) = ?kept d" for d
  proof (induction ops arbitrary: d)
    case (Cons o' ops)
    have "?kept (apply_op o' d) = ?kept d"
      using Cons.prems [of o'] by (cases o') auto
    with Cons show ?case by simp
  qed simp
  then show ?thesis
    using commit_Inr [OF c] by simp
qed

lemma sealed_leaf_owner_of:
  assumes seal: "persist_sealed_epoch_with_pending y rec leaves [] pending s = (Inr u, s')"
    and reads: "st_read_err s = (\<lambda>_ _. None)" and e: "e \<in> set leaves" "distinct (map le_leaf leaves)"
  shows "get_leaf_owner s' (le_leaf e) = Inr (Some (le_submitter_did e))"
proof -
  obtain ops where ops: "sealed_ops y rec leaves [] pending = Inr ops" and c: "commit_and_persist ops s = (Inr u, s')"
    using seal by (auto simp: persist_sealed_epoch_with_pending_def split: sum.splits)
  show ?thesis
    using sealed_owner_cell [OF ops e, of "st_db s"] commit_Inr [OF c] reads by (simp add: get_leaf_owner_def fj_read_def)
qed

section \<open>The pair of a witness\<close>

text \<open>The body of a 200 about one witness, and what it means that an answer carries that witness's pair.\<close>

definition pair_body :: "('b, 'z) route_api_scheme \<Rightarrow> minted_witness \<Rightarrow> json \<Rightarrow> json \<Rightarrow> json" where
  "pair_body x mw obj_json sig_json =
     (let obj_hex = revision_wire_hex x (mw_object_hash mw); sig_hex = revision_wire_hex x (mw_signature_hash mw)
      in tree_body (map_insert sig_hex sig_json (map_insert obj_hex obj_json []),
           map_insert sig_hex (JStr (mw_signature_file_name mw)) (map_insert obj_hex (JStr (mw_object_file_name mw)) [])))"

definition serves_pair ::
  "'b sdk_at \<Rightarrow> witness_context \<Rightarrow> ('b, 'z) route_api_scheme \<Rightarrow> 'b store \<Rightarrow> minted_witness \<Rightarrow> response \<Rightarrow> bool" where
  "serves_pair x ctx rx s mw r \<longleftrightarrow>
     (\<exists>n. verify_minted_witness (x n) mw (wc_service_did ctx) (hosts_at ctx n) = Verified)
     \<and> is_self_checked s (mw_signature_hash mw) = Inr True
     \<and> (\<exists>n n' obj_bytes sig_bytes obj_json sig_json.
          enc_revision (x n) (mw_object_revision mw) = Inr obj_bytes \<and> revision_json rx obj_bytes = Inr obj_json
        \<and> enc_revision (x n') (mw_signature_revision mw) = Inr sig_bytes \<and> revision_json rx sig_bytes = Inr sig_json
        \<and> rs_body r = JsonBody (pair_body rx mw obj_json sig_json))"

lemma get_revision_json_Inr:
  "get_revision_json s h = Inr (Some b) \<Longrightarrow> part_get (db_witness_revisions (st_db s)) h = Some b"
  by (auto simp: get_revision_json_def)

lemma build_pair_InrD:
  assumes "build_pair_body x s idx = Inr j"
  obtains ob sb oj sj where "get_revision_json s (ti_object_hash idx) = Inr (Some ob)"
    "get_revision_json s (ti_signature_hash idx) = Inr (Some sb)" "revision_json x ob = Inr oj" "revision_json x sb = Inr sj"
    "j = tree_body (map_insert (revision_wire_hex x (ti_signature_hash idx)) sj
           (map_insert (revision_wire_hex x (ti_object_hash idx)) oj []),
         map_insert (revision_wire_hex x (ti_signature_hash idx)) (JStr (ti_signature_file_name idx))
           (map_insert (revision_wire_hex x (ti_object_hash idx)) (JStr (ti_object_file_name idx)) []))"
  using assms by (auto simp: build_pair_body_def load_pair_into_maps_def Let_def split: option.splits)

lemma built_pair:
  assumes origin: "db_origin x ctx (st_db s)" and hashes: "content_addressed x ctx"
    and codec: "\<forall>n i v. enc_tip_pair (x n) i = Inr v \<longrightarrow> dec_tip_pair rx v = Inr i"
    and idx: "get_tip_pair rx s tip = Inr (Some idx)" and mark: "is_self_checked s tip = Inr True"
    and body: "build_pair_body rx s idx = Inr j"
  obtains mw where "serves_pair x ctx rx s mw (json_response 200 j)" "mw_signature_hash mw = tip"
    "idx = tip_index_of mw" "vouched x ctx mw"
proof -
  obtain v where v: "part_get (db_tip_to_pair (st_db s)) tip = Some v" "dec_tip_pair rx v = Inr idx"
    using idx by (auto simp: get_tip_pair_def split: option.splits)
  then obtain mw n where mw: "vouched x ctx mw" "mw_signature_hash mw = tip" "enc_tip_pair (x n) (tip_index_of mw) = Inr v"
    using origin unfolding db_origin_def index_origin_def by blast
  have i: "idx = tip_index_of mw"
    using codec mw(3) v(2) by fastforce
  then have ti: "ti_object_hash idx = mw_object_hash mw" "ti_signature_hash idx = mw_signature_hash mw"
    "ti_object_file_name idx = mw_object_file_name mw" "ti_signature_file_name idx = mw_signature_file_name mw"
    by (simp_all add: tip_index_of_def)
  obtain ob sb oj sj where b: "get_revision_json s (mw_object_hash mw) = Inr (Some ob)"
    "get_revision_json s (mw_signature_hash mw) = Inr (Some sb)" "revision_json rx ob = Inr oj" "revision_json rx sb = Inr sj"
    "j = pair_body rx mw oj sj"
    using body unfolding pair_body_def Let_def ti [symmetric] by (rule build_pair_InrD)
  obtain k k' where "enc_revision (x k) (mw_object_revision mw) = Inr ob" "enc_revision (x k') (mw_signature_revision mw) = Inr sb"
    using stored_revision [OF origin hashes mw(1) _ get_revision_json_Inr [OF b(1)], of "mw_object_revision mw"]
      stored_revision [OF origin hashes mw(1) _ get_revision_json_Inr [OF b(2)], of "mw_signature_revision mw"]
    by (auto simp: witness_pair_def)
  then have "\<exists>n n' obj_bytes sig_bytes obj_json sig_json.
          enc_revision (x n) (mw_object_revision mw) = Inr obj_bytes \<and> revision_json rx obj_bytes = Inr obj_json
        \<and> enc_revision (x n') (mw_signature_revision mw) = Inr sig_bytes \<and> revision_json rx sig_bytes = Inr sig_json
        \<and> rs_body (json_response 200 j) = JsonBody (pair_body rx mw obj_json sig_json)"
    using b(3,4,5) by (intro exI conjI) (assumption | simp)+
  then have "serves_pair x ctx rx s mw (json_response 200 j)"
    using mw(1,2) mark unfolding serves_pair_def vouched_def by simp
  then show thesis
    using that mw(1,2) i by blast
qed

lemma lookup_witness:
  assumes "db_origin x ctx (st_db s)" "get_tip_for_leaf s leaf m = Inr (Some tip)"
  shows "\<exists>mw. vouched x ctx mw \<and> mw_signature_hash mw = tip \<and> mw_leaf mw = leaf"
proof -
  have "part_get (db_leaf_to_tips (st_db s)) (compose_leaf_to_tips_key leaf (method_byte m)) = Some tip"
    using assms(2) by (auto simp: get_tip_for_leaf_def Let_def split: option.splits if_splits)
  then have "lookup_origin x ctx (compose_leaf_to_tips_key leaf (method_byte m)) tip"
    using assms(1) unfolding db_origin_def by blast
  then show ?thesis
    by (auto simp: lookup_origin_def)
qed

section \<open>A deployment to run\<close>

definition demo_routes :: "ref_blob route_api" where
  "demo_routes = check_api.extend (demo_sdk 0)
     (route_api.fields (\<lambda>b. case b of B_revision r \<Rightarrow> Inr (JStr ''revision'') | _ \<Rightarrow> Inl ''not a revision'') (\<lambda>e. ''bad hex''))"

definition demo_app :: "ref_blob store \<Rightarrow> ref_blob app_state" where
  "demo_app s = \<lparr>ap_config = default_config ''0.0.0.0:80'', ap_identity_response_json = JNull, ap_accumulator = demo_acc,
     ap_store = s, ap_witness_ctx = demo_ctx, ap_landing_html = [], ap_docs_html = [], ap_well_known_skill_md = [],
     ap_well_known_skill_auth_md = [], ap_uptime_secs = 0\<rparr>"

definition demo_store :: "ref_blob store" where
  "demo_store = w_store (snd (snd demo_tick))"

definition demo_leaf_hex :: string where
  "demo_leaf_hex = ''0x'' @ hex_encode demo_routes (demo_leaf 1)"

lemma demo_leaf_served:
  "case get_tree_by_leaf demo_routes (demo_app demo_store) ''did:a'' demo_leaf_hex (Some ''evm'') of
     Inr r \<Rightarrow> rs_status r = 200 | Inl _ \<Rightarrow> False"
  by code_simp

lemma demo_store_device: "st_writes demo_store = [] \<and> st_read_err demo_store = (\<lambda>_ _. None)"
proof -
  have "st_writes demo_store = []"
    by code_simp
  moreover obtain r acc' w' where tick: "seal_once demo_sdk (Some demo_ctx) 160 60 demo_acc demo_world = (r, acc', w')"
    by (metis prod_cases3)
  have "st_read_err (w_store w') = (\<lambda>_ _. None)"
    using seal_once_read_err [OF demo_claims tick] by (simp add: demo_world_def store_open_def)
  then have "st_read_err demo_store = (\<lambda>_ _. None)"
    using tick by (simp add: demo_store_def demo_tick_def)
  ultimately show ?thesis by simp
qed

text \<open>The same epoch sealed with the strict checks.\<close>

definition strict_store :: "ref_blob store" where
  "strict_store = w_store (snd (snd strict_tick))"

lemma strict_leaf_served:
  "case get_tree_by_leaf demo_routes (demo_app strict_store) ''did:a'' demo_leaf_hex (Some ''evm'') of
     Inr r \<Rightarrow> rs_status r = 200 | Inl _ \<Rightarrow> False"
  by code_simp

lemma strict_tip_codec: "\<forall>n i v. enc_tip_pair (strict_sdk n) i = Inr v \<longrightarrow> dec_tip_pair demo_routes v = Inr i"
proof -
  have "enc_tip_pair (strict_sdk n) = enc_tip_pair demo_api" for n
    using demo_sdk_fields(3) [of n] by (simp add: strict_sdk_def)
  moreover have "dec_tip_pair demo_routes = dec_tip_pair demo_api"
    by (simp add: demo_routes_def demo_sdk_def ref_check_api_def ref_store_api_def sdk_api.defs store_api.defs check_api.defs
        route_api.defs)
  ultimately show ?thesis
    using ref_store.tip_codec by simp
qed

section \<open>Properties\<close>

text \<open>
  C6: The tree routes answer a caller only about its own submissions.  A 200 from the tip route is
  the pair of a tip whose index names the caller as submitter; a 200 from the leaf route is about a
  leaf whose owner row names the caller; a 200 from the epoch route loads only pairs whose index
  names the caller, that epoch and that method.  In all three every tip carries the self-checked
  mark.
\<close>

theorem tree_routes_respect_owner:
  assumes "rs_status r = 200"
  shows "(get_tree_by_tip x st d h = Inr r \<longrightarrow>
       (\<exists>tip idx. parse_leaf_hex x h = Inr tip \<and> get_tip_pair x (ap_store st) tip = Inr (Some idx)
          \<and> ti_submitter_did idx = d \<and> is_self_checked (ap_store st) tip = Inr True))
    \<and> (get_tree_by_leaf x st d h q = Inr r \<longrightarrow>
       (\<exists>leaf m tip. parse_leaf_hex x h = Inr leaf \<and> get_leaf_owner (ap_store st) leaf = Inr (Some d)
          \<and> get_tip_for_leaf (ap_store st) leaf m = Inr (Some tip) \<and> is_self_checked (ap_store st) tip = Inr True))
    \<and> (union_for_epoch x st d e m = Inr r \<longrightarrow>
       (\<exists>entries maps. load_pairs x (ap_store st) entries ([], []) = Inr maps \<and> rs_body r = JsonBody (tree_body maps)
          \<and> list_all (\<lambda>idx. ti_submitter_did idx = d \<and> ti_epoch_id idx = e \<and> ti_method_byte idx = method_byte m
               \<and> is_self_checked (ap_store st) (ti_signature_hash idx) = Inr True) entries))"
proof (intro conjI impI)
  assume "get_tree_by_tip x st d h = Inr r"
  then obtain tip idx where "parse_leaf_hex x h = Inr tip" "get_tip_pair x (ap_store st) tip = Inr (Some idx)"
    "ti_submitter_did idx = d" "is_self_checked (ap_store st) tip = Inr True"
    using assms by (rule tree_by_tip_200)
  then show "\<exists>tip idx. parse_leaf_hex x h = Inr tip \<and> get_tip_pair x (ap_store st) tip = Inr (Some idx)
      \<and> ti_submitter_did idx = d \<and> is_self_checked (ap_store st) tip = Inr True" by blast
next
  assume "get_tree_by_leaf x st d h q = Inr r"
  then obtain leaf m' tip where "parse_leaf_hex x h = Inr leaf" "get_leaf_owner (ap_store st) leaf = Inr (Some d)"
    "get_tip_for_leaf (ap_store st) leaf m' = Inr (Some tip)" "is_self_checked (ap_store st) tip = Inr True"
    using assms by (rule tree_by_leaf_200)
  then show "\<exists>leaf m tip. parse_leaf_hex x h = Inr leaf \<and> get_leaf_owner (ap_store st) leaf = Inr (Some d)
      \<and> get_tip_for_leaf (ap_store st) leaf m = Inr (Some tip) \<and> is_self_checked (ap_store st) tip = Inr True" by blast
next
  assume "union_for_epoch x st d e m = Inr r"
  then obtain entries maps where u: "list_witnesses_for_did_in_epoch x (ap_store st) d e m = Inr entries"
    "\<forall>idx\<in>set entries. is_self_checked (ap_store st) (ti_signature_hash idx) = Inr True"
    "load_pairs x (ap_store st) entries ([], []) = Inr maps" "r = json_response 200 (tree_body maps)"
    using assms by (rule union_200)
  then show "\<exists>entries maps. load_pairs x (ap_store st) entries ([], []) = Inr maps \<and> rs_body r = JsonBody (tree_body maps)
      \<and> list_all (\<lambda>idx. ti_submitter_did idx = d \<and> ti_epoch_id idx = e \<and> ti_method_byte idx = method_byte m
           \<and> is_self_checked (ap_store st) (ti_signature_hash idx) = Inr True) entries"
    using list_witnesses_entries [OF u(1)] by (intro exI [of _ entries] exI [of _ maps]) (auto simp: list_all_iff)
qed

theorem tree_routes_respect_owner_witness:
  "\<exists>r leaf m tip. get_tree_by_leaf demo_routes (demo_app demo_store) ''did:a'' demo_leaf_hex (Some ''evm'') = Inr r
     \<and> rs_status r = 200 \<and> get_leaf_owner demo_store leaf = Inr (Some ''did:a'')
     \<and> get_tip_for_leaf demo_store leaf m = Inr (Some tip) \<and> is_self_checked demo_store tip = Inr True"
proof -
  obtain r where r: "get_tree_by_leaf demo_routes (demo_app demo_store) ''did:a'' demo_leaf_hex (Some ''evm'') = Inr r" "rs_status r = 200"
    using demo_leaf_served by (auto split: sum.splits)
  have "ap_store (demo_app demo_store) = demo_store"
    by (simp add: demo_app_def)
  with tree_routes_respect_owner [OF r(2), of demo_routes "demo_app demo_store" "''did:a''" demo_leaf_hex "Some ''evm''" 7 Evm] r
  show ?thesis by auto
qed

text \<open>
  C3: What reaches a client has been verified.  Let the store behind the routes be that of any
  reachable state of the aggregator, the routes decode the index the sealer encodes, and a hash name
  one revision (\<open>content_addressed\<close>).  Then a 200 of the tip or the leaf route carries the pair of a
  witness the full self-check found \<open>Verified\<close> and that has the self-checked mark: its body is that witness's own
  timestamp and signature revision, under that witness's own hashes and with its file names.  For the
  tip route it is the witness of the requested tip, submitted by the caller; for the leaf route it is
  a witness of the requested leaf.
\<close>

theorem served_trees_verified:
  assumes claims: "\<forall>n. anchor_claims (x n)" and hashes: "content_addressed x ctx"
    and codec: "\<forall>n i v. enc_tip_pair (x n) i = Inr v \<longrightarrow> dec_tip_pair rx v = Inr i"
    and reach: "sys.reach x ctx \<sigma>" and store: "ap_store st = w_store (sy_world \<sigma>)" and ok: "rs_status r = 200"
  shows "(get_tree_by_tip rx st d h = Inr r \<longrightarrow>
       (\<exists>mw. serves_pair x ctx rx (ap_store st) mw r \<and> parse_leaf_hex rx h = Inr (mw_signature_hash mw)
          \<and> mw_submitter_did mw = d))
    \<and> (get_tree_by_leaf rx st d h q = Inr r \<longrightarrow>
       (\<exists>mw. serves_pair x ctx rx (ap_store st) mw r \<and> parse_leaf_hex rx h = Inr (mw_leaf mw)))"
proof (intro conjI impI)
  have origin: "db_origin x ctx (st_db (ap_store st))"
    unfolding store by (rule reach_origin [OF _ reach]) (use claims in blast)
  note pair = built_pair [OF origin hashes codec]
  show "\<exists>mw. serves_pair x ctx rx (ap_store st) mw r \<and> parse_leaf_hex rx h = Inr (mw_signature_hash mw) \<and> mw_submitter_did mw = d"
    if get: "get_tree_by_tip rx st d h = Inr r"
  proof -
    obtain tip idx j where tip: "parse_leaf_hex rx h = Inr tip" "get_tip_pair rx (ap_store st) tip = Inr (Some idx)"
      "ti_submitter_did idx = d" "is_self_checked (ap_store st) tip = Inr True"
      "build_pair_body rx (ap_store st) idx = Inr j" "r = json_response 200 j"
      using get ok by (rule tree_by_tip_200)
    obtain mw where "serves_pair x ctx rx (ap_store st) mw r" "mw_signature_hash mw = tip" "idx = tip_index_of mw"
      using tip(6) by (blast intro: pair [OF tip(2,4,5)])
    with tip(1,3) show ?thesis by (intro exI [of _ mw]) (simp add: tip_index_of_def)
  qed
  show "\<exists>mw. serves_pair x ctx rx (ap_store st) mw r \<and> parse_leaf_hex rx h = Inr (mw_leaf mw)"
    if get: "get_tree_by_leaf rx st d h q = Inr r"
  proof -
    obtain leaf m tip idx j where tip: "parse_leaf_hex rx h = Inr leaf" "get_tip_for_leaf (ap_store st) leaf m = Inr (Some tip)"
      "get_tip_pair rx (ap_store st) tip = Inr (Some idx)" "is_self_checked (ap_store st) tip = Inr True"
      "build_pair_body rx (ap_store st) idx = Inr j" "r = json_response 200 j"
      using get ok by (rule tree_by_leaf_200)
    obtain mw where mw: "serves_pair x ctx rx (ap_store st) mw r" "mw_signature_hash mw = tip" "vouched x ctx mw"
      using tip(6) by (blast intro: pair [OF tip(3,4,5)])
    obtain mw' where "vouched x ctx mw'" "mw_signature_hash mw' = tip" "mw_leaf mw' = leaf"
      using lookup_witness [OF origin tip(2)] by blast
    then have "mw_leaf mw = leaf"
      using same_tip_same_pair [OF hashes mw(3), of mw'] mw(2) by simp
    with tip(1) mw(1) show ?thesis by blast
  qed
qed

theorem served_trees_verified_witness:
  "\<exists>r mw. get_tree_by_leaf demo_routes (demo_app strict_store) ''did:a'' demo_leaf_hex (Some ''evm'') = Inr r
     \<and> serves_pair strict_sdk demo_ctx demo_routes strict_store mw r
     \<and> parse_leaf_hex demo_routes demo_leaf_hex = Inr (mw_leaf mw)"
proof -
  obtain r where r: "get_tree_by_leaf demo_routes (demo_app strict_store) ''did:a'' demo_leaf_hex (Some ''evm'') = Inr r" "rs_status r = 200"
    using strict_leaf_served by (auto split: sum.splits)
  obtain sr acc' w' where tick: "seal_once strict_sdk (Some demo_ctx) 160 60 demo_acc demo_world = (sr, acc', w')"
    by (metis prod_cases3)
  obtain acc where reach: "sys.reach strict_sdk demo_ctx \<lparr>sy_acc = acc, sy_world = w'\<rparr>"
    using demo_tick_reachable [OF tick] by blast
  have st: "ap_store (demo_app strict_store) = strict_store" "strict_store = w_store w'"
    using tick by (simp_all add: demo_app_def strict_store_def strict_tick_def)
  have "get_tree_by_leaf demo_routes (demo_app strict_store) ''did:a'' demo_leaf_hex (Some ''evm'') = Inr r \<longrightarrow>
      (\<exists>mw. serves_pair strict_sdk demo_ctx demo_routes (ap_store (demo_app strict_store)) mw r
         \<and> parse_leaf_hex demo_routes demo_leaf_hex = Inr (mw_leaf mw))"
    by (rule served_trees_verified [OF _ strict_content_addressed strict_tip_codec reach _ r(2), THEN conjunct2])
      (use strict_claims st in simp_all)
  then show ?thesis using r(1) st(1) by auto
qed

text \<open>
  The tip list and the tip route agree.  Every hash string in the list a DID gets from
  \<open>GET /trees\<close> parses back to the tip it stands for, and \<open>GET /trees/{tip}\<close> with it goes through to
  the stored pair for that DID: it is never refused as unknown, as another DID's or as not
  verifiable.
\<close>

theorem listed_tips_are_served:
  assumes sdk: "aqua_sdk rx" and wf: "db_wf (st_db (ap_store st))"
    and list: "list_tips_for_did rx st d = Inr r" "rs_body r = JsonBody (JArr js)" "JStr h \<in> set js"
  shows "\<exists>idx. ti_submitter_did idx = d \<and>
    get_tree_by_tip rx st d h = and_then (map_err (\<lambda>e. bad_request (''store: '' @ e)) (build_pair_body rx (ap_store st) idx))
      (\<lambda>body. Inr (json_response 200 body))"
proof -
  obtain tips kept where tips: "list_witness_tips_for_did rx (ap_store st) d = Inr tips"
    and kept: "keep_self_checked st tips = Inr kept" and js: "js = map (\<lambda>t. JStr (revision_wire_hex rx t)) kept"
    using list(1,2) by (auto simp: list_tips_for_did_def)
  obtain tip where tip: "tip \<in> set kept" "h = revision_wire_hex rx tip"
    using list(3) js by auto
  obtain e where e: "(e, tip) \<in> set tips" "is_self_checked (ap_store st) tip = Inr True"
    using keep_self_checked_spec [OF kept tip(1)] by blast
  have "part_wf (db_tip_to_pair (st_db (ap_store st)))"
    using wf by (simp add: db_wf_def)
  from listed_tip [OF this tips e(1)] obtain idx where idx: "hash32_ok tip" "get_tip_pair rx (ap_store st) tip = Inr (Some idx)"
    "ti_submitter_did idx = d" by blast
  have "parse_leaf_hex rx h = Inr tip"
    using aqua_sdk.wire_hex_parses [OF sdk idx(1)] tip(2) by simp
  then have "get_tree_by_tip rx st d h = and_then (map_err (\<lambda>e. bad_request (''store: '' @ e)) (build_pair_body rx (ap_store st) idx))
      (\<lambda>body. Inr (json_response 200 body))"
    using idx(2,3) e(2) by (simp add: get_tree_by_tip_def parse_hash32_def self_checked_def)
  with idx(3) show ?thesis by blast
qed

theorem listed_tips_are_served_witness:
  "\<exists>r h idx. list_tips_for_did demo_routes (demo_app demo_store) ''did:a'' = Inr r \<and> rs_body r = JsonBody (JArr [JStr h])
     \<and> ti_submitter_did idx = ''did:a''
     \<and> get_tree_by_tip demo_routes (demo_app demo_store) ''did:a'' h
        = and_then (map_err (\<lambda>e. bad_request (''store: '' @ e)) (build_pair_body demo_routes demo_store idx))
            (\<lambda>body. Inr (json_response 200 body))"
proof -
  have sdk: "aqua_sdk demo_routes"
  proof (rule aqua_sdk_truncate)
    have "sdk_api.truncate demo_routes = ref_sdk ''did:svc''"
      by (simp add: demo_routes_def demo_sdk_def ref_check_api_def ref_store_api_def sdk_api.defs store_api.defs check_api.defs route_api.defs)
    then show "aqua_sdk (sdk_api.truncate demo_routes)"
      by (simp add: ref.aqua_sdk_axioms)
  qed
  have wf: "db_wf (st_db (ap_store (demo_app demo_store)))"
    by code_simp
  have "case list_tips_for_did demo_routes (demo_app demo_store) ''did:a'' of
      Inr r \<Rightarrow> (case rs_body r of
          JsonBody j \<Rightarrow> (case j of JArr js \<Rightarrow> (case js of e # es \<Rightarrow> es = [] \<and> (case e of JStr h \<Rightarrow> True | _ \<Rightarrow> False) | [] \<Rightarrow> False) | _ \<Rightarrow> False)
        | TextBody s \<Rightarrow> False) | Inl _ \<Rightarrow> False"
    by code_simp
  then obtain r h where r: "list_tips_for_did demo_routes (demo_app demo_store) ''did:a'' = Inr r" "rs_body r = JsonBody (JArr [JStr h])"
    by (auto split: sum.split_asm body.split_asm json.split_asm list.split_asm)
  have "JStr h \<in> set [JStr h]" by simp
  from listed_tips_are_served [OF sdk wf r this] r show ?thesis
    by (auto simp: demo_app_def)
qed

text \<open>
  C27: \<open>POST /v1/leaves\<close> is all or nothing.  A refused submission leaves the application state as it
  was, with 403 exactly for a DID that is not on the allowlist, 400 for a batch that is empty, too
  long or holds an undecodable hash, and 503 for an epoch without room.  An accepted one names the
  open epoch, and every submitted hash decodes to a leaf that the open epoch now holds.
\<close>

theorem submit_leaves_all_or_nothing:
  assumes inv: "acc_inv (ap_accumulator st)"
  shows "case submit_leaves x d leaves st of
      (Inl e, st') \<Rightarrow> st' = st \<and> ae_status e \<in> {400, 403, 503} \<and> (ae_status e = 403 \<longleftrightarrow> \<not> is_allowed (ap_config st) d)
    | (Inr r, st') \<Rightarrow> is_allowed (ap_config st) d \<and> leaves \<noteq> []
        \<and> length leaves \<le> epc_max_leaves_per_request (cfg_epoch (ap_config st))
        \<and> st' = st\<lparr>ap_accumulator := ap_accumulator st'\<rparr> \<and> acc_inv (ap_accumulator st')
        \<and> lr_epoch_id r = ai_epoch_id (ap_accumulator st') \<and> ai_epoch_id (ap_accumulator st') = ai_epoch_id (ap_accumulator st)
        \<and> list_all (\<lambda>raw. \<exists>l. parse_leaf_hex x raw = Inr l \<and> l \<in> le_leaf ` set (ai_leaves (ap_accumulator st'))) leaves"
proof (cases "\<not> is_allowed (ap_config st) d \<or> leaves = [] \<or> length leaves > epc_max_leaves_per_request (cfg_epoch (ap_config st))")
  case True
  then show ?thesis by (auto simp: submit_leaves_def Let_def)
next
  case False
  show ?thesis
  proof (cases "decode_leaves x 0 leaves")
    case (Inl e)
    then show ?thesis using False decode_leaves_status [OF Inl] by (simp add: submit_leaves_def Let_def)
  next
    case (Inr ls)
    obtain a acc where ab: "append_batch ls d (ap_accumulator st) = (a, acc)" by fastforce
    show ?thesis
    proof (cases a)
      case (Inl full)
      then have "acc = ap_accumulator st"
        using append_batch_refused_same ab by blast
      then show ?thesis using False Inr ab Inl by (simp add: submit_leaves_def Let_def)
    next
      case out: (Inr out)
      have acc: "acc_inv acc" "ao_epoch_id out = ai_epoch_id (ap_accumulator st)" "ai_epoch_id acc = ai_epoch_id (ap_accumulator st)"
        using append_batch_accepted [OF inv ab [unfolded out]] by blast+
      have "list_all (\<lambda>raw. \<exists>l. parse_leaf_hex x raw = Inr l \<and> l \<in> le_leaf ` set (ai_leaves acc)) leaves"
        using decode_leaves_parses [OF Inr] append_batch_holds [OF inv ab [unfolded out]] unfolding list_all_iff by blast
      then show ?thesis
        using False Inr ab out acc by (simp add: submit_leaves_def Let_def)
    qed
  qed
qed

theorem submit_leaves_all_or_nothing_witness:
  "\<exists>r st'. submit_leaves demo_routes ''did:c'' [''0x'' @ hex_encode demo_routes (demo_leaf 3)] (demo_app demo_store) = (Inr r, st')
     \<and> lr_epoch_id r = 7
     \<and> (\<exists>l. parse_leaf_hex demo_routes (''0x'' @ hex_encode demo_routes (demo_leaf 3)) = Inr l
          \<and> l \<in> le_leaf ` set (ai_leaves (ap_accumulator st')))"
proof -
  let ?raw = "''0x'' @ hex_encode demo_routes (demo_leaf 3)"
  have inv: "acc_inv (ap_accumulator (demo_app demo_store))"
    by (simp add: demo_app_def demo_acc_inv)
  have dec: "decode_leaves demo_routes 0 [?raw] = Inr [demo_leaf 3]"
    by code_simp
  have fresh: "ai_seen demo_acc (demo_leaf 3) = None"
    by code_simp
  obtain r st' where run: "submit_leaves demo_routes ''did:c'' [?raw] (demo_app demo_store) = (Inr r, st')"
    using dec fresh by (simp add: submit_leaves_def Let_def demo_app_def is_allowed_def default_config_def default_auth_config_def
        default_epoch_config_def append_batch_def fresh_leaves_def usize_sat_add_def demo_acc_def split: prod.splits del: decode_leaves.simps)
  from submit_leaves_all_or_nothing [OF inv, where x = demo_routes and d = "''did:c''" and leaves = "[?raw]"] run show ?thesis
    by (auto simp: demo_app_def demo_acc_def)
qed

text \<open>
  C28: Ownership of a leaf moves with a later submission.  Let the leaf route serve \<open>d\<close> a tree for a
  leaf and a method.  If an epoch is then sealed in which another DID submitted the same leaf, with
  its anchors outstanding, the owner of the leaf is that DID from then on: the leaf route answers it exactly what it
  answered \<open>d\<close>, the witness of the first submission, and refuses \<open>d\<close> with 403.  This holds whatever
  the leaf, the DIDs, the method and the sealed epoch.
\<close>

theorem leaf_ownership_moves:
  assumes served: "get_tree_by_leaf x st d h (Some (as_str m)) = Inr r" "rs_status r = 200"
    and seal: "persist_sealed_epoch_with_pending y rec leaves [] pending (ap_store st) = (Inr u, s')"
    and e: "e \<in> set leaves" "distinct (map le_leaf leaves)" "parse_leaf_hex x h = Inr (le_leaf e)" "le_submitter_did e \<noteq> d"
    and reads: "st_read_err (ap_store st) = (\<lambda>_ _. None)"
  shows "get_leaf_owner s' (le_leaf e) = Inr (Some (le_submitter_did e))
    \<and> get_tree_by_leaf x (st\<lparr>ap_store := s'\<rparr>) (le_submitter_did e) h (Some (as_str m)) = Inr r
    \<and> get_tree_by_leaf x (st\<lparr>ap_store := s'\<rparr>) d h (Some (as_str m)) = Inl (forbidden ''leaf submitted by a different DID'')"
proof -
  obtain m' tip idx j where t: "as_str m = as_str m'" "get_tip_for_leaf (ap_store st) (le_leaf e) m' = Inr (Some tip)"
    "get_tip_pair x (ap_store st) tip = Inr (Some idx)" "is_self_checked (ap_store st) tip = Inr True"
    "build_pair_body x (ap_store st) idx = Inr j" "r = json_response 200 j"
    using served by (rule tree_by_leaf_200) (use e(3) that in simp)
  have parse: "method_parse (as_str m) = Some m'"
    by (simp add: t(1))
  have own: "get_leaf_owner s' (le_leaf e) = Inr (Some (le_submitter_did e))"
    using sealed_leaf_owner_of [OF seal reads e(1,2)] .
  have same: "get_tip_for_leaf s' (le_leaf e) m' = Inr (Some tip)" "get_tip_pair x s' tip = Inr (Some idx)"
    "is_self_checked s' tip = Inr True" "build_pair_body x s' idx = Inr j"
    using t(2-5) sealed_keeps_witnesses [OF seal] reads
    by (simp_all add: get_tip_for_leaf_def get_tip_pair_def is_self_checked_def build_pair_body_def load_pair_into_maps_def
        get_revision_json_def fj_read_def)
  show ?thesis
    using own same e(3,4) parse t(6)
    by (simp add: get_tree_by_leaf_def parse_hash32_def self_checked_def)
qed

theorem leaf_ownership_moves_witness:
  "\<exists>s' r. persist_sealed_epoch_with_pending demo_api (demo_record\<lparr>er_id := 8\<rparr>)
        [\<lparr>le_leaf = demo_leaf 1, le_submitter_did = ''did:b''\<rparr>] [] None demo_store = (Inr (), s')
     \<and> get_tree_by_leaf demo_routes ((demo_app demo_store)\<lparr>ap_store := s'\<rparr>) ''did:b'' demo_leaf_hex (Some ''evm'') = Inr r
     \<and> rs_status r = 200
     \<and> get_tree_by_leaf demo_routes ((demo_app demo_store)\<lparr>ap_store := s'\<rparr>) ''did:a'' demo_leaf_hex (Some ''evm'')
         = Inl (forbidden ''leaf submitted by a different DID'')"
proof -
  let ?e = "\<lparr>le_leaf = demo_leaf 1, le_submitter_did = ''did:b''\<rparr>"
  have evm: "as_str Evm = ''evm''" by simp
  obtain r where r: "get_tree_by_leaf demo_routes (demo_app demo_store) ''did:a'' demo_leaf_hex (Some (as_str Evm)) = Inr r" "rs_status r = 200"
    using demo_leaf_served by (auto split: sum.splits)
  have writes: "st_writes demo_store = []" and reads: "st_read_err demo_store = (\<lambda>_ _. None)"
    using demo_store_device by simp_all
  have st: "ap_store (demo_app demo_store) = demo_store"
    by (simp add: demo_app_def)
  have "\<exists>ops. sealed_ops demo_api (demo_record\<lparr>er_id := 8\<rparr>) [?e] [] None = Inr ops"
    by (simp add: sealed_ops_def ref_store_api_def store_api.defs sdk_api.defs)
  then obtain s' where s': "persist_sealed_epoch_with_pending demo_api (demo_record\<lparr>er_id := 8\<rparr>) [?e] [] None demo_store = (Inr (), s')"
    using writes by (auto simp: persist_sealed_epoch_with_pending_def)
  have parse: "parse_leaf_hex demo_routes demo_leaf_hex = Inr (demo_leaf 1)"
    by code_simp
  have "get_tree_by_leaf demo_routes ((demo_app demo_store)\<lparr>ap_store := s'\<rparr>) (le_submitter_did ?e) demo_leaf_hex (Some (as_str Evm)) = Inr r
    \<and> get_tree_by_leaf demo_routes ((demo_app demo_store)\<lparr>ap_store := s'\<rparr>) ''did:a'' demo_leaf_hex (Some (as_str Evm))
        = Inl (forbidden ''leaf submitted by a different DID'')"
    using leaf_ownership_moves [OF r, unfolded st, OF s', of ?e] parse reads by simp
  then show ?thesis
    using s' r(2) evm by auto
qed

end
