(* ===== verification/Bonding_Curve.thy ===== *)
theory Bonding_Curve
  imports Seal_Cycle Watcher Complex_Main
begin

text \<open>
  The adaptive publication rate (\<open>crates/aqua-timestamp-core/src/bonding_curve.rs\<close>), the events
  (\<open>events.rs\<close>) and the three seal loops of \<open>sealer.rs\<close> that drive \<open>seal_once\<close>.

  An \<open>f64\<close> is a real number.  Each arithmetic operation is the exact one followed by the rounding
  \<open>rnd\<close>, and \<open>exp\<close> and \<open>ln\<close> are the platform's functions; the three are the record \<open>f64_env\<close>.  The
  locale \<open>f64_arith\<close> states what IEEE 754 gives for them; exact arithmetic interprets it.  No
  operation here overflows: the quotients of two \<open>u128\<close> values lie between \<open>2^-128\<close> and \<open>2^128\<close>.
\<close>

section \<open>Arithmetic\<close>

record f64_env =
  rnd :: "real \<Rightarrow> real"
  fexp :: "real \<Rightarrow> real"
  fln :: "real \<Rightarrow> real"

datatype f64 = Finite real | Infinity

definition as_f64 :: "f64_env \<Rightarrow> nat \<Rightarrow> real" where
  "as_f64 F n = rnd F (real n)"

text \<open>\<open>as u64\<close> and \<open>as u128\<close> of a float saturate.\<close>

definition as_uint :: "real \<Rightarrow> 'a::len word" where
  "as_uint r = (if r \<le> 0 then 0 else if r \<ge> 2 ^ LENGTH('a) then - 1 else of_int \<lfloor>r\<rfloor>)"

section \<open>bonding_curve.rs\<close>

definition publication_rate :: "f64_env \<Rightarrow> u128 \<Rightarrow> u128 \<Rightarrow> u64 \<Rightarrow> real" where
  "publication_rate F balance_wei gas_cost_wei n_half =
     (if gas_cost_wei = 0 \<or> n_half = 0 \<or> balance_wei = 0 then 0
      else let n = rnd F (as_f64 F (unat balance_wei) / as_f64 F (unat gas_cost_wei));
               n_half_f = as_f64 F (unat n_half)
           in rnd F (1 - fexp F (rnd F (- n / n_half_f))))"

definition block_interval :: "f64_env \<Rightarrow> real \<Rightarrow> u64" where
  "block_interval F rate =
     (if rate \<le> 0 then u64_max
      else if rate \<ge> 1 then 1
      else let interval = as_uint (real_of_int \<lceil>rnd F (1 / rate)\<rceil>) in max interval 1)"

definition runway_blocks :: "f64_env \<Rightarrow> u128 \<Rightarrow> u128 \<Rightarrow> u64 \<Rightarrow> f64" where
  "runway_blocks F balance_wei gas_cost_wei n_half =
     (let rate = publication_rate F balance_wei gas_cost_wei n_half
      in if rate \<le> 0 \<or> gas_cost_wei = 0 then Infinity
         else Finite (rnd F (as_f64 F (unat balance_wei) / rnd F (rate * as_f64 F (unat gas_cost_wei)))))"

text \<open>\<open>None\<close> is the failed assertion on the target rate.\<close>

definition required_balance :: "f64_env \<Rightarrow> real \<Rightarrow> u128 \<Rightarrow> u64 \<Rightarrow> u128 option" where
  "required_balance F target gas_cost_wei n_half =
     (if target > 0 \<and> target < 1
      then Some (as_uint (rnd F (rnd F (- as_f64 F (unat gas_cost_wei) * as_f64 F (unat n_half)) * fln F (rnd F (1 - target)))))
      else None)"

definition mock_oracle :: "u128 \<Rightarrow> u128 \<Rightarrow> oracle_error + u128 \<times> u128" where
  "mock_oracle balance_wei gas_cost_wei = Inr (balance_wei, gas_cost_wei)"

definition failing_oracle :: "string \<Rightarrow> oracle_error + u128 \<times> u128" where
  "failing_oracle message = Inl (OE_Rpc message)"

section \<open>events.rs\<close>

datatype sse_event = is_EpochSealed: EpochSealed (ev_epoch_id: u64) u64 string u64 | AnchorEvm u64 string u64 string
  | AnchorQtsa u64 string string | HealthTick u64 u64 u64

fun event_name :: "sse_event \<Rightarrow> string" where
  "event_name (EpochSealed _ _ _ _) = ''epoch:sealed''"
| "event_name (AnchorEvm _ _ _ _) = ''anchor:evm''"
| "event_name (AnchorQtsa _ _ _) = ''anchor:qtsa''"
| "event_name (HealthTick _ _ _) = ''health:tick''"

text \<open>The JSON of an event, with serde's tag.\<close>

fun event_json :: "sse_event \<Rightarrow> json" where
  "event_json (EpochSealed i n mr t) = JObj [(''type'', JStr ''epoch_sealed''), (''epoch_id'', JU64 i), (''leaf_count'', JU64 n),
     (''merkle_root'', JStr mr), (''timestamp'', JU64 t)]"
| "event_json (AnchorEvm i tx b net) = JObj [(''type'', JStr ''anchor_evm''), (''epoch_id'', JU64 i), (''tx_hash'', JStr tx),
     (''block'', JU64 b), (''network'', JStr net)]"
| "event_json (AnchorQtsa i p g) = JObj [(''type'', JStr ''anchor_qtsa''), (''epoch_id'', JU64 i), (''tsa_provider'', JStr p),
     (''gen_time'', JStr g)]"
| "event_json (HealthTick u e l) = JObj [(''type'', JStr ''health_tick''), (''uptime_secs'', JU64 u), (''epochs_total'', JU64 e),
     (''leaves_total'', JU64 l)]"

text \<open>\<open>EventBus::send\<close>: the channel's count of receivers, or 0 when it has none.\<close>

definition bus_send :: "(sse_event \<Rightarrow> string + nat) \<Rightarrow> sse_event \<Rightarrow> nat" where
  "bus_send tx e = (case tx e of Inr n \<Rightarrow> n | Inl _ \<Rightarrow> 0)"

section \<open>The seal loops\<close>

record 'b seal_loop =
  sl_acc :: accumulator_inner
  sl_world :: "'b world"
  sl_bus :: bool
  sl_events :: "sse_event list"
  sl_dead :: bool

text \<open>
  One round: the seal, then the event when a bus is configured.  \<open>sl_events\<close> are the events sent; a
  panicking seal ends the task (\<open>sl_dead\<close>).
\<close>

definition seal_and_emit ::
  "'b sdk_at \<Rightarrow> witness_context option \<Rightarrow> u64 \<Rightarrow> u64 \<Rightarrow> ('b, 'z) seal_loop_scheme \<Rightarrow> ('b, 'z) seal_loop_scheme" where
  "seal_and_emit x ctx now duration_secs l =
     (case seal_once x ctx now duration_secs (sl_acc l) (sl_world l) of
        (SealOk er ws, acc', w') \<Rightarrow>
          l\<lparr>sl_acc := acc', sl_world := w',
            sl_events := sl_events l @ (if sl_bus l
              then [EpochSealed (er_id er) (er_leaf_count er) (merkle_root_hex (x (w_moment w')) er) now] else [])\<rparr>
      | (SealErr e, acc', w') \<Rightarrow> l\<lparr>sl_acc := acc', sl_world := w'\<rparr>
      | (SealPanic, acc', w') \<Rightarrow> l\<lparr>sl_acc := acc', sl_world := w', sl_dead := True\<rparr>)"

text \<open>
  Between two rounds any number of submissions reach the accumulator; its mutex puts each of them
  before or after a seal's swap.
\<close>

definition submit_all :: "(hash32 list \<times> did) list \<Rightarrow> ('b, 'z) seal_loop_scheme \<Rightarrow> ('b, 'z) seal_loop_scheme" where
  "submit_all subs l = l\<lparr>sl_acc := fold (\<lambda>(b, d) s. snd (append_batch b d s)) subs (sl_acc l)\<rparr>"

text \<open>
  \<open>run_sealer_with_channel\<close>: one seal per message.  \<open>run_sealer_with_interval\<close> does the same with
  the clock's reading at every tick of the timer but the first, which it skips.
\<close>

fun run_sealer_with_channel ::
  "'b sdk_at \<Rightarrow> witness_context option \<Rightarrow> u64 \<Rightarrow> ((hash32 list \<times> did) list \<times> u64) list \<Rightarrow> 'b seal_loop \<Rightarrow> 'b seal_loop" where
  "run_sealer_with_channel x ctx duration_secs [] l = l"
| "run_sealer_with_channel x ctx duration_secs ((subs, now) # ticks) l =
     (if sl_dead l then l
      else run_sealer_with_channel x ctx duration_secs ticks (seal_and_emit x ctx now duration_secs (submit_all subs l)))"

definition run_sealer_with_interval ::
  "'b sdk_at \<Rightarrow> witness_context option \<Rightarrow> u64 \<Rightarrow> ((hash32 list \<times> did) list \<times> u64) list \<Rightarrow> 'b seal_loop \<Rightarrow> 'b seal_loop" where
  "run_sealer_with_interval x ctx duration_secs timer l =
     (case timer of
        [] \<Rightarrow> l
      | (subs, _) # ticks \<Rightarrow> run_sealer_with_channel x ctx duration_secs ticks (submit_all subs l))"

record bonding_curve_params =
  bp_n_half :: u64
  bp_poll_interval_secs :: u64
  bp_min_balance_multiplier :: u64

record 'b curve_loop = "'b seal_loop" +
  cl_last_seal_block :: u64
  cl_virtual_block :: u64

text \<open>One round of the bonding-curve loop; the \<open>u128\<close> product wraps as in a release build.\<close>

definition curve_cycle ::
  "f64_env \<Rightarrow> 'b sdk_at \<Rightarrow> witness_context option \<Rightarrow> bonding_curve_params \<Rightarrow> oracle_error + u128 \<times> u128 \<Rightarrow> u64
   \<Rightarrow> 'b curve_loop \<Rightarrow> 'b curve_loop" where
  "curve_cycle F x ctx params answer now l0 =
     (let l = l0\<lparr>cl_virtual_block := cl_virtual_block l0 + 1\<rparr>
      in (case answer of
            Inl e \<Rightarrow> l
          | Inr (balance, gas_cost) \<Rightarrow>
              if gas_cost = 0 then l
              else if balance < gas_cost * ucast (bp_min_balance_multiplier params) then l
              else let interval = block_interval F (publication_rate F balance gas_cost (bp_n_half params))
                   in if cl_virtual_block l - cl_last_seal_block l \<ge> interval
                      then let l' = seal_and_emit x ctx now (bp_poll_interval_secs params) l
                           in if sl_dead l' then l' else l'\<lparr>cl_last_seal_block := cl_virtual_block l\<rparr>
                      else l))"

fun run_sealer_with_bonding_curve ::
  "f64_env \<Rightarrow> 'b sdk_at \<Rightarrow> witness_context option \<Rightarrow> bonding_curve_params
   \<Rightarrow> ((hash32 list \<times> did) list \<times> (oracle_error + u128 \<times> u128) \<times> u64) list \<Rightarrow> 'b curve_loop \<Rightarrow> 'b curve_loop" where
  "run_sealer_with_bonding_curve F x ctx params [] l = l"
| "run_sealer_with_bonding_curve F x ctx params ((subs, answer, now) # rounds) l =
     (if sl_dead l then l
      else run_sealer_with_bonding_curve F x ctx params rounds (curve_cycle F x ctx params answer now (submit_all subs l)))"

section \<open>What IEEE arithmetic gives\<close>

locale f64_arith =
  fixes F :: f64_env
  assumes rnd_mono: "a \<le> b \<Longrightarrow> rnd F a \<le> rnd F b"
    and rnd_0: "rnd F 0 = 0"
    and rnd_1: "rnd F 1 = 1"
    and fexp_range: "a \<le> 0 \<Longrightarrow> 0 \<le> fexp F a \<and> fexp F a \<le> 1"
begin

lemma rnd_nonneg: "0 \<le> a \<Longrightarrow> 0 \<le> rnd F a"
  using rnd_mono [of 0 a] rnd_0 by simp

lemma rnd_nonpos: "a \<le> 0 \<Longrightarrow> rnd F a \<le> 0"
  using rnd_mono [of a 0] rnd_0 by simp

lemma as_f64_pos: "n \<noteq> 0 \<Longrightarrow> 1 \<le> as_f64 F n"
  using rnd_mono [of 1 "real n"] rnd_1 by (simp add: as_f64_def)

lemma as_f64_mono: "m \<le> n \<Longrightarrow> as_f64 F m \<le> as_f64 F n"
  by (simp add: as_f64_def rnd_mono)

lemma exponent_nonpos: "rnd F (- rnd F (as_f64 F a / as_f64 F b) / as_f64 F c) \<le> 0"
  by (intro rnd_nonpos divide_nonpos_nonneg) (simp_all add: as_f64_def rnd_nonneg)

lemma rate_range: "0 \<le> publication_rate F b g h \<and> publication_rate F b g h \<le> 1"
proof -
  let ?e = "fexp F (rnd F (- rnd F (as_f64 F (unat b) / as_f64 F (unat g)) / as_f64 F (unat h)))"
  have "0 \<le> ?e" "?e \<le> 1"
    using fexp_range [OF exponent_nonpos] by simp_all
  then have "0 \<le> rnd F (1 - ?e)" "rnd F (1 - ?e) \<le> 1"
    using rnd_nonneg [of "1 - ?e"] rnd_mono [of "1 - ?e" 1] rnd_1 by simp_all
  then show ?thesis by (simp add: publication_rate_def Let_def)
qed

lemma rate_mono:
  assumes mono: "\<And>a b. a \<le> b \<Longrightarrow> b \<le> 0 \<Longrightarrow> fexp F a \<le> fexp F b" and le: "b \<le> b'"
  shows "publication_rate F b g h \<le> publication_rate F b' g h"
proof (cases "g = 0 \<or> h = 0 \<or> b = 0")
  case True
  then show ?thesis using rate_range [of b' g h] by (auto simp: publication_rate_def)
next
  case False
  then have b': "b' \<noteq> 0"
    using le by (auto simp: word_le_nat_alt unat_eq_0)
  let ?x = "\<lambda>b. rnd F (- rnd F (as_f64 F (unat b) / as_f64 F (unat g)) / as_f64 F (unat h))"
  have "1 \<le> as_f64 F (unat g)" "1 \<le> as_f64 F (unat h)"
    using False by (simp_all add: as_f64_pos unat_eq_0)
  moreover have "as_f64 F (unat b) \<le> as_f64 F (unat b')"
    using le by (simp add: as_f64_mono word_le_nat_alt)
  ultimately have "?x b' \<le> ?x b"
    by (intro rnd_mono divide_right_mono) (simp_all add: rnd_mono divide_right_mono)
  then have "fexp F (?x b') \<le> fexp F (?x b)"
    by (rule mono) (rule exponent_nonpos)
  then show ?thesis
    using False b' by (simp add: publication_rate_def Let_def rnd_mono)
qed

end

definition exact_f64 :: f64_env where
  "exact_f64 = \<lparr>rnd = (\<lambda>r. r), fexp = exp, fln = ln\<rparr>"

interpretation exact: f64_arith exact_f64
  by unfold_locales (simp_all add: exact_f64_def)

section \<open>The curve\<close>

lemma block_interval_ge_1: "1 \<le> block_interval F r"
  by (simp add: block_interval_def Let_def le_max_iff_disj)

text \<open>
  With IEEE arithmetic (monotone rounding that keeps 0 and 1, and an exponential in [0, 1] for
  arguments below 0, increasing there) the publication rate lies in [0, 1] for every balance, gas
  cost and \<open>n_half\<close>, it does not fall when the balance grows, and the block interval is at least 1.
\<close>

theorem publication_rate_bounds:
  assumes F: "f64_arith F"
    and mono: "\<And>a b. a \<le> b \<Longrightarrow> b \<le> 0 \<Longrightarrow> fexp F a \<le> fexp F b"
    and le: "balance \<le> balance'"
  shows "0 \<le> publication_rate F balance g h \<and> publication_rate F balance' g h \<le> 1
    \<and> publication_rate F balance g h \<le> publication_rate F balance' g h
    \<and> 1 \<le> block_interval F (publication_rate F balance g h)"
  using f64_arith.rate_range [OF F] f64_arith.rate_mono [OF F mono le] block_interval_ge_1 by blast

theorem publication_rate_bounds_witness:
  "publication_rate exact_f64 3 2 7 \<le> publication_rate exact_f64 5 2 7"
  using publication_rate_bounds [OF exact.f64_arith_axioms, where balance = 3 and balance' = 5 and g = 2 and h = 7]
  by (simp add: exact_f64_def)

text \<open>
  Minimum runway, for the curve in exact arithmetic: publishing at the computed rate, the balance
  lasts at least \<open>n_half\<close> blocks, whatever the balance and the gas cost.
\<close>

theorem curve_minimum_runway:
  "case runway_blocks exact_f64 balance gas_cost n_half of
     Infinity \<Rightarrow> publication_rate exact_f64 balance gas_cost n_half = 0
   | Finite blocks \<Rightarrow> real (unat n_half) \<le> blocks"
proof -
  let ?r = "publication_rate exact_f64 balance gas_cost n_half"
  let ?b = "real (unat balance)" and ?g = "real (unat gas_cost)" and ?h = "real (unat n_half)"
  have range: "0 \<le> ?r" using exact.rate_range by simp
  show ?thesis
  proof (cases "?r = 0")
    case False
    then have nz: "gas_cost \<noteq> 0" "n_half \<noteq> 0" "balance \<noteq> 0"
      by (auto simp: publication_rate_def split: if_splits)
    then have pos: "0 < ?g" "0 < ?h" "0 < ?b"
      by (simp_all only: of_nat_0_less_iff unat_gt_0 not_False_eq_True)
    have "?r = 1 - exp (- (?b / ?g) / ?h)"
      using nz by (simp add: publication_rate_def exact_f64_def as_f64_def)
    then have "?r \<le> ?b / ?g / ?h"
      using exp_ge_add_one_self [of "- (?b / ?g) / ?h"] by simp
    then have "?h \<le> ?b / (?r * ?g)"
      using pos range False by (simp add: field_simps)
    then show ?thesis
      using False range nz by (simp add: runway_blocks_def Let_def) (simp add: exact_f64_def as_f64_def)
  qed (simp add: runway_blocks_def)
qed

section \<open>The loops\<close>

lemma append_loop_epoch_id [simp]: "ai_epoch_id (fst (append_loop d b s m n)) = ai_epoch_id s"
  by (induction d b s m n rule: append_loop.induct) (simp_all add: push_leaf_def)

lemma append_epoch_id [simp]: "ai_epoch_id (snd (append_batch b d s)) = ai_epoch_id s"
  using append_loop_epoch_id [of d b s 0 0] by (simp add: append_batch_def Let_def split_def)

lemma submit_all_simps [simp]:
  "sl_events (submit_all subs l) = sl_events l" "sl_bus (submit_all subs l) = sl_bus l"
  "sl_dead (submit_all subs l) = sl_dead l" "ai_epoch_id (sl_acc (submit_all subs l)) = ai_epoch_id (sl_acc l)"
  "sl_world (submit_all subs l) = sl_world l"
proof -
  have "ai_epoch_id (fold (\<lambda>(b, d) s. snd (append_batch b d s)) subs a) = ai_epoch_id a" for a
    by (induction subs arbitrary: a) auto
  then show "ai_epoch_id (sl_acc (submit_all subs l)) = ai_epoch_id (sl_acc l)"
    by (simp add: submit_all_def)
qed (simp_all add: submit_all_def)

lemma submit_all_curve [simp]:
  "cl_last_seal_block (submit_all subs l) = cl_last_seal_block l" "cl_virtual_block (submit_all subs l) = cl_virtual_block l"
  by (simp_all add: submit_all_def)

lemma seal_once_epoch_id:
  assumes "seal_once x c t d acc w = (r, acc', w')"
  shows "(\<forall>er ws. r = SealOk er ws \<longrightarrow> er_id er = ai_epoch_id acc \<and> ai_epoch_id acc' = sat_add (ai_epoch_id acc) 1)
    \<and> (ai_epoch_id acc' = ai_epoch_id acc \<or> ai_epoch_id acc' = sat_add (ai_epoch_id acc) 1)"
  using assms
proof (cases rule: seal_once_cases)
  case (closed ws down w1)
  from closed(1) show ?thesis
  proof (cases rule: close_epoch_outcomes)
    case (settled snapshot batch er s ctx p b minted p' down')
    then show ?thesis
      using swap_simps [OF settled(1)] build_record_fields [OF settled(3)] by (auto split: if_splits)
  next
    case (idle snapshot batch er s)
    then show ?thesis
      using swap_simps [OF idle(1)] build_record_fields [OF idle(3)] by auto
  qed (use swap_simps in auto)
qed auto

text \<open>The ids of the sent events ascend, and stay below the id of the open epoch.\<close>

definition events_ordered :: "('b, 'z) seal_loop_scheme \<Rightarrow> bool" where
  "events_ordered l \<longleftrightarrow> sorted_wrt (<) (map ev_epoch_id (sl_events l))
     \<and> (\<forall>e\<in>set (sl_events l). is_EpochSealed e \<and> ev_epoch_id e < ai_epoch_id (sl_acc l))"

lemma sat_add_1_less: "unat (a :: u64) + 1 < 2 ^ 64 \<Longrightarrow> a < sat_add a 1"
  by (simp add: word_less_nat_alt sat_simps)

lemma submit_all_ordered [simp]: "events_ordered (submit_all subs l) = events_ordered l"
  by (simp add: events_ordered_def)

lemma seal_and_emit_ordered:
  assumes ord: "events_ordered l" and room: "unat (ai_epoch_id (sl_acc l)) + 1 < 2 ^ 64"
  shows "events_ordered (seal_and_emit x ctx now d l)
    \<and> unat (ai_epoch_id (sl_acc (seal_and_emit x ctx now d l))) \<le> unat (ai_epoch_id (sl_acc l)) + 1"
proof -
  obtain r acc' w' where run: "seal_once x ctx now d (sl_acc l) (sl_world l) = (r, acc', w')"
    by (metis prod_cases3)
  have lt: "ai_epoch_id (sl_acc l) < sat_add (ai_epoch_id (sl_acc l)) 1"
    using room by (rule sat_add_1_less)
  have up: "unat (ai_epoch_id acc') \<le> unat (ai_epoch_id (sl_acc l)) + 1"
    using seal_once_epoch_id [OF run] by (auto simp: sat_simps)
  have id: "ai_epoch_id (sl_acc l) \<le> ai_epoch_id acc'"
    using seal_once_epoch_id [OF run] lt by auto
  show ?thesis
  proof (cases r)
    case (SealOk er ws)
    then have "er_id er = ai_epoch_id (sl_acc l)" "ai_epoch_id acc' = sat_add (ai_epoch_id (sl_acc l)) 1"
      using seal_once_epoch_id [OF run] by simp_all
    then show ?thesis
      using ord lt up run SealOk by (auto simp: seal_and_emit_def events_ordered_def sorted_wrt_append)
  qed (use ord up id run in \<open>auto simp: seal_and_emit_def events_ordered_def\<close>)
qed

lemma curve_cycle_ordered:
  assumes "events_ordered l" "unat (ai_epoch_id (sl_acc l)) + 1 < 2 ^ 64"
  shows "events_ordered (curve_cycle F x ctx params answer now l)
    \<and> unat (ai_epoch_id (sl_acc (curve_cycle F x ctx params answer now l))) \<le> unat (ai_epoch_id (sl_acc l)) + 1"
proof -
  let ?l = "l\<lparr>cl_virtual_block := cl_virtual_block l + 1\<rparr>"
  have l: "events_ordered ?l" "unat (ai_epoch_id (sl_acc ?l)) + 1 < 2 ^ 64"
    using assms by (simp_all add: events_ordered_def)
  have e: "events_ordered (k\<lparr>cl_last_seal_block := b\<rparr>) = events_ordered k" for k :: "'b curve_loop" and b
    by (simp add: events_ordered_def)
  show ?thesis
    using l seal_and_emit_ordered [OF l, of x ctx now "bp_poll_interval_secs params"]
    by (simp add: curve_cycle_def Let_def e split: sum.split prod.split)
qed

text \<open>
  Events: over any run of the timed or channel-driven loop or of the bonding-curve loop, with any
  submissions in between and any failing ticks, the epoch events sent carry strictly increasing epoch
  ids, all below the id of the open epoch, as long as the 64-bit epoch counter has room for the run.
\<close>

theorem sealed_events_increase:
  assumes "sl_events l = []" "unat (ai_epoch_id (sl_acc l)) + length ticks < 2 ^ 64"
    and "sl_events c = []" "unat (ai_epoch_id (sl_acc c)) + length rounds < 2 ^ 64"
  shows "events_ordered (run_sealer_with_channel x ctx d ticks l)
    \<and> events_ordered (run_sealer_with_bonding_curve F x ctx params rounds c)"
proof
  have "events_ordered l" "events_ordered c"
    using assms by (simp_all add: events_ordered_def)
  then show "events_ordered (run_sealer_with_channel x ctx d ticks l)"
    using assms(2)
  proof (induction x ctx d ticks l rule: run_sealer_with_channel.induct)
    case (2 x ctx d subs now ticks l)
    then show ?case
      using seal_and_emit_ordered [of "submit_all subs l" x ctx now d] by simp
  qed simp
  from \<open>events_ordered c\<close> assms(4) show "events_ordered (run_sealer_with_bonding_curve F x ctx params rounds c)"
  proof (induction F x ctx params rounds c rule: run_sealer_with_bonding_curve.induct)
    case (2 F x ctx params subs answer now rounds l)
    then show ?case
      using curve_cycle_ordered [of "submit_all subs l" F x ctx params answer now] by simp
  qed simp
qed

definition demo_loop :: "ref_blob seal_loop" where
  "demo_loop = \<lparr>sl_acc = demo_acc, sl_world = demo_world, sl_bus = True, sl_events = [], sl_dead = False\<rparr>"

definition demo_curve :: "ref_blob curve_loop" where
  "demo_curve = \<lparr>sl_acc = demo_acc, sl_world = demo_world, sl_bus = True, sl_events = [], sl_dead = False,
     cl_last_seal_block = 0, cl_virtual_block = 0\<rparr>"

theorem sealed_events_increase_witness:
  "events_ordered (run_sealer_with_channel demo_sdk (Some demo_ctx) 10 [([], 1000), ([], 2000)] demo_loop)
    \<and> events_ordered (run_sealer_with_bonding_curve exact_f64 demo_sdk (Some demo_ctx)
         \<lparr>bp_n_half = 2, bp_poll_interval_secs = 12, bp_min_balance_multiplier = 1\<rparr> [([], Inr (90, 30), 1000)] demo_curve)"
  by (rule sealed_events_increase) (simp_all add: demo_loop_def demo_curve_def demo_acc_def)

section \<open>The curve loop publishes in time\<close>

lemma seal_and_emit_curve [simp]:
  "cl_last_seal_block (seal_and_emit x ctx now d l) = cl_last_seal_block l"
  "cl_virtual_block (seal_and_emit x ctx now d l) = cl_virtual_block l"
  by (simp_all add: seal_and_emit_def split: prod.split seal_result.split)

text \<open>What a round does that runs a seal, written over \<open>seal_once\<close>.\<close>

definition seals_into ::
  "'b sdk_at \<Rightarrow> witness_context option \<Rightarrow> u64 \<Rightarrow> u64 \<Rightarrow> 'b curve_loop \<Rightarrow> 'b curve_loop \<Rightarrow> bool" where
  "seals_into x ctx now d l l' \<longleftrightarrow>
     (case seal_once x ctx now d (sl_acc l) (sl_world l) of (r, acc', w') \<Rightarrow>
        sl_acc l' = acc' \<and> sl_world l' = w'
        \<and> (case r of
             SealOk er ws \<Rightarrow> er_id er = ai_epoch_id (sl_acc l) \<and> ai_epoch_id acc' = sat_add (ai_epoch_id (sl_acc l)) 1
               \<and> cl_last_seal_block l' = cl_virtual_block l + 1 \<and> sl_dead l' = sl_dead l
               \<and> sl_events l' = sl_events l @ (if sl_bus l
                   then [EpochSealed (er_id er) (er_leaf_count er) (merkle_root_hex (x (w_moment w')) er) now] else [])
           | SealErr e \<Rightarrow> cl_last_seal_block l' = cl_virtual_block l + 1 \<and> sl_dead l' = sl_dead l \<and> sl_events l' = sl_events l
           | SealPanic \<Rightarrow> sl_dead l'))"

text \<open>A wallet that pays, with a curve that asks for a seal at least every \<open>bound\<close> blocks.\<close>

definition funded :: "f64_env \<Rightarrow> bonding_curve_params \<Rightarrow> u64 \<Rightarrow> oracle_error + u128 \<times> u128 \<Rightarrow> bool" where
  "funded F params bound answer \<longleftrightarrow>
     (case answer of
        Inl e \<Rightarrow> False
      | Inr (balance, gas_cost) \<Rightarrow> gas_cost \<noteq> 0 \<and> gas_cost * ucast (bp_min_balance_multiplier params) \<le> balance
          \<and> block_interval F (publication_rate F balance gas_cost (bp_n_half params)) \<le> bound)"

lemma curve_cycle_seals:
  assumes "\<not> sl_dead l" "gas_cost \<noteq> 0" "gas_cost * ucast (bp_min_balance_multiplier params) \<le> balance"
    and "block_interval F (publication_rate F balance gas_cost (bp_n_half params)) \<le> cl_virtual_block l + 1 - cl_last_seal_block l"
  shows "seals_into x ctx now (bp_poll_interval_secs params) l (curve_cycle F x ctx params (Inr (balance, gas_cost)) now l)"
proof -
  obtain r acc' w' where run: "seal_once x ctx now (bp_poll_interval_secs params) (sl_acc l) (sl_world l) = (r, acc', w')"
    by (metis prod_cases3)
  have cyc: "curve_cycle F x ctx params (Inr (balance, gas_cost)) now l =
      (let l' = seal_and_emit x ctx now (bp_poll_interval_secs params) (l\<lparr>cl_virtual_block := cl_virtual_block l + 1\<rparr>)
       in if sl_dead l' then l' else l'\<lparr>cl_last_seal_block := cl_virtual_block l + 1\<rparr>)"
    using assms(2-4) by (simp add: curve_cycle_def Let_def leD)
  show ?thesis
    using seal_once_epoch_id [OF run] assms(1)
    by (cases r) (simp_all add: cyc seals_into_def seal_and_emit_def run Let_def)
qed

lemma curve_cycle_waits:
  assumes "cl_virtual_block l + 1 - cl_last_seal_block l < block_interval F (publication_rate F balance gas_cost (bp_n_half params))"
  shows "curve_cycle F x ctx params (Inr (balance, gas_cost)) now l = l\<lparr>cl_virtual_block := cl_virtual_block l + 1\<rparr>"
  using not_le [THEN iffD2, OF assms] by (simp add: curve_cycle_def Let_def)

lemma unat_suc_room: "unat (v :: u64) + 1 < 2 ^ 64 \<Longrightarrow> unat (v + 1) = unat v + 1"
  by (subst unat_add_lem [THEN iffD1]) simp_all

text \<open>
  As long as no seal has run, the distance to the last seal grows by one a round; so one runs before
  that distance passes \<open>bound\<close>.
\<close>

lemma curve_seals_within:
  assumes "\<not> sl_dead l" "list_all (\<lambda>(subs, answer, now). funded F params bound answer) rounds"
    and "unat (cl_virtual_block l) + length rounds < 2 ^ 64" "cl_last_seal_block l \<le> cl_virtual_block l"
    and "unat bound + unat (cl_last_seal_block l) \<le> unat (cl_virtual_block l) + length rounds" "rounds \<noteq> []"
  shows "\<exists>pre subs answer now post. rounds = pre @ (subs, answer, now) # post
    \<and> length pre + unat (cl_virtual_block l) < max (unat bound + unat (cl_last_seal_block l)) (unat (cl_virtual_block l) + 1)
    \<and> seals_into x ctx now (bp_poll_interval_secs params)
        (submit_all subs (run_sealer_with_bonding_curve F x ctx params pre l))
        (run_sealer_with_bonding_curve F x ctx params (pre @ [(subs, answer, now)]) l)"
  using assms
proof (induction rounds arbitrary: l)
  case (Cons round rounds)
  obtain subs balance gas_cost now where round: "round = (subs, Inr (balance, gas_cost), now)"
    and fund: "gas_cost \<noteq> 0" "gas_cost * ucast (bp_min_balance_multiplier params) \<le> balance"
      "block_interval F (publication_rate F balance gas_cost (bp_n_half params)) \<le> bound"
    using Cons.prems(2) by (cases round) (auto simp: funded_def split: sum.splits)
  let ?i = "block_interval F (publication_rate F balance gas_cost (bp_n_half params))"
  let ?l = "curve_cycle F x ctx params (Inr (balance, gas_cost)) now (submit_all subs l)"
  have v: "unat (cl_virtual_block l + 1) = unat (cl_virtual_block l) + 1"
    using Cons.prems(3) by (intro unat_suc_room) simp
  have gap: "unat (cl_virtual_block l + 1 - cl_last_seal_block l) = unat (cl_virtual_block l) + 1 - unat (cl_last_seal_block l)"
    using Cons.prems(4) v by (simp add: unat_sub word_le_nat_alt)
  show ?case
  proof (cases "?i \<le> cl_virtual_block l + 1 - cl_last_seal_block l")
    case True
    then have "seals_into x ctx now (bp_poll_interval_secs params) (submit_all subs l) ?l"
      using Cons.prems(1) fund(1,2) by (intro curve_cycle_seals) simp_all
    then show ?thesis
      using Cons.prems(1) by (rule_tac exI [of _ "[]"], rule_tac exI [of _ subs], rule_tac exI [of _ "Inr (balance, gas_cost)"],
          rule_tac exI [of _ now], rule_tac exI [of _ rounds]) (simp add: round less_max_iff_disj)
  next
    case False
    then have wait: "?l = (submit_all subs l)\<lparr>cl_virtual_block := cl_virtual_block l + 1\<rparr>"
      by (simp add: curve_cycle_waits not_le)
    then have l: "\<not> sl_dead ?l" "cl_last_seal_block ?l = cl_last_seal_block l" "cl_virtual_block ?l = cl_virtual_block l + 1"
      using Cons.prems(1) by simp_all
    have more: "unat (cl_virtual_block l) + 1 < unat bound + unat (cl_last_seal_block l)"
      using False gap fund(3) Cons.prems(4) by (simp add: word_le_nat_alt)
    have "\<exists>pre subs' answer now' post. rounds = pre @ (subs', answer, now') # post
      \<and> length pre + unat (cl_virtual_block ?l) < max (unat bound + unat (cl_last_seal_block ?l)) (unat (cl_virtual_block ?l) + 1)
      \<and> seals_into x ctx now' (bp_poll_interval_secs params)
          (submit_all subs' (run_sealer_with_bonding_curve F x ctx params pre ?l))
          (run_sealer_with_bonding_curve F x ctx params (pre @ [(subs', answer, now')]) ?l)"
      by (rule Cons.IH) (use Cons.prems l more v in \<open>auto simp: word_le_nat_alt\<close>)
    then obtain pre subs' answer now' post where ih: "rounds = pre @ (subs', answer, now') # post"
      "length pre + unat (cl_virtual_block ?l) < max (unat bound + unat (cl_last_seal_block ?l)) (unat (cl_virtual_block ?l) + 1)"
      "seals_into x ctx now' (bp_poll_interval_secs params)
          (submit_all subs' (run_sealer_with_bonding_curve F x ctx params pre ?l))
          (run_sealer_with_bonding_curve F x ctx params (pre @ [(subs', answer, now')]) ?l)"
      by blast
    then show ?thesis
      using Cons.prems(1) l v more by (rule_tac exI [of _ "round # pre"], rule_tac exI [of _ subs'], rule_tac exI [of _ answer],
          rule_tac exI [of _ now'], rule_tac exI [of _ post]) (simp add: round max_def split: if_splits)
  qed
qed simp

text \<open>
  C31: Progress of the bonding-curve loop.  Let the loop be alive and the oracle report, in every
  round, a funded wallet: a gas cost other than 0, a balance of at least the safety margin, and
  figures, which may differ from round to round, for which the curve asks for a seal at least every
  \<open>bound\<close> blocks.  Then among the next \<open>bound\<close> rounds there is one that runs \<open>seal_once\<close> on what has
  been submitted by then: its accumulator and its world are those the seal leaves behind, a
  successful seal has closed the epoch that was open, sends its event on the bus and is counted as
  the last seal, and only a panic ends the loop.  The 64-bit block counter has room for the rounds.
\<close>

theorem curve_loop_publishes_in_time:
  assumes "\<not> sl_dead l" and "list_all (\<lambda>(subs, answer, now). funded F params bound answer) rounds"
    and "bound \<noteq> 0" "unat bound \<le> length rounds"
    and "unat (cl_virtual_block l) + length rounds < 2 ^ 64" "cl_last_seal_block l \<le> cl_virtual_block l"
  shows "\<exists>pre subs answer now post. rounds = pre @ (subs, answer, now) # post \<and> length pre < unat bound
    \<and> seals_into x ctx now (bp_poll_interval_secs params)
        (submit_all subs (run_sealer_with_bonding_curve F x ctx params pre l))
        (run_sealer_with_bonding_curve F x ctx params (pre @ [(subs, answer, now)]) l)"
proof -
  have b: "0 < unat bound"
    using assms(3) by (simp add: unat_gt_0)
  have "unat bound + unat (cl_last_seal_block l) \<le> unat (cl_virtual_block l) + length rounds" "rounds \<noteq> []"
    using assms(4,6) b by (auto simp: word_le_nat_alt)
  from curve_seals_within [OF assms(1,2,5,6) this, of x ctx] obtain pre subs answer now post where
    "rounds = pre @ (subs, answer, now) # post"
    "length pre + unat (cl_virtual_block l) < max (unat bound + unat (cl_last_seal_block l)) (unat (cl_virtual_block l) + 1)"
    "seals_into x ctx now (bp_poll_interval_secs params)
        (submit_all subs (run_sealer_with_bonding_curve F x ctx params pre l))
        (run_sealer_with_bonding_curve F x ctx params (pre @ [(subs, answer, now)]) l)"
    by blast
  moreover from this(2) have "length pre < unat bound"
    using b assms(6) by (auto simp: word_le_nat_alt max_def split: if_splits)
  ultimately show ?thesis by blast
qed

lemma block_interval_le_2:
  assumes "1 / 2 \<le> r"
  shows "block_interval exact_f64 r \<le> 2"
proof (cases "r < 1")
  case True
  then have "0 < \<lceil>1 / r\<rceil>" "\<lceil>1 / r\<rceil> \<le> 2"
    using assms by (simp_all add: ceiling_le_iff field_simps)
  then have "\<lceil>1 / r\<rceil> = 1 \<or> \<lceil>1 / r\<rceil> = 2" by linarith
  moreover have "as_uint (real_of_int 1) = (1 :: u64)" "as_uint (real_of_int 2) = (2 :: u64)"
    by (simp_all add: as_uint_def)
  ultimately have "as_uint (real_of_int \<lceil>1 / r\<rceil>) = (1 :: u64) \<or> as_uint (real_of_int \<lceil>1 / r\<rceil>) = (2 :: u64)"
    by metis
  then show ?thesis
    using assms True by (auto simp: block_interval_def exact_f64_def)
qed (use assms in \<open>simp add: block_interval_def\<close>)

lemma demo_rate: "1 / 2 \<le> publication_rate exact_f64 90 30 2"
proof -
  have "2 \<le> exp (3 / 2 :: real)"
    using exp_ge_add_one_self [of "3 / 2 :: real"] by simp
  then have "exp (- (3 / 2) :: real) \<le> 1 / 2"
    by (simp add: exp_minus field_simps)
  then show ?thesis
    by (simp add: publication_rate_def exact_f64_def as_f64_def)
qed

lemma demo_funded: "funded exact_f64 \<lparr>bp_n_half = 2, bp_poll_interval_secs = 12, bp_min_balance_multiplier = 1\<rparr> 2 (Inr (90, 30))"
  "funded exact_f64 \<lparr>bp_n_half = 2, bp_poll_interval_secs = 12, bp_min_balance_multiplier = 1\<rparr> 2 (Inr (120, 30))"
proof -
  have "publication_rate exact_f64 90 30 2 \<le> publication_rate exact_f64 120 30 2"
    by (rule exact.rate_mono) (simp_all add: exact_f64_def)
  then show "funded exact_f64 \<lparr>bp_n_half = 2, bp_poll_interval_secs = 12, bp_min_balance_multiplier = 1\<rparr> 2 (Inr (90, 30))"
    "funded exact_f64 \<lparr>bp_n_half = 2, bp_poll_interval_secs = 12, bp_min_balance_multiplier = 1\<rparr> 2 (Inr (120, 30))"
    using block_interval_le_2 demo_rate order_trans by (auto simp: funded_def)
qed

theorem curve_loop_publishes_in_time_witness:
  "let params = \<lparr>bp_n_half = 2, bp_poll_interval_secs = 12, bp_min_balance_multiplier = 1\<rparr>;
       rounds = [([], Inr (90, 30), 1000), ([], Inr (120, 30), 1012)];
       run = (\<lambda>rs. run_sealer_with_bonding_curve exact_f64 demo_sdk (Some demo_ctx) params rs demo_curve)
   in \<exists>pre subs answer now post. rounds = pre @ (subs, answer, now) # post \<and> length pre < 2
      \<and> seals_into demo_sdk (Some demo_ctx) now 12 (submit_all subs (run pre)) (run (pre @ [(subs, answer, now)]))"
  using curve_loop_publishes_in_time [of demo_curve exact_f64 "\<lparr>bp_n_half = 2, bp_poll_interval_secs = 12, bp_min_balance_multiplier = 1\<rparr>"
      2 "[([], Inr (90, 30), 1000), ([], Inr (120, 30), 1012)]" demo_sdk "Some demo_ctx"] demo_funded
  by (simp add: Let_def demo_curve_def)

end
