(* ===== verification/Identity.thy ===== *)
theory Identity
  imports Config
begin

text \<open>
  The service identity (\<open>crates/aqua-timestamp/src/identity.rs\<close>): loading the key, the signed claim
  behind \<open>/.well-known/aqua-identity\<close>, the response document, the order of the revisions of the
  claim's tree, and the normaliser of the golden snapshot.

  The wallet derivation, the claim validator, the SDK's tree builder and signer, and serde are the
  record \<open>identity_api\<close>.  The loop that follows the revisions is a partial function; that it returns
  is a theorem.
\<close>

section \<open>Data\<close>

record service_identity =
  si_address_eip55 :: string
  si_server_did :: did
  si_chain_id :: u64
  si_trust_domain :: string
  si_dns :: string
  si_ip :: string
  si_private_key :: bytes
  si_mnemonic :: string

record service_claim_server =
  cl_signer_did :: did
  cl_service_kind :: string
  cl_valid_from :: u64
  cl_valid_until :: "u64 option"
  cl_dns :: string
  cl_ip :: string
  cl_deploy_version :: "string option"

text \<open>\<open>'t\<close> is the SDK's \<open>Tree\<close>.\<close>

record 't identity_api = codec_api +
  get_wallet :: "string \<Rightarrow> string + string \<times> string \<times> string"
  claim_validate :: "service_claim_server \<Rightarrow> string + unit"
  claim_to_value :: "service_claim_server \<Rightarrow> string + json"
  service_claim_template_link :: hash32
  create_object_util :: "hash32 \<Rightarrow> json \<Rightarrow> string + 't"
  sign_aqua_tree_with_signer :: "bytes \<Rightarrow> 't \<Rightarrow> string + 't"
  tree_to_value :: "'t \<Rightarrow> string + json"
  cargo_pkg_version :: "string option"

datatype identity_error = MnemonicUnset | MnemonicEmpty | WalletFailed string | KeyNotHex from_hex_error
  | ClaimInvalid string | ClaimSerialise string | ObjectFailed string | SignFailed string | TreeSerialise string

section \<open>Loading the key\<close>

definition from_mnemonic :: "('t, 'z) identity_api_scheme \<Rightarrow> string \<Rightarrow> identity_config \<Rightarrow> identity_error + service_identity" where
  "from_mnemonic x mnemonic cfg =
     and_then (map_err WalletFailed (get_wallet x mnemonic)) (\<lambda>(_, address_eip55, private_key_hex).
     and_then (map_err KeyNotHex (hex_decode x (trim_start_matches ''0x'' private_key_hex))) (\<lambda>pk_bytes.
     Inr \<lparr>si_address_eip55 = address_eip55,
          si_server_did = ''did:pkh:eip155:'' @ show_nat (unat (ic_chain_id cfg)) @ '':'' @ address_eip55,
          si_chain_id = ic_chain_id cfg, si_trust_domain = ic_trust_domain cfg, si_dns = ic_dns cfg, si_ip = ic_ip cfg,
          si_private_key = pk_bytes, si_mnemonic = str_trim mnemonic\<rparr>))"

text \<open>\<open>env\<close> is the value of the environment variable, if it is set.\<close>

definition from_env :: "('t, 'z) identity_api_scheme \<Rightarrow> string option \<Rightarrow> identity_config \<Rightarrow> identity_error + service_identity" where
  "from_env x env cfg =
     (case env of
        None \<Rightarrow> Inl MnemonicUnset
      | Some mnemonic \<Rightarrow> if str_trim mnemonic = [] then Inl MnemonicEmpty else from_mnemonic x mnemonic cfg)"

section \<open>The claim and the response\<close>

text \<open>\<open>valid_from\<close> is the override, \<open>now\<close> the wall clock.\<close>

definition build_identity_tree ::
  "('t, 'z) identity_api_scheme \<Rightarrow> u64 \<Rightarrow> service_identity \<Rightarrow> u64 option \<Rightarrow> identity_error + 't" where
  "build_identity_tree x now identity valid_from =
     (let claim = \<lparr>cl_signer_did = si_server_did identity, cl_service_kind = ''server'',
            cl_valid_from = (case valid_from of Some t \<Rightarrow> t | None \<Rightarrow> now), cl_valid_until = None,
            cl_dns = si_dns identity, cl_ip = si_ip identity, cl_deploy_version = cargo_pkg_version x\<rparr>
      in and_then (map_err ClaimInvalid (claim_validate x claim)) (\<lambda>_.
         and_then (map_err ClaimSerialise (claim_to_value x claim)) (\<lambda>payload.
         and_then (map_err ObjectFailed (create_object_util x (service_claim_template_link x) payload)) (\<lambda>tree.
         map_err SignFailed (sign_aqua_tree_with_signer x (si_private_key identity) tree)))))"

definition endpoints_json :: json where
  "endpoints_json = JObj [(''auth'', JStr ''/auth''), (''trees'', JStr ''/trees''), (''submit'', JStr ''/v1/leaves''),
     (''verify'', JStr ''/api/explorer/trees/{tip}/verify''), (''docs'', JStr ''/docs''),
     (''well_known_skill'', JStr ''/.well-known/aqua-skill.md''),
     (''well_known_skill_auth'', JStr ''/.well-known/aqua-skill-auth.md'')]"

definition identity_response :: "service_identity \<Rightarrow> json \<Rightarrow> json" where
  "identity_response identity identity_claim =
     JObj [(''protocol'', JStr ''aqua''), (''version'', JStr ''4.0''), (''server_did'', JStr (si_server_did identity)),
       (''ethereum_address'', JStr (''0x'' @ trim_start_matches ''0x'' (si_address_eip55 identity))),
       (''trust_level'', JU64 2), (''trust_domain'', JStr (si_trust_domain identity)),
       (''supported_claims'', JArr [JStr ''timestamp_anchor'']), (''auth_method'', JStr ''siwe''),
       (''endpoints'', endpoints_json), (''identity_claim'', identity_claim)]"

definition build_response :: "('t, 'z) identity_api_scheme \<Rightarrow> service_identity \<Rightarrow> 't \<Rightarrow> identity_error + json" where
  "build_response x identity tree =
     and_then (map_err TreeSerialise (tree_to_value x tree)) (\<lambda>tree_json. Inr (identity_response identity tree_json))"

section \<open>The order of the revisions\<close>

text \<open>A \<open>serde_json::Map\<close> is its entries in iteration order, with distinct keys.\<close>

type_synonym json_map = "(string \<times> json) list"

definition is_genesis :: "json \<Rightarrow> bool" where
  "is_genesis v \<longleftrightarrow> (case json_get v ''previous_revision'' of None \<Rightarrow> True | Some p \<Rightarrow> p = JNull)"

definition parent :: "json \<Rightarrow> string option" where
  "parent v = Option.bind (json_get v ''previous_revision'') json_as_str"

definition find_genesis :: "json_map \<Rightarrow> string option" where
  "find_genesis m = map_option fst (find (\<lambda>(h, v). is_genesis v) m)"

definition next_of :: "json_map \<Rightarrow> string \<Rightarrow> string option" where
  "next_of m h = map_option fst (find (\<lambda>(h', v). parent v = Some h) m)"

partial_function (option) chain_loop :: "json_map \<Rightarrow> string option \<Rightarrow> string list \<Rightarrow> string list option" where
  "chain_loop m current order =
     (case current of None \<Rightarrow> Some order | Some h \<Rightarrow> chain_loop m (next_of m h) (order @ [h]))"

declare chain_loop.simps [code]

definition append_orphans :: "json_map \<Rightarrow> string list \<Rightarrow> string list" where
  "append_orphans m order = foldl (\<lambda>order (h, v). if h \<in> set order then order else order @ [h]) order m"

definition topological_revision_order :: "json_map \<Rightarrow> string list option" where
  "topological_revision_order m = map_option (append_orphans m) (chain_loop m (find_genesis m) [])"

text \<open>The parent of a revision, and the chains that start at a genesis revision.\<close>

definition parent_of :: "json_map \<Rightarrow> string \<Rightarrow> string option" where
  "parent_of m h = Option.bind (map_of m h) parent"

definition is_chain :: "json_map \<Rightarrow> string list \<Rightarrow> bool" where
  "is_chain m p \<longleftrightarrow> p \<noteq> [] \<and> set p \<subseteq> fst ` set m \<and> (\<exists>v. map_of m (p ! 0) = Some v \<and> is_genesis v)
     \<and> (\<forall>i. Suc i < length p \<longrightarrow> parent_of m (p ! Suc i) = Some (p ! i))"

lemma genesis_no_parent: "is_genesis v \<Longrightarrow> parent v = None"
  by (auto simp: is_genesis_def parent_def split: option.splits)

lemma chain_genesis: "is_chain m p \<Longrightarrow> parent_of m (p ! 0) = None"
  by (auto simp: is_chain_def parent_of_def genesis_no_parent)

lemma chain_no_repeat: "is_chain m p \<Longrightarrow> i < j \<Longrightarrow> j < length p \<Longrightarrow> p ! i \<noteq> p ! j"
proof (induction i arbitrary: j)
  case 0
  then obtain k where k: "j = Suc k" by (cases j) auto
  have "parent_of m (p ! j) = Some (p ! k)"
    using 0 k by (auto simp: is_chain_def)
  then show ?case using chain_genesis [OF 0(1)] by auto
next
  case (Suc i)
  then obtain k where k: "j = Suc k" by (cases j) auto
  have "parent_of m (p ! Suc i) = Some (p ! i)" "parent_of m (p ! j) = Some (p ! k)"
    using Suc.prems k by (auto simp: is_chain_def)
  then show ?case using Suc.IH [of k] Suc.prems k by auto
qed

lemma chain_distinct: "is_chain m p \<Longrightarrow> distinct p"
  unfolding distinct_conv_nth using chain_no_repeat by (metis linorder_neqE_nat)

lemma chain_length:
  assumes "is_chain m p"
  shows "length p \<le> length m"
proof -
  have "card (set p) \<le> card (fst ` set m)"
    using assms by (intro card_mono) (auto simp: is_chain_def)
  also have "\<dots> \<le> length m"
    by (metis card_image_le card_length finite_set le_trans)
  finally show ?thesis
    using chain_distinct [OF assms] by (simp add: distinct_card)
qed

lemma find_genesis_Some: "find_genesis m = Some h \<Longrightarrow> distinct (map fst m) \<Longrightarrow> \<exists>v. map_of m h = Some v \<and> is_genesis v"
  by (auto simp: find_genesis_def dest!: find_Some_set)

lemma next_of_Some: "next_of m h = Some h' \<Longrightarrow> distinct (map fst m) \<Longrightarrow> h' \<in> fst ` set m \<and> parent_of m h' = Some h"
  by (force simp: next_of_def parent_of_def dest!: find_Some_set)

lemma next_of_None: "next_of m h = None \<Longrightarrow> parent_of m h' \<noteq> Some h"
  by (auto simp: next_of_def parent_of_def find_None_iff bind_eq_Some_conv dest: map_of_SomeD)

lemma chain_snoc:
  assumes "is_chain m p" "h \<in> fst ` set m" "parent_of m h = Some (last p)"
  shows "is_chain m (p @ [h])"
proof -
  have "parent_of m ((p @ [h]) ! Suc i) = Some ((p @ [h]) ! i)" if "Suc i < length (p @ [h])" for i
    using assms that by (cases "Suc i < length p") (auto simp: is_chain_def nth_append last_conv_nth less_Suc_eq dest: sym)
  then show ?thesis
    using assms by (auto simp: is_chain_def nth_append)
qed

text \<open>From a chain the loop goes on to a chain whose last revision has no successor.\<close>

lemma chain_loop_returns:
  assumes "distinct (map fst m)" "is_chain m p"
  shows "\<exists>q. chain_loop m (next_of m (last p)) p = Some q \<and> is_chain m q \<and> next_of m (last q) = None"
  using assms(2)
proof (induction "length m - length p" arbitrary: p rule: less_induct)
  case less
  show ?case
  proof (cases "next_of m (last p)")
    case None
    then show ?thesis
      using less.prems by (auto simp: chain_loop.simps)
  next
    case (Some h)
    have "h \<in> fst ` set m" "parent_of m h = Some (last p)"
      using next_of_Some [OF Some assms(1)] by auto
    from chain_snoc [OF less.prems this] have c: "is_chain m (p @ [h])" .
    have "length m - length (p @ [h]) < length m - length p"
      using chain_length [OF c] by simp
    from less.hyps [OF this c] show ?thesis
      by (simp add: Some chain_loop.simps [of m "Some h"])
  qed
qed

lemma append_orphans_spec:
  "distinct order \<Longrightarrow> \<exists>rest. append_orphans m order = order @ rest \<and> distinct (order @ rest)
     \<and> set (order @ rest) = set order \<union> fst ` set m"
proof (induction m arbitrary: order)
  case (Cons e m)
  obtain h v where e: "e = (h, v)" by fastforce
  let ?o = "if h \<in> set order then order else order @ [h]"
  have d: "distinct ?o" using Cons.prems by simp
  obtain rest where "append_orphans m ?o = ?o @ rest" "distinct (?o @ rest)" "set (?o @ rest) = set ?o \<union> fst ` set m"
    using Cons.IH [OF d] by blast
  then show ?case
    by (intro exI [of _ "drop (length order) ?o @ rest"]) (auto simp: append_orphans_def e split: if_splits)
qed (simp add: append_orphans_def)

text \<open>Every chain is a part of one that holds all revisions.\<close>

lemma chain_prefix:
  assumes cs: "is_chain m cs" "set cs = fst ` set m" and p: "is_chain m p"
  shows "i < length p \<Longrightarrow> i < length cs \<and> p ! i = cs ! i"
proof (induction i)
  case 0
  have "p ! 0 \<in> set cs"
    using p cs(2) by (auto simp: is_chain_def)
  then obtain j where j: "j < length cs" "cs ! j = p ! 0" by (auto simp: in_set_conv_nth)
  have "j = 0"
    using cs(1) j chain_genesis [OF p] by (cases j) (auto simp: is_chain_def)
  then show ?case using j by simp
next
  case (Suc i)
  have "p ! Suc i \<in> set cs"
    using Suc.prems p cs(2) by (auto simp: is_chain_def)
  then obtain j where j: "j < length cs" "cs ! j = p ! Suc i" by (auto simp: in_set_conv_nth)
  have par: "parent_of m (p ! Suc i) = Some (cs ! i)"
    using Suc p by (auto simp: is_chain_def)
  then obtain k where k: "j = Suc k"
    using j chain_genesis [OF cs(1)] by (cases j) auto
  then have "cs ! k = cs ! i"
    using par j cs(1) by (auto simp: is_chain_def)
  then have "k = i"
    using chain_distinct [OF cs(1)] j k Suc by (simp add: nth_eq_iff_index_eq)
  then show ?case using j k by simp
qed

lemma chain_complete:
  assumes cs: "is_chain m cs" "set cs = fst ` set m" and p: "is_chain m p" and stop: "next_of m (last p) = None"
  shows "p = cs"
proof (rule nth_equalityI)
  note pre = chain_prefix [OF cs p]
  have le: "length p \<le> length cs"
    using pre by (meson not_le order_less_irrefl)
  have ne: "p \<noteq> []" using p by (simp add: is_chain_def)
  show "length p = length cs"
  proof (rule ccontr)
    assume "length p \<noteq> length cs"
    then have "Suc (length p - 1) < length cs" using le ne by (cases p) auto
    then have "parent_of m (cs ! length p) = Some (cs ! (length p - 1))"
      using cs(1) ne by (auto simp: is_chain_def dest: spec [of _ "length p - 1"])
    moreover have "last p = cs ! (length p - 1)"
      using pre [of "length p - 1"] ne by (simp add: last_conv_nth)
    ultimately show False
      using next_of_None [OF stop] by simp
  qed
  show "p ! i = cs ! i" if "i < length p" for i
    using pre [OF that] by simp
qed

lemma chain_from_genesis:
  assumes "distinct (map fst m)" "find_genesis m = Some g"
  shows "\<exists>q. chain_loop m (find_genesis m) [] = Some q \<and> is_chain m q \<and> next_of m (last q) = None"
proof -
  have "is_chain m [g]"
    using find_genesis_Some [OF assms(2,1)] by (auto simp: is_chain_def dest: map_of_SomeD intro: rev_image_eqI)
  from chain_loop_returns [OF assms(1) this] show ?thesis
    by (simp add: assms(2) chain_loop.simps [of m "Some g"])
qed

lemma topological_returns: "distinct (map fst m) \<Longrightarrow> \<exists>order. topological_revision_order m = Some order"
  using chain_from_genesis [of m]
  by (cases "find_genesis m") (auto simp: topological_revision_order_def chain_loop.simps)

text \<open>
  C33: The revision walk ends.  Whatever parent references the revisions of a tree carry, cyclic and
  dangling ones included, \<open>topological_revision_order\<close> returns; its result lists every revision
  exactly once and begins, when there is a genesis revision, with a chain of parent references from
  it that no revision continues.  When the revisions form one chain from a single genesis revision,
  the result is that chain.
\<close>

theorem topological_order_terminates:
  assumes dist: "distinct (map fst m)"
  shows "\<exists>order. topological_revision_order m = Some order \<and> distinct order \<and> set order = fst ` set m
    \<and> (find_genesis m \<noteq> None \<longrightarrow> (\<exists>p rest. order = p @ rest \<and> is_chain m p \<and> next_of m (last p) = None))
    \<and> (\<forall>cs. is_chain m cs \<and> set cs = fst ` set m \<longrightarrow> order = cs)"
proof (cases "find_genesis m")
  case None
  then have "\<not> is_chain m cs" for cs
    by (auto simp: is_chain_def find_genesis_def find_None_iff dest: map_of_SomeD)
  then show ?thesis
    using None append_orphans_spec [of "[]" m] by (auto simp: topological_revision_order_def chain_loop.simps)
next
  case (Some g)
  from chain_from_genesis [OF dist this] obtain q where
    q: "chain_loop m (find_genesis m) [] = Some q" "is_chain m q" "next_of m (last q) = None" by blast
  obtain rest where rest: "append_orphans m q = q @ rest" "distinct (q @ rest)" "set (q @ rest) = set q \<union> fst ` set m"
    using append_orphans_spec [OF chain_distinct [OF q(2)], of m] by blast
  have sub: "set (q @ rest) = fst ` set m"
    using rest(3) q(2) by (auto simp: is_chain_def)
  have run: "topological_revision_order m = Some (q @ rest)"
    using q(1) rest(1) by (simp add: topological_revision_order_def)
  have one: "q @ rest = cs" if cs: "is_chain m cs" "set cs = fst ` set m" for cs
  proof -
    have "q = cs" by (rule chain_complete [OF cs q(2,3)])
    moreover have "rest = []"
      using \<open>q = cs\<close> cs(2) sub rest(2) by (cases rest) auto
    ultimately show ?thesis by simp
  qed
  show ?thesis
    using run rest(2) sub q(2,3) one by blast
qed

definition demo_revisions :: json_map where
  "demo_revisions = [(''b'', JObj [(''previous_revision'', JStr ''c'')]), (''c'', JObj []),
     (''d'', JObj [(''previous_revision'', JStr ''b'')])]"

theorem topological_order_terminates_witness:
  "topological_revision_order demo_revisions = Some [''c'', ''b'', ''d'']"
proof -
  have chain: "is_chain demo_revisions [''c'', ''b'', ''d'']"
    by (simp add: is_chain_def demo_revisions_def parent_of_def parent_def is_genesis_def less_Suc_eq all_conj_distrib)
  have all: "set [''c'', ''b'', ''d''] = fst ` set demo_revisions"
    by (auto simp: demo_revisions_def)
  have "distinct (map fst demo_revisions)" by (simp add: demo_revisions_def)
  from topological_order_terminates [OF this] obtain order where
    order: "topological_revision_order demo_revisions = Some order"
    "\<forall>cs. is_chain demo_revisions cs \<and> set cs = fst ` set demo_revisions \<longrightarrow> order = cs" by blast
  show ?thesis using order(1) order(2) [rule_format, OF conjI [OF chain all]] by simp
qed

section \<open>The snapshot normaliser\<close>

text \<open>\<open>get_mut\<close> followed by an assignment: the entry is replaced where the map has the key.\<close>

definition set_entry :: "string \<Rightarrow> json \<Rightarrow> json_map \<Rightarrow> json_map" where
  "set_entry k v m = map (\<lambda>(k', v'). (k', if k' = k then v else v')) m"

definition update_entry :: "string \<Rightarrow> (json \<Rightarrow> json) \<Rightarrow> json_map \<Rightarrow> json_map" where
  "update_entry k f m = map (\<lambda>(k', v'). (k', if k' = k then f v' else v')) m"

fun nodes :: "json \<Rightarrow> nat" where
  "nodes (JObj m) = Suc (sum_list (map (nodes \<circ> snd) m))"
| "nodes (JArr vs) = Suc (sum_list (map nodes vs))"
| "nodes _ = 1"

lemma nodes_pos: "1 \<le> nodes v"
  by (cases v) simp_all

lemma nodes_member: "e \<in> set m \<Longrightarrow> nodes (snd e) < nodes (JObj m)"
  by (induction m) auto

lemma nodes_element: "v \<in> set vs \<Longrightarrow> nodes v < nodes (JArr vs)"
  by (induction vs) auto

lemma nodes_set_entry: "nodes (JObj (set_entry k (JStr t) m)) \<le> nodes (JObj m)"
proof (induction m)
  case (Cons e m)
  then show ?case
    using nodes_pos [of "snd e"] by (cases e) (auto simp: set_entry_def)
qed (simp add: set_entry_def)

lemma nodes_signature:
  assumes "(k', JObj inner) \<in> set m"
  shows "nodes (JObj (set_entry k (JStr t) inner)) < nodes (JObj m)"
  using nodes_member [OF assms] nodes_set_entry [of k t inner] by simp

text \<open>
  \<open>walk\<close>.  A \<open>signature\<close> object has its own \<open>signature\<close> entry replaced first and is walked after
  that, so the recursion is not structural.
\<close>

function walk :: "json \<Rightarrow> json" where
  "walk v =
     (case v of
        JObj m \<Rightarrow> JObj (map (\<lambda>e. (fst e,
          if fst e = ''nonce'' then JStr ''<NONCE>''
          else if fst e = ''local_timestamp'' then JU64 0
          else if fst e = ''valid_from'' then JU64 0
          else if fst e = ''deploy_version'' then JStr ''<VERSION>''
          else if fst e = ''signature''
          then (case snd e of
                  JStr _ \<Rightarrow> JStr ''0x<SIG>''
                | JObj inner \<Rightarrow> walk (JObj (set_entry ''signature'' (JStr ''0x<SIG>'') inner))
                | _ \<Rightarrow> walk (snd e))
          else walk (snd e))) m)
      | JArr items \<Rightarrow> JArr (map walk items)
      | _ \<Rightarrow> v)"
  by pat_completeness auto
termination
  by (relation "measure nodes") (auto simp: nodes_element nodes_signature simp del: nodes.simps dest: nodes_member)

declare walk.simps [simp del]

definition to_uppercase :: "string \<Rightarrow> string" where
  "to_uppercase s = map (\<lambda>c. if 97 \<le> (of_char c :: nat) \<and> of_char c \<le> (122 :: nat) then char_of (of_char c - 32 :: nat) else c) s"

definition placeholder :: "string \<Rightarrow> json" where
  "placeholder k = JStr (''<'' @ to_uppercase k @ ''>'')"

fun btree_insert :: "string \<Rightarrow> json \<Rightarrow> json_map \<Rightarrow> json_map" where
  "btree_insert k v [] = [(k, v)]"
| "btree_insert k v ((k', v') # m) =
     (if k < k' then (k, v) # (k', v') # m else if k = k' then (k, v) # m else (k', v') # btree_insert k v m)"

definition renumber :: "string list \<Rightarrow> json \<Rightarrow> json" where
  "renumber hash_order v =
     (case v of
        JObj m \<Rightarrow> JObj (fold (\<lambda>(idx, hash) new_map. case map_of m hash of
            Some r \<Rightarrow> btree_insert (''REV_'' @ show_nat idx) r new_map
          | None \<Rightarrow> new_map) (enumerate 0 hash_order) [])
      | _ \<Rightarrow> v)"

definition blank_slot :: "string \<Rightarrow> json \<Rightarrow> json" where
  "blank_slot k v =
     (case v of JStr _ \<Rightarrow> placeholder k | JArr items \<Rightarrow> JArr (map (\<lambda>_. placeholder k) items) | _ \<Rightarrow> v)"

definition on_object :: "(json_map \<Rightarrow> json_map) \<Rightarrow> json \<Rightarrow> json" where
  "on_object f v = (case v of JObj m \<Rightarrow> JObj (f m) | _ \<Rightarrow> v)"

definition blank_revision :: "json \<Rightarrow> json" where
  "blank_revision = on_object (\<lambda>obj.
     update_entry ''payloads'' (on_object (set_entry ''signer_did'' (JStr ''<SIGNER_DID>'')))
     (update_entry ''signature'' (on_object (set_entry ''signature_public_identifier'' (JStr ''<SIGNER_ADDR>'')))
     (fold (\<lambda>k. update_entry k (blank_slot k))
        [''previous_revision'', ''revision_type'', ''structural_links'', ''signer''] obj)))"

definition normalise_claim :: "json_map \<Rightarrow> json_map option" where
  "normalise_claim claim =
     (let order = (case map_of claim ''revisions'' of Some (JObj revs) \<Rightarrow> topological_revision_order revs | _ \<Rightarrow> Some [])
      in map_option (\<lambda>hash_order.
           update_entry ''file_index'' (on_object (map (\<lambda>(k, v). (k, JStr ''<NAME>''))))
           (update_entry ''revisions'' (on_object (map (\<lambda>(k, v). (k, blank_revision v))))
           (update_entry ''file_index'' (renumber hash_order)
           (update_entry ''revisions'' (renumber hash_order) claim)))) order)"

text \<open>\<open>None\<close> would be a walk over the revisions that does not end.\<close>

definition normalise_for_snapshot :: "json \<Rightarrow> json option" where
  "normalise_for_snapshot value =
     (let v = walk value;
          v' = (case json_get v ''identity_claim'' of
                  Some (JObj claim) \<Rightarrow> map_option (\<lambda>c. on_object (set_entry ''identity_claim'' (JObj c)) v) (normalise_claim claim)
                | _ \<Rightarrow> Some v)
      in map_option (on_object (fold (\<lambda>k. set_entry k (placeholder k)) [''server_did'', ''ethereum_address''])) v')"

text \<open>Objects have distinct keys, at every depth; \<open>walk\<close> keeps that.\<close>

inductive json_wf :: "json \<Rightarrow> bool" where
  wf_obj: "distinct (map fst m) \<Longrightarrow> \<forall>e\<in>set m. json_wf (snd e) \<Longrightarrow> json_wf (JObj m)"
| wf_arr: "\<forall>v\<in>set vs. json_wf v \<Longrightarrow> json_wf (JArr vs)"
| wf_null: "json_wf JNull"
| wf_bool: "json_wf (JBool b)"
| wf_u64: "json_wf (JU64 n)"
| wf_number: "json_wf (JNumber s)"
| wf_str: "json_wf (JStr s)"

inductive_cases json_wf_objE: "json_wf (JObj m)"
inductive_cases json_wf_arrE: "json_wf (JArr vs)"

lemmas json_wf_atoms [simp] = wf_null wf_bool wf_u64 wf_number wf_str

lemma json_wf_set_entry: "json_wf (JObj m) \<Longrightarrow> json_wf (JObj (set_entry k (JStr t) m))"
  by (force elim!: json_wf_objE intro!: wf_obj simp: set_entry_def comp_def case_prod_unfold)

lemma json_wf_walk: "json_wf v \<Longrightarrow> json_wf (walk v)"
proof (induction v rule: measure_induct_rule [of nodes])
  case (less v)
  show ?case
  proof (cases v)
    case (JObj m)
    have m: "distinct (map fst m)" "\<forall>e\<in>set m. json_wf (snd e)"
      using less.prems JObj by (auto elim: json_wf_objE)
    have child: "json_wf (walk (snd e))" if "e \<in> set m" for e
      using less.IH [of "snd e"] nodes_member [OF that] m(2) that JObj by simp
    have "json_wf (walk (JObj (set_entry k (JStr t) inner)))" if "e \<in> set m" "snd e = JObj inner" for e inner k t
      using less.IH [of "JObj (set_entry k (JStr t) inner)"] nodes_signature [of "fst e" inner m k t] m(2) that
      by (metis JObj json_wf_set_entry prod.collapse)
    then have "json_wf (case snd e of JStr _ \<Rightarrow> JStr ''0x<SIG>''
        | JObj inner \<Rightarrow> walk (JObj (set_entry ''signature'' (JStr ''0x<SIG>'') inner)) | _ \<Rightarrow> walk (snd e))"
      if "e \<in> set m" for e
      using child [OF that] that by (cases "snd e") auto
    with child show ?thesis
      using m(1) by (auto simp: JObj walk.simps [of "JObj m"] comp_def intro!: wf_obj)
  next
    case (JArr vs)
    have "json_wf (walk u)" if "u \<in> set vs" for u
      using less.IH [of u] nodes_element [OF that] less.prems that JArr by (auto elim: json_wf_arrE)
    then show ?thesis
      by (auto simp: JArr walk.simps [of "JArr vs"] intro!: wf_arr)
  qed (subst walk.simps, simp)+
qed

lemma normalise_total:
  assumes "json_wf value"
  shows "normalise_for_snapshot value \<noteq> None"
proof -
  have "normalise_claim claim \<noteq> None" if get: "json_get (walk value) ''identity_claim'' = Some (JObj claim)" for claim
  proof -
    obtain m where m: "walk value = JObj m" "map_of m ''identity_claim'' = Some (JObj claim)"
      using get by (cases "walk value") auto
    have "json_wf (JObj claim)"
      using json_wf_walk [OF assms] m by (auto elim!: json_wf_objE dest!: map_of_SomeD)
    then have "distinct (map fst revs)" if "map_of claim ''revisions'' = Some (JObj revs)" for revs
      using that by (auto elim!: json_wf_objE dest!: map_of_SomeD)
    then have "topological_revision_order revs \<noteq> None" if "map_of claim ''revisions'' = Some (JObj revs)" for revs
      using that topological_returns [of revs] by blast
    then show ?thesis
      by (auto simp: normalise_claim_def split: option.splits json.splits)
  qed
  then show ?thesis
    by (auto simp: normalise_for_snapshot_def Let_def split: option.splits json.splits)
qed

end
