(* ===== verification/App.thy ===== *)
theory App
  imports Routes Bonding_Curve Identity
begin

text \<open>
  Start-up (\<open>crates/aqua-timestamp/src/lib.rs\<close>): \<open>build_app_with_anchors\<close> checks the configuration,
  builds the identity document, opens the store, picks the first epoch id, puts the witness context
  together, and chooses the tasks to run; also the health-tick task and the \<open>/events\<close> stream.

  The constructors of the live providers and hosts, the signer, alloy's address parser, the keyspace
  behind a path and the page renderers are the record \<open>live_api\<close>.  Spawning a task is modelled by
  the description of the task that is spawned.
\<close>

section \<open>Data\<close>

record ('b, 't) live_api = "'t identity_api" +
  cli_eth_timestamper :: "string \<Rightarrow> string \<Rightarrow> evm_chain \<Rightarrow> provider"
  tsa_timestamper :: "string \<Rightarrow> u64 option \<Rightarrow> provider"
  eth_blockchain_host :: "u64 \<Rightarrow> string \<Rightarrow> nat \<Rightarrow> chain_host"
  tsa_web_host :: "nat \<Rightarrow> web_host"
  check_task_panics :: "nat \<Rightarrow> bool"
  signer_did_pkh :: "bytes \<Rightarrow> did option"
  parse_address :: "string \<Rightarrow> string + address"
  open_keyspace :: "string \<Rightarrow> store_error + 'b db"
  live_chain :: chain_api
  render_landing :: "service_identity \<Rightarrow> string"
  render_docs_html :: "service_identity \<Rightarrow> string"
  render_skill_md :: "service_identity \<Rightarrow> string"
  render_skill_auth_md :: "service_identity \<Rightarrow> string"

record anchor_overrides =
  ao_evm :: "provider option"
  ao_qtsa :: "provider option"
  ao_evm_check_host :: "(nat \<Rightarrow> chain_host) option"
  ao_tsa_check_host :: "(nat \<Rightarrow> web_host) option"

definition no_overrides :: anchor_overrides where
  "no_overrides = \<lparr>ao_evm = None, ao_qtsa = None, ao_evm_check_host = None, ao_tsa_check_host = None\<rparr>"

datatype seal_driver = Interval | Channel | Off

datatype app_error = AE_Anchors config_error | AE_ChainSource config_error | AE_Identity identity_error
  | AE_Store store_error | AE_LastSealed store_error | AE_ParseChain config_error | AE_Context seal_error
  | AE_Address string

datatype seal_task = CurveTask string address bonding_curve_params | IntervalTask u64 | ChannelTask u64 | NoTask

record 'b started =
  sta_state :: "'b app_state"
  sta_seal :: seal_task
  sta_watcher :: "(block_watcher \<times> u64) option"

section \<open>The witness context\<close>

definition choose_evm :: "('b, 't, 'z) live_api_scheme \<Rightarrow> evm_anchor_config \<Rightarrow> string \<Rightarrow> provider option
  \<Rightarrow> app_error + provider option" where
  "choose_evm L evm mnemonic injected =
     (if \<not> ec_enabled evm then Inr None
      else case injected of
        Some p \<Rightarrow> Inr (Some p)
      | None \<Rightarrow> and_then (map_err AE_ParseChain (evm_chain evm)) (\<lambda>chain.
          Inr (Some (cli_eth_timestamper L mnemonic (ec_rpc_url evm) chain))))"

definition choose_qtsa :: "('b, 't, 'z) live_api_scheme \<Rightarrow> qtsa_anchor_config \<Rightarrow> provider option \<Rightarrow> provider option" where
  "choose_qtsa L qtsa injected =
     (if \<not> qc_enabled qtsa then None
      else case injected of Some p \<Rightarrow> Some p | None \<Rightarrow> Some (tsa_timestamper L (qc_url qtsa) (throttle qtsa)))"

definition choose_evm_host :: "('b, 't, 'z) live_api_scheme \<Rightarrow> evm_anchor_config \<Rightarrow> anchor_method list
  \<Rightarrow> (nat \<Rightarrow> chain_host) option \<Rightarrow> app_error + (nat \<Rightarrow> chain_host) option" where
  "choose_evm_host L evm methods injected =
     (if Evm \<notin> set methods then Inr None
      else case injected of
        Some h \<Rightarrow> Inr (Some h)
      | None \<Rightarrow> and_then (map_err AE_ParseChain (evm_chain evm)) (\<lambda>chain.
          Inr (Some (eth_blockchain_host L (chain_id (live_chain L) chain) (ec_rpc_url evm)))))"

definition choose_tsa_host :: "('b, 't, 'z) live_api_scheme \<Rightarrow> anchor_method list
  \<Rightarrow> (nat \<Rightarrow> web_host) option \<Rightarrow> (nat \<Rightarrow> web_host) option" where
  "choose_tsa_host L methods injected =
     (if Qtsa \<notin> set methods then None
      else case injected of Some h \<Rightarrow> Some h | None \<Rightarrow> Some (tsa_web_host L))"

definition build_witness_context :: "('b, 't, 'z) live_api_scheme \<Rightarrow> config \<Rightarrow> service_identity \<Rightarrow> anchor_overrides
  \<Rightarrow> app_error + witness_context" where
  "build_witness_context L cfg identity anchors =
     (let evm = acs_evm (cfg_anchors cfg); qtsa = acs_qtsa (cfg_anchors cfg)
      in and_then (choose_evm L evm (si_mnemonic identity) (ao_evm anchors)) (\<lambda>evm_anchor.
         let qtsa_anchor = choose_qtsa L qtsa (ao_qtsa anchors);
             methods = (case evm_anchor of Some _ \<Rightarrow> [Evm] | None \<Rightarrow> []) @ (case qtsa_anchor of Some _ \<Rightarrow> [Qtsa] | None \<Rightarrow> []);
             ctx = (context_new (signer_did_pkh L (si_private_key identity))
                      (''0x'' @ trim_start_matches ''0x'' (si_address_eip55 identity)) methods)
                   \<lparr>wc_evm_not_found_timeout_secs := ec_not_found_timeout_secs evm, wc_check_panics := check_task_panics L\<rparr>;
             ctx = (case evm_anchor of Some p \<Rightarrow> with_evm_anchor p ctx | None \<Rightarrow> ctx);
             ctx = (case qtsa_anchor of Some p \<Rightarrow> with_qtsa_anchor p ctx | None \<Rightarrow> ctx)
         in and_then (choose_evm_host L evm methods (ao_evm_check_host anchors)) (\<lambda>evm_check_host.
            let ctx = with_self_check evm_check_host (choose_tsa_host L methods (ao_tsa_check_host anchors))
                        (ec_self_check_finality evm) ctx
            in and_then (map_err AE_Context (validate ctx)) (\<lambda>_. Inr ctx))))"

section \<open>Start-up\<close>

text \<open>The configuration check, with an injected provider standing in for the configured one.\<close>

definition check_anchors :: "config \<Rightarrow> string \<Rightarrow> anchor_overrides \<Rightarrow> config_error + unit" where
  "check_anchors cfg mnemonic anchors =
     (if Option.is_none (ao_evm anchors) \<or> Option.is_none (ao_qtsa anchors)
      then let a = cfg_anchors cfg;
               check = cfg\<lparr>cfg_anchors := a\<lparr>
                 acs_evm := (acs_evm a)\<lparr>ec_enabled := ec_enabled (acs_evm a) \<and> Option.is_none (ao_evm anchors)\<rparr>,
                 acs_qtsa := (acs_qtsa a)\<lparr>qc_enabled := qc_enabled (acs_qtsa a) \<and> Option.is_none (ao_qtsa anchors)\<rparr>\<rparr>\<rparr>
           in check_enabled_anchors check mnemonic
      else Inr ())"

definition next_epoch_id :: "'b store \<Rightarrow> app_error + u64" where
  "next_epoch_id s =
     and_then (map_err AE_LastSealed (last_sealed_epoch_id s)) (\<lambda>last.
       Inr (case last of Some n \<Rightarrow> sat_add n 1 | None \<Rightarrow> 1))"

definition choose_seal_task :: "('b, 't, 'z) live_api_scheme \<Rightarrow> config \<Rightarrow> service_identity \<Rightarrow> seal_driver
  \<Rightarrow> app_error + seal_task" where
  "choose_seal_task L cfg identity driver =
     (case driver of
        Interval \<Rightarrow>
          if bc_enabled (cfg_bonding_curve cfg)
          then and_then (map_err AE_Address (parse_address L (si_address_eip55 identity))) (\<lambda>wallet.
                 Inr (CurveTask (ec_rpc_url (acs_evm (cfg_anchors cfg))) wallet
                   \<lparr>bp_n_half = bc_n_half (cfg_bonding_curve cfg),
                    bp_poll_interval_secs = bc_poll_interval_secs (cfg_bonding_curve cfg),
                    bp_min_balance_multiplier = bc_min_balance_multiplier (cfg_bonding_curve cfg)\<rparr>))
          else Inr (IntervalTask (epc_duration_secs (cfg_epoch cfg)))
      | Channel \<Rightarrow> Inr (ChannelTask (epc_duration_secs (cfg_epoch cfg)))
      | Off \<Rightarrow> Inr NoTask)"

definition choose_watcher :: "('b, 't, 'z) live_api_scheme \<Rightarrow> config \<Rightarrow> service_identity \<Rightarrow> (block_watcher \<times> u64) option" where
  "choose_watcher L cfg identity =
     (if lc_enabled (cfg_leaderboard cfg)
      then (case parse_address L (watched_address (cfg_leaderboard cfg) (si_address_eip55 identity)) of
              Inr addr \<Rightarrow> Some (\<lparr>bw_rpc_url = lc_rpc_url (cfg_leaderboard cfg), bw_wallet_address = addr,
                  bw_chain_id = leaderboard_chain_id cfg\<rparr>, lc_poll_interval_secs (cfg_leaderboard cfg))
            | Inl e \<Rightarrow> None)
      else None)"

definition build_app_with_anchors ::
  "('b, 't, 'z) live_api_scheme \<Rightarrow> u64 \<Rightarrow> config \<Rightarrow> service_identity \<Rightarrow> u64 option \<Rightarrow> seal_driver \<Rightarrow> anchor_overrides
   \<Rightarrow> app_error + 'b started" where
  "build_app_with_anchors L now cfg identity valid_from driver anchors =
     and_then (map_err AE_Anchors (check_anchors cfg (si_mnemonic identity) anchors)) (\<lambda>_.
     and_then (map_err AE_ChainSource (check_evm_chain_source (live_chain L) cfg)) (\<lambda>_.
     and_then (map_err AE_Identity (build_identity_tree L now identity valid_from)) (\<lambda>tree.
     and_then (map_err AE_Identity (build_response L identity tree)) (\<lambda>response.
     and_then (map_err AE_Store (open_keyspace L (stc_path (cfg_storage cfg)))) (\<lambda>keyspace.
     let store = store_open keyspace
     in and_then (next_epoch_id store) (\<lambda>n.
        and_then (build_witness_context L cfg identity anchors) (\<lambda>ctx.
        and_then (choose_seal_task L cfg identity driver) (\<lambda>task.
        Inr \<lparr>sta_state = \<lparr>ap_config = cfg, ap_identity_response_json = response,
               ap_accumulator = accumulator_new n now (epc_duration_secs (cfg_epoch cfg)), ap_store = store,
               ap_witness_ctx = ctx, ap_landing_html = render_landing L identity, ap_docs_html = render_docs_html L identity,
               ap_well_known_skill_md = render_skill_md L identity,
               ap_well_known_skill_auth_md = render_skill_auth_md L identity, ap_uptime_secs = 0\<rparr>,
             sta_seal = task, sta_watcher = choose_watcher L cfg identity\<rparr>))))))))"

definition build_app ::
  "('b, 't, 'z) live_api_scheme \<Rightarrow> u64 \<Rightarrow> config \<Rightarrow> service_identity \<Rightarrow> u64 option \<Rightarrow> seal_driver \<Rightarrow> app_error + 'b started" where
  "build_app L now cfg identity valid_from driver =
     build_app_with_anchors L now cfg identity valid_from driver no_overrides"

section \<open>The health tick and the event stream\<close>

text \<open>One round of the health-tick task: the event it sends, if the totals can be read.\<close>

definition health_tick :: "('b, 'z) store_api_scheme \<Rightarrow> 'b store \<Rightarrow> u64 \<Rightarrow> sse_event option" where
  "health_tick x s uptime_secs =
     (case store_totals x s of Inr (epochs_total, leaves_total) \<Rightarrow> Some (HealthTick uptime_secs epochs_total leaves_total) | Inl e \<Rightarrow> None)"

text \<open>
  \<open>sse_events\<close>: the frames made of what the subscription yields, an event or a lag (\<open>None\<close>);
  \<open>to_string\<close> is serde's printer.
\<close>

definition sse_events :: "(json \<Rightarrow> string + string) \<Rightarrow> sse_event option list \<Rightarrow> (string \<times> string) list" where
  "sse_events to_string received =
     List.map_filter (\<lambda>result. case result of
        Some event \<Rightarrow> (case to_string (event_json event) of Inr j \<Rightarrow> Some (event_name event, j) | Inl e \<Rightarrow> None)
      | None \<Rightarrow> None) received"

section \<open>What a started service has\<close>

lemma close_epoch_error:
  assumes "close_epoch x c t d ws down acc w = (SealErr e, acc', w')"
  shows "(\<exists>s. e = SealStore s) \<or> (\<exists>v. e = SealWitness v)"
proof -
  obtain snapshot acc1 where "swap_and_open_next t t d acc = (snapshot, acc1)" by fastforce
  then show ?thesis
    using assms by (auto simp: close_epoch_def Let_def split: sum.splits prod.splits option.splits bool.splits)
qed

lemma seal_once_error:
  assumes "validate ctx = Inr ()" "fst (seal_once x (Some ctx) t d acc w) = SealErr e"
  shows "(\<exists>s. e = SealStore s) \<or> (\<exists>v. e = SealWitness v)"
proof -
  obtain acc' w' where "seal_once x (Some ctx) t d acc w = (SealErr e, acc', w')"
    using assms(2) by (metis prod.collapse)
  then show ?thesis
    by (cases rule: seal_once_cases) (use assms(1) in \<open>auto dest: close_epoch_error\<close>)
qed

lemma build_context_fields:
  assumes "build_witness_context L cfg identity anchors = Inr ctx"
  shows "validate ctx = Inr ()"
    and "wc_methods ctx = (if ec_enabled (acs_evm (cfg_anchors cfg)) then [Evm] else [])
      @ (if qc_enabled (acs_qtsa (cfg_anchors cfg)) then [Qtsa] else [])"
    and "wc_evm_not_found_timeout_secs ctx = ec_not_found_timeout_secs (acs_evm (cfg_anchors cfg))"
    and "ec_enabled (acs_evm (cfg_anchors cfg)) \<Longrightarrow> ao_evm anchors = None \<Longrightarrow> ao_evm_check_host anchors = None \<Longrightarrow>
      \<exists>c. evm_chain (acs_evm (cfg_anchors cfg)) = Inr c
        \<and> wc_evm_anchor ctx = Some (cli_eth_timestamper L (si_mnemonic identity) (ec_rpc_url (acs_evm (cfg_anchors cfg))) c)
        \<and> wc_blockchain ctx = Some (eth_blockchain_host L (chain_id (live_chain L) c) (ec_rpc_url (acs_evm (cfg_anchors cfg))))"
  using assms
  by (auto simp: build_witness_context_def choose_evm_def choose_qtsa_def choose_evm_host_def Let_def context_new_def
      with_evm_anchor_def with_qtsa_anchor_def with_self_check_def split: if_splits option.splits)

lemma build_app_parts:
  assumes "build_app_with_anchors L now cfg identity valid_from driver anchors = Inr app"
  obtains keyspace n ctx where "check_evm_chain_source (live_chain L) cfg = Inr ()"
    "open_keyspace L (stc_path (cfg_storage cfg)) = Inr keyspace" "next_epoch_id (store_open keyspace) = Inr n"
    "build_witness_context L cfg identity anchors = Inr ctx" "ap_witness_ctx (sta_state app) = ctx"
    "ap_accumulator (sta_state app) = accumulator_new n now (epc_duration_secs (cfg_epoch cfg))"
    "ap_store (sta_state app) = store_open keyspace"
  using assms by (auto simp: build_app_with_anchors_def Let_def)

section \<open>The store is well typed\<close>

text \<open>
  What every reader of the store relies on: each partition is sorted by key without repetition, and
  every entry of the epoch log decodes to a record whose id is its key.
\<close>

definition store_typed :: "('b, 'z) store_api_scheme \<Rightarrow> 'b db \<Rightarrow> bool" where
  "store_typed y d \<longleftrightarrow> db_wf d \<and> epochs_ok y d"

definition epoch_codec_stable :: "'b sdk_at \<Rightarrow> ('b, 'z) store_api_scheme \<Rightarrow> bool" where
  "epoch_codec_stable x y \<longleftrightarrow> (\<forall>n r v. enc_epoch (x n) r = Inr v \<longrightarrow> dec_epoch y v = Inr r)"

lemma sealed_ops_epoch_put:
  assumes "sealed_ops x r leaves ws pending = Inr ops" "Put_epochs k v \<in> set ops"
  shows "enc_epoch x r = Inr v \<and> k = to_be_bytes (er_id r)"
proof -
  obtain p_ops encoded w_ops where *: "case pending of None \<Rightarrow> p_ops = [] | Some p \<Rightarrow> pending_ops x p = Inr p_ops"
    "enc_epoch x r = Inr encoded" "write_witnesses x ws = Inr w_ops"
    "ops = p_ops @ [Put_epochs (to_be_bytes (er_id r)) encoded] @ leaf_ops (er_id r) leaves @ w_ops"
    using assms(1) by (rule sealed_ops_InrD)
  show ?thesis
    using assms(2) pending_ops_parts [OF *(1), of "Put_epochs k v"] write_witnesses_parts [OF *(3), of "Put_epochs k v"] *(2)
    by (auto simp: *(4) leaf_ops_set)
qed

lemma store_typed_same_epochs:
  assumes "store_typed y d" "db_epochs (apply_batch ops d) = db_epochs d"
  shows "store_typed y (apply_batch ops d)"
  using assms by (simp add: store_typed_def epochs_ok_def)

lemma tick_store_typed:
  assumes claims: "\<And>n. anchor_claims (x n)" and codec: "epoch_codec_stable x y"
  shows "tick_invariant x ctx (\<lambda>s. store_typed y (st_db s) \<and> store_typed y (st_disk s)) (\<lambda>_. True)"
proof (intro tick_invariant.intro settle_invariant.intro tick_invariant_axioms.intro, goal_cases)
  case (1 n)
  then show ?case by (rule claims)
next
  case (2 s p n r s')
  then show ?case
    by (auto simp: save_pending_def split: sum.splits
        dest!: commit_both [where J = "store_typed y"] intro: store_typed_same_epochs)
next
  case (3 s p n m ws r s')
  from 3(3) show ?case
  proof (cases rule: persist_pending_minted_cases)
    case err
    with 3(1) show ?thesis by simp
  next
    case (run ops)
    then show ?thesis
      using commit_both [OF run(2), where J = "store_typed y"] 3(1) minted_ops_epoch_parts [OF run(1)]
        store_typed_same_epochs [of y "st_db s" ops] by simp
  qed
next
  case (8 s n er ls pending r s')
  have "store_typed y (apply_batch ops d)" if "sealed_ops (x n) er ls [] pending = Inr ops" "store_typed y d" for ops d
    using that codec epochs_ok_batch [of y d ops] sealed_ops_epoch_put [OF that(1)]
    by (force simp: store_typed_def epoch_codec_stable_def)
  with 8 show ?case
    by (auto simp: persist_sealed_epoch_with_pending_def split: sum.splits
        dest!: commit_both [where J = "store_typed y"])
qed simp_all

lemma reach_store_typed:
  assumes "\<forall>n. anchor_claims (x n)" and "epoch_codec_stable x y" and "sys.reach x ctx \<sigma>"
  shows "store_typed y (st_db (w_store (sy_world \<sigma>)))" and "store_typed y (st_disk (w_store (sy_world \<sigma>)))"
proof -
  have "store_typed y empty_db"
    by (simp add: store_typed_def epochs_ok_def) (simp add: empty_db_def)
  then show "store_typed y (st_db (w_store (sy_world \<sigma>)))" "store_typed y (st_disk (w_store (sy_world \<sigma>)))"
    using tick_invariant_reach [OF tick_store_typed _ assms(3), of y] assms(1,2) by blast+
qed

lemma next_epoch_id_above:
  assumes "epochs_ok y (st_db s)" "st_read_err s = (\<lambda>_ _. None)"
  shows "\<exists>n. next_epoch_id s = Inr n \<and> (\<forall>r\<in>set (epoch_log y (st_db s)). er_id r < n \<or> n = u64_max)"
proof (cases "last_sealed_epoch_id s")
  case (Inl e)
  then show ?thesis
    using last_sealed_is_maximum [OF assms] by simp
next
  case (Inr o')
  show ?thesis
  proof (cases o')
    case None
    then show ?thesis
      using Inr last_sealed_is_maximum [OF assms] by (simp add: next_epoch_id_def)
  next
    case (Some m)
    then have "\<forall>r\<in>set (epoch_log y (st_db s)). er_id r \<le> m"
      using Inr last_sealed_is_maximum [OF assms] by simp
    moreover have "a < sat_add m 1 \<or> sat_add m 1 = u64_max" if "a \<le> m" for a :: u64
    proof (cases "unat m + 1 < 2 ^ 64")
      case True
      then show ?thesis using le_less_trans [OF that sat_add_1_less [OF True]] by blast
    qed (simp add: sat_add_def)
    ultimately show ?thesis
      using Inr Some by (auto simp: next_epoch_id_def)
  qed
qed

section \<open>A concrete deployment\<close>

text \<open>The default configuration, with providers and hosts that always answer, on a given keyspace.\<close>

definition demo_identity :: service_identity where
  "demo_identity = \<lparr>si_address_eip55 = ''0xAb'', si_server_did = ''did:pkh:eip155:1:0xAb'', si_chain_id = 1,
     si_trust_domain = ''timestamp'', si_dns = ''openwitness.org'', si_ip = ''127.0.0.1'', si_private_key = [1, 2],
     si_mnemonic = ''test test''\<rparr>"

definition demo_live :: "ref_blob db \<Rightarrow> (ref_blob, json) live_api" where
  "demo_live d =
     \<lparr>hex_encode = base16_encode, hex_decode = base16_decode, sha3_256 = (\<lambda>b. replicate 32 0),
      get_wallet = (\<lambda>m. Inr (''ab'', ''0xAb'', ''0x0102'')), claim_validate = (\<lambda>_. Inr ()),
      claim_to_value = (\<lambda>c. Inr (JStr (cl_signer_did c))), service_claim_template_link = replicate 32 9,
      create_object_util = (\<lambda>_ v. Inr v), sign_aqua_tree_with_signer = (\<lambda>_ t. Inr t), tree_to_value = Inr,
      cargo_pkg_version = None,
      cli_eth_timestamper = (\<lambda>_ _ _ n root. Inr demo_value), tsa_timestamper = (\<lambda>_ _ n root. Inr demo_value),
      eth_blockchain_host = (\<lambda>_ _ n _. ''final''), tsa_web_host = (\<lambda>n _ _ _. Inl ''unused''),
      check_task_panics = (\<lambda>_. False), signer_did_pkh = (\<lambda>_. Some ''did:svc''),
      parse_address = (\<lambda>_. Inr (replicate 20 0)), open_keyspace = (\<lambda>_. Inr d), live_chain = ref_chain_api,
      render_landing = (\<lambda>_. ''landing''), render_docs_html = (\<lambda>_. ''docs''), render_skill_md = (\<lambda>_. ''skill''),
      render_skill_auth_md = (\<lambda>_. ''auth'')\<rparr>"

definition demo_start_up :: "ref_blob db \<Rightarrow> app_error + ref_blob started" where
  "demo_start_up d = build_app_with_anchors (demo_live d) 1000 (default_config ''0.0.0.0:80'') demo_identity None Interval no_overrides"

lemma demo_starts:
  assumes "next_epoch_id (store_open d) = Inr n"
  shows "\<exists>app. demo_start_up d = Inr app"
proof -
  have "check_anchors (default_config ''0.0.0.0:80'') (si_mnemonic demo_identity) no_overrides = Inr ()"
    "check_evm_chain_source ref_chain_api (default_config ''0.0.0.0:80'') = Inr ()"
    by code_simp+
  moreover have "\<exists>ctx. build_witness_context (demo_live d) (default_config ''0.0.0.0:80'') demo_identity no_overrides = Inr ctx"
    by (simp add: build_witness_context_def choose_evm_def choose_qtsa_def choose_evm_host_def choose_tsa_host_def Let_def
        context_new_def with_evm_anchor_def with_qtsa_anchor_def with_self_check_def validate_def demo_live_def
        default_config_def default_evm_anchor_config_def default_qtsa_anchor_config_def evm_chain_def default_evm_chain_def
        no_overrides_def)
  ultimately show ?thesis
    using assms
    by (auto simp: demo_start_up_def build_app_with_anchors_def demo_live_def build_identity_tree_def build_response_def
        choose_seal_task_def default_config_def default_bonding_curve_config_def Let_def)
qed

lemma demo_epoch_codec_stable: "epoch_codec_stable demo_sdk (demo_sdk 0)"
  by (simp add: epoch_codec_stable_def demo_sdk_def ref_check_api_def ref_store_api_def sdk_api.defs store_api.defs check_api.defs)

section \<open>Properties\<close>

text \<open>
  C17: A service that starts is wired consistently.  Its witness context holds exactly the methods the
  configuration enables, each with a provider and a self-check host, so that no tick is ever refused
  for its configuration: the only errors of \<open>seal_once\<close> are those of the store and of the batch.  With
  EVM anchoring on, the not-found timeout is positive and, without injected parts, the provider that
  sends the anchors and the host that the self-check reads are built for one and the same chain and
  RPC endpoint, a chain whose network name reads back as its id.
\<close>

theorem started_service_consistent:
  assumes run: "build_app_with_anchors L now cfg identity valid_from driver anchors = Inr app"
  shows "let ctx = ap_witness_ctx (sta_state app); evm = acs_evm (cfg_anchors cfg); qtsa = acs_qtsa (cfg_anchors cfg) in
    wc_methods ctx = (if ec_enabled evm then [Evm] else []) @ (if qc_enabled qtsa then [Qtsa] else [])
    \<and> (fst (seal_once x (Some ctx) closed_at dur acc w) = SealErr e \<longrightarrow> (\<exists>s. e = SealStore s) \<or> (\<exists>v. e = SealWitness v))
    \<and> (ec_enabled evm \<longrightarrow> wc_evm_not_found_timeout_secs ctx \<noteq> 0
        \<and> (ao_evm anchors = None \<and> ao_evm_check_host anchors = None \<longrightarrow>
            (\<exists>c. wc_evm_anchor ctx = Some (cli_eth_timestamper L (si_mnemonic identity) (ec_rpc_url evm) c)
               \<and> wc_blockchain ctx = Some (eth_blockchain_host L (chain_id (live_chain L) c) (ec_rpc_url evm))
               \<and> chain_id_for_network (live_chain L) (network_claim (live_chain L) c) = Some (chain_id (live_chain L) c))))"
proof -
  let ?evm = "acs_evm (cfg_anchors cfg)"
  obtain keyspace n ctx where parts: "check_evm_chain_source (live_chain L) cfg = Inr ()"
    "build_witness_context L cfg identity anchors = Inr ctx" "ap_witness_ctx (sta_state app) = ctx"
    using run by (rule build_app_parts)
  note ctx = build_context_fields [OF parts(2)]
  have chain: "ec_not_found_timeout_secs ?evm \<noteq> 0
      \<and> (\<forall>c. evm_chain ?evm = Inr c \<longrightarrow> chain_id_for_network (live_chain L) (network_claim (live_chain L) c) = Some (chain_id (live_chain L) c))"
    if "ec_enabled ?evm"
    using parts(1) that by (auto simp: check_evm_chain_source_iff Let_def)
  have "(\<exists>s. e = SealStore s) \<or> (\<exists>v. e = SealWitness v)" if "fst (seal_once x (Some ctx) closed_at dur acc w) = SealErr e"
    using ctx(1) that by (rule seal_once_error)
  then show ?thesis
    unfolding Let_def parts(3) using ctx(2,3,4) chain by auto
qed

theorem started_service_consistent_witness:
  "\<exists>app. demo_start_up empty_db = Inr app \<and> wc_methods (ap_witness_ctx (sta_state app)) = [Evm, Qtsa]
     \<and> wc_evm_not_found_timeout_secs (ap_witness_ctx (sta_state app)) \<noteq> 0"
proof -
  have "next_epoch_id (store_open empty_db) = Inr 1" by code_simp
  from demo_starts [OF this] obtain app where app: "demo_start_up empty_db = Inr app" by blast
  have "ec_enabled (acs_evm (cfg_anchors (default_config ''0.0.0.0:80'')))"
    "qc_enabled (acs_qtsa (cfg_anchors (default_config ''0.0.0.0:80'')))" by code_simp+
  with started_service_consistent [OF app [unfolded demo_start_up_def], of demo_sdk 0 0 demo_acc demo_world NoServiceDid] app show ?thesis
    unfolding Let_def by auto
qed

text \<open>
  C32: The store is well typed in every reachable state, in memory and on disk: every partition is
  strictly ascending in its keys, and every entry of the epoch log decodes to a record whose id is its
  key.  The listing routes and the restart rely on this.
\<close>

theorem reachable_store_typed:
  assumes "\<forall>n. anchor_claims (x n)" and "epoch_codec_stable x y" and "sys.reach x ctx \<sigma>"
  shows "store_typed y (st_db (w_store (sy_world \<sigma>))) \<and> store_typed y (st_disk (w_store (sy_world \<sigma>)))"
  using reach_store_typed [OF assms] by blast

theorem reachable_store_typed_witness:
  "case demo_tick of (r, acc, w) \<Rightarrow> store_typed (demo_sdk 0) (st_db (w_store w)) \<and> store_typed (demo_sdk 0) (st_disk (w_store w))"
proof -
  obtain r acc w where tick: "demo_tick = (r, acc, w)" by (metis prod_cases3)
  then obtain acc' where "sys.reach demo_sdk demo_ctx \<lparr>sy_acc = acc', sy_world = w\<rparr>"
    using demo_tick_reachable [of demo_sdk demo_ctx r acc w] by (auto simp: demo_tick_def)
  from reachable_store_typed [OF _ demo_epoch_codec_stable this] show ?thesis
    by (simp add: tick demo_claims)
qed

text \<open>
  C16: A restart does not reuse an epoch id.  When the service starts on what a reachable state left on
  disk, it opens an empty epoch whose id is greater than every id of the epoch log on that disk; the
  only exception is the last 64-bit id, where the counter saturates.
\<close>

theorem restart_opens_new_epoch:
  assumes claims: "\<forall>n. anchor_claims (x n)" and codec: "epoch_codec_stable x y" and reach: "sys.reach x ctx \<sigma>"
    and disk: "open_keyspace L (stc_path (cfg_storage cfg)) = Inr (st_disk (w_store (sy_world \<sigma>)))"
    and run: "build_app_with_anchors L now cfg identity valid_from driver anchors = Inr app"
  shows "let acc = ap_accumulator (sta_state app) in
    ai_leaves acc = [] \<and> acc_inv acc \<and> ap_store (sta_state app) = store_open (st_disk (w_store (sy_world \<sigma>)))
    \<and> list_all (\<lambda>r. er_id r < ai_epoch_id acc \<or> ai_epoch_id acc = u64_max) (epoch_log y (st_disk (w_store (sy_world \<sigma>))))"
proof -
  obtain keyspace n where parts: "open_keyspace L (stc_path (cfg_storage cfg)) = Inr keyspace"
    "next_epoch_id (store_open keyspace) = Inr n"
    "ap_accumulator (sta_state app) = accumulator_new n now (epc_duration_secs (cfg_epoch cfg))"
    "ap_store (sta_state app) = store_open keyspace"
    using run by (rule build_app_parts)
  have ks: "keyspace = st_disk (w_store (sy_world \<sigma>))" using parts(1) disk by simp
  have "epochs_ok y (st_db (store_open keyspace))"
    using reach_store_typed(2) [OF claims codec reach] by (simp add: ks store_open_def store_typed_def)
  from next_epoch_id_above [OF this] have
    "\<forall>r\<in>set (epoch_log y keyspace). er_id r < n \<or> n = u64_max"
    using parts(2) by (auto simp: store_open_def)
  moreover have "ai_leaves (accumulator_new n t d) = []" "ai_epoch_id (accumulator_new n t d) = n"
    "acc_inv (accumulator_new n t d)" for t d
    by (simp_all add: accumulator_new_def acc_inv_with_leaf_cap) (simp_all add: with_leaf_cap_def)
  ultimately show ?thesis
    using parts(3,4) ks by (auto simp: Let_def list_all_iff)
qed

theorem restart_opens_new_epoch_witness:
  "case demo_tick of (r, acc, w) \<Rightarrow>
     (\<exists>app. demo_start_up (st_disk (w_store w)) = Inr app \<and> 7 < ai_epoch_id (ap_accumulator (sta_state app)))"
proof -
  obtain r acc w where tick: "demo_tick = (r, acc, w)" by (metis prod_cases3)
  then obtain acc' where reach: "sys.reach demo_sdk demo_ctx \<lparr>sy_acc = acc', sy_world = w\<rparr>"
    using demo_tick_reachable [of demo_sdk demo_ctx r acc w] by (auto simp: demo_tick_def)
  have "case demo_tick of (r, acc, w) \<Rightarrow> map er_id (epoch_log (demo_sdk 0) (st_disk (w_store w))) = [7]"
    by code_simp
  then have log: "map er_id (epoch_log (demo_sdk 0) (st_disk (w_store w))) = [7]"
    by (simp add: tick)
  have "epochs_ok (demo_sdk 0) (st_db (store_open (st_disk (w_store w))))"
    using reach_store_typed(2) [OF _ demo_epoch_codec_stable reach] by (simp add: demo_claims store_typed_def store_open_def)
  from next_epoch_id_above [OF this] obtain n where n: "next_epoch_id (store_open (st_disk (w_store w))) = Inr n"
    by (auto simp: store_open_def)
  obtain app where app: "demo_start_up (st_disk (w_store w)) = Inr app"
    using demo_starts [OF n] by blast
  have "list_all (\<lambda>r. er_id r < ai_epoch_id (ap_accumulator (sta_state app)) \<or> ai_epoch_id (ap_accumulator (sta_state app)) = u64_max)
      (epoch_log (demo_sdk 0) (st_disk (w_store w)))"
    using restart_opens_new_epoch [OF _ demo_epoch_codec_stable reach _ app [unfolded demo_start_up_def]] demo_claims
    by (simp add: Let_def demo_live_def)
  moreover have "7 < (u64_max :: u64)" by simp
  ultimately have "7 < ai_epoch_id (ap_accumulator (sta_state app))"
    using log by auto
  with app show ?thesis by (simp add: tick)
qed

end
