(* ===== verification/Client_Auth.thy ===== *)
theory Client_Auth
  imports Leaf_Hex
begin

text \<open>
  The client's token cache (\<open>crates/aqua-timestamp-client/src/auth.rs\<close>): \<open>ensure_token\<close> run by any
  number of concurrent callers that share one \<open>AuthState\<close>.

  The callers interleave at the granularity of the shared accesses: the look at the cache under its
  mutex, the compare-and-exchange of \<open>in_flight\<close>, the creation of the \<open>Notified\<close> future, the outcome
  of the refresh with the write to the cache, the store to \<open>in_flight\<close>, and \<open>notify_waiters\<close>.  Tokio's
  \<open>notify_waiters\<close> wakes exactly the callers whose \<open>Notified\<close> future exists at that moment and keeps no
  permit.  A caller's future may be dropped where it awaits.  The handshake itself belongs to
  \<open>aqua-auth\<close>: its outcome is a label of the step.
\<close>

section \<open>State\<close>

record cached =
  ca_token :: string
  ca_valid_until :: u64

datatype phase = Idle | Checking | Claiming | Lost | Waiting | Refreshing
  | Releasing "string + string" | Notifying "string + string" | Returned "string + string" | Dropped

record auth_state =
  at_cached :: "cached option"
  at_in_flight :: bool
  at_now :: u64
  at_phase :: "nat \<Rightarrow> phase"

definition REFRESH_LEAD_SECS :: u64 where
  "REFRESH_LEAD_SECS = 60"

definition needs_refresh :: "u64 \<Rightarrow> u64 \<Rightarrow> bool" where
  "needs_refresh now valid_until \<longleftrightarrow> now + REFRESH_LEAD_SECS \<ge> valid_until"

definition auth_state_new :: "u64 \<Rightarrow> auth_state" where
  "auth_state_new now = \<lparr>at_cached = None, at_in_flight = False, at_now = now, at_phase = (\<lambda>_. Idle)\<rparr>"

definition set_phase :: "nat \<Rightarrow> phase \<Rightarrow> auth_state \<Rightarrow> auth_state" where
  "set_phase c p s = s\<lparr>at_phase := (at_phase s)(c := p)\<rparr>"

section \<open>The operations\<close>

text \<open>
  \<open>run_refresh\<close>: the signature is decoded inside the handshake (\<open>sign_closure\<close>); a session replaces
  the cached token, an error leaves it.
\<close>

definition sign_closure :: "'z codec_api_scheme \<Rightarrow> (from_hex_error \<Rightarrow> string) \<Rightarrow> (string \<Rightarrow> string + string) \<Rightarrow> string \<Rightarrow> string + bytes" where
  "sign_closure x show_err sign msg =
     and_then (sign msg) (\<lambda>hex_sig.
       map_err (\<lambda>e. ''signer returned non-hex signature: '' @ show_err e) (hex_decode x (trim_start_matches ''0x'' hex_sig)))"

definition run_refresh :: "string + cached \<Rightarrow> auth_state \<Rightarrow> (string + string) \<times> auth_state" where
  "run_refresh session s =
     (case session of
        Inl e \<Rightarrow> (Inl e, s)
      | Inr c \<Rightarrow> (Inr (ca_token c), s\<lparr>at_cached := Some c\<rparr>))"

definition look_in_cache :: "auth_state \<Rightarrow> string option" where
  "look_in_cache s =
     (case at_cached s of
        Some c \<Rightarrow> if needs_refresh (at_now s) (ca_valid_until c) then None else Some (ca_token c)
      | None \<Rightarrow> None)"

definition notify_waiters :: "auth_state \<Rightarrow> auth_state" where
  "notify_waiters s = s\<lparr>at_phase := (\<lambda>c. if at_phase s c = Waiting then Checking else at_phase s c)\<rparr>"

text \<open>The next action of a caller inside \<open>ensure_token\<close>; \<open>session\<close> is what the handshake answers.\<close>

definition ensure_token_step :: "nat \<Rightarrow> string + cached \<Rightarrow> auth_state \<Rightarrow> auth_state option" where
  "ensure_token_step c session s =
     (case at_phase s c of
        Checking \<Rightarrow> Some (case look_in_cache s of Some t \<Rightarrow> set_phase c (Returned (Inr t)) s | None \<Rightarrow> set_phase c Claiming s)
      | Claiming \<Rightarrow> Some (if at_in_flight s then set_phase c Lost s
                          else set_phase c Refreshing (s\<lparr>at_in_flight := True\<rparr>))
      | Lost \<Rightarrow> Some (set_phase c Waiting s)
      | Refreshing \<Rightarrow> Some (case run_refresh session s of (r, s') \<Rightarrow> set_phase c (Releasing r) s')
      | Releasing r \<Rightarrow> Some (set_phase c (Notifying r) (s\<lparr>at_in_flight := False\<rparr>))
      | Notifying r \<Rightarrow> Some (set_phase c (Returned r) (notify_waiters s))
      | _ \<Rightarrow> None)"

datatype token_label = Call nat | Act nat "string + cached" | Drop nat | Clock u64

inductive token_step :: "auth_state \<Rightarrow> token_label \<Rightarrow> auth_state \<Rightarrow> bool" where
  call: "at_phase s c \<in> {Idle, Dropped} \<or> (\<exists>r. at_phase s c = Returned r) \<Longrightarrow> token_step s (Call c) (set_phase c Checking s)"
| act: "ensure_token_step c session s = Some s' \<Longrightarrow> token_step s (Act c session) s'"
| drop: "at_phase s c \<in> {Checking, Waiting, Refreshing} \<Longrightarrow> token_step s (Drop c) (set_phase c Dropped s)"
| clock: "at_now s \<le> t \<Longrightarrow> token_step s (Clock t) (s\<lparr>at_now := t\<rparr>)"

inductive_cases token_actE: "token_step s (Act c session) t"

definition auth_fresh :: "auth_state \<Rightarrow> bool" where
  "auth_fresh s \<longleftrightarrow> (\<exists>now. s = auth_state_new now)"

interpretation token: transition_system auth_fresh token_step .

section \<open>Single flight\<close>

text \<open>The callers between winning the exchange and giving \<open>in_flight\<close> back.\<close>

fun owns :: "phase \<Rightarrow> bool" where
  "owns Refreshing = True"
| "owns (Releasing r) = True"
| "owns p = False"

definition single_flight :: "auth_state \<Rightarrow> bool" where
  "single_flight s \<longleftrightarrow> (\<forall>c. owns (at_phase s c) \<longrightarrow> at_in_flight s)
     \<and> (\<forall>c c'. owns (at_phase s c) \<longrightarrow> owns (at_phase s c') \<longrightarrow> c = c')"

lemma set_phase_simps [simp]:
  "at_phase (set_phase c p s) = (at_phase s)(c := p)" "at_in_flight (set_phase c p s) = at_in_flight s"
  "at_cached (set_phase c p s) = at_cached s" "at_now (set_phase c p s) = at_now s"
  by (simp_all add: set_phase_def)

lemma notify_simps [simp]:
  "at_phase (notify_waiters s) c = (if at_phase s c = Waiting then Checking else at_phase s c)"
  "at_in_flight (notify_waiters s) = at_in_flight s" "at_cached (notify_waiters s) = at_cached s"
  by (simp_all add: notify_waiters_def)

lemma ensure_token_step_single:
  assumes inv: "single_flight s" and run: "ensure_token_step c session s = Some s'"
  shows "single_flight s'"
proof -
  have mine: "owns (at_phase s c) \<Longrightarrow> at_in_flight s" "owns (at_phase s c) \<Longrightarrow> owns (at_phase s d) \<Longrightarrow> d = c" for d
    using inv by (auto simp: single_flight_def)
  have free: "owns (at_phase s d) \<Longrightarrow> at_in_flight s" for d
    using inv by (auto simp: single_flight_def)
  show ?thesis
  proof (cases "at_phase s c")
    case Refreshing
    then show ?thesis
      using run mine by (cases session) (auto simp: ensure_token_step_def run_refresh_def single_flight_def split: if_splits)
  next
    case (Releasing r)
    then show ?thesis
      using run mine by (auto simp: ensure_token_step_def single_flight_def split: if_splits)
  next
    case Claiming
    then show ?thesis
      using run free inv by (auto simp: ensure_token_step_def single_flight_def split: if_splits)
  qed (use run inv in \<open>auto simp: ensure_token_step_def single_flight_def split: option.splits if_splits\<close>)
qed

lemma token_step_single:
  assumes "single_flight s" "token_step s l t"
  shows "single_flight t"
  using assms(2)
proof cases
  case (act c session)
  then show ?thesis using ensure_token_step_single assms(1) by blast
qed (use assms(1) in \<open>auto simp: single_flight_def\<close>)

text \<open>
  C35: Concurrent callers share one refresh.  Over every interleaving of calls, actions, dropped
  futures and clock steps, at most one caller is between winning the exchange on \<open>in_flight\<close> and
  giving it back, and \<open>in_flight\<close> is set while there is one; so at most one handshake is under way.
\<close>

theorem single_flight_refresh:
  assumes "token.reach s"
  shows "(owns (at_phase s c) \<longrightarrow> at_in_flight s) \<and> (owns (at_phase s c) \<and> owns (at_phase s c') \<longrightarrow> c = c')"
proof -
  have "single_flight s"
    using assms by (rule token.invariant_reach [OF _ _ token_step_single])
      (auto simp: auth_fresh_def auth_state_new_def single_flight_def)
  then show ?thesis unfolding single_flight_def by blast
qed

section \<open>Callers that wait for ever\<close>

text \<open>\<open>in_flight\<close> is set, nobody will give it back, and there is no token.\<close>

fun barred :: "phase \<Rightarrow> bool" where
  "barred Refreshing = False"
| "barred (Releasing r) = False"
| "barred (Notifying r) = False"
| "barred (Returned r) = False"
| "barred p = True"

definition abandoned :: "auth_state \<Rightarrow> bool" where
  "abandoned s \<longleftrightarrow> at_in_flight s \<and> at_cached s = None
     \<and> (\<forall>c. barred (at_phase s c))"

lemma abandoned_step:
  assumes "abandoned s" "token_step s l t"
  shows "abandoned t"
  using assms(2)
proof cases
  case (act c session)
  have "barred (at_phase s c)" using assms(1) by (simp add: abandoned_def)
  then show ?thesis
    using act(2) assms(1)
    by (cases "at_phase s c") (auto simp: ensure_token_step_def abandoned_def look_in_cache_def)
qed (use assms(1) in \<open>auto simp: abandoned_def\<close>)

text \<open>No action of the callers that have started, and no dropped future, wakes a caller.\<close>

definition asleep :: "nat \<Rightarrow> auth_state \<Rightarrow> bool" where
  "asleep c s \<longleftrightarrow> at_phase s c = Waiting \<and> \<not> at_in_flight s
     \<and> (\<forall>d. d \<noteq> c \<longrightarrow> at_phase s d = Idle \<or> (\<exists>r. at_phase s d = Returned r))"

lemma asleep_stuck: "asleep c s \<Longrightarrow> ensure_token_step d session s = None"
  by (cases "d = c") (auto simp: asleep_def ensure_token_step_def dest: spec [of _ d] split: phase.splits)

fun token_exec :: "token_label list \<Rightarrow> auth_state \<Rightarrow> auth_state option" where
  "token_exec [] s = Some s"
| "token_exec (Call c # ls) s = (if at_phase s c = Idle then token_exec ls (set_phase c Checking s) else None)"
| "token_exec (Act c r # ls) s = (case ensure_token_step c r s of None \<Rightarrow> None | Some t \<Rightarrow> token_exec ls t)"
| "token_exec (Drop c # ls) s = (if at_phase s c = Refreshing then token_exec ls (set_phase c Dropped s) else None)"
| "token_exec (Clock t # ls) s = (if at_now s \<le> t then token_exec ls (s\<lparr>at_now := t\<rparr>) else None)"

lemma token_exec_run: "token_exec ls s = Some t \<Longrightarrow> token.run s ls t"
  by (induction ls s rule: token_exec.induct)
    (auto intro: token.run.intros token_step.intros split: if_splits option.splits)

theorem single_flight_refresh_witness:
  "\<exists>s. token.reach s \<and> at_phase s 0 = Refreshing \<and> at_in_flight s \<and> \<not> owns (at_phase s 1)"
proof -
  obtain s where s: "token_exec [Call 0, Call 1, Act 0 (Inl []), Act 0 (Inl [])] (auth_state_new 5) = Some s" "at_phase s 0 = Refreshing"
    by (simp add: auth_state_new_def set_phase_def ensure_token_step_def look_in_cache_def)
  have "token.reach (auth_state_new 5)"
    by (rule token.reach_start) (auto simp: auth_fresh_def)
  then have "token.reach s"
    using token.invariant_run [OF token_exec_run [OF s(1)], where I = token.reach] token.reach_step by blast
  from single_flight_refresh [OF this, of 0 1] this s(2) show ?thesis by auto
qed

text \<open>Caller 1 loses the exchange and is overtaken by the whole release before it registers.\<close>

definition overtaken :: "token_label list" where
  "overtaken = [Call 0, Call 1, Act 0 (Inl []), Act 0 (Inl []), Act 1 (Inl []), Act 1 (Inl []),
     Act 0 (Inl ''offline''), Act 0 (Inl []), Act 0 (Inl []), Act 1 (Inl [])]"

text \<open>Caller 0 is dropped while its handshake runs.\<close>

definition cancelled :: "token_label list" where
  "cancelled = [Call 0, Act 0 (Inl []), Act 0 (Inl []), Drop 0]"

text \<open>
  C20: A caller of \<open>ensure_token\<close> can wait for ever, in two ways.  When it loses the exchange on
  \<open>in_flight\<close> and the refresher gives the flag back and notifies before it has created its
  \<open>Notified\<close> future, it sleeps although no refresh is under way, and no caller has an action left that would wake it.
  And when the refresher's future is dropped during its handshake, \<open>in_flight\<close> stays set: in every
  later state there is still no token, and no caller has returned one or is refreshing one.
\<close>

theorem ensure_token_can_hang:
  "(\<exists>s. token.run (auth_state_new now) overtaken s \<and> asleep 1 s \<and> (\<forall>d session. ensure_token_step d session s = None))
   \<and> (\<exists>s. token.run (auth_state_new now) cancelled s
        \<and> (\<forall>ls t. token.run s ls t \<longrightarrow> at_cached t = None \<and> \<not> owns (at_phase t c) \<and> at_phase t c \<noteq> Returned r))"
proof (intro conjI)
  obtain s where s: "token_exec overtaken (auth_state_new now) = Some s" "asleep 1 s"
    by (simp add: overtaken_def auth_state_new_def set_phase_def ensure_token_step_def look_in_cache_def run_refresh_def
        notify_waiters_def asleep_def)
  then show "\<exists>s. token.run (auth_state_new now) overtaken s \<and> asleep 1 s \<and> (\<forall>d session. ensure_token_step d session s = None)"
    using token_exec_run asleep_stuck by blast
  obtain u where u: "token_exec cancelled (auth_state_new now) = Some u" "abandoned u"
    by (simp add: cancelled_def auth_state_new_def set_phase_def ensure_token_step_def look_in_cache_def abandoned_def)
  have "abandoned t" if "token.run u ls t" for ls t
    using that u(2) abandoned_step by (rule token.invariant_run)
  then have "at_cached t = None \<and> \<not> owns (at_phase t c) \<and> at_phase t c \<noteq> Returned r" if "token.run u ls t" for ls t
    using that by (fastforce simp: abandoned_def dest: spec [of _ c] elim: owns.elims)
  then show "\<exists>s. token.run (auth_state_new now) cancelled s
        \<and> (\<forall>ls t. token.run s ls t \<longrightarrow> at_cached t = None \<and> \<not> owns (at_phase t c) \<and> at_phase t c \<noteq> Returned r)"
    using token_exec_run [OF u(1)] by blast
qed

theorem ensure_token_can_hang_witness:
  "\<exists>s t. token.run (auth_state_new 5) cancelled s \<and> token.run s [Clock (at_now s)] t
     \<and> at_cached t = None \<and> \<not> owns (at_phase t 1) \<and> at_phase t 1 \<noteq> Returned (Inr ''token'')"
proof -
  obtain s where s: "token.run (auth_state_new 5) cancelled s"
    and later: "\<And>ls t. token.run s ls t \<Longrightarrow> at_cached t = None \<and> \<not> owns (at_phase t 1) \<and> at_phase t 1 \<noteq> Returned (Inr ''token'')"
    using ensure_token_can_hang [of 5 1 "Inr ''token''", THEN conjunct2] by blast
  have "token.run s [Clock (at_now s)] (s\<lparr>at_now := at_now s\<rparr>)"
    by (rule token.run.intros(2) [OF token_step.clock token.run.intros(1)]) simp
  with s later show ?thesis by blast
qed

end
