(* ===== verification/Client.thy ===== *)
theory Client
  imports Client_Auth Config
begin

text \<open>
  The client library (\<open>crates/aqua-timestamp-client/src\<close>): submitting hashes, fetching and verifying
  witness pairs, polling for a witness (\<open>client.rs\<close>), discovering and pinning the server's identity
  (\<open>identity.rs\<close>, \<open>trust.rs\<close>), and the file of known servers (\<open>known_servers.rs\<close>).

  An operation is a function of the token \<open>ensure_token\<close> answered and of what the HTTP exchange
  answered.  reqwest, url, serde and the SDK's revision parser and signature check are the record
  \<open>client_api\<close>; an HTTP body is its text.  A \<open>HashMap\<close> is the list of its entries in the order it
  happens to iterate.  Durations are counted in nanoseconds.
\<close>

section \<open>Data\<close>

record http_response =
  hr_status :: nat
  hr_body :: string

record client_api = codec_api +
  from_str :: "string \<Rightarrow> string + json"
  url_parse :: "string \<Rightarrow> string + string"
  url_join :: "string \<Rightarrow> string \<Rightarrow> string + string"
  any_revision_from :: "json \<Rightarrow> string + any_revision"
  is_timestamp_object :: "any_revision \<Rightarrow> bool"
  link_text :: "revision_link \<Rightarrow> string"
  verify_signature_sync :: "any_revision \<Rightarrow> string \<Rightarrow> bool"
  status_text :: "nat \<Rightarrow> string"

datatype client_error = CE_Http string | CE_Auth string | CE_Server nat string | CE_IdentityDiscovery string string
  | CE_ServerIdentityRotated did did | CE_SignatureMismatch | CE_NotYetSealed string anchor_method
  | CE_WitnessMissing string anchor_method | CE_Timeout nat | CE_Invalid string | CE_Url string | CE_Serde string

record submission_receipt =
  rc_leaf :: hash32
  rc_epoch_id :: u64
  rc_epoch_closes_at :: u64
  rc_submitter_did :: did

record witness_pair =
  wp_object_revision :: any_revision
  wp_signature_revision :: any_revision
  wp_object_hash :: string
  wp_signature_hash :: string
  wp_anchor_method :: anchor_method

record epoch_schedule =
  es_current_epoch_id :: u64
  es_current_epoch_opened_at :: u64
  es_current_epoch_closes_at :: u64
  es_epoch_duration_secs :: u64
  es_last_sealed_epoch_id :: "u64 option"
  es_last_sealed_at :: "u64 option"
  es_anchor_methods :: "string list"

record server_identity =
  sid_did :: did
  sid_address :: string
  sid_identity_response_json :: json

record server_rotation =
  rot_prior_did :: did
  rot_discovered_did :: did
  rot_discovered_identity_response :: json

datatype rotation_decision = AcceptRotation | RejectRotation

datatype on_rotation = Refuse | Warn | CustomPolicy "server_rotation \<Rightarrow> rotation_decision"

section \<open>Reading the answers\<close>

definition is_success :: "nat \<Rightarrow> bool" where
  "is_success status \<longleftrightarrow> 200 \<le> status \<and> status < 300"

definition expect_success :: "http_response \<Rightarrow> client_error + unit" where
  "expect_success resp = (if is_success (hr_status resp) then Inr () else Inl (CE_Server (hr_status resp) (hr_body resp)))"

text \<open>serde's derived readers: a missing or mistyped field is a decode error.\<close>

definition need_u64 :: "json \<Rightarrow> string \<Rightarrow> string + u64" where
  "need_u64 j k = (case Option.bind (json_get j k) json_as_u64 of Some n \<Rightarrow> Inr n | None \<Rightarrow> Inl (''bad field '' @ k))"

definition need_str :: "json \<Rightarrow> string \<Rightarrow> string + string" where
  "need_str j k = (case Option.bind (json_get j k) json_as_str of Some s \<Rightarrow> Inr s | None \<Rightarrow> Inl (''bad field '' @ k))"

definition opt_u64 :: "json \<Rightarrow> string \<Rightarrow> string + u64 option" where
  "opt_u64 j k =
     (case json_get j k of None \<Rightarrow> Inr None | Some JNull \<Rightarrow> Inr None | Some (JU64 n) \<Rightarrow> Inr (Some n)
      | Some _ \<Rightarrow> Inl (''bad field '' @ k))"

definition strings_of :: "json list \<Rightarrow> string + string list" where
  "strings_of vs = collect_results (\<lambda>v. case json_as_str v of Some s \<Rightarrow> Inr s | None \<Rightarrow> Inl ''bad string'') vs"

definition decode_schedule :: "json \<Rightarrow> string + epoch_schedule" where
  "decode_schedule j =
     and_then (need_u64 j ''current_epoch_id'') (\<lambda>a.
     and_then (need_u64 j ''current_epoch_opened_at'') (\<lambda>b.
     and_then (need_u64 j ''current_epoch_closes_at'') (\<lambda>c.
     and_then (need_u64 j ''epoch_duration_secs'') (\<lambda>d.
     and_then (opt_u64 j ''last_sealed_epoch_id'') (\<lambda>e.
     and_then (opt_u64 j ''last_sealed_at'') (\<lambda>f.
     and_then (case json_get j ''anchor_methods'' of Some (JArr vs) \<Rightarrow> strings_of vs | _ \<Rightarrow> Inl ''bad field anchor_methods'') (\<lambda>ms.
     Inr \<lparr>es_current_epoch_id = a, es_current_epoch_opened_at = b, es_current_epoch_closes_at = c, es_epoch_duration_secs = d,
          es_last_sealed_epoch_id = e, es_last_sealed_at = f, es_anchor_methods = ms\<rparr>)))))))"

record leaves_answer =
  la_epoch_id :: u64
  la_epoch_closes_at :: u64
  la_submitter_did :: did

definition decode_leaves_answer :: "json \<Rightarrow> string + leaves_answer" where
  "decode_leaves_answer j =
     and_then (need_u64 j ''accepted'') (\<lambda>_.
     and_then (need_u64 j ''duplicates'') (\<lambda>_.
     and_then (need_u64 j ''epoch_id'') (\<lambda>n.
     and_then (need_u64 j ''epoch_closes_at'') (\<lambda>t.
     and_then (need_str j ''submitter_did'') (\<lambda>d.
     Inr \<lparr>la_epoch_id = n, la_epoch_closes_at = t, la_submitter_did = d\<rparr>)))))"

text \<open>\<open>TreeWire\<close>: the revisions; the file index is only checked.\<close>

definition decode_tree :: "'z client_api_scheme \<Rightarrow> json \<Rightarrow> string + (string \<times> any_revision) list" where
  "decode_tree x j =
     and_then (case json_get j ''revisions'' of
         Some (JObj m) \<Rightarrow> collect_results (\<lambda>(k, v). and_then (any_revision_from x v) (\<lambda>r. Inr (k, r))) m
       | _ \<Rightarrow> Inl ''bad field revisions'') (\<lambda>revisions.
     and_then (case json_get j ''file_index'' of
         None \<Rightarrow> Inr []
       | Some (JObj m) \<Rightarrow> strings_of (map snd m)
       | Some _ \<Rightarrow> Inl ''bad field file_index'') (\<lambda>_.
     Inr revisions))"

definition read_json :: "'z client_api_scheme \<Rightarrow> (json \<Rightarrow> string + 'a) \<Rightarrow> http_response \<Rightarrow> client_error + 'a" where
  "read_json x decode resp = map_err CE_Http (and_then (from_str x (hr_body resp)) decode)"

section \<open>client.rs\<close>

definition schedule_of :: "'z client_api_scheme \<Rightarrow> string \<Rightarrow> string + http_response \<Rightarrow> client_error + epoch_schedule" where
  "schedule_of x base_url sent =
     and_then (map_err CE_Url (url_join x base_url ''/v1/schedule'')) (\<lambda>url.
     and_then (map_err CE_Http sent) (\<lambda>resp.
     and_then (expect_success resp) (\<lambda>_.
     read_json x decode_schedule resp)))"

definition leaves_request :: "'z client_api_scheme \<Rightarrow> hash32 list \<Rightarrow> string list" where
  "leaves_request x hashes = map (\<lambda>h. ''0x'' @ format_hash32_bare x h) hashes"

text \<open>\<open>post\<close> answers the request with these leaves.\<close>

definition submit_many :: "'z client_api_scheme \<Rightarrow> string \<Rightarrow> client_error + string \<Rightarrow> (string list \<Rightarrow> string + http_response)
  \<Rightarrow> hash32 list \<Rightarrow> client_error + submission_receipt list" where
  "submit_many x base_url token post hashes =
     (if hashes = [] then Inl (CE_Invalid ''hashes must be non-empty'')
      else and_then token (\<lambda>t.
           and_then (map_err CE_Url (url_join x base_url ''/v1/leaves'')) (\<lambda>url.
           and_then (map_err CE_Http (post (leaves_request x hashes))) (\<lambda>resp.
           and_then (expect_success resp) (\<lambda>_.
           and_then (read_json x decode_leaves_answer resp) (\<lambda>body.
           Inr (map (\<lambda>h. \<lparr>rc_leaf = h, rc_epoch_id = la_epoch_id body, rc_epoch_closes_at = la_epoch_closes_at body,
                          rc_submitter_did = la_submitter_did body\<rparr>) hashes)))))))"

definition submit_one :: "'z client_api_scheme \<Rightarrow> string \<Rightarrow> client_error + string \<Rightarrow> (string list \<Rightarrow> string + http_response)
  \<Rightarrow> hash32 \<Rightarrow> client_error + submission_receipt" where
  "submit_one x base_url token post hash =
     and_then (submit_many x base_url token post [hash]) (\<lambda>receipts.
       if receipts = [] then Inl (CE_Invalid ''server returned empty receipt set'') else Inr (last receipts))"

text \<open>The search for the one signature and the one timestamp object.\<close>

fun find_pair :: "'z client_api_scheme \<Rightarrow> (string \<times> any_revision) list
  \<Rightarrow> (string \<times> signature_revision) option \<Rightarrow> (string \<times> any_revision) option
  \<Rightarrow> client_error + (string \<times> signature_revision) option \<times> (string \<times> any_revision) option" where
  "find_pair x [] signature object = Inr (signature, object)"
| "find_pair x ((hash, rv) # revs) signature object =
     (case rv of
        Signature s \<Rightarrow>
          (case signature of
             Some _ \<Rightarrow> Inl (CE_Invalid ''witness tree contains more than one Signature revision'')
           | None \<Rightarrow> find_pair x revs (Some (hash, s)) object)
      | Typed t \<Rightarrow>
          if is_timestamp_object x rv
          then (case object of
                  Some _ \<Rightarrow> Inl (CE_Invalid ''witness tree contains more than one timestamp object'')
                | None \<Rightarrow> find_pair x revs signature (Some (hash, rv)))
          else find_pair x revs signature object
      | OtherRevision _ \<Rightarrow> find_pair x revs signature object)"

definition extract_witness_pair :: "'z client_api_scheme \<Rightarrow> (string \<times> any_revision) list \<Rightarrow> anchor_method \<Rightarrow> did
  \<Rightarrow> client_error + witness_pair" where
  "extract_witness_pair x revisions method pinned_server_did =
     and_then (find_pair x revisions None None) (\<lambda>(signature, object).
     (case signature of
        None \<Rightarrow> Inl (CE_Invalid ''witness tree has no Signature revision'')
      | Some (sig_hash, sig) \<Rightarrow> (case object of
        None \<Rightarrow> Inl (CE_Invalid ''witness tree has no timestamp Object revision'')
      | Some (obj_hash, obj_rev) \<Rightarrow>
          if link_text x (sg_previous sig) \<noteq> obj_hash
          then Inl (CE_Invalid ''witness Signature.previous_revision does not point to the timestamp Object'')
          else if sg_signer sig \<noteq> pinned_server_did then Inl CE_SignatureMismatch
          else if \<not> verify_signature_sync x (Signature sig) sig_hash then Inl CE_SignatureMismatch
          else Inr \<lparr>wp_object_revision = obj_rev, wp_signature_revision = Signature sig, wp_object_hash = obj_hash,
                    wp_signature_hash = sig_hash, wp_anchor_method = method\<rparr>)))"

definition try_fetch_witness :: "'z client_api_scheme \<Rightarrow> string \<Rightarrow> did \<Rightarrow> client_error + string
  \<Rightarrow> (string \<Rightarrow> string \<Rightarrow> string + http_response) \<Rightarrow> hash32 \<Rightarrow> anchor_method \<Rightarrow> client_error + witness_pair option" where
  "try_fetch_witness x base_url server_did token get leaf method =
     and_then token (\<lambda>t.
     and_then (map_err CE_Url (url_join x base_url (''/trees/by-leaf/'' @ format_hash32_bare x leaf))) (\<lambda>url.
     and_then (map_err CE_Http (get (format_hash32_bare x leaf) (as_str method))) (\<lambda>resp.
     if hr_status resp = 404 then Inr None
     else and_then (expect_success resp) (\<lambda>_.
          and_then (read_json x (decode_tree x) resp) (\<lambda>tree.
          and_then (extract_witness_pair x tree method server_did) (\<lambda>pair. Inr (Some pair)))))))"

text \<open>
  One round of \<open>await_witness\<close>: the time elapsed when it starts, what \<open>schedule\<close> and
  \<open>try_fetch_witness\<close> answer in it, and the time elapsed when they have.
\<close>

record poll_round =
  pr_elapsed :: nat
  pr_schedule :: "client_error + epoch_schedule"
  pr_fetch :: "client_error + witness_pair option"
  pr_elapsed_after :: nat

fun await_witness :: "nat \<Rightarrow> nat \<Rightarrow> submission_receipt \<Rightarrow> poll_round list \<Rightarrow> (client_error + witness_pair) option" where
  "await_witness poll_interval timeout receipt [] = None"
| "await_witness poll_interval timeout receipt (r # rounds) =
     (if pr_elapsed r \<ge> timeout then Some (Inl (CE_Timeout (pr_elapsed r)))
      else case pr_schedule r of
        Inl e \<Rightarrow> Some (Inl e)
      | Inr sched \<Rightarrow>
          let sealed = (case es_last_sealed_epoch_id sched of Some n \<Rightarrow> n \<ge> rc_epoch_id receipt | None \<Rightarrow> False);
              remaining = timeout - pr_elapsed_after r;
              nap = min poll_interval remaining;
              sleep = (if nap = 0 then Some (Inl (CE_Timeout (pr_elapsed_after r)))
                       else await_witness poll_interval timeout receipt rounds)
          in if sealed
             then (case pr_fetch r of Inl e \<Rightarrow> Some (Inl e) | Inr (Some pair) \<Rightarrow> Some (Inr pair) | Inr None \<Rightarrow> sleep)
             else sleep)"

section \<open>identity.rs\<close>

text \<open>\<open>did.strip_prefix(..)?.split_once(':')?\<close>.\<close>

definition address_from_did :: "did \<Rightarrow> string option" where
  "address_from_did d =
     (case strip_prefix ''did:pkh:eip155:'' d of
        None \<Rightarrow> None
      | Some rest \<Rightarrow> (case dropWhile (\<lambda>c. c \<noteq> CHR '':'') rest of
          [] \<Rightarrow> None
        | _ # addr \<Rightarrow> if length addr = 42 \<and> starts_with ''0x'' addr then Some addr else None))"

fun verify_revisions :: "'z client_api_scheme \<Rightarrow> did \<Rightarrow> (string \<times> json) list \<Rightarrow> bool \<Rightarrow> client_error + bool" where
  "verify_revisions x server_did [] seen = Inr seen"
| "verify_revisions x server_did ((hash_str, rev_value) # revs) seen =
     and_then (map_err (\<lambda>e. CE_IdentityDiscovery [] (''revision '' @ hash_str @ '' did not parse as AnyRevision: '' @ e))
       (any_revision_from x rev_value)) (\<lambda>revision.
     (case revision of
        Signature sig \<Rightarrow>
          if sg_signer sig \<noteq> server_did
          then Inl (CE_IdentityDiscovery [] (''signature revision signer '' @ sg_signer sig @ '' does not match advertised server_did '' @ server_did))
          else if \<not> verify_signature_sync x revision hash_str
          then Inl (CE_IdentityDiscovery [] ''identity_claim signature failed verification'')
          else verify_revisions x server_did revs True
      | _ \<Rightarrow> verify_revisions x server_did revs seen))"

definition verify_identity_claim :: "'z client_api_scheme \<Rightarrow> did \<Rightarrow> json \<Rightarrow> client_error + unit" where
  "verify_identity_claim x server_did identity_claim =
     (case identity_claim of
        JObj tree \<Rightarrow>
          (case map_of tree ''revisions'' of
             Some (JObj revisions) \<Rightarrow>
               and_then (verify_revisions x server_did revisions False) (\<lambda>seen.
                 if \<not> seen then Inl (CE_IdentityDiscovery [] ''identity_claim has no Signature revision'') else Inr ())
           | _ \<Rightarrow> Inl (CE_IdentityDiscovery [] (''identity_claim has no `revisions` object'')))
      | _ \<Rightarrow> Inl (CE_IdentityDiscovery [] ''identity_claim is not a JSON object''))"

definition apply_rotation_policy :: "server_identity \<Rightarrow> (did \<times> on_rotation) option \<Rightarrow> client_error + server_rotation option" where
  "apply_rotation_policy identity prior =
     (case prior of
        None \<Rightarrow> Inr None
      | Some (prior_did, policy) \<Rightarrow>
          if prior_did = sid_did identity then Inr None
          else let rotation = \<lparr>rot_prior_did = prior_did, rot_discovered_did = sid_did identity,
                     rot_discovered_identity_response = sid_identity_response_json identity\<rparr>;
                   refused = Inl (CE_ServerIdentityRotated prior_did (sid_did identity))
               in (case policy of
                     Refuse \<Rightarrow> refused
                   | Warn \<Rightarrow> Inr (Some rotation)
                   | CustomPolicy cb \<Rightarrow> (case cb rotation of AcceptRotation \<Rightarrow> Inr (Some rotation) | RejectRotation \<Rightarrow> refused)))"

definition discover :: "'z client_api_scheme \<Rightarrow> string \<Rightarrow> string + http_response \<Rightarrow> (did \<times> on_rotation) option
  \<Rightarrow> client_error + server_identity \<times> server_rotation option" where
  "discover x base_url sent prior =
     (let bad = CE_IdentityDiscovery base_url
      in and_then (map_err CE_Url (url_join x base_url ''/.well-known/aqua-identity'')) (\<lambda>url.
         and_then (map_err bad sent) (\<lambda>resp.
         if \<not> is_success (hr_status resp)
         then Inl (bad (''HTTP '' @ status_text x (hr_status resp) @ '': '' @ hr_body resp))
         else and_then (map_err bad (from_str x (hr_body resp))) (\<lambda>value.
              and_then (map_err bad (need_str value ''server_did'')) (\<lambda>server_did.
              and_then (map_err bad (case json_get value ''ethereum_address'' of
                  None \<Rightarrow> Inr None | Some JNull \<Rightarrow> Inr None | Some (JStr a) \<Rightarrow> Inr (Some a) | Some _ \<Rightarrow> Inl ''bad field ethereum_address'')) (\<lambda>given.
              and_then (case json_get value ''identity_claim'' of None \<Rightarrow> Inl (bad ''missing field identity_claim'') | Some c \<Rightarrow> Inr c) (\<lambda>claim.
              and_then (verify_identity_claim x server_did claim) (\<lambda>_.
              let address = (case given of Some a \<Rightarrow> a
                    | None \<Rightarrow> (case address_from_did server_did of Some a \<Rightarrow> a | None \<Rightarrow> []));
                  identity = \<lparr>sid_did = server_did, sid_address = address, sid_identity_response_json = value\<rparr>
              in and_then (apply_rotation_policy identity prior) (\<lambda>rotation. Inr (identity, rotation))))))))))"

section \<open>The builder\<close>

record client_builder =
  cb_base_url :: "string option"
  cb_my_did :: "did option"
  cb_signer :: "(string \<Rightarrow> string + string) option"
  cb_expect_server_did :: "(did \<times> on_rotation) option"
  cb_request_timeout :: "nat option"
  cb_poll_interval :: "nat option"

record timestamp_client =
  tc_base_url :: string
  tc_auth_base_url :: string
  tc_my_did :: did
  tc_server :: server_identity
  tc_rotation :: "server_rotation option"
  tc_poll_interval :: nat
  tc_request_timeout :: nat

text \<open>
  \<open>build\<close>: \<open>new_http\<close> is the outcome of making the HTTP client, \<open>sent\<close> the answer to the identity
  request, \<open>handshake\<close> the outcome of the first \<open>ensure_token\<close>.
\<close>

definition build_client :: "'z client_api_scheme \<Rightarrow> (nat \<Rightarrow> string + unit) \<Rightarrow> string + http_response
  \<Rightarrow> (string \<Rightarrow> did \<Rightarrow> client_error + string) \<Rightarrow> client_builder \<Rightarrow> client_error + timestamp_client" where
  "build_client x new_http sent handshake b =
     and_then (case cb_base_url b of Some u \<Rightarrow> Inr u | None \<Rightarrow> Inl (CE_Invalid ''base_url is required'')) (\<lambda>raw.
     and_then (map_err CE_Url (url_parse x raw)) (\<lambda>base_url.
     and_then (case cb_my_did b of Some d \<Rightarrow> Inr d | None \<Rightarrow> Inl (CE_Invalid ''my_did is required'')) (\<lambda>my_did.
     and_then (case cb_signer b of Some s \<Rightarrow> Inr s | None \<Rightarrow> Inl (CE_Invalid ''signer is required'')) (\<lambda>signer.
     let request_timeout = (case cb_request_timeout b of Some t \<Rightarrow> t | None \<Rightarrow> 10000000000);
         poll_interval = (case cb_poll_interval b of Some t \<Rightarrow> t | None \<Rightarrow> 5000000000)
     in and_then (map_err CE_Http (new_http request_timeout)) (\<lambda>_.
        and_then (discover x base_url sent (cb_expect_server_did b)) (\<lambda>(server, rotation).
        let auth_base_url = trim_end_matches CHR ''/'' base_url
        in and_then (handshake auth_base_url my_did) (\<lambda>_.
           Inr \<lparr>tc_base_url = base_url, tc_auth_base_url = auth_base_url, tc_my_did = my_did, tc_server = server,
                tc_rotation = rotation, tc_poll_interval = poll_interval, tc_request_timeout = request_timeout\<rparr>)))))))"

section \<open>known_servers.rs\<close>

record entry =
  en_base_url :: string
  en_did :: did
  en_first_seen_at :: u64
  en_last_seen_at :: u64

record entry_api =
  entry_to_string :: "entry \<Rightarrow> string"
  entry_from_str :: "string \<Rightarrow> string + entry"

type_synonym known_servers = "(string \<times> entry) list"

definition normalise_url :: "string \<Rightarrow> string" where
  "normalise_url base_url = trim_end_matches CHR ''/'' base_url"

definition entries_insert :: "string \<Rightarrow> entry \<Rightarrow> known_servers \<Rightarrow> known_servers" where
  "entries_insert k e m = (k, e) # filter (\<lambda>(k', _). k' \<noteq> k) m"

text \<open>The lines of the file; a blank line and one that does not parse are skipped.\<close>

fun read_lines :: "'z entry_api_scheme \<Rightarrow> string list \<Rightarrow> known_servers \<Rightarrow> known_servers" where
  "read_lines x [] entries = entries"
| "read_lines x (line # lines) entries =
     (if str_trim line = [] then read_lines x lines entries
      else case entry_from_str x line of
        Inr e \<Rightarrow> read_lines x lines (entries_insert (en_base_url e) e entries)
      | Inl _ \<Rightarrow> read_lines x lines entries)"

text \<open>\<open>file\<close> is what opening the path gives: an error, no file, or its lines.\<close>

definition read_entries :: "'z entry_api_scheme \<Rightarrow> string + string list option \<Rightarrow> string + known_servers" where
  "read_entries x file =
     (case file of Inl e \<Rightarrow> Inl e | Inr None \<Rightarrow> Inr [] | Inr (Some lines) \<Rightarrow> Inr (read_lines x lines []))"

text \<open>\<open>KnownServersFile::open\<close>: \<open>made\<close> is the outcome of creating the parent directories.\<close>

definition ks_open :: "'z entry_api_scheme \<Rightarrow> string + unit \<Rightarrow> string + string list option \<Rightarrow> string + known_servers" where
  "ks_open x made file = and_then made (\<lambda>_. read_entries x file)"

text \<open>\<open>Path::join\<close> with a relative component.\<close>

definition path_join :: "string \<Rightarrow> string \<Rightarrow> string" where
  "path_join p q = (if p = [] \<or> last p = CHR ''/'' then p @ q else p @ ''/'' @ q)"

definition default_path :: "(string \<rightharpoonup> string) \<Rightarrow> string + string" where
  "default_path env =
     (case env ''XDG_CONFIG_HOME'' of
        Some xdg \<Rightarrow> Inr (path_join (path_join xdg ''aqua'') ''known_servers'')
      | None \<Rightarrow> (case env ''HOME'' of
          Some home \<Rightarrow> Inr (path_join (path_join (path_join home ''.config'') ''aqua'') ''known_servers'')
        | None \<Rightarrow> Inl ''neither $XDG_CONFIG_HOME nor $HOME is set''))"

definition ks_lookup :: "known_servers \<Rightarrow> string \<Rightarrow> did option" where
  "ks_lookup m base_url = map_option en_did (map_of m (normalise_url base_url))"

definition flush_lines :: "'z entry_api_scheme \<Rightarrow> known_servers \<Rightarrow> string list" where
  "flush_lines x m = map (\<lambda>(_, e). entry_to_string x e) m"

text \<open>The new entries, and the lines the flush renames into place; the write itself may fail.\<close>

definition ks_record :: "'z entry_api_scheme \<Rightarrow> u64 \<Rightarrow> string \<Rightarrow> did \<Rightarrow> known_servers \<Rightarrow> known_servers \<times> string list" where
  "ks_record x now base_url d m =
     (let key = normalise_url base_url;
          m' = (case map_of m key of
                  Some e \<Rightarrow> entries_insert key (e\<lparr>en_did := d, en_last_seen_at := now\<rparr>) m
                | None \<Rightarrow> entries_insert key \<lparr>en_base_url = key, en_did = d, en_first_seen_at = now, en_last_seen_at = now\<rparr> m)
      in (m', flush_lines x m'))"

section \<open>Witness pairs\<close>

definition signatures :: "(string \<times> any_revision) list \<Rightarrow> (string \<times> signature_revision) list" where
  "signatures revs = concat (map (\<lambda>(h, r). case r of Signature s \<Rightarrow> [(h, s)] | _ \<Rightarrow> []) revs)"

definition timestamp_objects :: "'z client_api_scheme \<Rightarrow> (string \<times> any_revision) list \<Rightarrow> (string \<times> any_revision) list" where
  "timestamp_objects x revs = filter (\<lambda>(h, r). (\<exists>t. r = Typed t) \<and> is_timestamp_object x r) revs"

definition opt_list :: "'a option \<Rightarrow> 'a list" where
  "opt_list o' = (case o' of None \<Rightarrow> [] | Some a \<Rightarrow> [a])"

lemma opt_list_simps [simp]: "opt_list None = []" "opt_list (Some a) = [a]"
  by (simp_all add: opt_list_def)

lemma opt_list_Nil [simp]: "opt_list o' = [] \<longleftrightarrow> o' = None" "[] = opt_list o' \<longleftrightarrow> o' = None"
  by (cases o'; simp)+

lemma opt_list_single [simp]: "opt_list o' = [a] \<longleftrightarrow> o' = Some a" "[a] = opt_list o' \<longleftrightarrow> o' = Some a"
  by (cases o'; auto)+

lemma opt_list_two [simp]: "opt_list o' \<noteq> a # b # cs" "a # b # cs \<noteq> opt_list o'"
  by (cases o'; simp)+

lemma signatures_Cons: "signatures ((h, r) # revs) = (case r of Signature s \<Rightarrow> [(h, s)] | _ \<Rightarrow> []) @ signatures revs"
  by (simp add: signatures_def)

lemma timestamp_objects_Cons:
  "timestamp_objects x ((h, r) # revs) =
     (if (\<exists>t. r = Typed t) \<and> is_timestamp_object x r then (h, r) # timestamp_objects x revs else timestamp_objects x revs)"
  by (simp add: timestamp_objects_def)

lemma find_pair_iff:
  "find_pair x revs sg ob = Inr (sg', ob') \<longleftrightarrow>
     opt_list sg' = opt_list sg @ signatures revs \<and> opt_list ob' = opt_list ob @ timestamp_objects x revs"
proof (induction x revs sg ob rule: find_pair.induct)
  case (1 x sg ob)
  then show ?case
    by (cases sg; cases ob; cases sg'; cases ob') (auto simp: signatures_def timestamp_objects_def)
next
  case (2 x hash rv revs sg ob)
  then show ?case
    by (cases rv; cases sg; cases ob) (simp_all add: signatures_Cons timestamp_objects_Cons)
qed

text \<open>
  What the client accepts.  A tree is accepted exactly when it holds one signature revision and
  one timestamp object, the signature's previous revision is the object, its signer is the DID
  pinned when the client was built, and the signature verifies; the pair returned is those two.
\<close>

theorem extract_witness_pair_iff:
  "extract_witness_pair x revs m pinned = Inr p \<longleftrightarrow>
     (\<exists>sig_hash sig obj_hash obj. signatures revs = [(sig_hash, sig)] \<and> timestamp_objects x revs = [(obj_hash, obj)]
        \<and> link_text x (sg_previous sig) = obj_hash \<and> sg_signer sig = pinned \<and> verify_signature_sync x (Signature sig) sig_hash
        \<and> p = \<lparr>wp_object_revision = obj, wp_signature_revision = Signature sig, wp_object_hash = obj_hash,
               wp_signature_hash = sig_hash, wp_anchor_method = m\<rparr>)"
proof (cases "find_pair x revs None None")
  case (Inl e)
  then have "signatures revs \<noteq> [a] \<or> timestamp_objects x revs \<noteq> [b]" for a b
    using find_pair_iff [of x revs None None "Some a" "Some b"] by auto
  then show ?thesis
    using Inl by (auto simp: extract_witness_pair_def)
next
  case (Inr r)
  obtain sg ob where r: "r = (sg, ob)" by fastforce
  with Inr have "signatures revs = opt_list sg" "timestamp_objects x revs = opt_list ob"
    using find_pair_iff [of x revs None None sg ob] by simp_all
  then show ?thesis
    using Inr r by (cases sg; cases ob) (auto simp: extract_witness_pair_def split: if_splits)
qed

section \<open>Polling ends\<close>

text \<open>The clock of a poll: it does not run backwards, and a nap lasts at least as long as asked.\<close>

fun clock_ok :: "nat \<Rightarrow> nat \<Rightarrow> poll_round list \<Rightarrow> bool" where
  "clock_ok poll timeout (r # r' # rounds) \<longleftrightarrow> pr_elapsed r \<le> pr_elapsed_after r
     \<and> pr_elapsed_after r + min poll (timeout - pr_elapsed_after r) \<le> pr_elapsed r' \<and> clock_ok poll timeout (r' # rounds)"
| "clock_ok poll timeout _ \<longleftrightarrow> True"

lemma await_undecided:
  assumes "await_witness poll timeout receipt (r # rounds) = None"
  shows "pr_elapsed r < timeout \<and> await_witness poll timeout receipt rounds = None"
  using assms by (auto simp: Let_def split: if_splits sum.splits option.splits)

lemma await_undecided_time:
  assumes "await_witness poll timeout receipt (r # rounds) = None" "clock_ok poll timeout (r # rounds)"
  shows "pr_elapsed r + length rounds * poll < timeout"
  using assms
proof (induction rounds arbitrary: r)
  case Nil
  then show ?case using await_undecided by fastforce
next
  case (Cons r' rounds)
  have rest: "await_witness poll timeout receipt (r' # rounds) = None"
    using await_undecided [OF Cons.prems(1)] by blast
  have "pr_elapsed r' + length rounds * poll < timeout"
    using Cons.IH [OF rest] Cons.prems(2) by simp
  moreover have "pr_elapsed r' < timeout"
    using await_undecided [OF rest] by blast
  ultimately show ?case
    using Cons.prems(2) by (auto simp: min_def split: if_splits)
qed

text \<open>
  C34: Polling ends.  With a positive poll interval \<open>await_witness\<close> answers after at most
  \<open>timeout / poll_interval + 2\<close> rounds, with a pair, with an error or with its timeout, whatever the
  server answers.
\<close>

theorem await_witness_ends:
  assumes "0 < poll" and "clock_ok poll timeout rounds" and "timeout div poll + 2 \<le> length rounds"
  shows "await_witness poll timeout receipt rounds \<noteq> None"
proof
  assume none: "await_witness poll timeout receipt rounds = None"
  obtain r rest where rounds: "rounds = r # rest" using assms(3) by (cases rounds) auto
  have "length rest * poll < timeout"
    using await_undecided_time [of poll timeout receipt r rest] none assms(2) rounds by simp
  then have "length rest \<le> timeout div poll"
    using assms(1) by (simp add: less_eq_div_iff_mult_less_eq)
  then show False using assms(3) rounds by simp
qed

definition demo_round :: "nat \<Rightarrow> poll_round" where
  "demo_round t = \<lparr>pr_elapsed = t, pr_schedule = Inr \<lparr>es_current_epoch_id = 3, es_current_epoch_opened_at = 0,
     es_current_epoch_closes_at = 0, es_epoch_duration_secs = 60, es_last_sealed_epoch_id = Some 2, es_last_sealed_at = None,
     es_anchor_methods = []\<rparr>, pr_fetch = Inr None, pr_elapsed_after = t\<rparr>"

theorem await_witness_ends_witness:
  "await_witness 5 10 \<lparr>rc_leaf = [], rc_epoch_id = 2, rc_epoch_closes_at = 0, rc_submitter_did = []\<rparr>
     [demo_round 0, demo_round 5, demo_round 10, demo_round 10] \<noteq> None"
  by (rule await_witness_ends) (simp_all add: demo_round_def)

section \<open>Known servers\<close>

text \<open>Every entry is under its own URL, once.\<close>

definition ks_ok :: "known_servers \<Rightarrow> bool" where
  "ks_ok m \<longleftrightarrow> distinct (map fst m) \<and> (\<forall>(k, e)\<in>set m. en_base_url e = k)"

definition entry_codec :: "'z entry_api_scheme \<Rightarrow> bool" where
  "entry_codec x \<longleftrightarrow> (\<forall>e. entry_from_str x (entry_to_string x e) = Inr e \<and> str_trim (entry_to_string x e) \<noteq> [])"

lemma entries_insert_map: "map_of (entries_insert k e m) = (map_of m)(k \<mapsto> e)"
proof
  fix a
  show "map_of (entries_insert k e m) a = ((map_of m)(k \<mapsto> e)) a"
    by (induction m) (auto simp: entries_insert_def split: if_splits)
qed

lemma entries_insert_ok: "ks_ok m \<Longrightarrow> en_base_url e = k \<Longrightarrow> ks_ok (entries_insert k e m)"
  by (auto simp: ks_ok_def entries_insert_def distinct_map intro: inj_on_subset)

lemma read_flushed:
  assumes "entry_codec x"
  shows "ks_ok m \<Longrightarrow> map_of (read_lines x (flush_lines x m) acc) = map_of acc ++ map_of m"
proof (induction m arbitrary: acc)
  case (Cons a m)
  obtain k e where a: "a = (k, e)" by fastforce
  have none: "map_of m k = None"
    using Cons.prems a by (auto simp: ks_ok_def map_of_eq_None_iff)
  have "read_lines x (flush_lines x (a # m)) acc = read_lines x (flush_lines x m) (entries_insert k e acc)"
    using assms Cons.prems by (auto simp: a flush_lines_def entry_codec_def ks_ok_def)
  moreover have "map_of (read_lines x (flush_lines x m) (entries_insert k e acc)) = map_of (entries_insert k e acc) ++ map_of m"
    using Cons.prems by (intro Cons.IH) (auto simp: ks_ok_def)
  ultimately show ?case
    using none by (auto simp: a entries_insert_map map_add_def fun_eq_iff split: option.splits)
qed (simp add: flush_lines_def)

lemma read_lines_ok: "ks_ok acc \<Longrightarrow> ks_ok (read_lines x ls acc)"
  by (induction x ls acc rule: read_lines.induct) (auto split: sum.splits intro: entries_insert_ok)

text \<open>
  The known-servers file round-trips.  After a server has been recorded and the file written,
  opening it again gives the recorded DID for that URL, however many slashes end it, and leaves what
  was known of every other URL.
\<close>

theorem known_servers_round_trip:
  assumes "entry_codec x" and "ks_ok m" and "ks_record x now base_url d m = (m', lines)"
    and "read_entries x (Inr (Some lines)) = Inr m''"
  shows "ks_ok m'' \<and> ks_lookup m'' u = (if normalise_url u = normalise_url base_url then Some d else ks_lookup m u)"
proof -
  let ?k = "normalise_url base_url"
  obtain e where e: "m' = entries_insert ?k e m" "en_did e = d" "en_base_url e = ?k" "lines = flush_lines x m'"
    using assms(2,3) by (auto simp: ks_record_def Let_def ks_ok_def dest!: map_of_SomeD split: option.splits)
  have "map_of m'' = map_of m'"
    using read_flushed [OF assms(1) entries_insert_ok [OF assms(2) e(3)], of "[]"] assms(4) e by (simp add: read_entries_def)
  moreover have "ks_ok m''"
    using assms(4) read_lines_ok [of "[]" x lines] by (simp add: read_entries_def ks_ok_def)
  ultimately show ?thesis
    using e by (simp add: ks_lookup_def entries_insert_map)
qed

text \<open>A codec for the witness: the four fields one after another, each character behind a mark.\<close>

definition esc :: "string \<Rightarrow> string" where
  "esc s = concat (map (\<lambda>c. [CHR ''a'', c]) s) @ ''b''"

fun unesc :: "string \<Rightarrow> string \<times> string" where
  "unesc (m # c # r) = (if m = CHR ''b'' then ([], c # r) else (case unesc r of (s, t) \<Rightarrow> (c # s, t)))"
| "unesc [m] = ([], [])"
| "unesc [] = ([], [])"

lemma unesc_esc: "unesc (esc s @ t) = (s, t)"
proof (induction s)
  case Nil
  then show ?case by (cases t) (simp_all add: esc_def)
qed (simp add: esc_def)

definition demo_entries :: entry_api where
  "demo_entries = \<lparr>entry_to_string = (\<lambda>e. esc (en_base_url e) @ esc (en_did e) @ esc (show_nat (unat (en_first_seen_at e)))
       @ esc (show_nat (unat (en_last_seen_at e))) @ []),
     entry_from_str = (\<lambda>s. case unesc s of (u, s1) \<Rightarrow> (case unesc s1 of (d, s2) \<Rightarrow> (case unesc s2 of (f, s3) \<Rightarrow>
       (case (parse_u64 f, parse_u64 (fst (unesc s3))) of
          (Inr f', Inr l') \<Rightarrow> Inr \<lparr>en_base_url = u, en_did = d, en_first_seen_at = f', en_last_seen_at = l'\<rparr>
        | _ \<Rightarrow> Inl ''bad entry''))))\<rparr>"

lemma esc_trim: "str_trim (esc s @ t) \<noteq> []"
proof -
  have "\<not> is_space (hd (esc s @ t))" "esc s @ t \<noteq> []"
    by (cases s; simp add: esc_def is_space_def)+
  then have "dropWhile is_space (esc s @ t) = esc s @ t" "\<exists>c\<in>set (esc s @ t). \<not> is_space c"
    by (cases "esc s @ t"; simp)+
  then show ?thesis
    by (auto simp: str_trim_def dropWhile_eq_Nil_conv)
qed

lemma demo_entries_codec: "entry_codec demo_entries"
  unfolding entry_codec_def
proof (intro allI conjI)
  fix e
  show "entry_from_str demo_entries (entry_to_string demo_entries e) = Inr e"
    by (simp only: demo_entries_def entry_api.simps unesc_esc prod.case fst_conv parse_u64_show_nat sum.case) simp
  show "str_trim (entry_to_string demo_entries e) \<noteq> []"
    by (simp add: demo_entries_def esc_trim)
qed

theorem known_servers_round_trip_witness:
  "case ks_record demo_entries 9 ''https://x.example/'' ''did:1'' [] of (m', lines) \<Rightarrow>
     (case read_entries demo_entries (Inr (Some lines)) of
        Inr m'' \<Rightarrow> ks_lookup m'' ''https://x.example'' = Some ''did:1'' | Inl _ \<Rightarrow> False)"
proof -
  obtain m' lines where r: "ks_record demo_entries 9 ''https://x.example/'' ''did:1'' [] = (m', lines)" by fastforce
  obtain m'' where m'': "read_entries demo_entries (Inr (Some lines)) = Inr m''" by (simp add: read_entries_def)
  have "ks_ok []" by (simp add: ks_ok_def)
  from known_servers_round_trip [OF demo_entries_codec this r m'', of "''https://x.example''"] r m'' show ?thesis
    by (simp add: normalise_url_def trim_end_matches_def)
qed

end
