(* ===== verification/E2e_Identity.thy ===== *)
theory E2e_Identity
  imports Client
begin

text \<open>
  The standing identity of the end-to-end checker (\<open>crates/aqua-timestamp-e2e/src/identity.rs\<close>), the
  test of the target URL that decides which loader runs (\<open>target.rs\<close>) and the key it makes
  (\<open>ClientKey::from_secp256k1_bytes\<close> and \<open>eip55\<close> of \<open>flow.rs\<close>).

  The file system is a map from paths to nodes.  An operation answers the file system it leaves;
  a fault of the device is an argument of the write it hits.  The curve, Keccak, serde and the URL
  parser are the record \<open>key_api\<close>.  Directories above the state directory are not modelled.
\<close>

section \<open>IP addresses, as the standard library reads them\<close>

datatype ip_addr = V4 "int list" | V6 "int list"

fun split_on :: "char \<Rightarrow> string \<Rightarrow> string list" where
  "split_on c [] = [[]]"
| "split_on c (d # s) =
     (if d = c then [] # split_on c s else (case split_on c s of [] \<Rightarrow> [[d]] | w # ws \<Rightarrow> (d # w) # ws))"

definition digit_value :: "char \<Rightarrow> int" where
  "digit_value c =
     (let n = of_char c in if 48 \<le> n \<and> n \<le> (57 :: int) then n - 48 else if 97 \<le> n \<and> n \<le> 102 then n - 87
      else if 65 \<le> n \<and> n \<le> 70 then n - 55 else 16)"

definition read_number :: "int \<Rightarrow> nat \<Rightarrow> bool \<Rightarrow> string \<Rightarrow> int option" where
  "read_number radix max_digits zero_prefix s =
     (if s = [] \<or> max_digits < length s \<or> \<not> list_all (\<lambda>c. digit_value c < radix) s
         \<or> \<not> zero_prefix \<and> 1 < length s \<and> hd s = CHR ''0''
      then None else Some (foldl (\<lambda>n c. radix * n + digit_value c) 0 s))"

definition opt_all :: "'a option list \<Rightarrow> 'a list option" where
  "opt_all xs = (if list_all (\<lambda>x. x \<noteq> None) xs then Some (map the xs) else None)"

definition parse_ipv4 :: "string \<Rightarrow> int list option" where
  "parse_ipv4 s =
     (case opt_all (map (read_number 10 3 False) (split_on CHR ''.'' s)) of
        Some ns \<Rightarrow> if length ns = 4 \<and> list_all (\<lambda>n. n < 256) ns then Some ns else None
      | None \<Rightarrow> None)"

text \<open>The groups between colons; the last may be an IPv4 address, which fills two.\<close>

definition parse_groups :: "bool \<Rightarrow> string \<Rightarrow> int list option" where
  "parse_groups v4_allowed s =
     (if s = [] then Some []
      else let gs = split_on CHR '':'' s; group = read_number 16 4 True
           in case (if v4_allowed then parse_ipv4 (last gs) else None) of
                Some [a, b, c, d] \<Rightarrow>
                  map_option (\<lambda>ns. ns @ [256 * a + b, 256 * c + d]) (opt_all (map group (butlast gs)))
              | _ \<Rightarrow> opt_all (map group gs))"

fun split_elision :: "string \<Rightarrow> (string \<times> string) option" where
  "split_elision (c # d # s) =
     (if c = CHR '':'' \<and> d = CHR '':'' then Some ([], s)
      else map_option (\<lambda>(a, b). (c # a, b)) (split_elision (d # s)))"
| "split_elision s = None"

definition parse_ipv6 :: "string \<Rightarrow> int list option" where
  "parse_ipv6 s =
     (case split_elision s of
        None \<Rightarrow> (case parse_groups True s of Some gs \<Rightarrow> if length gs = 8 then Some gs else None | None \<Rightarrow> None)
      | Some (a, b) \<Rightarrow>
          (case (parse_groups False a, parse_groups True b) of
             (Some gs, Some hs) \<Rightarrow>
               if length gs + length hs \<le> 7 then Some (gs @ replicate (8 - length gs - length hs) 0 @ hs) else None
           | _ \<Rightarrow> None))"

definition parse_ip_addr :: "string \<Rightarrow> ip_addr option" where
  "parse_ip_addr s =
     (case parse_ipv4 s of Some ns \<Rightarrow> Some (V4 ns) | None \<Rightarrow> map_option V6 (parse_ipv6 s))"

fun ip_is_loopback :: "ip_addr \<Rightarrow> bool" where
  "ip_is_loopback (V4 ns) \<longleftrightarrow> hd ns = 127"
| "ip_is_loopback (V6 gs) \<longleftrightarrow> gs = [0, 0, 0, 0, 0, 0, 0, 1]"

section \<open>target.rs\<close>

record url_parts =
  up_scheme :: string
  up_host :: "string option"

definition ends_with :: "string \<Rightarrow> string \<Rightarrow> bool" where
  "ends_with t s \<longleftrightarrow> length t \<le> length s \<and> drop (length s - length t) s = t"

definition check_base_url :: "(string \<Rightarrow> string + url_parts) \<Rightarrow> string \<Rightarrow> bool \<Rightarrow> string + string" where
  "check_base_url read_url raw allow_production =
     and_then (map_err (\<lambda>e. ''--base-url '' @ raw @ '': '' @ e) (read_url raw)) (\<lambda>url.
     if up_scheme url \<noteq> ''http'' \<and> up_scheme url \<noteq> ''https''
     then Inl (''--base-url must be http or https, got '' @ raw)
     else (case up_host url of
       None \<Rightarrow> Inl (''--base-url '' @ raw @ '' has no host'')
     | Some h \<Rightarrow>
         let host = map to_ascii_lower h;
             production = (host = ''openwitness.org'' \<or> ends_with ''.openwitness.org'' host)
         in if production \<and> \<not> allow_production
            then Inl (host @ '' is production: refusing without --allow-production'')
            else Inr (trim_end_matches CHR ''/'' raw)))"

definition is_loopback :: "(string \<Rightarrow> string + url_parts) \<Rightarrow> string \<Rightarrow> bool" where
  "is_loopback read_url base_url =
     (case read_url base_url of
        Inl _ \<Rightarrow> False
      | Inr url \<Rightarrow> (case up_host url of
          None \<Rightarrow> False
        | Some host \<Rightarrow> eq_ignore_ascii_case host ''localhost''
            \<or> (case parse_ip_addr (trim_end_matches CHR '']'' (trim_start_matches ''['' host)) of
                 Some ip \<Rightarrow> ip_is_loopback ip | None \<Rightarrow> False)))"

section \<open>The client key\<close>

record identity_record =
  ir_alias :: string
  ir_did :: did
  ir_key_type :: string
  ir_created_at :: string

record key_api = codec_api +
  signing_key_from_slice :: "bytes \<Rightarrow> string + unit"
  derive_did_pkh :: "bytes \<Rightarrow> string + (did \<times> bytes)"
  keccak256 :: "string \<Rightarrow> bytes"
  record_from_str :: "string \<Rightarrow> string + identity_record"
  record_to_string_pretty :: "identity_record \<Rightarrow> string"
  parse_url :: "string \<Rightarrow> string + url_parts"

datatype signature_method = Secp256k1Eip191 | Ed25519 | P256

record client_key =
  ck_did :: did
  ck_display_identifier :: string
  ck_method :: signature_method
  ck_private_key :: bytes

definition to_ascii_upper :: "char \<Rightarrow> char" where
  "to_ascii_upper c = (if 97 \<le> (of_char c :: nat) \<and> of_char c \<le> (122 :: nat)
                       then char_of (of_char c - (32 :: nat)) else c)"

definition is_ascii_alphabetic :: "char \<Rightarrow> bool" where
  "is_ascii_alphabetic c \<longleftrightarrow> (let n = of_char c in 65 \<le> n \<and> n \<le> (90 :: nat) \<or> 97 \<le> n \<and> n \<le> 122)"

definition eip55_nibble :: "bytes \<Rightarrow> nat \<Rightarrow> u8" where
  "eip55_nibble hash i = and (drop_bit (if even i then 4 else 0) (hash ! (i div 2))) 15"

definition eip55_char :: "bytes \<Rightarrow> nat \<times> char \<Rightarrow> char" where
  "eip55_char hash = (\<lambda>(i, c). if is_ascii_alphabetic c \<and> 8 \<le> eip55_nibble hash i then to_ascii_upper c else c)"

definition eip55 :: "'z key_api_scheme \<Rightarrow> bytes \<Rightarrow> string" where
  "eip55 x addr =
     (let hex_addr = hex_encode x addr; hash = keccak256 x hex_addr
      in ''0x'' @ map (eip55_char hash) (enumerate 0 hex_addr))"

definition from_secp256k1_bytes :: "'z key_api_scheme \<Rightarrow> bytes \<Rightarrow> string + client_key" where
  "from_secp256k1_bytes x private_key =
     and_then (map_err (\<lambda>e. ''invalid secp256k1 key: '' @ e) (signing_key_from_slice x private_key)) (\<lambda>_.
     and_then (map_err (\<lambda>e. ''derive_did_pkh: '' @ e) (derive_did_pkh x private_key)) (\<lambda>(d, addr).
     Inr \<lparr>ck_did = d, ck_display_identifier = eip55 x addr, ck_method = Secp256k1Eip191, ck_private_key = private_key\<rparr>))"

section \<open>The file system\<close>

datatype node = RegFile nat string | Directory nat | Symlink string

type_synonym fs = "string \<rightharpoonup> node"

text \<open>\<open>Path::exists\<close> follows links (at most 40, as the kernel does); \<open>symlink_metadata\<close> is the lookup itself.\<close>

fun follow :: "nat \<Rightarrow> fs \<Rightarrow> string \<Rightarrow> node option" where
  "follow 0 fs p = None"
| "follow (Suc n) fs p = (case fs p of Some (Symlink q) \<Rightarrow> follow n fs q | r \<Rightarrow> r)"

definition path_exists :: "fs \<Rightarrow> string \<Rightarrow> bool" where
  "path_exists fs p \<longleftrightarrow> follow 40 fs p \<noteq> None"

definition read_to_string :: "fs \<Rightarrow> string \<Rightarrow> string + string" where
  "read_to_string fs p = (case follow 40 fs p of Some (RegFile _ s) \<Rightarrow> Inr s | _ \<Rightarrow> Inl (''read '' @ p))"

fun node_mode :: "node \<Rightarrow> nat" where
  "node_mode (RegFile m _) = m"
| "node_mode (Directory m) = m"
| "node_mode (Symlink _) = 511"

definition symlink_metadata :: "fs \<Rightarrow> string \<Rightarrow> string + node" where
  "symlink_metadata fs p = (case fs p of Some n \<Rightarrow> Inr n | None \<Rightarrow> Inl (''stat '' @ p))"

section \<open>identity.rs\<close>

definition ALIAS :: string where "ALIAS = ''openwitness-seal-e2e''"
definition KEY_FILE :: string where "KEY_FILE = ''secp256k1.key''"
definition RECORD_FILE :: string where "RECORD_FILE = ''identity.json''"
definition KEY_TYPE :: string where "KEY_TYPE = ''secp256k1''"

record standing_identity =
  si_record :: identity_record
  si_created :: bool
  si_key :: bytes

definition default_dir :: "(string \<rightharpoonup> string) \<Rightarrow> string + string" where
  "default_dir env =
     (case env ''HOME'' of
        None \<Rightarrow> Inl ''HOME is not set''
      | Some home \<Rightarrow> Inr (path_join home ''.local/state/openwitness-seal-e2e''))"

text \<open>A mode is private when the six bits \<open>0o077\<close> are zero.\<close>

definition require_private :: "fs \<Rightarrow> string \<Rightarrow> string \<Rightarrow> string + unit" where
  "require_private fs p what =
     and_then (symlink_metadata fs p) (\<lambda>n.
     if node_mode n mod 64 \<noteq> 0 then Inl (what @ '' '' @ p @ '' is readable or writable by group or others'') else Inr ())"

datatype write_io = WriteOk | OpenFails | WriteStops nat

definition write_new :: "write_io \<Rightarrow> fs \<Rightarrow> string \<Rightarrow> string \<Rightarrow> fs \<times> (string + unit)" where
  "write_new io fs p text =
     (if fs p \<noteq> None then (fs, Inl (''create '' @ p))
      else case io of
        OpenFails \<Rightarrow> (fs, Inl (''create '' @ p))
      | WriteStops n \<Rightarrow> (fs(p \<mapsto> RegFile 384 (take n text)), Inl (''write '' @ p))
      | WriteOk \<Rightarrow> (fs(p \<mapsto> RegFile 384 text), Inr ()))"

definition read_key :: "'z key_api_scheme \<Rightarrow> fs \<Rightarrow> string \<Rightarrow> string + bytes" where
  "read_key x fs p =
     and_then (symlink_metadata fs p) (\<lambda>n.
     (case n of
        RegFile _ _ \<Rightarrow>
          and_then (require_private fs p ''key file'') (\<lambda>_.
          and_then (read_to_string fs p) (\<lambda>text.
          and_then (map_err (\<lambda>_. ''key file is not hex'') (hex_decode x (str_trim text))) (\<lambda>b.
          if length b = 32 then Inr b else Inl ''key file holds a wrong number of bytes'')))
      | _ \<Rightarrow> Inl (p @ '' is not a regular file'')))"

definition private_dir :: "fs \<Rightarrow> string \<Rightarrow> string + unit" where
  "private_dir fs dir =
     and_then (symlink_metadata fs dir) (\<lambda>n.
     (case n of Directory _ \<Rightarrow> require_private fs dir ''state directory'' | _ \<Rightarrow> Inl (dir @ '' is not a directory'')))"

definition load_existing :: "'z key_api_scheme \<Rightarrow> string \<Rightarrow> fs \<Rightarrow> string + standing_identity" where
  "load_existing x dir fs =
     (let key_path = path_join dir KEY_FILE; record_path = path_join dir RECORD_FILE
      in if fs dir = None then Inl (''no standing identity: directory '' @ dir @ '' is missing'')
         else if fs key_path = None then Inl (''no standing identity: key file '' @ key_path @ '' is missing'')
         else and_then (private_dir fs dir) (\<lambda>_.
              and_then (read_key x fs key_path) (\<lambda>key.
              and_then (from_secp256k1_bytes x key) (\<lambda>client.
              if \<not> path_exists fs record_path then Inl (key_path @ '' exists but '' @ record_path @ '' does not'')
              else and_then (require_private fs record_path ''identity record'') (\<lambda>_.
                   and_then (read_to_string fs record_path) (\<lambda>text.
                   and_then (record_from_str x text) (\<lambda>rc.
                   if ir_did rc \<noteq> ck_did client then Inl (record_path @ '' names another DID than the key derives'')
                   else if ir_alias rc \<noteq> ALIAS then Inl (record_path @ '' has another alias'')
                   else Inr \<lparr>si_record = rc, si_created = False, si_key = key\<rparr>)))))))"

text \<open>What a run meets outside the file system: randomness, the clock and write faults.\<close>

record run_env =
  re_keys :: "bytes list"
  re_now :: string
  re_mkdir_fails :: bool
  re_key_io :: write_io
  re_record_io :: write_io

text \<open>The loop draws keys until the curve accepts one; \<open>None\<close> when the keys given run out.\<close>

fun draw_key :: "'z key_api_scheme \<Rightarrow> bytes list \<Rightarrow> (bytes \<times> client_key) option" where
  "draw_key x [] = None"
| "draw_key x (k # ks) = (case from_secp256k1_bytes x k of Inr c \<Rightarrow> Some (k, c) | Inl _ \<Rightarrow> draw_key x ks)"

definition create_identity :: "'z key_api_scheme \<Rightarrow> string \<Rightarrow> run_env \<Rightarrow> fs \<Rightarrow> (fs \<times> (string + standing_identity)) option" where
  "create_identity x dir env fs =
     (case draw_key x (re_keys env) of
        None \<Rightarrow> None
      | Some (key, client) \<Rightarrow>
          let rc = \<lparr>ir_alias = ALIAS, ir_did = ck_did client, ir_key_type = KEY_TYPE, ir_created_at = re_now env\<rparr>;
              (fs1, r1) = write_new (re_key_io env) fs (path_join dir KEY_FILE) (hex_encode x key @ [CHR 0x0A])
          in Some (case r1 of
               Inl e \<Rightarrow> (fs1, Inl e)
             | Inr _ \<Rightarrow>
                 let (fs2, r2) = write_new (re_record_io env) fs1 (path_join dir RECORD_FILE) (record_to_string_pretty x rc)
                 in (fs2, and_then r2 (\<lambda>_. Inr \<lparr>si_record = rc, si_created = True, si_key = key\<rparr>))))"

definition make_dir :: "run_env \<Rightarrow> string \<Rightarrow> fs \<Rightarrow> string + fs" where
  "make_dir env dir fs =
     (if path_exists fs dir then Inr fs
      else if re_mkdir_fails env \<or> fs dir \<noteq> None then Inl (''create '' @ dir)
      else Inr (fs(dir \<mapsto> Directory 448)))"

definition load_or_create :: "'z key_api_scheme \<Rightarrow> string \<Rightarrow> run_env \<Rightarrow> fs \<Rightarrow> (fs \<times> (string + standing_identity)) option" where
  "load_or_create x dir env fs =
     (case make_dir env dir fs of
        Inl e \<Rightarrow> Some (fs, Inl e)
      | Inr fs1 \<Rightarrow>
          (case private_dir fs1 dir of
             Inl e \<Rightarrow> Some (fs1, Inl e)
           | Inr _ \<Rightarrow>
               if \<not> path_exists fs1 (path_join dir KEY_FILE)
               then if path_exists fs1 (path_join dir RECORD_FILE)
                    then Some (fs1, Inl (path_join dir RECORD_FILE @ '' exists but '' @ path_join dir KEY_FILE @ '' does not''))
                    else create_identity x dir env fs1
               else Some (fs1, load_existing x dir fs1)))"

definition for_base_url :: "'z key_api_scheme \<Rightarrow> string \<Rightarrow> string \<Rightarrow> run_env \<Rightarrow> fs \<Rightarrow> (fs \<times> (string + standing_identity)) option" where
  "for_base_url x base_url dir env fs =
     (if is_loopback (parse_url x) base_url then load_or_create x dir env fs else Some (fs, load_existing x dir fs))"

section \<open>The identity is made once\<close>

definition identity_step :: "'z key_api_scheme \<Rightarrow> string \<Rightarrow> fs \<Rightarrow> string \<times> run_env \<Rightarrow> fs \<Rightarrow> bool" where
  "identity_step x dir fs = (\<lambda>(base_url, env) fs'. \<exists>r. for_base_url x base_url dir env fs = Some (fs', r))"

interpretation standing: transition_system "\<lambda>_. True" "identity_step x dir" for x :: key_api and dir .

lemma path_join_neq: "f \<noteq> [] \<Longrightarrow> path_join d f \<noteq> d" "path_join d f = path_join d g \<longleftrightarrow> f = g"
  by (auto simp: path_join_def)

lemma identity_paths [simp]:
  "path_join d KEY_FILE \<noteq> d" "d \<noteq> path_join d KEY_FILE" "path_join d RECORD_FILE \<noteq> d" "d \<noteq> path_join d RECORD_FILE" "path_join d KEY_FILE \<noteq> path_join d RECORD_FILE"
  "path_join d RECORD_FILE \<noteq> path_join d KEY_FILE"
  using path_join_neq(1) [of KEY_FILE d] path_join_neq(1) [of RECORD_FILE d]
  by (simp_all add: path_join_neq(2) KEY_FILE_def RECORD_FILE_def not_sym)

lemma follow_node: "fs p = Some n \<Longrightarrow> \<forall>q. n \<noteq> Symlink q \<Longrightarrow> follow 40 fs p = Some n"
  by (cases n) (simp_all add: eval_nat_numeral)

lemma path_exists_node: "fs p = Some n \<Longrightarrow> \<forall>q. n \<noteq> Symlink q \<Longrightarrow> path_exists fs p"
  by (simp add: path_exists_def follow_node)

lemma read_to_string_file: "fs p = Some (RegFile m t) \<Longrightarrow> read_to_string fs p = Inr t"
  by (simp add: read_to_string_def follow_node)

lemma private_dir_Inr: "private_dir fs dir = Inr u \<Longrightarrow> \<exists>m. fs dir = Some (Directory m)"
  by (auto simp: private_dir_def symlink_metadata_def split: option.splits node.splits)

lemma require_private_Inr:
  "require_private fs p w = Inr u \<Longrightarrow> \<exists>n. fs p = Some n \<and> node_mode n mod 64 = 0 \<and> (\<forall>q. n \<noteq> Symlink q)"
  by (auto simp: require_private_def symlink_metadata_def split: option.splits if_splits)

lemma read_key_Inr:
  assumes "read_key x fs p = Inr k"
  shows "\<exists>m t. fs p = Some (RegFile m t) \<and> m mod 64 = 0 \<and> hex_decode x (str_trim t) = Inr k"
  using assms
  by (auto simp: read_key_def symlink_metadata_def read_to_string_file split: option.splits node.splits if_splits
      dest!: require_private_Inr)

lemma write_new_Inr: "write_new io fs p t = (fs', Inr u) \<Longrightarrow> fs p = None \<and> fs' = fs(p \<mapsto> RegFile 384 t)"
  by (auto simp: write_new_def split: if_splits write_io.splits)

text \<open>What the disk holds after a successful run.\<close>

definition settled :: "'z key_api_scheme \<Rightarrow> string \<Rightarrow> fs \<Rightarrow> standing_identity \<Rightarrow> bool" where
  "settled x dir fs a \<longleftrightarrow>
     (\<exists>dm m t n u c. fs dir = Some (Directory dm)
        \<and> fs (path_join dir KEY_FILE) = Some (RegFile m t) \<and> hex_decode x (str_trim t) = Inr (si_key a)
        \<and> fs (path_join dir RECORD_FILE) = Some (RegFile n u) \<and> record_from_str x u = Inr (si_record a)
        \<and> from_secp256k1_bytes x (si_key a) = Inr c \<and> ir_did (si_record a) = ck_did c \<and> ir_alias (si_record a) = ALIAS)"

lemma load_existing_Inr:
  assumes "load_existing x dir fs = Inr a"
  shows "settled x dir fs a \<and> \<not> si_created a"
proof -
  obtain key client content n where
    dir: "private_dir fs dir = Inr ()" and key: "read_key x fs (path_join dir KEY_FILE) = Inr key"
    and client: "from_secp256k1_bytes x key = Inr client"
    and rc: "require_private fs (path_join dir RECORD_FILE) ''identity record'' = Inr n"
      "read_to_string fs (path_join dir RECORD_FILE) = Inr content" "record_from_str x content = Inr (si_record a)"
    and did: "ir_did (si_record a) = ck_did client" "ir_alias (si_record a) = ALIAS" "si_key a = key" "\<not> si_created a"
    using assms by (auto simp: load_existing_def Let_def split: if_splits)
  obtain nd where nd: "fs (path_join dir RECORD_FILE) = Some nd" "\<forall>q. nd \<noteq> Symlink q"
    using require_private_Inr [OF rc(1)] by blast
  obtain m where node: "fs (path_join dir RECORD_FILE) = Some (RegFile m content)"
    using rc(2) nd follow_node [of fs "path_join dir RECORD_FILE", OF nd] by (cases nd) (simp_all add: read_to_string_def)
  show ?thesis
    unfolding settled_def
    using private_dir_Inr [OF dir] read_key_Inr [OF key] client node rc(3) did by blast
qed

lemma trim_hex_line:
  assumes "hex_codec x"
  shows "str_trim (hex_encode x k @ [CHR 0x0A]) = hex_encode x k"
proof -
  have sp: "\<not> is_space c" if "c \<in> set (hex_encode x k)" for c
    using hex_codec.encode_digits [OF assms that] by (auto simp: hex_digit_def is_space_def)
  then have no: "dropWhile is_space (hex_encode x k) = hex_encode x k"
    "dropWhile is_space (rev (hex_encode x k)) = rev (hex_encode x k)"
    by (auto simp: dropWhile_eq_self_iff simp del: set_rev dest: hd_in_set) (metis hd_in_set set_rev rev_is_Nil_conv)
  have "is_space (CHR 0x0A)" by (simp add: is_space_def)
  then show ?thesis
    using no sp hd_in_set by (cases "hex_encode x k = []") (auto simp: str_trim_def dropWhile_append3 dropWhile_append)
qed

lemma draw_key_Some: "draw_key x ks = Some (k, c) \<Longrightarrow> from_secp256k1_bytes x k = Inr c"
  by (induction ks) (auto split: sum.splits)

lemma create_identity_Inr:
  assumes "hex_codec x" "\<And>r. record_from_str x (record_to_string_pretty x r) = Inr r"
    and "create_identity x dir env fs = Some (fs', Inr a)" "fs dir = Some (Directory m)"
  shows "settled x dir fs' a"
proof -
  obtain key client rc fs1 where draw: "draw_key x (re_keys env) = Some (key, client)"
    and rc: "rc = \<lparr>ir_alias = ALIAS, ir_did = ck_did client, ir_key_type = KEY_TYPE, ir_created_at = re_now env\<rparr>"
    and w1: "write_new (re_key_io env) fs (path_join dir KEY_FILE) (hex_encode x key @ [CHR 0x0A]) = (fs1, Inr ())"
    and w2: "write_new (re_record_io env) fs1 (path_join dir RECORD_FILE) (record_to_string_pretty x rc) = (fs', Inr ())"
    and a: "a = \<lparr>si_record = rc, si_created = True, si_key = key\<rparr>"
    using assms(3) by (auto simp: create_identity_def Let_def split: option.splits prod.splits sum.splits)
  have "from_secp256k1_bytes x key = Inr client"
    using draw by (rule draw_key_Some)
  then show ?thesis
    using write_new_Inr [OF w1] write_new_Inr [OF w2] assms(2,4) trim_hex_line [OF assms(1)] hex_codec.decode_encode [OF assms(1)]
    by (simp add: settled_def a rc)
qed

lemma make_dir_Inr: "make_dir env dir fs = Inr fs' \<Longrightarrow> fs p \<noteq> None \<Longrightarrow> fs' p = fs p"
  by (auto simp: make_dir_def split: if_splits)

lemma for_base_url_settled:
  assumes "hex_codec x" "\<And>r. record_from_str x (record_to_string_pretty x r) = Inr r"
    and "for_base_url x u dir env fs = Some (fs', Inr a)"
  shows "settled x dir fs' a"
proof (cases "is_loopback (parse_url x) u")
  case False
  then show ?thesis using assms(3) load_existing_Inr by (auto simp: for_base_url_def)
next
  case True
  then obtain fs1 where fs1: "make_dir env dir fs = Inr fs1" "private_dir fs1 dir = Inr ()"
    and cases: "create_identity x dir env fs1 = Some (fs', Inr a) \<or> fs1 = fs' \<and> load_existing x dir fs' = Inr a"
    using assms(3) by (auto simp: for_base_url_def load_or_create_def split: sum.splits if_splits)
  then show ?thesis
    using create_identity_Inr [OF assms(1,2)] load_existing_Inr private_dir_Inr [OF fs1(2)] by blast
qed

text \<open>Once settled, every run loads the same identity and writes nothing.\<close>

lemma settled_run:
  assumes "settled x dir fs a" "for_base_url x u dir env fs = Some (fs', r)"
  shows "fs' = fs \<and> (\<forall>b. r = Inr b \<longrightarrow> b = a\<lparr>si_created := False\<rparr>)"
proof -
  have exist: "path_exists fs dir" "path_exists fs (path_join dir KEY_FILE)"
    using assms(1) path_exists_node by (fastforce simp: settled_def)+
  then have run: "fs' = fs" "r = load_existing x dir fs \<or> (\<exists>e. r = Inl e)"
    using assms(2) by (auto simp: for_base_url_def load_or_create_def make_dir_def split: if_splits sum.splits)
  have "b = a\<lparr>si_created := False\<rparr>" if "load_existing x dir fs = Inr b" for b
    using load_existing_Inr [OF that] assms(1) by (auto simp: settled_def)
  with run show ?thesis by auto
qed

lemma settled_runs: "standing.run x dir fs ls fs' \<Longrightarrow> settled x dir fs a \<Longrightarrow> fs' = fs"
proof (induction rule: standing.run.induct)
  case (run_cons s l t ls u)
  then have "t = s"
    using settled_run by (fastforce simp: identity_step_def split: prod.splits)
  with run_cons show ?case by simp
qed simp

text \<open>
  A key whose record was never written (the write fault between the two) stays as it is: every
  later run refuses it and no run makes a second identity.
\<close>

lemma half_made_run:
  assumes "fs (path_join dir KEY_FILE) = Some n" "fs (path_join dir RECORD_FILE) = None"
    and "for_base_url x u dir env fs = Some (fs', r)"
  shows "fs' (path_join dir KEY_FILE) = Some n \<and> fs' (path_join dir RECORD_FILE) = None \<and> (\<exists>e. r = Inl e)"
proof -
  have refused: "\<exists>e. load_existing x dir g = Inl e" if "g (path_join dir RECORD_FILE) = None" for g
    using load_existing_Inr [of x dir g] that by (cases "load_existing x dir g") (auto simp: settled_def)
  show ?thesis
  proof (cases "is_loopback (parse_url x) u")
    case False
    then show ?thesis using assms refused by (auto simp: for_base_url_def)
  next
    case True
    have made: "fs1 (path_join dir KEY_FILE) = Some n \<and> fs1 (path_join dir RECORD_FILE) = None"
      if "make_dir env dir fs = Inr fs1" for fs1
      using that assms(1,2) by (auto simp: make_dir_def split: if_splits)
    have blocked: "g = g' \<and> (\<exists>e. q = Inl e)"
      if "create_identity x dir env g = Some (g', q)" "g (path_join dir KEY_FILE) = Some n" for g g' q
      using that by (auto simp: create_identity_def write_new_def split: option.splits)
    show ?thesis
    proof (cases "make_dir env dir fs")
      case (Inl e)
      then show ?thesis using True assms by (auto simp: for_base_url_def load_or_create_def)
    next
      case (Inr fs1)
      obtain e where e: "load_existing x dir fs1 = Inl e"
        using refused made [OF Inr] by blast
      show ?thesis
        using True assms(3) made [OF Inr] blocked [of fs1] Inr
        by (auto simp: for_base_url_def load_or_create_def e split: sum.splits if_splits)
    qed
  qed
qed

theorem half_made_identity_refused:
  assumes "standing.run x dir fs ls fs'" "fs (path_join dir KEY_FILE) = Some n" "fs (path_join dir RECORD_FILE) = None"
    and "for_base_url x u dir env fs' = Some (fs'', r)"
  shows "fs'' (path_join dir KEY_FILE) = Some n \<and> fs'' (path_join dir RECORD_FILE) = None \<and> (\<exists>e. r = Inl e)"
  using assms(1-3) half_made_run [OF _ _ assms(4)]
  by (induction rule: standing.run.induct) (auto simp: identity_step_def dest: half_made_run)

text \<open>Three of the hosts the loopback rule is tested on.\<close>

definition loopback_host :: "string \<Rightarrow> bool" where
  "loopback_host h = is_loopback (\<lambda>_. Inr \<lparr>up_scheme = ''http'', up_host = Some h\<rparr>) []"

lemma loopback_hosts: "loopback_host ''127.1.2.3''" "loopback_host ''[::1]''" "\<not> loopback_host ''127.0.0.1.org''"
  by code_simp+

text \<open>
  C36: The standing identity is made once and never rotated.  After a run that had an identity, any
  sequence of further runs, against any targets, with any randomness and write faults, leaves the
  disk exactly as it is, and a later run that has an identity has the same key and record.
\<close>

theorem standing_identity_never_rotated:
  assumes codec: "hex_codec x" "\<forall>r. record_from_str x (record_to_string_pretty x r) = Inr r"
    and first: "for_base_url x u1 dir env1 fs0 = Some (fs1, Inr a)"
    and runs: "standing.run x dir fs1 ls fs2"
    and later: "for_base_url x u2 dir env2 fs2 = Some (fs3, r)"
  shows "fs3 = fs1 \<and> (\<forall>b. r = Inr b \<longrightarrow> b = a\<lparr>si_created := False\<rparr>)"
proof -
  have "settled x dir fs1 a"
    using for_base_url_settled [OF codec(1) _ first] codec(2) by blast
  then show ?thesis
    using settled_runs [OF runs] settled_run [OF _ later] by blast
qed

text \<open>A first run on a loopback target makes the identity; a write fault of a later run, against a remote, changes nothing.\<close>

definition demo_keys :: key_api where
  "demo_keys = \<lparr>hex_encode = base16_encode, hex_decode = base16_decode, sha3_256 = (\<lambda>_. replicate 32 0),
     signing_key_from_slice = (\<lambda>_. Inr ()), derive_did_pkh = (\<lambda>k. Inr (''did:pkh:eip155:1:0x'' @ base16_encode (take 2 k), take 20 k)),
     keccak256 = (\<lambda>_. replicate 32 0), 
     record_from_str = (\<lambda>s. case unesc s of (a, s1) \<Rightarrow> (case unesc s1 of (d, s2) \<Rightarrow> (case unesc s2 of (k, s3) \<Rightarrow> (case unesc s3 of (c, _) \<Rightarrow>
       Inr \<lparr>ir_alias = a, ir_did = d, ir_key_type = k, ir_created_at = c\<rparr>)))),
     record_to_string_pretty = (\<lambda>r. esc (ir_alias r) @ esc (ir_did r) @ esc (ir_key_type r) @ esc (ir_created_at r) @ []),
     parse_url = (\<lambda>u. Inr \<lparr>up_scheme = ''http'', up_host = Some u\<rparr>)\<rparr>"

interpretation demo_keys: hex_codec demo_keys
  using base16.decode_encode base16.encode_decode base16.encode_length base16.encode_digits base16.decode_total
  by unfold_locales (simp_all add: demo_keys_def base16_codec_def)

definition demo_env :: "write_io \<Rightarrow> run_env" where
  "demo_env io = \<lparr>re_keys = [replicate 32 7], re_now = ''now'', re_mkdir_fails = False, re_key_io = io, re_record_io = io\<rparr>"

definition demo_first :: "(fs \<times> (string + standing_identity)) option" where
  "demo_first = for_base_url demo_keys ''127.0.0.1'' ''/state'' (demo_env WriteOk) Map.empty"

theorem standing_identity_never_rotated_witness:
  "case demo_first of
     Some (fs1, Inr a) \<Rightarrow> si_created a
       \<and> for_base_url demo_keys ''example.org'' ''/state'' (demo_env OpenFails) fs1 = Some (fs1, Inr (a\<lparr>si_created := False\<rparr>))
   | _ \<Rightarrow> False"
proof -
  have codec: "\<forall>r. record_from_str demo_keys (record_to_string_pretty demo_keys r) = Inr r"
    by (simp add: demo_keys_def unesc_esc del: append_assoc append_Nil2)
  have eval: "case demo_first of Some (fs1, Inr a) \<Rightarrow> si_created a
      \<and> (case load_existing demo_keys ''/state'' fs1 of Inr b \<Rightarrow> True | Inl _ \<Rightarrow> False) | _ \<Rightarrow> False"
    by code_simp
  then obtain fs1 r where run: "demo_first = Some (fs1, r)"
    by (cases demo_first) auto
  obtain a where "r = Inr a"
    using eval unfolding run by (cases r) simp_all
  with eval obtain b where first: "demo_first = Some (fs1, Inr a)" "si_created a" "load_existing demo_keys ''/state'' fs1 = Inr b"
    unfolding run by (cases "load_existing demo_keys ''/state'' fs1") simp_all
  have "\<not> is_loopback (parse_url demo_keys) ''example.org''" by code_simp
  then have later: "for_base_url demo_keys ''example.org'' ''/state'' (demo_env OpenFails) fs1 = Some (fs1, Inr b)"
    by (simp add: for_base_url_def first(3))
  show ?thesis
    unfolding first(1)
    using standing_identity_never_rotated [OF demo_keys.hex_codec_axioms codec first(1) [unfolded demo_first_def] standing.run_nil later] first(2) later by simp
qed

end
