(* ===== verification/E2e_Fetch.thy ===== *)
theory E2e_Fetch
  imports E2e_Identity
begin

text \<open>
  The client flow of the end-to-end checker: reading a served witness and the client's own tree
  (\<open>crates/aqua-timestamp-e2e/src/witness.rs\<close>), the polls and the full flow (\<open>flow.rs\<close>).

  An HTTP exchange is an input: a poll is a list of attempts, each with the clock before it, what it
  answered and the clock after it.  The SDK, serde and the URL parser are the record \<open>e2e_api\<close>.
  Log lines are not modelled.  Times are counted in nanoseconds.
\<close>

section \<open>Data\<close>

datatype fetch_error =
    WE_NotFound anchor_method string
  | WE_StillPending anchor_method string
  | WE_Stub anchor_method string
  | WE_Http anchor_method nat string
  | WE_Malformed anchor_method string
  | WE_Unreachable anchor_method string

record fetched =
  ft_method :: anchor_method
  ft_tree :: json
  ft_object_key :: string
  ft_signature_key :: string
  ft_payloads :: json

record verification_result =
  vr_errors :: "(string \<times> string) list"
  vr_evm_anchors :: "(string \<times> string) list"
  vr_tsa_tokens :: "(string \<times> string) list"
  vr_is_verified :: bool

record reader_hosts =
  rh_endpoint :: "(u64 \<times> string) option"
  rh_tsa_facts_expected :: bool

record e2e_api = client_api +
  json_text :: "json \<Rightarrow> string"
  debug_text :: "string \<Rightarrow> string"
  sdk_tree_from :: "json \<Rightarrow> string + unit"
  create_genesis_revision :: "string \<Rightarrow> string \<Rightarrow> string + json"
  link_bytes :: "string \<Rightarrow> string + bytes"
  verify_tree_sync :: "reader_hosts \<Rightarrow> json \<Rightarrow> string \<Rightarrow> string + verification_result"
  evm_chain_id_for_network :: "string \<Rightarrow> u64 option"
  sign_prehash :: "bytes \<Rightarrow> bytes \<Rightarrow> string + bytes \<times> u8"
  sign_raw :: "signature_method \<Rightarrow> bytes \<Rightarrow> string \<Rightarrow> bytes"
  verifying_key :: "signature_method \<Rightarrow> bytes \<Rightarrow> bytes"

section \<open>A served witness\<close>

fun str_contains :: "string \<Rightarrow> string \<Rightarrow> bool" where
  "str_contains pat [] = (pat = [])"
| "str_contains pat (c # s) = (starts_with pat (c # s) \<or> str_contains pat s)"

definition payload_str :: "json \<Rightarrow> string \<Rightarrow> string" where
  "payload_str payloads k = (case Option.bind (json_get payloads k) json_as_str of Some s \<Rightarrow> s | None \<Rightarrow> [])"

definition stub_fields :: "string list" where
  "stub_fields = [''tsa_provider'', ''network'', ''sender_account_address'', ''smart_contract_address'']"

definition detect_stub :: "'z e2e_api_scheme \<Rightarrow> anchor_method \<Rightarrow> json \<Rightarrow> string option" where
  "detect_stub x method payloads =
     (let txt = payload_str payloads;
          tx = txt ''transaction_hash'';
          digits = (case strip_prefix ''0x'' tx of Some d \<Rightarrow> d | None \<Rightarrow> tx)
      in if digits = [] then Some ''empty transaction_hash''
         else if method = Evm \<and> list_all (\<lambda>c. c = CHR ''0'') digits then Some (''zero transaction_hash '' @ tx)
         else case filter (\<lambda>k. str_contains ''stub'' (map to_ascii_lower (txt k))) stub_fields of
           k # _ \<Rightarrow> Some (k @ '' = '' @ debug_text x (txt k))
         | [] \<Rightarrow>
             (case (method, txt ''network'' = ''tsa'') of
                (Qtsa, False) \<Rightarrow> Some (''qtsa witness on network '' @ debug_text x (txt ''network''))
              | (Evm, True) \<Rightarrow> Some ''evm witness on the tsa network''
              | _ \<Rightarrow> None))"

definition pending_detail :: "'z e2e_api_scheme \<Rightarrow> string \<Rightarrow> string" where
  "pending_detail x body =
     (case from_str x body of
        Inl _ \<Rightarrow> body
      | Inr v \<Rightarrow> (case Option.bind (json_get v ''detail'') json_as_str of
          None \<Rightarrow> body
        | Some detail \<Rightarrow>
            ''epoch '' @ (case json_get v ''epoch'' of Some e \<Rightarrow> json_text x e | None \<Rightarrow> []) @ '': '' @ detail))"

text \<open>The loop over the revisions: the last typed and the last signature revision.\<close>

fun scan_revisions :: "'z e2e_api_scheme \<Rightarrow> (string \<times> json) list \<Rightarrow> (string \<times> json) option \<Rightarrow> string option
  \<Rightarrow> string + (string \<times> json) option \<times> string option" where
  "scan_revisions x [] object signature = Inr (object, signature)"
| "scan_revisions x ((key, v) # revs) object signature =
     (case any_revision_from x v of
        Inl e \<Rightarrow> Inl (''revision '' @ key @ '': '' @ e)
      | Inr (Typed _) \<Rightarrow> scan_revisions x revs (Some (key, v)) signature
      | Inr (Signature _) \<Rightarrow> scan_revisions x revs object (Some key)
      | Inr (OtherRevision _) \<Rightarrow> scan_revisions x revs object signature)"

definition parse_served :: "'z e2e_api_scheme \<Rightarrow> anchor_method \<Rightarrow> string \<Rightarrow> fetch_error + fetched" where
  "parse_served x method body =
     map_err (WE_Malformed method)
      (and_then (map_err (\<lambda>e. ''not JSON: '' @ e) (from_str x body)) (\<lambda>tree.
       and_then (map_err (\<lambda>e. ''not an SDK tree: '' @ e) (sdk_tree_from x tree)) (\<lambda>_.
       and_then (case json_get tree ''revisions'' of Some (JObj m) \<Rightarrow> Inr m | _ \<Rightarrow> Inl ''tree.revisions missing'') (\<lambda>revisions.
       if length revisions \<noteq> 2 then Inl (''expected 2 revisions (timestamp + signature), got '' @ show_nat (length revisions))
       else and_then (scan_revisions x revisions None None) (\<lambda>(object, signature).
            and_then (case object of Some kv \<Rightarrow> Inr kv | None \<Rightarrow> Inl ''no timestamp revision'') (\<lambda>(object_key, object_value).
            and_then (case signature of Some k \<Rightarrow> Inr k | None \<Rightarrow> Inl ''no signature revision'') (\<lambda>signature_key.
            and_then (case json_get object_value ''payloads'' of Some p \<Rightarrow> Inr p | None \<Rightarrow> Inl ''timestamp revision has no payloads'') (\<lambda>payloads.
            Inr \<lparr>ft_method = method, ft_tree = tree, ft_object_key = object_key, ft_signature_key = signature_key,
                 ft_payloads = payloads\<rparr>))))))))"

definition parse_witness :: "'z e2e_api_scheme \<Rightarrow> anchor_method \<Rightarrow> string \<Rightarrow> fetch_error + fetched" where
  "parse_witness x method body =
     and_then (parse_served x method body) (\<lambda>f.
     case detect_stub x method (ft_payloads f) of Some reason \<Rightarrow> Inl (WE_Stub method reason) | None \<Rightarrow> Inr f)"

section \<open>Polling\<close>

record poll_budget =
  pb_deadline :: nat
  pb_interval :: nat

abbreviation nanos_per_sec :: nat where
  "nanos_per_sec \<equiv> 1000000000"

text \<open>The seconds are \<open>u64\<close>; the product wraps in a release build.\<close>

definition from_epoch_close :: "nat \<Rightarrow> u64 \<Rightarrow> u64 \<Rightarrow> u64 \<Rightarrow> poll_budget" where
  "from_epoch_close clock epoch_closes_at now_secs grace_secs =
     (let span = sat_sub epoch_closes_at now_secs;
          max_wait = 2 * span + grace_secs
      in \<lparr>pb_deadline = clock + unat (max max_wait 60) * nanos_per_sec, pb_interval = 5 * nanos_per_sec\<rparr>)"

definition fast_budget :: "nat \<Rightarrow> u64 \<Rightarrow> poll_budget" where
  "fast_budget clock seconds =
     \<lparr>pb_deadline = clock + unat (max seconds 2) * nanos_per_sec, pb_interval = 50000000\<rparr>"

text \<open>One GET: a transport error, or a status with the outcome of reading the body.\<close>

record get_attempt =
  ga_start :: nat
  ga_answer :: "string + nat \<times> (string + string)"
  ga_now :: nat

definition attempt_outcome :: "'z e2e_api_scheme \<Rightarrow> string + nat \<times> (string + string) \<Rightarrow> string + nat \<times> string" where
  "attempt_outcome x answer =
     (case answer of
        Inl e \<Rightarrow> Inl e
      | Inr (status, Inl e) \<Rightarrow>
          if 400 \<le> status \<and> status < 500 then Inr (status, [])
          else Inl (''HTTP '' @ status_text x status @ '', body read failed: '' @ e)
      | Inr (status, Inr body) \<Rightarrow>
          if 500 \<le> status \<and> status < 600 then Inl (''HTTP '' @ status_text x status @ '' '' @ take 200 body)
          else Inr (status, body))"

text \<open>The answer, the clock when it arrived and the attempts left; \<open>None\<close> when the attempts given run out.\<close>

fun get_retrying :: "'z e2e_api_scheme \<Rightarrow> poll_budget \<Rightarrow> get_attempt list
  \<Rightarrow> ((string + nat \<times> string) \<times> nat \<times> get_attempt list) option" where
  "get_retrying x budget [] = None"
| "get_retrying x budget (a # as) =
     (case attempt_outcome x (ga_answer a) of
        Inr answer \<Rightarrow> Some (Inr answer, ga_now a, as)
      | Inl failure \<Rightarrow>
          if pb_deadline budget \<le> ga_now a then Some (Inl failure, ga_now a, as) else get_retrying x budget as)"

lemma get_retrying_shorter: "get_retrying x b as = Some (r, now, rest) \<Longrightarrow> length rest < length as"
  by (induction as) (auto split: sum.splits if_splits)

function fetch_served :: "'z e2e_api_scheme \<Rightarrow> anchor_method \<Rightarrow> poll_budget \<Rightarrow> string option \<Rightarrow> get_attempt list
  \<Rightarrow> (fetch_error + nat \<times> string) option" where
  "fetch_served x method budget pending attempts =
     (case get_retrying x budget attempts of
        None \<Rightarrow> None
      | Some (Inr (status, body), now, rest) \<Rightarrow>
          if status = 202
          then let detail = pending_detail x body
               in if pb_deadline budget \<le> now then Some (Inl (WE_StillPending method detail))
                  else fetch_served x method budget (Some detail) rest
          else if status = 404 then Some (Inl (WE_NotFound method body))
          else if is_success status then Some (Inr (status, body))
          else Some (Inl (WE_Http method status body))
      | Some (Inl error, _, _) \<Rightarrow>
          Some (Inl (case pending of Some detail \<Rightarrow> WE_StillPending method detail | None \<Rightarrow> WE_Unreachable method error)))"
  by pat_completeness auto
termination
  by (relation "measure (\<lambda>(x, m, b, p, as). length as)") (auto dest: get_retrying_shorter)

declare fetch_served.simps [simp del]

definition fetch_witness :: "'z e2e_api_scheme \<Rightarrow> anchor_method \<Rightarrow> nat \<Rightarrow> nat \<Rightarrow> get_attempt list \<Rightarrow> (fetch_error + fetched) option" where
  "fetch_witness x method deadline interval attempts =
     map_option (\<lambda>r. and_then r (\<lambda>(_, body). parse_witness x method body))
       (fetch_served x method \<lparr>pb_deadline = deadline, pb_interval = interval\<rparr> None attempts)"

function wait_for_seal :: "'z e2e_api_scheme \<Rightarrow> u64 \<Rightarrow> poll_budget \<Rightarrow> get_attempt list \<Rightarrow> (string + unit) option" where
  "wait_for_seal x epoch_id budget attempts =
     (case attempts of
        [] \<Rightarrow> None
      | a # _ \<Rightarrow>
          if pb_deadline budget \<le> ga_start a then Some (Inl ''timed out waiting for the epoch to seal'')
          else case get_retrying x budget attempts of
            None \<Rightarrow> None
          | Some (Inl e, _, _) \<Rightarrow> Some (Inl (''timed out waiting for the epoch to seal; last read: '' @ e))
          | Some (Inr (status, body), _, rest) \<Rightarrow>
              if \<not> is_success status then Some (Inl (''GET /v1/schedule: HTTP '' @ show_nat status))
              else (case from_str x body of
                Inl e \<Rightarrow> Some (Inl (''schedule json: '' @ e))
              | Inr v \<Rightarrow>
                  let last_sealed = (case Option.bind (json_get v ''last_sealed_epoch_id'') json_as_u64 of Some n \<Rightarrow> n | None \<Rightarrow> 0)
                  in if epoch_id \<le> last_sealed then Some (Inr ()) else wait_for_seal x epoch_id budget rest))"
  by pat_completeness auto
termination
  by (relation "measure (\<lambda>(x, n, b, as). length as)") (auto simp del: get_retrying.simps dest!: get_retrying_shorter)

declare wait_for_seal.simps [simp del]

section \<open>The client's own tree and the SDK verifier\<close>

record client_tree =
  ct_tree :: json
  ct_file :: string
  ct_leaf_hex :: string

definition json_object :: "json \<Rightarrow> (string \<times> json) list option" where
  "json_object j = (case j of JObj m \<Rightarrow> Some m | _ \<Rightarrow> None)"

definition tips_of_revisions :: "(string \<times> json) list \<Rightarrow> string list" where
  "tips_of_revisions revisions =
     (let previous = concat (map (\<lambda>(_, r). case Option.bind (json_get r ''previous_revision'') json_as_str of Some p \<Rightarrow> [p] | None \<Rightarrow> []) revisions)
      in filter (\<lambda>k. k \<notin> set previous) (map fst revisions))"

definition new_client_tree :: "'z e2e_api_scheme \<Rightarrow> bytes \<Rightarrow> string \<Rightarrow> string + client_tree" where
  "new_client_tree x nonce tag =
     (let content = ''openwitness-seal-e2e '' @ tag @ '' '' @ hex_encode x nonce
      in and_then (map_err (\<lambda>e. ''client genesis: '' @ e) (create_genesis_revision x (tag @ ''.txt'') content)) (\<lambda>tree.
         and_then (case Option.bind (json_get tree ''revisions'') json_object of Some m \<Rightarrow> Inr m | None \<Rightarrow> Inl ''client tree has no revisions'') (\<lambda>revisions.
         (case tips_of_revisions revisions of
            [tip] \<Rightarrow>
              and_then (map_err (\<lambda>e. ''tip link: '' @ e) (link_bytes x tip)) (\<lambda>b.
              let digest = drop (length b - 32) b
              in if length digest \<noteq> 32 then Inl ''tip link is shorter than 32 bytes''
                 else Inr \<lparr>ct_tree = tree, ct_file = content, ct_leaf_hex = ''0x'' @ hex_encode x digest\<rparr>)
          | tips \<Rightarrow> Inl (''a linear client tree has one tip, found '' @ show_nat (length tips))))))"

text \<open>\<open>tree[field][k] = v\<close> on JSON objects; the sources index only objects here.\<close>

definition json_set :: "(string \<times> json) list \<Rightarrow> string \<Rightarrow> json \<Rightarrow> (string \<times> json) list" where
  "json_set m k v = (if k \<in> fst ` set m then map (\<lambda>(k', v'). if k' = k then (k', v) else (k', v')) m else m @ [(k, v)])"

definition json_extend :: "(string \<times> json) list \<Rightarrow> (string \<times> json) list \<Rightarrow> (string \<times> json) list" where
  "json_extend m kvs = foldl (\<lambda>m (k, v). json_set m k v) m kvs"

definition field_extend :: "json \<Rightarrow> string \<Rightarrow> (string \<times> json) list \<Rightarrow> json" where
  "field_extend tree f kvs =
     (case tree of
        JObj m \<Rightarrow> JObj (json_set m f (JObj (json_extend (case Option.bind (map_of m f) json_object of Some o' \<Rightarrow> o' | None \<Rightarrow> []) kvs)))
      | _ \<Rightarrow> tree)"

fun merge_witnesses :: "json \<Rightarrow> fetched list \<Rightarrow> string + json" where
  "merge_witnesses tree [] = Inr tree"
| "merge_witnesses tree (w # ws) =
     (case (Option.bind (json_get (ft_tree w) ''revisions'') json_object, Option.bind (json_get (ft_tree w) ''file_index'') json_object) of
        (Some revs, Some index) \<Rightarrow> merge_witnesses (field_extend (field_extend tree ''revisions'' revs) ''file_index'' index) ws
      | _ \<Rightarrow> Inl (as_str (ft_method w) @ '' witness has no revisions/file_index''))"

definition merged :: "'z e2e_api_scheme \<Rightarrow> client_tree \<Rightarrow> fetched list \<Rightarrow> string + json" where
  "merged x client ws =
     and_then (merge_witnesses (ct_tree client) ws) (\<lambda>tree.
     and_then (map_err (\<lambda>e. ''merged client tree parses: '' @ e) (sdk_tree_from x tree)) (\<lambda>_. Inr tree))"

definition errors_of :: "verification_result \<Rightarrow> string \<Rightarrow> string list" where
  "errors_of result revision = map snd (filter (\<lambda>(h, _). h = revision) (vr_errors result))"

record method_verdict =
  mv_method :: anchor_method
  mv_merkle_root_hex :: string
  mv_timestamp_revision :: string
  mv_signature_revision :: string
  mv_anchor_verdict :: string

definition anchor_verdict_of :: "bool \<Rightarrow> verification_result \<Rightarrow> fetched \<Rightarrow> string + string" where
  "anchor_verdict_of tsa_facts_expected result w =
     (case ft_method w of
        Evm \<Rightarrow>
          (case map_of (vr_evm_anchors result) (ft_object_key w) of
             Some v \<Rightarrow> if starts_with ''Verified'' v then Inr (''Some('' @ v @ '')'') else Inl ''evm anchor verdict is not Verified''
           | None \<Rightarrow> Inl ''evm anchor verdict is not Verified'')
      | Qtsa \<Rightarrow>
          (case map_of (vr_tsa_tokens result) (ft_object_key w) of
             Some token \<Rightarrow> Inr (''token admitted: '' @ token)
           | None \<Rightarrow> if tsa_facts_expected then Inl ''qtsa token was not admitted as verified''
                     else Inr ''no error from the simulated TSA host (it reports no token facts)''))"

definition signer_of :: "fetched \<Rightarrow> string" where
  "signer_of w =
     (case Option.bind (Option.bind (json_get (ft_tree w) ''revisions'') (\<lambda>r. json_get r (ft_signature_key w)))
             (\<lambda>r. Option.bind (json_get r ''signer'') json_as_str) of Some s \<Rightarrow> s | None \<Rightarrow> [])"

definition judge_witness :: "bool \<Rightarrow> verification_result \<Rightarrow> did \<Rightarrow> fetched \<Rightarrow> string + method_verdict" where
  "judge_witness tsa_facts_expected result server_did w =
     (if errors_of result (ft_object_key w) \<noteq> [] then Inl (as_str (ft_method w) @ '' timestamp revision fails the SDK verifier'')
      else and_then (anchor_verdict_of tsa_facts_expected result w) (\<lambda>anchor_verdict.
           if errors_of result (ft_signature_key w) \<noteq> [] then Inl (as_str (ft_method w) @ '' aggregator signature revision fails the SDK verifier'')
           else if \<not> eq_ignore_ascii_case (signer_of w) server_did then Inl (as_str (ft_method w) @ '' signature signer is not the server_did'')
           else Inr \<lparr>mv_method = ft_method w, mv_merkle_root_hex = payload_str (ft_payloads w) ''merkle_root'',
                     mv_timestamp_revision = ft_object_key w, mv_signature_revision = ft_signature_key w,
                     mv_anchor_verdict = anchor_verdict\<rparr>))"

definition verify_with_sdk :: "'z e2e_api_scheme \<Rightarrow> reader_hosts \<Rightarrow> client_tree \<Rightarrow> fetched list \<Rightarrow> did \<Rightarrow> string + method_verdict list" where
  "verify_with_sdk x hosts client ws server_did =
     and_then (merged x client ws) (\<lambda>tree.
     and_then (map_err (\<lambda>e. ''verification did not run: '' @ e) (verify_tree_sync x hosts tree (ct_file client))) (\<lambda>result.
     and_then (collect_results (judge_witness (rh_tsa_facts_expected hosts) result server_did) ws) (\<lambda>verdicts.
     if \<not> vr_is_verified result then Inl ''client tree with both witnesses does not verify'' else Inr verdicts)))"

section \<open>The full flow\<close>

definition DEFAULT_SEPOLIA_RPC_URL :: string where
  "DEFAULT_SEPOLIA_RPC_URL = ''https://ethereum-sepolia-rpc.publicnode.com''"

definition reader_evm_endpoint :: "'z e2e_api_scheme \<Rightarrow> string \<Rightarrow> string option \<Rightarrow> string + u64 \<times> string" where
  "reader_evm_endpoint x evm_network override_url =
     (case evm_chain_id_for_network x evm_network of
        None \<Rightarrow> Inl (''witness network '' @ evm_network @ '' is not one the SDK verifies'')
      | Some chain \<Rightarrow> (case override_url of
          Some url \<Rightarrow> Inr (chain, url)
        | None \<Rightarrow> if evm_network = ''sepolia'' then Inr (chain, DEFAULT_SEPOLIA_RPC_URL)
                  else Inl (''no default EVM RPC endpoint for witness network '' @ evm_network)))"

datatype reader_config = LiveReader "string option" | InjectedReader reader_hosts

fun hosts_of :: "'z e2e_api_scheme \<Rightarrow> reader_config \<Rightarrow> string \<Rightarrow> string + reader_hosts" where
  "hosts_of x (InjectedReader h) evm_network = Inr h"
| "hosts_of x (LiveReader evm_rpc_url) evm_network =
     and_then (reader_evm_endpoint x evm_network evm_rpc_url) (\<lambda>endpoint.
     Inr \<lparr>rh_endpoint = Some endpoint, rh_tsa_facts_expected = True\<rparr>)"

definition random_client :: "'y key_api_scheme \<Rightarrow> 'z e2e_api_scheme \<Rightarrow> signature_method \<Rightarrow> bytes \<Rightarrow> string + client_key" where
  "random_client k x method secret =
     (case method of
        Secp256k1Eip191 \<Rightarrow> from_secp256k1_bytes k secret
      | Ed25519 \<Rightarrow>
          let pubkey_hex = hex_encode x (verifying_key x Ed25519 secret)
          in Inr \<lparr>ck_did = ''did:pkh:ed25519:0x'' @ pubkey_hex, ck_display_identifier = ''0x'' @ pubkey_hex,
                  ck_method = Ed25519, ck_private_key = secret\<rparr>
      | P256 \<Rightarrow>
          let pubkey_hex = hex_encode x (verifying_key x P256 secret)
          in Inr \<lparr>ck_did = ''did:pkh:p256:0x'' @ pubkey_hex, ck_display_identifier = ''0x'' @ pubkey_hex,
                  ck_method = P256, ck_private_key = secret\<rparr>)"

definition eip191_personal_sign :: "'y key_api_scheme \<Rightarrow> 'z e2e_api_scheme \<Rightarrow> string \<Rightarrow> bytes \<Rightarrow> string + bytes" where
  "eip191_personal_sign k x message private_key =
     and_then (map_err (\<lambda>e. ''k256 SigningKey: '' @ e) (signing_key_from_slice k private_key)) (\<lambda>_.
     let prefix = CHR 0x19 # ''Ethereum Signed Message:'' @ [CHR 0x0A] @ show_nat (length message);
         prehash = keccak256 k (prefix @ message)
     in and_then (map_err (\<lambda>e. ''sign_prehash: '' @ e) (sign_prehash x private_key prehash)) (\<lambda>(sig, rec_id).
        Inr (sig @ [rec_id + 27])))"

definition sign_challenge :: "'y key_api_scheme \<Rightarrow> 'z e2e_api_scheme \<Rightarrow> client_key \<Rightarrow> string \<Rightarrow> string + string" where
  "sign_challenge k x key message =
     (case ck_method key of
        Secp256k1Eip191 \<Rightarrow> and_then (eip191_personal_sign k x message (ck_private_key key)) (\<lambda>b. Inr (''0x'' @ hex_encode x b))
      | m \<Rightarrow> Inr (''0x'' @ hex_encode x (sign_raw x m (ck_private_key key) message)))"

text \<open>What the flow meets: the answers of the server, in the order it asks, and the clocks it reads.\<close>

record flow_world =
  fw_health :: "string + http_response"
  fw_version :: "string + http_response"
  fw_identity :: "string + http_response"
  fw_challenge :: "did \<Rightarrow> string + http_response"
  fw_session :: "did \<Rightarrow> string \<Rightarrow> string \<Rightarrow> string + http_response"
  fw_leaves :: "string option \<Rightarrow> string list \<Rightarrow> string + http_response"
  fw_clock :: nat
  fw_now_secs :: u64
  fw_seal_attempts :: "get_attempt list"
  fw_clock_sealed :: nat
  fw_witness_attempts :: "anchor_method \<Rightarrow> get_attempt list"
  fw_by_leaf :: "string \<Rightarrow> string \<Rightarrow> string + http_response"
  fw_nonce :: bytes
  fw_foreign_secret :: bytes
  fw_random_leaf :: bytes

record flow_options =
  fo_seal_wait :: poll_budget
  fo_witness_timeout :: nat
  fo_witness_interval :: nat
  fo_foreign_did_negative :: bool
  fo_reader :: reader_config

record e2e_outcome =
  eo_server_revision :: string
  eo_server_did :: did
  eo_client_did :: did
  eo_leaf_hex :: string
  eo_epoch_id :: u64
  eo_witnesses :: "method_verdict list"

definition get_ok :: "'z e2e_api_scheme \<Rightarrow> string \<Rightarrow> string + http_response \<Rightarrow> string + json" where
  "get_ok x what sent =
     and_then sent (\<lambda>resp.
     if \<not> is_success (hr_status resp) then Inl (what @ '': HTTP '' @ show_nat (hr_status resp))
     else map_err (\<lambda>e. what @ '' json: '' @ e) (from_str x (hr_body resp)))"

definition need :: "string \<Rightarrow> 'a option \<Rightarrow> string + 'a" where
  "need what v = (case v of Some a \<Rightarrow> Inr a | None \<Rightarrow> Inl what)"

definition str_at :: "json \<Rightarrow> string \<Rightarrow> string option" where
  "str_at j k = Option.bind (json_get j k) json_as_str"

definition u64_at :: "json \<Rightarrow> string \<Rightarrow> u64 option" where
  "u64_at j k = Option.bind (json_get j k) json_as_u64"

definition mint_bearer :: "'y key_api_scheme \<Rightarrow> 'z e2e_api_scheme \<Rightarrow> flow_world \<Rightarrow> client_key \<Rightarrow> string + string" where
  "mint_bearer k x w key =
     and_then (get_ok x ''GET /auth/challenge'' (fw_challenge w (ck_did key))) (\<lambda>body.
     and_then (need ''challenge response missing message'' (str_at body ''message'')) (\<lambda>message.
     and_then (need ''challenge response missing nonce'' (str_at body ''nonce'')) (\<lambda>nonce.
     and_then (sign_challenge k x key message) (\<lambda>signature.
     and_then (get_ok x ''POST /auth/session'' (fw_session w (ck_did key) nonce signature)) (\<lambda>session.
     need ''session response missing token'' (str_at session ''token''))))))"

definition identity_keys :: "string list" where
  "identity_keys = [''protocol'', ''version'', ''server_did'', ''ethereum_address'', ''trust_level'', ''trust_domain'',
     ''supported_claims'', ''auth_method'', ''endpoints'', ''identity_claim'']"

text \<open>Steps 2a and 2b: the service is up, names its revision, and its identity has the required shape.\<close>

definition check_service :: "'z e2e_api_scheme \<Rightarrow> flow_world \<Rightarrow> string + string \<times> did" where
  "check_service x w =
     and_then (fw_health w) (\<lambda>health.
     if hr_status health \<noteq> 200 then Inl (''GET /health: HTTP '' @ show_nat (hr_status health))
     else and_then (get_ok x ''GET /version'' (fw_version w)) (\<lambda>version.
     and_then (need ''/version has no string revision'' (str_at version ''revision'')) (\<lambda>server_revision.
     and_then (get_ok x ''GET /.well-known/aqua-identity'' (fw_identity w)) (\<lambda>identity.
     (case filter (\<lambda>k. json_get identity k = None) identity_keys of
        k # _ \<Rightarrow> Inl (''identity response missing key '' @ k)
      | [] \<Rightarrow>
          if str_at identity ''auth_method'' \<noteq> Some ''siwe'' then Inl ''identity.auth_method must be siwe''
          else and_then (need ''server_did not a string'' (str_at identity ''server_did'')) (\<lambda>server_did.
               Inr (server_revision, server_did)))))))"

text \<open>Step 6: only a 202 counts as accepted.\<close>

definition submit_leaf :: "'z e2e_api_scheme \<Rightarrow> flow_world \<Rightarrow> string \<Rightarrow> string \<Rightarrow> string + u64 \<times> u64" where
  "submit_leaf x w token leaf_hex =
     and_then (fw_leaves w (Some token) [leaf_hex]) (\<lambda>resp.
     if hr_status resp \<noteq> 202 then Inl (''POST /v1/leaves: expected 202, got HTTP '' @ show_nat (hr_status resp))
     else and_then (map_err (\<lambda>e. ''leaves response json: '' @ e) (from_str x (hr_body resp))) (\<lambda>body.
          and_then (need ''leaves response missing epoch_id'' (u64_at body ''epoch_id'')) (\<lambda>epoch_id.
          and_then (need ''leaves response missing epoch_closes_at'' (u64_at body ''epoch_closes_at'')) (\<lambda>closes_at.
          Inr (epoch_id, closes_at)))))"

text \<open>Step 10: a foreign DID is refused the leaf, a submission without a bearer is refused.\<close>

definition negative_checks :: "'y key_api_scheme \<Rightarrow> 'z e2e_api_scheme \<Rightarrow> flow_world \<Rightarrow> flow_options \<Rightarrow> string \<Rightarrow> string + unit" where
  "negative_checks k x w opts leaf_hex =
     and_then (if fo_foreign_did_negative opts
       then and_then (random_client k x Secp256k1Eip191 (fw_foreign_secret w)) (\<lambda>secondary.
            and_then (mint_bearer k x w secondary) (\<lambda>token.
            and_then (fw_by_leaf w token leaf_hex) (\<lambda>resp.
            if hr_status resp \<noteq> 403 then Inl ''negative-1: expected 403 from foreign DID on by-leaf'' else Inr ())))
       else Inr ()) (\<lambda>_.
     and_then (fw_leaves w None [''0x'' @ hex_encode x (fw_random_leaf w)]) (\<lambda>resp.
     if hr_status resp \<noteq> 401 then Inl ''negative-2: expected 401 on no-bearer submit'' else Inr ()))"

definition polled :: "'e + 'a \<Rightarrow> ('a \<Rightarrow> ('e + 'b) option) \<Rightarrow> ('e + 'b) option" where
  "polled r f = (case r of Inl e \<Rightarrow> Some (Inl e) | Inr a \<Rightarrow> f a)"

text \<open>Step 8: both witnesses; the polls run side by side and both must end.\<close>

definition fetch_both :: "'z e2e_api_scheme \<Rightarrow> flow_world \<Rightarrow> flow_options \<Rightarrow> (string + fetched \<times> fetched) option" where
  "fetch_both x w opts =
     (let deadline = fw_clock_sealed w + fo_witness_timeout opts;
          fetch = (\<lambda>m. fetch_witness x m deadline (fo_witness_interval opts) (fw_witness_attempts w m))
      in case (fetch Evm, fetch Qtsa) of
           (Some (Inr e), Some (Inr q)) \<Rightarrow> Some (Inr (e, q))
         | (Some _, Some _) \<Rightarrow> Some (Inl ''GET /trees/by-leaf: both anchors are required, not served'')
         | _ \<Rightarrow> None)"

definition run_full_flow :: "'y key_api_scheme \<Rightarrow> 'z e2e_api_scheme \<Rightarrow> flow_world \<Rightarrow> client_key \<Rightarrow> flow_options
  \<Rightarrow> (string + e2e_outcome) option" where
  "run_full_flow k x w primary opts =
     polled (check_service x w) (\<lambda>(server_revision, server_did).
     polled (mint_bearer k x w primary) (\<lambda>token.
     polled (new_client_tree x (fw_nonce w) ''openwitness_seal_e2e'') (\<lambda>client_tree.
     let leaf_hex = ct_leaf_hex client_tree
     in polled (submit_leaf x w token leaf_hex) (\<lambda>(epoch_id, epoch_closes_at).
     let dyn_budget = from_epoch_close (fw_clock w) epoch_closes_at (fw_now_secs w) 30;
         budget = \<lparr>pb_deadline = min (pb_deadline (fo_seal_wait opts)) (pb_deadline dyn_budget), pb_interval = pb_interval (fo_seal_wait opts)\<rparr>
     in Option.bind (wait_for_seal x epoch_id budget (fw_seal_attempts w)) (\<lambda>sealed. polled sealed (\<lambda>_.
        Option.bind (fetch_both x w opts) (\<lambda>both. polled both (\<lambda>(evm, qtsa).
        polled (hosts_of x (fo_reader opts) (payload_str (ft_payloads evm) ''network'')) (\<lambda>hosts.
        polled (verify_with_sdk x hosts client_tree [evm, qtsa] server_did) (\<lambda>verdicts.
        if mv_merkle_root_hex (verdicts ! 0) \<noteq> mv_merkle_root_hex (verdicts ! 1) then Some (Inl ''the two anchors cover different roots'')
        else polled (negative_checks k x w opts leaf_hex) (\<lambda>_.
        Some (Inr \<lparr>eo_server_revision = server_revision, eo_server_did = server_did, eo_client_did = ck_did primary,
                   eo_leaf_hex = leaf_hex, eo_epoch_id = epoch_id, eo_witnesses = verdicts\<rparr>))))))))))))"

section \<open>The polls end\<close>

text \<open>
  The clock of a poll: an attempt does not end before it starts, and the next one starts after the
  sleep, which is the interval or what is left to the deadline.
\<close>

fun paced :: "poll_budget \<Rightarrow> get_attempt list \<Rightarrow> bool" where
  "paced b (a # a' # as) \<longleftrightarrow> ga_start a \<le> ga_now a \<and> ga_now a + min (pb_interval b) (pb_deadline b - ga_now a) \<le> ga_start a'
     \<and> paced b (a' # as)"
| "paced b [a] \<longleftrightarrow> ga_start a \<le> ga_now a"
| "paced b [] \<longleftrightarrow> True"

lemma paced_early:
  assumes "paced b (a # as)" "\<forall>c\<in>set (a # as). ga_start c < pb_deadline b"
  shows "ga_start a + pb_interval b * length as < pb_deadline b"
  using assms
proof (induction as arbitrary: a)
  case (Cons c as)
  have c: "ga_start a \<le> ga_now a" "ga_now a + min (pb_interval b) (pb_deadline b - ga_now a) \<le> ga_start c" "paced b (c # as)"
    using Cons.prems(1) by simp_all
  have "ga_start c < pb_deadline b" using Cons.prems(2) by simp
  with c(2) have "ga_now a + pb_interval b \<le> ga_start c"
    by (cases "pb_interval b \<le> pb_deadline b - ga_now a") auto
  moreover have "ga_start c + pb_interval b * length as < pb_deadline b"
    using Cons.IH [OF c(3)] Cons.prems(2) by simp
  ultimately show ?case using c(1) by simp
qed simp

lemma paced_starts: "paced b as \<Longrightarrow> a \<in> set as \<Longrightarrow> ga_start a \<le> ga_now a"
  by (induction b as rule: paced.induct) auto

lemma paced_long:
  assumes "paced b as" "0 < pb_interval b" "pb_deadline b div pb_interval b + 2 \<le> length as"
  shows "\<exists>a\<in>set as. pb_deadline b \<le> ga_start a"
proof (rule ccontr)
  assume "\<not> ?thesis"
  then have early: "\<forall>c\<in>set as. ga_start c < pb_deadline b" by auto
  obtain a as' where as: "as = a # as'" using assms(3) by (cases as) auto
  have "pb_interval b * (pb_deadline b div pb_interval b + 1) \<le> pb_interval b * length as'"
    using assms(3) as by (intro mult_le_mono2) simp
  moreover have "pb_deadline b < pb_interval b * (pb_deadline b div pb_interval b + 1)"
    using assms(2) by (simp add: dividend_less_times_div)
  moreover have "pb_interval b * length as' < pb_deadline b"
    using paced_early [of b a as'] assms(1) early as by simp
  ultimately show False by linarith
qed

lemma get_retrying_None: "get_retrying x b as = None \<Longrightarrow> a \<in> set as \<Longrightarrow> ga_now a < pb_deadline b"
  by (induction as) (auto split: sum.splits if_splits)

lemma get_retrying_Some:
  "get_retrying x b as = Some (r, now, rest) \<Longrightarrow>
     \<exists>pre a. as = pre @ a # rest \<and> ga_now a = now \<and> attempt_outcome x (ga_answer a) = r \<and> (\<forall>c\<in>set pre. ga_now c < pb_deadline b)"
proof (induction as)
  case (Cons a as)
  show ?case
  proof (cases "attempt_outcome x (ga_answer a)")
    case (Inl e)
    show ?thesis
    proof (cases "pb_deadline b \<le> ga_now a")
      case True
      then show ?thesis using Cons.prems Inl by (intro exI [of _ "[]"]) auto
    next
      case False
      then obtain pre c where "as = pre @ c # rest" "ga_now c = now" "attempt_outcome x (ga_answer c) = r"
        "\<forall>d\<in>set pre. ga_now d < pb_deadline b"
        using Cons Inl by auto
      then show ?thesis using False by (intro exI [of _ "a # pre"]) auto
    qed
  next
    case (Inr r')
    then show ?thesis using Cons.prems by (intro exI [of _ "[]"]) auto
  qed
qed simp

lemma attempt_outcome_success:
  "attempt_outcome x answer = Inr (status, body) \<Longrightarrow> is_success status \<Longrightarrow> answer = Inr (status, Inr body)"
  by (auto simp: attempt_outcome_def is_success_def split: sum.splits prod.splits if_splits)

text \<open>What a poll that ended says of the attempts it made.\<close>

definition saw_pending :: "get_attempt list \<Rightarrow> bool" where
  "saw_pending as \<longleftrightarrow> (\<exists>a\<in>set as. \<exists>body. ga_answer a = Inr (202, Inr body))"

fun fetch_meaning :: "'z e2e_api_scheme \<Rightarrow> poll_budget \<Rightarrow> anchor_method \<Rightarrow> get_attempt list \<Rightarrow> fetch_error + nat \<times> string \<Rightarrow> bool" where
  "fetch_meaning x b m as (Inr (status, body)) \<longleftrightarrow>
     is_success status \<and> status \<noteq> 202 \<and> (\<exists>a\<in>set as. ga_answer a = Inr (status, Inr body))"
| "fetch_meaning x b m as (Inl (WE_StillPending m' _)) \<longleftrightarrow>
     m' = m \<and> saw_pending as \<and> (\<exists>a\<in>set as. pb_deadline b \<le> ga_now a)"
| "fetch_meaning x b m as (Inl (WE_NotFound m' _)) \<longleftrightarrow> m' = m \<and> (\<exists>a\<in>set as. \<exists>body. ga_answer a = Inr (404, body))"
| "fetch_meaning x b m as (Inl (WE_Http m' status _)) \<longleftrightarrow>
     m' = m \<and> \<not> is_success status \<and> (\<exists>a\<in>set as. \<exists>body. ga_answer a = Inr (status, body))"
| "fetch_meaning x b m as (Inl (WE_Unreachable m' e)) \<longleftrightarrow>
     m' = m \<and> (\<exists>a\<in>set as. pb_deadline b \<le> ga_now a \<and> attempt_outcome x (ga_answer a) = Inl e)"
| "fetch_meaning x b m as (Inl _) \<longleftrightarrow> False"

lemma attempt_outcome_status:
  "attempt_outcome x answer = Inr (status, body) \<Longrightarrow> \<exists>b. answer = Inr (status, b)"
  by (auto simp: attempt_outcome_def split: sum.splits prod.splits if_splits)

lemma get_retrying_failed: "get_retrying x b as = Some (Inl e, now, rest) \<Longrightarrow>
  \<exists>a\<in>set as. pb_deadline b \<le> ga_now a \<and> attempt_outcome x (ga_answer a) = Inl e"
  by (induction as) (auto split: sum.splits if_splits)

lemma fetch_served_meaning:
  assumes "fetch_served x m b pending as = Some r" "pending \<noteq> None \<Longrightarrow> saw_pending all" "set as \<subseteq> set all"
  shows "fetch_meaning x b m all r"
  using assms
proof (induction x m b pending as rule: fetch_served.induct)
  case (1 x m b pending as)
  obtain ans now rest where g: "get_retrying x b as = Some (ans, now, rest)"
    using "1.prems"(1) by (subst (asm) fetch_served.simps) (auto split: option.splits)
  obtain pre a where a: "as = pre @ a # rest" "ga_now a = now" "attempt_outcome x (ga_answer a) = ans"
    using get_retrying_Some [OF g] by blast
  have mem: "a \<in> set all" "set rest \<subseteq> set all" using a(1) "1.prems"(3) by auto
  show ?case
  proof (cases ans)
    case (Inl e)
    then have "fetch_meaning x b m all (Inl (case pending of Some d \<Rightarrow> WE_StillPending m d | None \<Rightarrow> WE_Unreachable m e))"
      using get_retrying_failed [of x b as e now rest] g "1.prems"(2,3) by (cases pending) auto
    moreover have "r = Inl (case pending of Some d \<Rightarrow> WE_StillPending m d | None \<Rightarrow> WE_Unreachable m e)"
      using "1.prems"(1) g Inl by (subst (asm) fetch_served.simps) simp
    ultimately show ?thesis by simp
  next
    case (Inr sb)
    obtain status body where sb: "sb = (status, body)" by (cases sb)
    note out = a(3) [unfolded Inr sb]
    show ?thesis
    proof (cases "status = 202 \<and> now < pb_deadline b")
      case True
      then have pend: "saw_pending all"
        using attempt_outcome_success [OF out] mem(1) by (auto simp: saw_pending_def is_success_def)
      have "fetch_served x m b (Some (pending_detail x body)) rest = Some r"
        using "1.prems"(1) g Inr sb True by (subst (asm) fetch_served.simps) (simp add: Let_def)
      then show ?thesis
        using "1.IH" [OF g [unfolded Inr sb] refl refl refl refl] True pend mem(2) by simp
    next
      case False
      then show ?thesis
        using "1.prems"(1) g Inr sb a(2) mem(1) attempt_outcome_success [OF out] attempt_outcome_status [OF out]
        by (subst (asm) fetch_served.simps) (auto simp: Let_def saw_pending_def is_success_def split: if_splits intro!: bexI [of _ a])
    qed
  qed
qed

lemma fetch_served_None:
  "fetch_served x m b pending as = None \<Longrightarrow> a \<in> set as \<Longrightarrow> ga_now a < pb_deadline b"
proof (induction x m b pending as rule: fetch_served.induct)
  case (1 x m b pending as)
  show ?case
  proof (cases "get_retrying x b as")
    case None
    then show ?thesis using get_retrying_None "1.prems"(2) by blast
  next
    case (Some t)
    then obtain status body now rest where g: "get_retrying x b as = Some (Inr (status, body), now, rest)"
      "status = 202" "now < pb_deadline b" "fetch_served x m b (Some (pending_detail x body)) rest = None"
      using "1.prems"(1) [unfolded fetch_served.simps [of x m b pending as]] by (auto simp: Let_def split: sum.splits if_splits prod.splits)
    then show ?thesis
      using "1.IH" [OF g(1) refl refl refl refl] get_retrying_Some [OF g(1)] "1.prems"(2) by auto
  qed
qed

text \<open>
  C37: The witness poll of the checker ends.  With a positive interval, a clock that respects the
  sleeps, and one attempt per interval up to the deadline, \<open>fetch_served\<close> answers, and its answer is
  true of the attempts: a success is a 2xx other than 202 that the server sent, pending means a 202
  was seen and the deadline passed, unreachable means the last attempt failed past the deadline.
\<close>

theorem fetch_served_ends:
  assumes "0 < pb_interval b" "paced b as" "pb_deadline b div pb_interval b + 2 \<le> length as"
  shows "\<exists>r. fetch_served x m b None as = Some r \<and> fetch_meaning x b m as r"
proof (cases "fetch_served x m b None as")
  case None
  obtain a where a: "a \<in> set as" "pb_deadline b \<le> ga_start a"
    using paced_long [OF assms(2,1,3)] by blast
  then have "pb_deadline b \<le> ga_now a" using paced_starts [OF assms(2) a(1)] by linarith
  then show ?thesis using fetch_served_None [OF None a(1)] by simp
next
  case (Some r)
  then show ?thesis using fetch_served_meaning [OF Some, of as] by simp
qed

definition demo_e2e :: e2e_api where
  "demo_e2e = \<lparr>hex_encode = base16_encode, hex_decode = base16_decode, sha3_256 = (\<lambda>b. replicate 32 0),
     from_str = (\<lambda>s. Inl ''no json''), url_parse = Inr, url_join = (\<lambda>b p. Inr (b @ p)),
     any_revision_from = (\<lambda>v. Inl ''unused''), is_timestamp_object = (\<lambda>r. True), link_text = (\<lambda>l. []),
     verify_signature_sync = (\<lambda>r h. True), status_text = show_nat, json_text = (\<lambda>_. []), debug_text = (\<lambda>s. s),
     sdk_tree_from = (\<lambda>_. Inr ()), create_genesis_revision = (\<lambda>n c. Inl ''unused''), link_bytes = (\<lambda>s. Inl ''unused''),
     verify_tree_sync = (\<lambda>h t f. Inl ''unused''), evm_chain_id_for_network = (\<lambda>_. None),
     sign_prehash = (\<lambda>k h. Inl ''unused''), sign_raw = (\<lambda>m k s. []), verifying_key = (\<lambda>m k. [])\<rparr>"

definition demo_attempts :: "get_attempt list" where
  "demo_attempts = [\<lparr>ga_start = 0, ga_answer = Inl ''refused'', ga_now = 1\<rparr>, \<lparr>ga_start = 3, ga_answer = Inr (202, Inr ''later''), ga_now = 3\<rparr>,
     \<lparr>ga_start = 5, ga_answer = Inr (202, Inr ''later''), ga_now = 5\<rparr>, \<lparr>ga_start = 7, ga_answer = Inr (200, Inr ''tree''), ga_now = 7\<rparr>]"

theorem fetch_served_ends_witness:
  "fetch_served demo_e2e Evm \<lparr>pb_deadline = 4, pb_interval = 2\<rparr> None demo_attempts = Some (Inl (WE_StillPending Evm ''later''))
   \<and> (\<exists>r. fetch_served demo_e2e Evm \<lparr>pb_deadline = 4, pb_interval = 2\<rparr> None demo_attempts = Some r
        \<and> fetch_meaning demo_e2e \<lparr>pb_deadline = 4, pb_interval = 2\<rparr> Evm demo_attempts r)"
proof
  show "fetch_served demo_e2e Evm \<lparr>pb_deadline = 4, pb_interval = 2\<rparr> None demo_attempts = Some (Inl (WE_StillPending Evm ''later''))"
    by code_simp
  show "\<exists>r. fetch_served demo_e2e Evm \<lparr>pb_deadline = 4, pb_interval = 2\<rparr> None demo_attempts = Some r
        \<and> fetch_meaning demo_e2e \<lparr>pb_deadline = 4, pb_interval = 2\<rparr> Evm demo_attempts r"
    by (rule fetch_served_ends) (simp_all add: demo_attempts_def)
qed

text \<open>A poll for the seal ends as well, and its success is a schedule that names the epoch sealed.\<close>

lemma paced_suffix: "paced b (pre @ as) \<Longrightarrow> paced b as"
proof (induction pre)
  case (Cons p pre)
  then show ?case by (cases "pre @ as") auto
qed simp

lemma wait_for_seal_cases:
  assumes "wait_for_seal x n b (a # as) = None \<or> wait_for_seal x n b (a # as) = Some (Inr ())"
  shows "ga_start a < pb_deadline b"
  using assms by (subst (asm) (1 2) wait_for_seal.simps) (auto simp del: get_retrying.simps split: if_splits)

lemma wait_for_seal_None:
  "wait_for_seal x n b as = None \<Longrightarrow> paced b as \<Longrightarrow> a \<in> set (butlast as) \<Longrightarrow> ga_start a < pb_deadline b"
proof (induction x n b as rule: wait_for_seal.induct)
  case (1 x n b as)
  obtain c cs where as: "as = c # cs" using "1.prems"(3) by (cases as) auto
  have start: "\<not> pb_deadline b \<le> ga_start c" using wait_for_seal_cases "1.prems"(1) as by fastforce
  show ?case
  proof (cases "get_retrying x b as")
    case None
    have "a \<in> set as" using in_set_butlastD [OF "1.prems"(3)] .
    then show ?thesis
      using get_retrying_None [OF None, of a] paced_starts [OF "1.prems"(2), of a] by simp
  next
    case (Some t)
    then obtain status body now rest v where g: "get_retrying x b as = Some (Inr (status, body), now, rest)"
      "is_success status" "from_str x body = Inr v" "wait_for_seal x n b rest = None"
      "\<not> n \<le> (case Option.bind (json_get v ''last_sealed_epoch_id'') json_as_u64 of Some n \<Rightarrow> n | None \<Rightarrow> 0)"
      using "1.prems"(1) [unfolded wait_for_seal.simps [of x n b as]] start
      by (auto simp: as Let_def simp del: get_retrying.simps split: sum.splits if_splits prod.splits)
    obtain pre d where d: "as = pre @ d # rest" "\<forall>p\<in>set pre. ga_now p < pb_deadline b"
      using get_retrying_Some [OF g(1)] by blast
    have paced: "paced b (d # rest)" "paced b rest"
      using "1.prems"(2) paced_suffix [of b pre "d # rest"] paced_suffix [of b "pre @ [d]" rest] d(1) by auto
    have rest: "a \<in> set (butlast rest) \<Longrightarrow> ga_start a < pb_deadline b"
      using "1.IH" [OF as start g(1) refl refl refl refl _ g(3) refl] g paced(2) by simp
    have pre: "ga_start c < pb_deadline b" if "c \<in> set pre" for c
      using d that paced_starts [OF "1.prems"(2), of c] by fastforce
    show ?thesis
    proof (cases rest)
      case Nil
      then show ?thesis using d(1) "1.prems"(3) pre by simp
    next
      case (Cons e es)
      then have "ga_start d < pb_deadline b"
        using wait_for_seal_cases [of x n b e es] g(4) paced(1) by simp
      then show ?thesis using d(1) "1.prems"(3) Cons pre rest by (auto simp: butlast_append split: if_splits)
    qed
  qed
qed

lemma wait_for_seal_Inr:
  "wait_for_seal x n b as = Some (Inr ()) \<Longrightarrow> n \<noteq> 0 \<Longrightarrow>
     \<exists>a\<in>set as. \<exists>status body v m. ga_answer a = Inr (status, Inr body) \<and> is_success status \<and> from_str x body = Inr v
       \<and> u64_at v ''last_sealed_epoch_id'' = Some m \<and> n \<le> m"
proof (induction x n b as rule: wait_for_seal.induct)
  case (1 x n b as)
  obtain c cs where as: "as = c # cs" using "1.prems"(1) by (cases as) (simp_all add: wait_for_seal.simps)
  have start: "\<not> pb_deadline b \<le> ga_start c" using wait_for_seal_cases "1.prems"(1) as by fastforce
  obtain status body now rest v where g: "get_retrying x b as = Some (Inr (status, body), now, rest)"
    "is_success status" "from_str x body = Inr v"
    "n \<le> (case u64_at v ''last_sealed_epoch_id'' of Some n \<Rightarrow> n | None \<Rightarrow> 0) \<or> wait_for_seal x n b rest = Some (Inr ())"
    using "1.prems"(1) [unfolded wait_for_seal.simps [of x n b as]] start
    by (auto simp: as Let_def u64_at_def simp del: get_retrying.simps split: sum.splits if_splits prod.splits option.splits)
  obtain pre d where d: "as = pre @ d # rest" "attempt_outcome x (ga_answer d) = Inr (status, body)"
    using get_retrying_Some [OF g(1)] by blast
  show ?case
  proof (cases "n \<le> (case u64_at v ''last_sealed_epoch_id'' of Some n \<Rightarrow> n | None \<Rightarrow> 0)")
    case True
    then show ?thesis
      using attempt_outcome_success [OF d(2) g(2)] d(1) g(2,3) "1.prems"(2) by (auto split: option.splits)
  next
    case False
    then have "\<exists>a\<in>set rest. \<exists>status body v m. ga_answer a = Inr (status, Inr body) \<and> is_success status \<and> from_str x body = Inr v
        \<and> u64_at v ''last_sealed_epoch_id'' = Some m \<and> n \<le> m"
      using "1.IH" [OF as start g(1) refl refl refl refl _ g(3) refl] g "1.prems"(2) by (simp add: u64_at_def)
    moreover have "set rest \<subseteq> set as" using d(1) by auto
    ultimately show ?thesis by blast
  qed
qed

theorem wait_for_seal_ends:
  assumes "0 < pb_interval b" "paced b as" "pb_deadline b div pb_interval b + 3 \<le> length as" "n \<noteq> 0"
  shows "\<exists>r. wait_for_seal x n b as = Some r \<and> (r = Inr () \<longrightarrow>
     (\<exists>a\<in>set as. \<exists>status body v m. ga_answer a = Inr (status, Inr body) \<and> from_str x body = Inr v
        \<and> u64_at v ''last_sealed_epoch_id'' = Some m \<and> n \<le> m))"
proof (cases "wait_for_seal x n b as")
  case None
  have "paced b (butlast as)"
    using assms(2) by (induction b as rule: paced.induct) (auto split: list.splits)
  then obtain a where "a \<in> set (butlast as)" "pb_deadline b \<le> ga_start a"
    using paced_long [OF _ assms(1), of "butlast as"] assms(3) by fastforce
  then show ?thesis using wait_for_seal_None [OF None assms(2)] by fastforce
next
  case (Some r)
  then show ?thesis using wait_for_seal_Inr [of x n b as] assms(4) by blast
qed

section \<open>What a pass of the full flow means\<close>

text \<open>
  A full flow that passes has verified both witnesses.  The service answered 202 to the
  submission and 401 to the one without a bearer, both polls served a witness that is no stub, and
  the SDK verified the client tree with both merged in: no error on any of the four revisions, a
  verified EVM anchor, both signatures by the DID the identity advertises, and one Merkle root.
\<close>

lemma polled_Inr: "polled r f = Some (Inr b) \<longleftrightarrow> (\<exists>a. r = Inr a \<and> f a = Some (Inr b))"
  by (cases r) (simp_all add: polled_def)

lemma parse_served_method: "parse_served x m body = Inr f \<Longrightarrow> ft_method f = m"
  by (auto simp: parse_served_def split: if_splits prod.splits)

lemma fetch_witness_Inr:
  assumes "fetch_witness x m deadline interval as = Some (Inr f)"
  shows "ft_method f = m \<and> detect_stub x m (ft_payloads f) = None"
proof -
  obtain body where "parse_witness x m body = Inr f"
    using assms by (auto simp: fetch_witness_def)
  then show ?thesis
    using parse_served_method by (auto simp: parse_witness_def split: option.splits)
qed

lemma fetch_both_Inr:
  assumes "fetch_both x w opts = Some (Inr (e, q))"
  shows "ft_method e = Evm \<and> detect_stub x Evm (ft_payloads e) = None \<and> ft_method q = Qtsa \<and> detect_stub x Qtsa (ft_payloads q) = None"
proof -
  have "fetch_witness x Evm (fw_clock_sealed w + fo_witness_timeout opts) (fo_witness_interval opts) (fw_witness_attempts w Evm) = Some (Inr e)"
    "fetch_witness x Qtsa (fw_clock_sealed w + fo_witness_timeout opts) (fo_witness_interval opts) (fw_witness_attempts w Qtsa) = Some (Inr q)"
    using assms by (auto simp: fetch_both_def Let_def split: option.splits sum.splits)
  then show ?thesis using fetch_witness_Inr by blast
qed

lemma judge_witness_Inr:
  assumes "judge_witness b result server w = Inr v"
  shows "errors_of result (ft_object_key w) = [] \<and> errors_of result (ft_signature_key w) = []
    \<and> eq_ignore_ascii_case (signer_of w) server \<and> mv_merkle_root_hex v = payload_str (ft_payloads w) ''merkle_root''
    \<and> (ft_method w = Evm \<longrightarrow> (\<exists>t. map_of (vr_evm_anchors result) (ft_object_key w) = Some t \<and> starts_with ''Verified'' t))"
  using assms by (auto simp: judge_witness_def anchor_verdict_of_def split: if_splits option.splits)

theorem full_flow_pass_verified:
  assumes "run_full_flow k x w primary opts = Some (Inr outcome)"
  shows "\<exists>token evm qtsa client hosts tree result.
      fetch_both x w opts = Some (Inr (evm, qtsa)) \<and> ft_method evm = Evm \<and> ft_method qtsa = Qtsa
    \<and> detect_stub x Evm (ft_payloads evm) = None \<and> detect_stub x Qtsa (ft_payloads qtsa) = None
    \<and> (\<exists>resp. fw_leaves w (Some token) [eo_leaf_hex outcome] = Inr resp \<and> hr_status resp = 202)
    \<and> (\<exists>resp. fw_leaves w None [''0x'' @ hex_encode x (fw_random_leaf w)] = Inr resp \<and> hr_status resp = 401)
    \<and> merged x client [evm, qtsa] = Inr tree \<and> ct_leaf_hex client = eo_leaf_hex outcome
    \<and> verify_tree_sync x hosts tree (ct_file client) = Inr result \<and> vr_is_verified result
    \<and> (\<forall>f\<in>{evm, qtsa}. errors_of result (ft_object_key f) = [] \<and> errors_of result (ft_signature_key f) = []
          \<and> eq_ignore_ascii_case (signer_of f) (eo_server_did outcome))
    \<and> (\<exists>v. map_of (vr_evm_anchors result) (ft_object_key evm) = Some v \<and> starts_with ''Verified'' v)
    \<and> payload_str (ft_payloads evm) ''merkle_root'' = payload_str (ft_payloads qtsa) ''merkle_root''"
proof -
  obtain rv server token client n closes evm qtsa hosts verdicts where
    token: "mint_bearer k x w primary = Inr token"
    and client: "new_client_tree x (fw_nonce w) ''openwitness_seal_e2e'' = Inr client"
    and leaf: "submit_leaf x w token (ct_leaf_hex client) = Inr (n, closes)"
    and both: "fetch_both x w opts = Some (Inr (evm, qtsa))"
    and sdk: "verify_with_sdk x hosts client [evm, qtsa] server = Inr verdicts"
    and roots: "mv_merkle_root_hex (verdicts ! 0) = mv_merkle_root_hex (verdicts ! 1)"
    and neg: "negative_checks k x w opts (ct_leaf_hex client) = Inr ()"
    and out: "eo_leaf_hex outcome = ct_leaf_hex client" "eo_server_did outcome = server"
    using assms by (auto simp: run_full_flow_def polled_Inr Let_def bind_eq_Some_conv split: if_splits)
  obtain tree result where res: "merged x client [evm, qtsa] = Inr tree"
    "verify_tree_sync x hosts tree (ct_file client) = Inr result" "vr_is_verified result"
    and judged: "collect_results (judge_witness (rh_tsa_facts_expected hosts) result server) [evm, qtsa] = Inr verdicts"
    using sdk by (auto simp: verify_with_sdk_def split: if_splits)
  obtain v1 v2 where vs: "verdicts = [v1, v2]" "judge_witness (rh_tsa_facts_expected hosts) result server evm = Inr v1"
    "judge_witness (rh_tsa_facts_expected hosts) result server qtsa = Inr v2"
    using judged by (auto split: sum.splits)
  have "\<exists>resp. fw_leaves w (Some token) [ct_leaf_hex client] = Inr resp \<and> hr_status resp = 202"
    using leaf by (auto simp: submit_leaf_def split: if_splits)
  moreover have "\<exists>resp. fw_leaves w None [''0x'' @ hex_encode x (fw_random_leaf w)] = Inr resp \<and> hr_status resp = 401"
    using neg by (auto simp: negative_checks_def split: if_splits)
  ultimately show ?thesis
    using fetch_both_Inr [OF both] both res judge_witness_Inr [OF vs(2)] judge_witness_Inr [OF vs(3)] roots vs(1) out
    by (intro exI [of _ token] exI [of _ evm] exI [of _ qtsa] exI [of _ client] exI [of _ hosts] exI [of _ tree] exI [of _ result]) simp
qed

text \<open>A flow that passes.\<close>

definition demo_payloads :: "string \<Rightarrow> json" where
  "demo_payloads network = JObj [(''transaction_hash'', JStr ''0xab''), (''network'', JStr network), (''merkle_root'', JStr ''0x01'')]"

definition demo_served :: "string \<Rightarrow> string \<Rightarrow> string \<Rightarrow> json" where
  "demo_served obj sig network = JObj [(''revisions'', JObj [(obj, JObj [(''payloads'', demo_payloads network)]), (sig, JObj [(''signer'', JStr ''did:svc'')])]),
     (''file_index'', JObj [])]"

definition demo_bodies :: "(string \<times> json) list" where
  "demo_bodies = [(''v'', JObj [(''revision'', JStr ''r1'')]),
     (''i'', JObj (map (\<lambda>k. (k, JNull)) [''protocol'', ''version'', ''ethereum_address'', ''trust_level'', ''trust_domain'', ''supported_claims'', ''endpoints'', ''identity_claim'']
        @ [(''server_did'', JStr ''did:svc''), (''auth_method'', JStr ''siwe'')])),
     (''c'', JObj [(''message'', JStr ''m''), (''nonce'', JStr ''n'')]), (''s'', JObj [(''token'', JStr ''t'')]),
     (''l'', JObj [(''epoch_id'', JU64 1), (''epoch_closes_at'', JU64 10)]), (''d'', JObj [(''last_sealed_epoch_id'', JU64 1)]),
     (''e'', demo_served ''o1'' ''s1'' ''sepolia''), (''q'', demo_served ''o2'' ''s2'' ''tsa'')]"

definition demo_flow_api :: e2e_api where
  "demo_flow_api = demo_e2e\<lparr>from_str := (\<lambda>s. case map_of demo_bodies s of Some j \<Rightarrow> Inr j | None \<Rightarrow> Inl ''no json''),
     any_revision_from := (\<lambda>v. if json_get v ''payloads'' = None
        then Inr (Signature \<lparr>sg_previous = [], sg_signer = ''did:svc'', sg_rest = []\<rparr>)
        else Inr (Typed \<lparr>ob_previous = None, ob_type = [], ob_method = Scalar, ob_payloads = JNull, ob_rest = []\<rparr>)),
     create_genesis_revision := (\<lambda>n c. Inr (JObj [(''revisions'', JObj [(''k'', JObj [])]), (''file_index'', JObj [])])),
     link_bytes := (\<lambda>s. Inr (replicate 32 1)),
     verify_tree_sync := (\<lambda>h t f. Inr \<lparr>vr_errors = [], vr_evm_anchors = [(''o1'', ''Verified'')], vr_tsa_tokens = [(''o2'', ''ok'')], vr_is_verified = True\<rparr>),
     evm_chain_id_for_network := (\<lambda>n. if n = ''sepolia'' then Some 11155111 else None),
     sign_prehash := (\<lambda>k h. Inr (replicate 64 0, 0))\<rparr>"

definition demo_http :: "nat \<Rightarrow> string \<Rightarrow> string + http_response" where
  "demo_http status body = Inr \<lparr>hr_status = status, hr_body = body\<rparr>"

definition demo_once :: "string \<Rightarrow> get_attempt list" where
  "demo_once body = [\<lparr>ga_start = 0, ga_answer = Inr (200, Inr body), ga_now = 0\<rparr>]"

definition demo_flow_world :: flow_world where
  "demo_flow_world = \<lparr>fw_health = demo_http 200 [], fw_version = demo_http 200 ''v'', fw_identity = demo_http 200 ''i'',
     fw_challenge = (\<lambda>_. demo_http 200 ''c''), fw_session = (\<lambda>_ _ _. demo_http 200 ''s''),
     fw_leaves = (\<lambda>t ls. if t = None then demo_http 401 [] else demo_http 202 ''l''), fw_clock = 0, fw_now_secs = 5,
     fw_seal_attempts = demo_once ''d'', fw_clock_sealed = 1, fw_witness_attempts = (\<lambda>m. demo_once (case m of Evm \<Rightarrow> ''e'' | Qtsa \<Rightarrow> ''q'')),
     fw_by_leaf = (\<lambda>_ _. demo_http 403 []), fw_nonce = [1], fw_foreign_secret = replicate 32 9, fw_random_leaf = replicate 32 8\<rparr>"

definition demo_primary :: client_key where
  "demo_primary = \<lparr>ck_did = ''did:me'', ck_display_identifier = [], ck_method = Secp256k1Eip191, ck_private_key = replicate 32 7\<rparr>"

definition demo_opts :: flow_options where
  "demo_opts = \<lparr>fo_seal_wait = \<lparr>pb_deadline = 9, pb_interval = 2\<rparr>, fo_witness_timeout = 9, fo_witness_interval = 1, fo_foreign_did_negative = True,
     fo_reader = InjectedReader \<lparr>rh_endpoint = None, rh_tsa_facts_expected = False\<rparr>\<rparr>"

definition demo_client_tree :: client_tree where
  "demo_client_tree = \<lparr>ct_tree = JObj [(''revisions'', JObj [(''k'', JObj [])]), (''file_index'', JObj [])],
     ct_file = ''openwitness-seal-e2e openwitness_seal_e2e 01'', ct_leaf_hex = ''0x'' @ concat (replicate 32 ''01'')\<rparr>"

lemma demo_flow_steps:
  "check_service demo_flow_api demo_flow_world = Inr (''r1'', ''did:svc'')"
  "mint_bearer demo_keys demo_flow_api demo_flow_world demo_primary = Inr ''t''"
  "new_client_tree demo_flow_api (fw_nonce demo_flow_world) ''openwitness_seal_e2e'' = Inr demo_client_tree"
  "submit_leaf demo_flow_api demo_flow_world ''t'' (ct_leaf_hex demo_client_tree) = Inr (1, 10)"
  "wait_for_seal demo_flow_api 1 \<lparr>pb_deadline = 9, pb_interval = 2\<rparr> (fw_seal_attempts demo_flow_world) = Some (Inr ())"
  "negative_checks demo_keys demo_flow_api demo_flow_world demo_opts (ct_leaf_hex demo_client_tree) = Inr ()"
  by code_simp+

lemma demo_flow_judged:
  "case fetch_both demo_flow_api demo_flow_world demo_opts of
     Some (Inr (e, q)) \<Rightarrow> (case verify_with_sdk demo_flow_api \<lparr>rh_endpoint = None, rh_tsa_facts_expected = False\<rparr> demo_client_tree [e, q] ''did:svc'' of
        Inr vs \<Rightarrow> mv_merkle_root_hex (vs ! 0) = mv_merkle_root_hex (vs ! 1) | Inl _ \<Rightarrow> False)
   | _ \<Rightarrow> False"
  by code_simp

lemma demo_flow_deadline: "min 9 (pb_deadline (from_epoch_close (fw_clock demo_flow_world) 10 (fw_now_secs demo_flow_world) 30)) = 9"
proof -
  have "max (2 * sat_sub 10 5 + 30) 60 = (60 :: u64)" by code_simp
  then show ?thesis by (simp add: from_epoch_close_def demo_flow_world_def)
qed

theorem full_flow_pass_verified_witness:
  "\<exists>outcome. run_full_flow demo_keys demo_flow_api demo_flow_world demo_primary demo_opts = Some (Inr outcome)
     \<and> (\<exists>evm qtsa. fetch_both demo_flow_api demo_flow_world demo_opts = Some (Inr (evm, qtsa)) \<and> detect_stub demo_flow_api Evm (ft_payloads evm) = None)"
proof -
  obtain e q vs where judged: "fetch_both demo_flow_api demo_flow_world demo_opts = Some (Inr (e, q))"
    "verify_with_sdk demo_flow_api \<lparr>rh_endpoint = None, rh_tsa_facts_expected = False\<rparr> demo_client_tree [e, q] ''did:svc'' = Inr vs"
    "mv_merkle_root_hex (vs ! 0) = mv_merkle_root_hex (vs ! 1)"
    using demo_flow_judged by (auto split: option.splits sum.splits) (metis sum.exhaust)
  have opts: "fo_reader demo_opts = InjectedReader \<lparr>rh_endpoint = None, rh_tsa_facts_expected = False\<rparr>"
    "pb_deadline (fo_seal_wait demo_opts) = 9" "pb_interval (fo_seal_wait demo_opts) = 2"
    by (simp_all add: demo_opts_def)
  obtain out where run: "run_full_flow demo_keys demo_flow_api demo_flow_world demo_primary demo_opts = Some (Inr out)"
    using judged by (simp add: run_full_flow_def polled_def demo_flow_steps opts demo_flow_deadline)
  show ?thesis
    using full_flow_pass_verified [OF run] run by blast
qed

end
