(* ===== verification/E2e_Run.thy ===== *)
theory E2e_Run
  imports E2e_Fetch
begin

text \<open>
  The run directory of a seal run and its replay (\<open>crates/aqua-timestamp-e2e/src/seal\<close>): the files a
  replay reads and the check that they are all there (\<open>run_dir.rs\<close>), the step log (\<open>log.rs\<close>), the one
  way steps write, the guard of the replay (\<open>replay.rs\<close>), the guards before a live run posts anything
  (\<open>live.rs\<close>), the SDK revision of the lockfile (\<open>mod.rs\<close>) and the reading of a served witness
  (\<open>served_witness\<close> of \<open>steps.rs\<close>).

  A path is the list of its components.  The file system is a function from paths to what reading
  them gives.  The seal types of the SDK are opaque; their parsers are the record \<open>seal_api\<close>.  The seven
  steps themselves are in \<open>E2e_Steps\<close>.
\<close>

section \<open>Data\<close>

type_synonym path = "string list"

datatype entry_state = Missing | Unreadable string | Contents string | FolderEntry

type_synonym files = "path \<Rightarrow> entry_state"

definition join :: "path \<Rightarrow> string \<Rightarrow> path" where
  "join dir file = dir @ split_on CHR ''/'' file"

text \<open>The texts of a \<open>RunDirError\<close>, by their form.\<close>

datatype problem = P_Missing | P_Unreadable string | P_Malformed string | P_Other string

datatype run_error = RunDirError string problem | OtherError string

record seal_api = e2e_api +
  tree_from_str :: "string \<Rightarrow> string + aqua_tree"
  previous_of :: "any_revision \<Rightarrow> revision_link option"
  prepared_from_str :: "string \<Rightarrow> string + string"
  prepared_signer :: "string \<Rightarrow> string + did"
  submit_digest :: "string \<Rightarrow> string + hash32"
  attestations_parse :: "string \<Rightarrow> string + unit"
  receipt_parse :: "string \<Rightarrow> string + unit"
  member_verify :: "string \<Rightarrow> aqua_tree \<Rightarrow> string \<Rightarrow> string + revision_link list"
  shielded_leaf :: "revision_link \<Rightarrow> hash32 \<Rightarrow> string + hash32"
  head_from_leaves :: "revision_link \<Rightarrow> hash32 list \<Rightarrow> string + string"
  global_calculate_hash :: "any_revision \<Rightarrow> string + revision_link"

section \<open>The step log\<close>

record step_log =
  sl_n :: nat
  sl_lines :: "string list"
  sl_fails :: "string list"

definition step_log_new :: "nat \<Rightarrow> string \<Rightarrow> string list \<Rightarrow> string \<Rightarrow> step_log" where
  "step_log_new n title header utc =
     \<lparr>sl_n = n, sl_lines = (''# seal e2e step '' @ show_nat n @ '': '' @ title) # header @ [''# step started '' @ utc], sl_fails = []\<rparr>"

definition log_line :: "string \<Rightarrow> step_log \<Rightarrow> step_log" where
  "log_line s log = log\<lparr>sl_lines := sl_lines log @ [s]\<rparr>"

definition log_check :: "bool \<Rightarrow> string \<Rightarrow> string \<Rightarrow> step_log \<Rightarrow> bool \<times> step_log" where
  "log_check ok what falsifier log =
     (let log1 = log_line (''ASSERT '' @ (if ok then ''ok  '' else ''FAIL'') @ '' '' @ what) log
      in (ok, if \<not> ok \<and> falsifier \<notin> set (sl_fails log1) then log1\<lparr>sl_fails := sl_fails log1 @ [falsifier]\<rparr> else log1))"

definition log_passed :: "step_log \<Rightarrow> bool" where
  "log_passed log \<longleftrightarrow> sl_fails log = []"

fun join_with :: "string \<Rightarrow> string list \<Rightarrow> string" where
  "join_with sep [] = []"
| "join_with sep [s] = s"
| "join_with sep (s # t # ss) = s @ sep @ join_with sep (t # ss)"

definition verdict :: "step_log \<Rightarrow> string" where
  "verdict log =
     (if sl_fails log = [] then ''STEP '' @ show_nat (sl_n log) @ '' PASS''
      else ''STEP '' @ show_nat (sl_n log) @ '' FAIL '' @ join_with ''; '' (sl_fails log))"

definition all_passed :: "step_log list \<Rightarrow> bool" where
  "all_passed logs \<longleftrightarrow> logs \<noteq> [] \<and> list_all log_passed logs"

section \<open>The files of a run\<close>

definition RUN_JSON :: string where "RUN_JSON = ''run.json''"
definition AQUA_IDENTITY :: string where "AQUA_IDENTITY = ''aqua-identity.json''"
definition SET_FOLDER :: string where "SET_FOLDER = ''set-folder.json''"
definition FETCH_STATUS :: string where "FETCH_STATUS = ''fetch-status.json''"
definition CONTAINER_1 :: string where "CONTAINER_1 = ''container-1.json''"
definition ATTESTATIONS_1 :: string where "ATTESTATIONS_1 = ''attestations-1.json''"
definition CONTAINER_2 :: string where "CONTAINER_2 = ''container-2.json''"
definition ATTESTATIONS_2 :: string where "ATTESTATIONS_2 = ''attestations-2.json''"
definition MEMBERS :: nat where "MEMBERS = 3"

definition WITNESS_FILES :: "(string \<times> string \<times> anchor_method) list" where
  "WITNESS_FILES = [(''s1-evm.json'', ''s1_evm'', Evm), (''s1-qtsa.json'', ''s1_qtsa'', Qtsa), (''s2-qtsa.json'', ''s2_qtsa'', Qtsa)]"

definition prepared_file :: "nat \<Rightarrow> string" where
  "prepared_file seal = ''prepared-seal-'' @ show_nat seal @ ''.json''"

definition nonces_file :: "nat \<Rightarrow> string" where
  "nonces_file seal = ''nonces-'' @ show_nat seal @ ''.json''"

definition member_tree_file :: "nat \<Rightarrow> string" where
  "member_tree_file member = ''members/m'' @ show_nat member @ ''/tree.json''"

definition member_name :: "nat \<Rightarrow> string" where
  "member_name member = ''m'' @ show_nat member @ ''.txt''"

definition member_body_file :: "nat \<Rightarrow> string" where
  "member_body_file member = ''members/m'' @ show_nat member @ ''/files/'' @ member_name member"

definition receipt_file :: "nat \<Rightarrow> nat \<Rightarrow> string" where
  "receipt_file seal member = ''receipts-'' @ show_nat seal @ ''/m'' @ show_nat member @ ''.json''"

definition epochs_file :: "u64 \<Rightarrow> string" where
  "epochs_file epoch = ''epochs-'' @ show_nat (unat epoch) @ ''.json''"

definition epoch_file :: "u64 \<Rightarrow> anchor_method \<Rightarrow> string" where
  "epoch_file epoch method = ''epoch-'' @ show_nat (unat epoch) @ ''-'' @ as_str method @ ''.json''"

section \<open>Reading them\<close>

definition text_of :: "files \<Rightarrow> path \<Rightarrow> string \<Rightarrow> run_error + string" where
  "text_of fs dir file =
     (case fs (join dir file) of
        Contents t \<Rightarrow> Inr t
      | Missing \<Rightarrow> Inl (RunDirError file P_Missing)
      | Unreadable e \<Rightarrow> Inl (RunDirError file (P_Unreadable e))
      | FolderEntry \<Rightarrow> Inl (RunDirError file (P_Unreadable ''Is a directory'')))"

definition typed :: "(string \<Rightarrow> string + 'a) \<Rightarrow> files \<Rightarrow> path \<Rightarrow> string \<Rightarrow> run_error + 'a" where
  "typed parse fs dir file =
     and_then (text_of fs dir file) (\<lambda>t. map_err (\<lambda>e. RunDirError file (P_Malformed e)) (parse t))"

definition hex_digest :: "'z codec_api_scheme \<Rightarrow> hash32 \<Rightarrow> string" where
  "hex_digest x d = ''0x'' @ hex_encode x d"

definition digest_from_hex :: "'z codec_api_scheme \<Rightarrow> string \<Rightarrow> string + hash32" where
  "digest_from_hex x s =
     and_then (map_err (\<lambda>_. ''hex'') (hex_decode x (trim_start_matches ''0x'' s))) (\<lambda>b.
     if length b = 32 then Inr b else Inl (''expected 32 bytes, got '' @ show_nat (length b)))"

definition string_list :: "'z seal_api_scheme \<Rightarrow> string \<Rightarrow> string + string list" where
  "string_list x t = and_then (from_str x t) (\<lambda>j. case j of JArr vs \<Rightarrow> strings_of vs | _ \<Rightarrow> Inl ''expected an array'')"

definition nonces_of :: "'z seal_api_scheme \<Rightarrow> files \<Rightarrow> path \<Rightarrow> nat \<Rightarrow> run_error + hash32 list" where
  "nonces_of x fs dir seal =
     (let file = nonces_file seal
      in and_then (typed (string_list x) fs dir file) (\<lambda>raw.
         if length raw \<noteq> MEMBERS then Inl (RunDirError file (P_Malformed (show_nat (length raw) @ '' nonces'')))
         else map_err (\<lambda>e. RunDirError file (P_Malformed e)) (collect_results (digest_from_hex x) raw)))"

definition epoch_of :: "json \<Rightarrow> run_error + u64" where
  "epoch_of meta = (case u64_at meta ''epoch_id'' of Some n \<Rightarrow> Inr n | None \<Rightarrow> Inl (RunDirError RUN_JSON (P_Malformed ''no numeric epoch_id'')))"

definition for_each :: "('a \<Rightarrow> 'e + 'b) \<Rightarrow> 'a list \<Rightarrow> 'e + unit" where
  "for_each f xs = and_then (collect_results f xs) (\<lambda>_. Inr ())"

definition need_key :: "string \<Rightarrow> bool \<Rightarrow> string \<Rightarrow> run_error + unit" where
  "need_key file present what = (if present then Inr () else Inl (RunDirError file (P_Malformed what)))"

definition fetch_status_keys :: "string list" where
  "fetch_status_keys = [''s1_evm'', ''s1_qtsa'', ''s2_qtsa'', ''epoch_evm'', ''epoch_qtsa'', ''epochs'']"

definition verify_complete :: "'z seal_api_scheme \<Rightarrow> files \<Rightarrow> path \<Rightarrow> run_error + unit" where
  "verify_complete x fs dir =
     and_then (typed (from_str x) fs dir RUN_JSON) (\<lambda>meta.
     and_then (epoch_of meta) (\<lambda>epoch.
     and_then (for_each (\<lambda>key. need_key RUN_JSON (str_at meta key \<noteq> None) (''no string '' @ key)) [''s1'', ''s2'']) (\<lambda>_.
     and_then (typed (from_str x) fs dir AQUA_IDENTITY) (\<lambda>identity.
     and_then (need_key AQUA_IDENTITY (str_at identity ''server_did'' \<noteq> None) ''no string server_did'') (\<lambda>_.
     and_then (typed (tree_from_str x) fs dir SET_FOLDER) (\<lambda>_.
     and_then (for_each (\<lambda>member. and_then (typed (tree_from_str x) fs dir (member_tree_file member)) (\<lambda>_.
         case fs (join dir (member_body_file member)) of
           Contents _ \<Rightarrow> Inr () | Unreadable _ \<Rightarrow> Inr () | _ \<Rightarrow> Inl (RunDirError (member_body_file member) P_Missing))) [1..<Suc MEMBERS]) (\<lambda>_.
     and_then (for_each (\<lambda>seal. and_then (nonces_of x fs dir seal) (\<lambda>_. typed (prepared_from_str x) fs dir (prepared_file seal))) [1, 2]) (\<lambda>_.
     and_then (for_each (\<lambda>(file, _, method). and_then (text_of fs dir file) (\<lambda>t.
         map_err (\<lambda>_. RunDirError file (P_Malformed ''witness'')) (parse_witness x method t))) WITNESS_FILES) (\<lambda>_.
     and_then (for_each (\<lambda>(container, attestations). and_then (typed (tree_from_str x) fs dir container) (\<lambda>_.
         typed (attestations_parse x) fs dir attestations)) [(CONTAINER_1, ATTESTATIONS_1), (CONTAINER_2, ATTESTATIONS_2)]) (\<lambda>_.
     and_then (for_each (\<lambda>seal. for_each (\<lambda>member. typed (receipt_parse x) fs dir (receipt_file seal member)) [1..<Suc MEMBERS]) [1, 2]) (\<lambda>_.
     and_then (typed (from_str x) fs dir FETCH_STATUS) (\<lambda>status.
     and_then (for_each (\<lambda>key. need_key FETCH_STATUS (json_get status key \<noteq> None) (''no '' @ key)) fetch_status_keys) (\<lambda>_.
     and_then (typed (from_str x) fs dir (epochs_file epoch)) (\<lambda>epochs.
     and_then (need_key (epochs_file epoch) (case json_get epochs ''epochs'' of Some (JArr _) \<Rightarrow> True | _ \<Rightarrow> False) ''no epochs array'') (\<lambda>_.
     for_each (\<lambda>method. and_then (typed (from_str x) fs dir (epoch_file epoch method)) (\<lambda>body.
         need_key (epoch_file epoch method) (Option.bind (json_get body ''revisions'') json_object \<noteq> None) ''no revisions object'')) [Evm, Qtsa]
     )))))))))))))))"

section \<open>Loading the state\<close>

definition genesis_of :: "'z seal_api_scheme \<Rightarrow> aqua_tree \<Rightarrow> string + revision_link" where
  "genesis_of x t =
     (case filter (\<lambda>(_, r). previous_of x r = None) (tr_revisions t) of
        [(k, _)] \<Rightarrow> Inr k
      | g \<Rightarrow> Inl (''expected exactly one genesis in the Folder tree, found '' @ show_nat (length g)))"

definition load_member :: "'z seal_api_scheme \<Rightarrow> files \<Rightarrow> path \<Rightarrow> nat \<Rightarrow> run_error + string \<times> aqua_tree \<times> string" where
  "load_member x fs dir i =
     and_then (typed (tree_from_str x) fs dir (member_tree_file i)) (\<lambda>tree.
     and_then (case fs (join dir (member_body_file i)) of
         Contents b \<Rightarrow> Inr b
       | Unreadable e \<Rightarrow> Inl (RunDirError (member_body_file i) (P_Unreadable e))
       | Missing \<Rightarrow> Inl (RunDirError (member_body_file i) (P_Unreadable ''not found''))
       | FolderEntry \<Rightarrow> Inl (RunDirError (member_body_file i) (P_Unreadable ''Is a directory''))) (\<lambda>b.
     Inr (member_name i, tree, b)))"

definition load_member_files :: "'z seal_api_scheme \<Rightarrow> files \<Rightarrow> path \<Rightarrow> run_error + (string \<times> aqua_tree \<times> string) list" where
  "load_member_files x fs dir = collect_results (load_member x fs dir) [1..<Suc MEMBERS]"

definition admit_members :: "'z seal_api_scheme \<Rightarrow> (string \<times> aqua_tree \<times> string) list \<Rightarrow> run_error + revision_link list list" where
  "admit_members x members =
     map_err OtherError (collect_results (\<lambda>(n, t, b). map_err (\<lambda>e. n @ '': member tree not admitted: '' @ e) (member_verify x n t b)) members)"

definition tips_of :: "revision_link list list \<Rightarrow> run_error + revision_link list" where
  "tips_of spines = collect_results (\<lambda>s. if s = [] then Inl (OtherError ''member has no spine'') else Inr (last s)) spines"

definition leaves_of :: "'z seal_api_scheme \<Rightarrow> revision_link list \<Rightarrow> hash32 list \<Rightarrow> run_error + hash32 list" where
  "leaves_of x tips nonces =
     collect_results (\<lambda>(t, n). map_err (\<lambda>e. OtherError (''shielded_leaf: '' @ e)) (shielded_leaf x t n)) (zip tips nonces)"

definition load_prepared :: "'z seal_api_scheme \<Rightarrow> files \<Rightarrow> path \<Rightarrow> json \<Rightarrow> nat \<times> string \<Rightarrow> run_error + did" where
  "load_prepared x fs dir meta = (\<lambda>(seal, key).
     let file = prepared_file seal; malformed = (\<lambda>e. RunDirError file (P_Malformed e))
     in and_then (typed (prepared_from_str x) fs dir file) (\<lambda>prepared.
        and_then (map_err malformed (prepared_signer x prepared)) (\<lambda>signer.
        and_then (map_err malformed (submit_digest x prepared)) (\<lambda>digest.
        if str_at meta key \<noteq> Some (hex_digest x digest)
        then Inl (RunDirError RUN_JSON (P_Other (key @ '' is not what '' @ file @ '' submits'')))
        else Inr signer))))"

record run_state =
  rs_meta :: json
  rs_server_did :: did
  rs_did :: did
  rs_set :: revision_link
  rs_members :: "(string \<times> aqua_tree \<times> string) list"
  rs_tips :: "revision_link list"
  rs_nonces :: "hash32 list \<times> hash32 list"
  rs_leaves :: "hash32 list \<times> hash32 list"
  rs_heads :: "string \<times> string"

definition run_state_load :: "'z seal_api_scheme \<Rightarrow> files \<Rightarrow> path \<Rightarrow> run_error + run_state" where
  "run_state_load x fs dir =
     and_then (typed (from_str x) fs dir RUN_JSON) (\<lambda>meta.
     and_then (typed (from_str x) fs dir AQUA_IDENTITY) (\<lambda>identity.
     and_then (case str_at identity ''server_did'' of Some d \<Rightarrow> Inr d
         | None \<Rightarrow> Inl (RunDirError AQUA_IDENTITY (P_Malformed ''no string server_did''))) (\<lambda>server_did.
     and_then (typed (tree_from_str x) fs dir SET_FOLDER) (\<lambda>folder.
     and_then (map_err (\<lambda>e. RunDirError SET_FOLDER (P_Other e)) (genesis_of x folder)) (\<lambda>genesis.
     and_then (load_member_files x fs dir) (\<lambda>members.
     and_then (admit_members x members) (\<lambda>admitted.
     and_then (tips_of admitted) (\<lambda>tips.
     and_then (nonces_of x fs dir 1) (\<lambda>n1.
     and_then (nonces_of x fs dir 2) (\<lambda>n2.
     and_then (leaves_of x tips n1) (\<lambda>l1.
     and_then (leaves_of x tips n2) (\<lambda>l2.
     and_then (map_err (\<lambda>e. OtherError (''head: '' @ e)) (head_from_leaves x genesis l1)) (\<lambda>h1.
     and_then (map_err (\<lambda>e. OtherError (''head: '' @ e)) (head_from_leaves x genesis l2)) (\<lambda>h2.
     and_then (collect_results (load_prepared x fs dir meta) [(1, ''s1''), (2, ''s2'')]) (\<lambda>signers.
     if length (remdups signers) \<noteq> 1
     then Inl (RunDirError (prepared_file 2) (P_Other ''the prepared seals name different signers''))
     else Inr \<lparr>rs_meta = meta, rs_server_did = server_did, rs_did = hd signers, rs_set = genesis, rs_members = members, rs_tips = tips,
               rs_nonces = (n1, n2), rs_leaves = (l1, l2), rs_heads = (h1, h2)\<rparr>)))))))))))))))"

section \<open>The store and the replay guard\<close>

datatype store_mode = Persist | Replay "path option"

record run_store =
  st_run :: path
  st_mode :: store_mode

definition write_dir :: "run_store \<Rightarrow> path option" where
  "write_dir s = (case st_mode s of Persist \<Rightarrow> Some (st_run s) | Replay out \<Rightarrow> out)"

text \<open>Where the system puts a path (\<open>place\<close>), and whether the write fails there.\<close>

record device =
  dv_place :: "path \<Rightarrow> path"
  dv_fails :: "path \<Rightarrow> bool"

definition read_path :: "device \<Rightarrow> files \<Rightarrow> path \<Rightarrow> entry_state" where
  "read_path d fs p = fs (dv_place d p)"

definition write_file :: "device \<Rightarrow> path \<Rightarrow> string \<Rightarrow> files \<Rightarrow> (string + unit) \<times> files" where
  "write_file d p b fs = (if dv_fails d p then (Inl ''write'', fs) else (Inr (), fs(dv_place d p := Contents b)))"

definition artifact :: "device \<Rightarrow> run_store \<Rightarrow> string \<Rightarrow> string \<Rightarrow> files \<Rightarrow> (string + unit) \<times> files" where
  "artifact d s file b fs = (case write_dir s of Some dir \<Rightarrow> write_file d (join dir file) b fs | None \<Rightarrow> (Inr (), fs))"

definition derived :: "device \<Rightarrow> run_store \<Rightarrow> string \<Rightarrow> string \<Rightarrow> string \<Rightarrow> step_log \<Rightarrow> files \<Rightarrow> (string + unit) \<times> step_log \<times> files" where
  "derived d s file b falsifier log fs =
     (let log' = (case st_mode s of
            Persist \<Rightarrow> log
          | Replay _ \<Rightarrow> (case read_path d fs (join (st_run s) file) of
              Contents persisted \<Rightarrow>
                snd (log_check (persisted = b) (''replay reproduces '' @ file @ '' byte for byte'') falsifier log)
            | _ \<Rightarrow> snd (log_check False (file @ '': the persisted bytes to compare cannot be read'') falsifier log)));
          (r, fs') = artifact d s file b fs
      in (r, log', fs'))"

definition ensure_dir :: "device \<Rightarrow> run_store \<Rightarrow> string \<Rightarrow> files \<Rightarrow> (string + unit) \<times> files" where
  "ensure_dir d s sub fs =
     (case write_dir s of
        None \<Rightarrow> (Inr (), fs)
      | Some dir \<Rightarrow>
          let p = dv_place d (join dir sub)
          in if dv_fails d (join dir sub) then (Inl ''mkdir'', fs)
             else case fs p of Missing \<Rightarrow> (Inr (), fs(p := FolderEntry)) | FolderEntry \<Rightarrow> (Inr (), fs) | _ \<Rightarrow> (Inl ''mkdir'', fs))"

definition log_text :: "string \<Rightarrow> step_log \<Rightarrow> string" where
  "log_text closing log = join_with [CHR 0x0A] (sl_lines log) @ CHR 0x0A # ''# '' @ closing @ CHR 0x0A # verdict log @ [CHR 0x0A]"

definition log_write :: "device \<Rightarrow> path \<Rightarrow> string \<Rightarrow> step_log \<Rightarrow> files \<Rightarrow> (string + unit) \<times> files" where
  "log_write d dir closing log fs = write_file d (join dir (''step-'' @ show_nat (sl_n log) @ ''.log'')) (log_text closing log) fs"

datatype canon = Real path | NoEntry | CanonErr string

record path_api =
  absolute :: "path \<Rightarrow> string + path"
  canonicalize :: "path \<Rightarrow> canon"
  link_present :: "path \<Rightarrow> bool"

text \<open>The ancestors of an absolute path, deepest first: \<open>take n abs\<close> for falling \<open>n\<close>.\<close>

fun resolve_at :: "path_api \<Rightarrow> path \<Rightarrow> nat \<Rightarrow> string + path" where
  "resolve_at a p 0 =
     (case canonicalize a [] of
        Real real \<Rightarrow> if ''..'' \<in> set p then Inl ''.. after a missing name: refused'' else Inr (real @ p)
      | NoEntry \<Rightarrow> if link_present a [] then Inl ''dangling symlink: refused'' else Inl ''no existing ancestor''
      | CanonErr e \<Rightarrow> Inl e)"
| "resolve_at a p (Suc n) =
     (case canonicalize a (take (Suc n) p) of
        Real real \<Rightarrow> if ''..'' \<in> set (drop (Suc n) p) then Inl ''.. after a missing name: refused'' else Inr (real @ drop (Suc n) p)
      | NoEntry \<Rightarrow> if link_present a (take (Suc n) p) then Inl ''dangling symlink: refused'' else resolve_at a p n
      | CanonErr e \<Rightarrow> Inl e)"

definition resolved :: "path_api \<Rightarrow> path \<Rightarrow> string + path" where
  "resolved a p = and_then (absolute a p) (\<lambda>full. resolve_at a full (length full))"

definition path_starts_with :: "path \<Rightarrow> path \<Rightarrow> bool" where
  "path_starts_with p q \<longleftrightarrow> take (length q) p = q"

definition ensure_outside :: "path_api \<Rightarrow> path \<Rightarrow> path \<Rightarrow> string + unit" where
  "ensure_outside a p guarded =
     and_then (resolved a p) (\<lambda>real.
     and_then (resolved a guarded) (\<lambda>guard.
     if path_starts_with real guard then Inl ''inside the guarded directory: refused'' else Inr ()))"

text \<open>The SDK revision named in the lines of the lockfile.\<close>

fun lock_revs :: "string list \<Rightarrow> bool \<Rightarrow> string list" where
  "lock_revs [] in_pkg = []"
| "lock_revs (line # lines) in_pkg =
     (let in_pkg' = (if starts_with ''name = '' line then line = ''name = '' @ [CHR 0x22] @ ''aqua-rs-sdk'' @ [CHR 0x22] else in_pkg)
      in if in_pkg' \<and> starts_with ''source = '' line \<and> CHR ''#'' \<in> set line
         then trim_end_matches CHR 0x22 (rev (takeWhile (\<lambda>c. c \<noteq> CHR ''#'') (rev line))) # lock_revs lines in_pkg'
         else lock_revs lines in_pkg')"

definition sdk_rev_in :: "string list \<Rightarrow> string + string" where
  "sdk_rev_in lock = (case lock_revs lock False of [one] \<Rightarrow> Inr one | _ \<Rightarrow> Inl ''expected exactly one aqua-rs-sdk in Cargo.lock'')"

section \<open>The guards of a live run\<close>

definition served_revision :: "'z e2e_api_scheme \<Rightarrow> string \<Rightarrow> string + string" where
  "served_revision x body =
     and_then (map_err (\<lambda>e. ''/version is not JSON: '' @ e) (from_str x body)) (\<lambda>v.
     need (''/version has no string revision: '' @ body) (str_at v ''revision''))"

definition check_expected_version :: "'z e2e_api_scheme \<Rightarrow> string \<Rightarrow> string option \<Rightarrow> string + unit" where
  "check_expected_version x before expect =
     (case expect of
        None \<Rightarrow> Inr ()
      | Some want \<Rightarrow> and_then (served_revision x before) (\<lambda>got.
          if got \<noteq> want then Inl (''/version serves '' @ got @ '': nothing was posted'') else Inr ()))"

definition require_server_did_pin :: "(string \<Rightarrow> string + url_parts) \<Rightarrow> string \<Rightarrow> did option \<Rightarrow> string + unit" where
  "require_server_did_pin read_url base_url pin =
     (if pin = None \<and> \<not> is_loopback read_url base_url then Inl ''--expect-server-did is required on a non-loopback --base-url'' else Inr ())"

definition check_expected_server_did :: "'z e2e_api_scheme \<Rightarrow> string \<Rightarrow> did option \<Rightarrow> string + unit" where
  "check_expected_server_did x identity_body expect =
     (case expect of
        None \<Rightarrow> Inr ()
      | Some want \<Rightarrow> and_then (map_err (\<lambda>e. ''aqua-identity json: '' @ e) (from_str x identity_body)) (\<lambda>v.
          let got = (case str_at v ''server_did'' of Some d \<Rightarrow> d | None \<Rightarrow> [])
          in if got \<noteq> want then Inl (''aqua-identity serves '' @ got @ '': nothing was posted'') else Inr ()))"

definition check_version_unchanged :: "string \<Rightarrow> string \<Rightarrow> string + unit" where
  "check_version_unchanged before after =
     (if before = after then Inr () else Inl (''/version moved during the run: before '' @ before @ '', after '' @ after))"

definition MAX_CLOCK_AHEAD_SECS :: int where
  "MAX_CLOCK_AHEAD_SECS = 60"

record preflight_answers =
  pf_version :: "string + http_response"
  pf_health :: "string + http_response"
  pf_health_date :: "string option"
  pf_date_secs :: "string \<Rightarrow> string + int"
  pf_local_secs :: int
  pf_identity :: "string + http_response"

definition preflight :: "'z e2e_api_scheme \<Rightarrow> preflight_answers \<Rightarrow> string + string \<times> string" where
  "preflight x w =
     and_then (pf_version w) (\<lambda>v.
     and_then (served_revision x (hr_body v)) (\<lambda>_.
     and_then (pf_health w) (\<lambda>h.
     if hr_status h \<noteq> 200 then Inl (''GET /health: HTTP '' @ show_nat (hr_status h))
     else and_then (need ''no Date header on /health'' (pf_health_date w)) (\<lambda>date.
     and_then (map_err (\<lambda>e. ''Date header: '' @ e) (pf_date_secs w date)) (\<lambda>server.
     if pf_local_secs w - server > MAX_CLOCK_AHEAD_SECS then Inl ''local clock ahead of the server''
     else and_then (pf_identity w) (\<lambda>i.
     if hr_status i \<noteq> 200 then Inl (''GET /.well-known/aqua-identity: HTTP '' @ show_nat (hr_status i))
     else and_then (map_err (\<lambda>e. ''aqua-identity json: '' @ e) (from_str x (hr_body i))) (\<lambda>j.
     and_then (need ''/.well-known/aqua-identity has no string server_did'' (str_at j ''server_did'')) (\<lambda>_.
     Inr (hr_body v, hr_body i)))))))))"

text \<open>\<open>check_run_dir\<close>: \<open>held\<close> is what listing the directory gives; no directory is fine.\<close>

definition check_run_dir :: "path_api \<Rightarrow> (path \<Rightarrow> string + string list option) \<Rightarrow> path \<Rightarrow> path \<Rightarrow> string + unit" where
  "check_run_dir a held run_dir identity_dir =
     and_then (ensure_outside a run_dir identity_dir) (\<lambda>_.
     and_then (held run_dir) (\<lambda>entries.
     (case entries of
        None \<Rightarrow> Inr ()
      | Some [] \<Rightarrow> Inr ()
      | Some (e # _) \<Rightarrow> Inl (''the run directory is not empty (holds '' @ e @ '')''))))"

text \<open>Everything \<open>run_seal\<close> checks before it writes or posts.\<close>

definition seal_guards :: "'z e2e_api_scheme \<Rightarrow> (string \<Rightarrow> string + url_parts) \<Rightarrow> path_api \<Rightarrow> (path \<Rightarrow> string + string list option)
  \<Rightarrow> string list \<Rightarrow> preflight_answers \<Rightarrow> string \<Rightarrow> path \<Rightarrow> path \<Rightarrow> string option \<Rightarrow> did option \<Rightarrow> string + string \<times> string" where
  "seal_guards x read_url a held lock w base_url run_dir identity_dir expect_version expect_server_did =
     and_then (require_server_did_pin read_url base_url expect_server_did) (\<lambda>_.
     and_then (check_run_dir a held run_dir identity_dir) (\<lambda>_.
     and_then (sdk_rev_in lock) (\<lambda>_.
     and_then (preflight x w) (\<lambda>(version, identity_body).
     and_then (check_expected_version x version expect_version) (\<lambda>_.
     and_then (check_expected_server_did x identity_body expect_server_did) (\<lambda>_.
     Inr (version, identity_body)))))))"

section \<open>A served witness in step 1\<close>

record served_pair =
  sp_fetched :: fetched
  sp_object :: any_revision
  sp_signature :: any_revision

definition pair_of :: "'z e2e_api_scheme \<Rightarrow> fetched \<Rightarrow> string + served_pair" where
  "pair_of x f =
     (let revision = (\<lambda>key. map_err (\<lambda>e. ''served revision '' @ key @ '': '' @ e)
            (any_revision_from x (case Option.bind (json_get (ft_tree f) ''revisions'') (\<lambda>r. json_get r key) of Some v \<Rightarrow> v | None \<Rightarrow> JNull)))
      in and_then (revision (ft_object_key f)) (\<lambda>object.
         and_then (revision (ft_signature_key f)) (\<lambda>signature.
         Inr \<lparr>sp_fetched = f, sp_object = object, sp_signature = signature\<rparr>)))"

definition link_of :: "'z seal_api_scheme \<Rightarrow> any_revision \<Rightarrow> string + revision_link" where
  "link_of x r = map_err (\<lambda>e. ''SDK link: '' @ e) (global_calculate_hash x r)"

text \<open>The assertions of \<open>served_witness\<close> on the log; an \<open>Err\<close> keeps the log made so far.\<close>

definition served_witness :: "'z seal_api_scheme \<Rightarrow> step_log \<Rightarrow> string \<Rightarrow> anchor_method \<Rightarrow> string
  \<Rightarrow> (string + (any_revision \<times> any_revision) option) \<times> step_log" where
  "served_witness x log key method body =
     (case parse_served x method body of
        Inl e \<Rightarrow> (Inr None, snd (log_check False (key @ '': not a witness'') ''anchor missing'' log))
      | Inr f \<Rightarrow>
          let stub = detect_stub x method (ft_payloads f);
              (fine, log1) = log_check (stub = None) (key @ '': detect_stub on the served payload'') ''stub'' log
          in if \<not> fine then (Inr None, log1)
             else case and_then (pair_of x f) (\<lambda>pair.
                       and_then (link_of x (sp_object pair)) (\<lambda>t_link.
                       and_then (link_of x (sp_signature pair)) (\<lambda>p_link. Inr (pair, t_link, p_link)))) of
               Inl e \<Rightarrow> (Inl e, log1)
             | Inr (pair, t_link, p_link) \<Rightarrow>
                 let not_the_link = ''anchor missing (served key is not the SDK link)'';
                     (t_ok, log2) = log_check (link_text x t_link = ft_object_key f) (key @ '': served key of T'') not_the_link log1;
                     (p_ok, log3) = log_check (link_text x p_link = ft_signature_key f) (key @ '': served key of P'') not_the_link log2
                 in (Inr (if t_ok \<and> p_ok then Some (sp_object pair, sp_signature pair) else None), log3))"

section \<open>The step log\<close>

text \<open>A step passes exactly when every assertion held, and its verdict names each falsifier once.\<close>

lemma log_check_simps [simp]:
  "fst (log_check ok what f log) = ok"
  "log_passed (snd (log_check ok what f log)) \<longleftrightarrow> ok \<and> log_passed log"
  "distinct (sl_fails (snd (log_check ok what f log))) \<longleftrightarrow> distinct (sl_fails log)"
  "set (sl_fails (snd (log_check ok what f log))) = (if ok then {} else {f}) \<union> set (sl_fails log)"
  by (auto simp: log_check_def log_line_def log_passed_def Let_def)

lemma log_checkE:
  obtains l where "log_check ok what f log = (ok, l)" "log_passed l \<longleftrightarrow> ok \<and> log_passed log"
proof
  show "log_check ok what f log = (ok, snd (log_check ok what f log))"
    by (simp add: prod_eq_iff)
qed simp

lemma log_checks_passed:
  "log_passed (fold (\<lambda>(ok, what, f) log. snd (log_check ok what f log)) cs log) \<longleftrightarrow> log_passed log \<and> (\<forall>(ok, _, _)\<in>set cs. ok)"
  by (induction cs arbitrary: log) auto

text \<open>
  A witness body that cannot be used never passes silently.  Reading a served body in step 1
  either yields the pair, whose served keys are the links the SDK computes and which is no stub, with
  the log's verdict as it was; or it yields nothing and the step fails.
\<close>

theorem served_witness_never_silent:
  assumes "served_witness x log key method body = (Inr r, log')"
  shows "case r of
       None \<Rightarrow> \<not> log_passed log'
     | Some (t, p) \<Rightarrow> (log_passed log' \<longleftrightarrow> log_passed log) \<and> (\<exists>f. parse_served x method body = Inr f
         \<and> detect_stub x method (ft_payloads f) = None
         \<and> (\<exists>l. link_of x t = Inr l \<and> link_text x l = ft_object_key f) \<and> (\<exists>l. link_of x p = Inr l \<and> link_text x l = ft_signature_key f))"
proof (cases "parse_served x method body")
  case (Inl e)
  then show ?thesis using assms by (auto simp: served_witness_def)
next
  case (Inr f)
  let ?stub = "detect_stub x method (ft_payloads f)"
  obtain log1 where l1: "log_check (?stub = None) (key @ '': detect_stub on the served payload'') ''stub'' log = (?stub = None, log1)"
    and p1: "log_passed log1 \<longleftrightarrow> ?stub = None \<and> log_passed log"
    by (rule log_checkE)
  show ?thesis
  proof (cases ?stub)
    case (Some reason)
    then show ?thesis using assms Inr l1 p1 by (auto simp: served_witness_def)
  next
    case None
    obtain pair t_link p_link where links: "link_of x (sp_object pair) = Inr t_link" "link_of x (sp_signature pair) = Inr p_link"
      "pair_of x f = Inr pair"
      using assms Inr l1 None by (auto simp: served_witness_def split: sum.splits)
    let ?t = "link_text x t_link = ft_object_key f" and ?p = "link_text x p_link = ft_signature_key f" and ?fals = "''anchor missing (served key is not the SDK link)''"
    obtain log2 where l2: "log_check ?t (key @ '': served key of T'') ?fals log1 = (?t, log2)" and p2: "log_passed log2 \<longleftrightarrow> ?t \<and> log_passed log1"
      by (rule log_checkE)
    obtain log3 where l3: "log_check ?p (key @ '': served key of P'') ?fals log2 = (?p, log3)" and p3: "log_passed log3 \<longleftrightarrow> ?p \<and> log_passed log2"
      by (rule log_checkE)
    have "log' = log3" "r = (if ?t \<and> ?p then Some (sp_object pair, sp_signature pair) else None)"
      using assms Inr l1 None links l2 l3 by (auto simp: served_witness_def Let_def)
    then show ?thesis using p1 p2 p3 None links Inr by auto
  qed
qed

section \<open>A complete run directory loads\<close>

lemma for_each_Inr [simp]: "for_each f xs = Inr u \<longleftrightarrow> (\<forall>a\<in>set xs. \<exists>b. f a = Inr b)"
proof
  assume "for_each f xs = Inr u"
  then show "\<forall>a\<in>set xs. \<exists>b. f a = Inr b"
    using collect_results_nth by (fastforce simp: for_each_def)
next
  assume "\<forall>a\<in>set xs. \<exists>b. f a = Inr b"
  then obtain g where "\<And>a. a \<in> set xs \<Longrightarrow> f a = Inr (g a)" by metis
  then show "for_each f xs = Inr u"
    by (simp add: for_each_def collect_results_all)
qed

lemma collect_results_Inl: "collect_results f as = Inl e \<Longrightarrow> \<exists>a\<in>set as. f a = Inl e"
  by (induction as) (auto split: sum.splits)

lemma verify_complete_Inr:
  assumes "verify_complete x fs dir = Inr u"
  shows "\<exists>meta identity. typed (from_str x) fs dir RUN_JSON = Inr meta \<and> typed (from_str x) fs dir AQUA_IDENTITY = Inr identity
      \<and> str_at identity ''server_did'' \<noteq> None"
    and "\<exists>folder. typed (tree_from_str x) fs dir SET_FOLDER = Inr folder"
    and "m \<in> set [1..<Suc MEMBERS] \<Longrightarrow> \<exists>t. typed (tree_from_str x) fs dir (member_tree_file m) = Inr t"
    and "m \<in> set [1..<Suc MEMBERS] \<Longrightarrow> fs (join dir (member_body_file m)) \<noteq> Missing \<and> fs (join dir (member_body_file m)) \<noteq> FolderEntry"
    and "seal \<in> {1, 2} \<Longrightarrow> (\<exists>ns. nonces_of x fs dir seal = Inr ns) \<and> (\<exists>p. typed (prepared_from_str x) fs dir (prepared_file seal) = Inr p)"
proof -
  obtain meta identity folder v where run: "typed (from_str x) fs dir RUN_JSON = Inr meta"
      "typed (from_str x) fs dir AQUA_IDENTITY = Inr identity"
      "need_key AQUA_IDENTITY (str_at identity ''server_did'' \<noteq> None) ''no string server_did'' = Inr v"
      "typed (tree_from_str x) fs dir SET_FOLDER = Inr folder"
    and members: "\<forall>member\<in>set [1..<Suc MEMBERS]. \<exists>b a. typed (tree_from_str x) fs dir (member_tree_file member) = Inr a
      \<and> (case fs (join dir (member_body_file member)) of Contents _ \<Rightarrow> Inr () | Unreadable _ \<Rightarrow> Inr ()
         | _ \<Rightarrow> Inl (RunDirError (member_body_file member) P_Missing)) = Inr (b :: unit)"
    and seals: "\<forall>seal\<in>set [1, 2]. \<exists>b a. nonces_of x fs dir seal = Inr a \<and> typed (prepared_from_str x) fs dir (prepared_file seal) = Inr b"
    using assms unfolding verify_complete_def and_then_Inr for_each_Inr
    by (elim exE conjE) (rule that, assumption+)
  show "\<exists>meta identity. typed (from_str x) fs dir RUN_JSON = Inr meta \<and> typed (from_str x) fs dir AQUA_IDENTITY = Inr identity
      \<and> str_at identity ''server_did'' \<noteq> None"
    using run by (auto simp: need_key_def split: if_splits)
  show "\<exists>folder. typed (tree_from_str x) fs dir SET_FOLDER = Inr folder"
    using run(4) by blast
  show "\<exists>t. typed (tree_from_str x) fs dir (member_tree_file m) = Inr t" if "m \<in> set [1..<Suc MEMBERS]"
    using members that by blast
  show "fs (join dir (member_body_file m)) \<noteq> Missing \<and> fs (join dir (member_body_file m)) \<noteq> FolderEntry" if "m \<in> set [1..<Suc MEMBERS]"
    using bspec [OF members that] by (auto split: entry_state.splits)
  show "(\<exists>ns. nonces_of x fs dir seal = Inr ns) \<and> (\<exists>p. typed (prepared_from_str x) fs dir (prepared_file seal) = Inr p)" if "seal \<in> {1, 2}"
    using seals that by auto
qed

text \<open>The faults a load may still report once the directory is complete.\<close>

definition late_fault :: "run_error \<Rightarrow> bool" where
  "late_fault e \<longleftrightarrow>
     (case e of
        OtherError _ \<Rightarrow> True
      | RunDirError file (P_Other _) \<Rightarrow> file \<in> {SET_FOLDER, RUN_JSON, prepared_file 2}
      | RunDirError file (P_Malformed _) \<Rightarrow> file \<in> {prepared_file 1, prepared_file 2}
      | RunDirError file (P_Unreadable _) \<Rightarrow> \<exists>m\<in>set [1..<Suc MEMBERS]. file = member_body_file m
      | RunDirError _ P_Missing \<Rightarrow> False)"

lemma and_then_Inl: "and_then r f = Inl e \<longleftrightarrow> r = Inl e \<or> (\<exists>a. r = Inr a \<and> f a = Inl e)"
  by (cases r) simp_all

lemma map_err_Inl: "map_err g r = Inl e \<longleftrightarrow> (\<exists>e'. r = Inl e' \<and> e = g e')"
  by (cases r) auto

lemma late_faults:
  "late_fault (OtherError t)" "late_fault (RunDirError SET_FOLDER (P_Other t))" "late_fault (RunDirError RUN_JSON (P_Other t))"
  "late_fault (RunDirError (prepared_file 2) (P_Other t))"
  by (simp_all add: late_fault_def)

lemma admit_members_late: "admit_members x ms = Inl e \<Longrightarrow> late_fault e"
  by (auto simp: admit_members_def map_err_Inl late_faults)

lemma tips_of_late: "tips_of ms = Inl e \<Longrightarrow> late_fault e"
  by (auto simp: tips_of_def late_faults split: if_splits dest!: collect_results_Inl)

lemma leaves_of_late: "leaves_of x ts ns = Inl e \<Longrightarrow> late_fault e"
  by (auto simp: leaves_of_def map_err_Inl late_faults dest!: collect_results_Inl)

lemma load_members_late:
  assumes "verify_complete x fs dir = Inr u" "load_member_files x fs dir = Inl e"
  shows "late_fault e"
proof -
  obtain m where m: "m \<in> set [1..<Suc MEMBERS]" "load_member x fs dir m = Inl e"
    using collect_results_Inl [OF assms(2) [unfolded load_member_files_def]] by (elim bexE)
  then have "\<exists>t. e = RunDirError (member_body_file m) (P_Unreadable t)"
    using verify_complete_Inr(3,4) [OF assms(1) m(1)]
    by (auto simp: load_member_def and_then_Inl split: entry_state.splits)
  then show ?thesis using m(1) unfolding late_fault_def by (elim exE) (simp only: run_error.case problem.case, blast)
qed

lemma load_prepared_late:
  assumes "verify_complete x fs dir = Inr u" "load_prepared x fs dir meta sk = Inl e" "fst sk \<in> {1, 2}"
  shows "late_fault e"
proof -
  obtain seal key where sk: "sk = (seal, key)" by (cases sk)
  obtain p where p: "typed (prepared_from_str x) fs dir (prepared_file seal) = Inr p"
    using verify_complete_Inr(5) [OF assms(1,3)] sk by auto
  have "(\<exists>t. e = RunDirError (prepared_file seal) (P_Malformed t)) \<or> (\<exists>t. e = RunDirError RUN_JSON (P_Other t))"
    using assms(2) p unfolding sk load_prepared_def Let_def prod.case
    by (simp only: and_then_simps and_then_Inl map_err_Inl) (auto split: if_splits)
  moreover have "prepared_file seal \<in> {prepared_file 1, prepared_file 2}"
    using assms(3) sk by auto
  ultimately show ?thesis
    by (elim disjE exE) (simp_all only: late_fault_def run_error.case problem.case insert_iff simp_thms)
qed

text \<open>
  A complete run directory loads.  Once \<open>verify_complete\<close> accepts a run directory, loading its
  state never reports a missing file, and never an unreadable or unparsable one, apart from a member
  body that exists but cannot be read and a prepared seal that parses but whose signer or digest the
  SDK refuses; every other fault of the load is a disagreement between the files or the SDK's.
\<close>

theorem complete_run_loads:
  assumes ok: "verify_complete x fs dir = Inr ()" and fault: "run_state_load x fs dir = Inl e"
  shows "late_fault e"
proof -
  obtain meta identity d folder n1 n2 where
    files: "typed (from_str x) fs dir RUN_JSON = Inr meta" "typed (from_str x) fs dir AQUA_IDENTITY = Inr identity"
      "str_at identity ''server_did'' = Some d" "typed (tree_from_str x) fs dir SET_FOLDER = Inr folder"
      "nonces_of x fs dir 1 = Inr n1" "nonces_of x fs dir 2 = Inr n2"
    using verify_complete_Inr(1,2) [OF ok] verify_complete_Inr(5) [OF ok, of 1] verify_complete_Inr(5) [OF ok, of 2] by auto
  have signers: "late_fault e'" if failed: "collect_results (load_prepared x fs dir meta) [(1, ''s1''), (2, ''s2'')] = Inl e'" for e'
  proof -
    obtain sk where "sk \<in> set [(1, ''s1''), (2, ''s2'')]" "load_prepared x fs dir meta sk = Inl e'"
      using collect_results_Inl [OF failed] by blast
    then show ?thesis using load_prepared_late [OF ok, of meta sk e'] by auto
  qed
  have rest: "run_state_load x fs dir =
     and_then (map_err (\<lambda>e. RunDirError SET_FOLDER (P_Other e)) (genesis_of x folder)) (\<lambda>genesis.
     and_then (load_member_files x fs dir) (\<lambda>members.
     and_then (admit_members x members) (\<lambda>admitted.
     and_then (tips_of admitted) (\<lambda>tips.
     and_then (leaves_of x tips n1) (\<lambda>l1.
     and_then (leaves_of x tips n2) (\<lambda>l2.
     and_then (map_err (\<lambda>e. OtherError (''head: '' @ e)) (head_from_leaves x genesis l1)) (\<lambda>h1.
     and_then (map_err (\<lambda>e. OtherError (''head: '' @ e)) (head_from_leaves x genesis l2)) (\<lambda>h2.
     and_then (collect_results (load_prepared x fs dir meta) [(1, ''s1''), (2, ''s2'')]) (\<lambda>signers.
     if length (remdups signers) \<noteq> 1
     then Inl (RunDirError (prepared_file 2) (P_Other ''the prepared seals name different signers''))
     else Inr \<lparr>rs_meta = meta, rs_server_did = d, rs_did = hd signers, rs_set = genesis, rs_members = members, rs_tips = tips,
               rs_nonces = (n1, n2), rs_leaves = (l1, l2), rs_heads = (h1, h2)\<rparr>)))))))))"
    unfolding run_state_load_def files by (simp only: and_then_simps option.case files)
  show ?thesis
    using fault unfolding rest and_then_Inl map_err_Inl
    using load_members_late [OF ok] admit_members_late tips_of_late leaves_of_late signers late_faults
    by (elim disjE exE conjE) (auto split: if_splits)
qed

section \<open>Witnesses\<close>

text \<open>A run directory whose files hold their own names.\<close>

definition demo_run_files :: files where
  "demo_run_files p = (if take 1 p = [''run''] \<and> length p \<noteq> 1 then Contents (last p) else Missing)"

definition demo_run_json :: "string \<Rightarrow> json" where
  "demo_run_json s =
     (if starts_with ''nonces'' s then JArr (replicate 3 (JStr ''0x00''))
      else JObj ([(''epoch_id'', JU64 5), (''s1'', JStr ''0x00''), (''s2'', JStr ''0x00''),
         (''server_did'', JStr ''did:svc''), (''epochs'', JArr []),
         (''revisions'', JObj [(''o'', JObj [(''payloads'', demo_payloads (if s = ''s1-evm.json'' then ''sepolia'' else ''tsa''))]), (''s'', JObj [])])]
         @ map (\<lambda>k. (k, JNull)) [''s1_evm'', ''s1_qtsa'', ''s2_qtsa'', ''epoch_evm'', ''epoch_qtsa'']))"

definition demo_seal :: "(string \<Rightarrow> did) \<Rightarrow> seal_api" where
  "demo_seal signer = \<lparr>hex_encode = (\<lambda>_. ''00''), hex_decode = (\<lambda>_. Inr (replicate 32 0)), sha3_256 = (\<lambda>b. replicate 32 0),
     from_str = (\<lambda>s. Inr (demo_run_json s)), url_parse = Inr, url_join = (\<lambda>b p. Inr (b @ p)),
     any_revision_from = any_revision_from demo_flow_api, is_timestamp_object = (\<lambda>r. True), link_text = (\<lambda>l. if l = [1] then ''o'' else ''s''),
     verify_signature_sync = (\<lambda>r h. True), status_text = show_nat, json_text = (\<lambda>_. []), debug_text = (\<lambda>s. s),
     sdk_tree_from = (\<lambda>_. Inr ()), create_genesis_revision = (\<lambda>n c. Inl ''unused''), link_bytes = (\<lambda>s. Inl ''unused''),
     verify_tree_sync = (\<lambda>h t f. Inl ''unused''), evm_chain_id_for_network = (\<lambda>_. None),
     sign_prehash = (\<lambda>k h. Inl ''unused''), sign_raw = (\<lambda>m k s. []), verifying_key = (\<lambda>m k. []),
     tree_from_str = (\<lambda>s. Inr \<lparr>tr_revisions = [([1], OtherRevision [])], tr_file_index = []\<rparr>), previous_of = (\<lambda>_. None),
     prepared_from_str = Inr, prepared_signer = (\<lambda>p. Inr (signer p)), submit_digest = (\<lambda>_. Inr (replicate 32 0)),
     attestations_parse = (\<lambda>_. Inr ()), receipt_parse = (\<lambda>_. Inr ()), member_verify = (\<lambda>n t b. Inr [[1], [2]]),
     shielded_leaf = (\<lambda>t n. Inr n), head_from_leaves = (\<lambda>s ls. Inr ''head''),
     global_calculate_hash = (\<lambda>r. Inr (case r of Typed _ \<Rightarrow> [1] | _ \<Rightarrow> [2]))\<rparr>"

theorem complete_run_loads_witness:
  "verify_complete (demo_seal (\<lambda>p. p)) demo_run_files [''run''] = Inr ()
   \<and> (case run_state_load (demo_seal (\<lambda>p. p)) demo_run_files [''run''] of Inl e \<Rightarrow> late_fault e \<and> e \<noteq> OtherError [] | Inr _ \<Rightarrow> False)"
proof -
  have ok: "verify_complete (demo_seal (\<lambda>p. p)) demo_run_files [''run''] = Inr ()"
    by code_simp
  have "run_state_load (demo_seal (\<lambda>p. p)) demo_run_files [''run'']
      = Inl (RunDirError (prepared_file 2) (P_Other ''the prepared seals name different signers''))"
    by code_simp
  then show ?thesis using ok complete_run_loads [OF ok] by simp
qed

definition demo_log :: step_log where
  "demo_log = step_log_new 1 ''pull'' [] ''now''"

theorem served_witness_never_silent_witness:
  "case served_witness (demo_seal (\<lambda>_. [])) demo_log ''s1_evm'' Evm ''s1-qtsa.json'' of
     (Inr None, log) \<Rightarrow> \<not> log_passed log | _ \<Rightarrow> False"
proof -
  obtain r log where run: "served_witness (demo_seal (\<lambda>_. [])) demo_log ''s1_evm'' Evm ''s1-qtsa.json'' = (r, log)"
    by fastforce
  have "fst (served_witness (demo_seal (\<lambda>_. [])) demo_log ''s1_evm'' Evm ''s1-qtsa.json'') = Inr None"
    by code_simp
  then have "r = Inr None" using run by simp
  then show ?thesis using served_witness_never_silent [OF run [unfolded \<open>r = Inr None\<close>]] run by simp
qed

definition demo_paths :: path_api where
  "demo_paths = \<lparr>absolute = Inr, canonicalize = Real, link_present = (\<lambda>_. False)\<rparr>"

definition demo_device :: device where
  "demo_device = \<lparr>dv_place = (\<lambda>p. p), dv_fails = (\<lambda>_. False)\<rparr>"

definition demo_lock :: "string list" where
  "demo_lock = [''name = '' @ [CHR 0x22] @ ''aqua-rs-sdk'' @ [CHR 0x22], ''source = '' @ [CHR 0x22] @ ''git+https://x#aaa'' @ [CHR 0x22]]"

lemma resolved_demo: "resolved demo_paths p = Inr p"
  by (cases "length p") (simp_all add: resolved_def demo_paths_def)

text \<open>
  The proviso is needed: \<open>ensure_outside\<close> accepts an output directory above the run directory, and a
  run directory called \<open>debug\<close> then receives the debug forms of the seals.
\<close>

theorem replay_out_above_run_dir:
  "ensure_outside demo_paths [''a''] [''a'', ''debug''] = Inr ()
   \<and> snd (artifact demo_device \<lparr>st_run = [''a'', ''debug''], st_mode = Replay (Some [''a''])\<rparr> ''debug/p2-seal.txt'' b fs)
       [''a'', ''debug'', ''p2-seal.txt''] = Contents b"
  by (simp add: ensure_outside_def resolved_demo path_starts_with_def artifact_def write_dir_def write_file_def demo_device_def join_def)

end
