(* ===== verification/E2e_Tamper.thy ===== *)
theory E2e_Tamper
  imports E2e_Run "HOL-Library.AList"
begin

unbundle bit_operations_syntax

text \<open>
  The reader's inputs of a seal run (\<open>crates/aqua-timestamp-e2e/src/seal/policy.rs\<close>) and the byte flips
  of the tamper step (\<open>tamper.rs\<close>).

  A tree's revisions and a JSON object are association lists; inserting replaces the entry of the key
  or appends one.  The base64 engine, the SDK's anchor revision and the order of its links are the
  record \<open>tamper_api\<close>.
\<close>

section \<open>policy.rs\<close>

record reader_policy =
  rp_tsa_policy_oid :: string
  rp_tsa_issuer :: string
  rp_evm_chain_id :: u64
  rp_evm_contract :: string
  rp_sealer_signature_type :: string

record tsa_acceptance =
  ta_policy_oids :: "string list"
  ta_issuers :: "string list option"

record evm_acceptance =
  ea_chain_ids :: "u64 list"
  ea_contracts :: "string list"
  ea_finality :: evm_finality

record witness_input =
  wi_source :: string
  wi_tsa :: "tsa_acceptance option"
  wi_evm :: "evm_acceptance option"
  wi_reader_local :: bool

record signature_catalogue =
  sc_source :: string
  sc_admitted :: "string list"

definition CATALOGUE_SOURCE :: string where
  "CATALOGUE_SOURCE = ''reader policy openwitness-seal-e2e''"

definition policy_open_witness :: reader_policy where
  "policy_open_witness = \<lparr>rp_tsa_policy_oid = ''0.4.0.2023.1.1'',
     rp_tsa_issuer = ''CN=Sectigo Qualified Time Stamping CA R35,O=Sectigo (Europe) SL,C=ES'',
     rp_evm_chain_id = 11155111, rp_evm_contract = ''0x269Ff9a5CB9BD5319bd95b248d2579Aa1e9D78FE'',
     rp_sealer_signature_type = ''ethereum:eip-191''\<rparr>"

definition policy_tsa :: "reader_policy \<Rightarrow> tsa_acceptance" where
  "policy_tsa p = \<lparr>ta_policy_oids = [rp_tsa_policy_oid p], ta_issuers = Some [rp_tsa_issuer p]\<rparr>"

definition dual :: "reader_policy \<Rightarrow> witness_input" where
  "dual p = \<lparr>wi_source = ''reader policy openwitness-seal-e2e P2 (pinned dual)'', wi_tsa = Some (policy_tsa p),
     wi_evm = Some \<lparr>ea_chain_ids = [rp_evm_chain_id p], ea_contracts = [rp_evm_contract p], ea_finality = Finalized\<rparr>,
     wi_reader_local = True\<rparr>"

definition tsa_only :: "reader_policy \<Rightarrow> witness_input" where
  "tsa_only p = \<lparr>wi_source = ''reader policy openwitness-seal-e2e P3 (qTSA only)'', wi_tsa = Some (policy_tsa p),
     wi_evm = None, wi_reader_local = True\<rparr>"

definition catalogue :: "reader_policy \<Rightarrow> signature_catalogue" where
  "catalogue p = \<lparr>sc_source = CATALOGUE_SOURCE, sc_admitted = [rp_sealer_signature_type p]\<rparr>"

definition describe :: "'z e2e_api_scheme \<Rightarrow> reader_policy \<Rightarrow> string \<Rightarrow> bool \<Rightarrow> string \<Rightarrow> string" where
  "describe x p name with_evm label_pin =
     (let evm = (if with_evm then JObj [(''chain_ids'', JArr [JU64 (rp_evm_chain_id p)]), (''contracts'', JArr [JStr (rp_evm_contract p)]),
                   (''finality'', JStr ''finalized'')] else JNull)
      in json_text x (JObj [(''policy'', JStr name), (''origin'', JStr ''ReaderLocal''),
           (''tsa'', JObj [(''policy_oids'', JArr [JStr (rp_tsa_policy_oid p)]), (''issuers'', JArr [JStr (rp_tsa_issuer p)])]),
           (''evm'', evm),
           (''sealer_catalogue'', JObj [(''kind'', JStr ''Custom''), (''source'', JStr CATALOGUE_SOURCE),
              (''admitted'', JArr [JStr (rp_sealer_signature_type p)])]),
           (''attestation_label_pins'', JArr [JStr label_pin])]))"

section \<open>tamper.rs\<close>

record tamper_api = seal_api +
  revision_to_json :: "any_revision \<Rightarrow> string + json"
  base64_encode :: "bytes \<Rightarrow> string"
  base64_decode :: "string \<Rightarrow> string + bytes"
  is_anchor :: "any_revision \<Rightarrow> bool"
  method_from_json :: "json \<Rightarrow> string + string"
  sort_links :: "revision_link list \<Rightarrow> revision_link list"
  anchor_calculate_link :: "revision_link \<Rightarrow> string \<Rightarrow> revision_link list \<Rightarrow> string + revision_link"
  anchor_populate_leaves :: "revision_link \<Rightarrow> string \<Rightarrow> revision_link list \<Rightarrow> string + any_revision"

text \<open>
  \<open>v[k]\<close> of a \<open>serde_json::Value\<close>, read and assigned.  An assignment into a value that is neither an
  object nor null panics; every assignment below is to a path that was just read.
\<close>

definition json_at :: "json \<Rightarrow> string \<Rightarrow> json" where
  "json_at j k = (case json_get j k of Some v \<Rightarrow> v | None \<Rightarrow> JNull)"

fun json_put :: "json \<Rightarrow> string \<Rightarrow> json \<Rightarrow> json" where
  "json_put (JObj kvs) k v = JObj (AList.update k v kvs)"
| "json_put _ k v = JObj [(k, v)]"

text \<open>The last byte of a token with its lowest bit flipped, and \<open>{:#04x}\<close>.\<close>

definition flip_last :: "bytes \<Rightarrow> bytes" where
  "flip_last der = butlast der @ [last der XOR 1]"

definition hex_04 :: "u8 \<Rightarrow> string" where
  "hex_04 b = ''0x'' @ base16_byte b"

definition flip_tsa_token :: "'z tamper_api_scheme \<Rightarrow> any_revision \<Rightarrow> string + any_revision \<times> string" where
  "flip_tsa_token x t =
     and_then (revision_to_json x t) (\<lambda>v.
     and_then (need ''qTSA T has no transaction_hash'' (json_as_str (json_at (json_at v ''payloads'') ''transaction_hash''))) (\<lambda>b64.
     and_then (map_err (\<lambda>e. ''base64 TimeStampResp: '' @ e) (base64_decode x b64)) (\<lambda>der.
     if der = [] then Inl ''transaction_hash decodes to nothing; flip not applied''
     else if base64_encode x der \<noteq> b64 then Inl ''transaction_hash is not canonical standard base64; flip not applied''
     else let der' = flip_last der;
              note = ''TimeStampResp '' @ show_nat (length der') @ '' bytes, last byte '' @ hex_04 (last der) @ '' -> '' @ hex_04 (last der');
              v' = json_put v ''payloads'' (json_put (json_at v ''payloads'') ''transaction_hash'' (JStr (base64_encode x der')))
          in and_then (any_revision_from x v') (\<lambda>r. Inr (r, note)))))"

record relinked_container =
  rl_container :: aqua_tree
  rl_flipped :: any_revision
  rl_flipped_link :: revision_link
  rl_anchor_link :: revision_link
  rl_links :: "revision_link list"
  rl_note :: string

definition relink_flipped_token :: "'z tamper_api_scheme \<Rightarrow> aqua_tree \<Rightarrow> revision_link \<Rightarrow> revision_link \<Rightarrow> revision_link \<Rightarrow> revision_link
  \<Rightarrow> string + relinked_container" where
  "relink_flipped_token x container anchor head t_tsa t_evm =
     and_then (need (''A '' @ link_text x anchor @ '' is not in the container'') (map_of (tr_revisions container) anchor)) (\<lambda>a_rev.
     if \<not> is_anchor x a_rev then Inl (link_text x anchor @ '' is not an anchor revision'')
     else if previous_of x a_rev \<noteq> Some head
     then Inl (link_text x anchor @ '' does not follow the head '' @ link_text x head @ '': it is not the seal's A'')
     else and_then (revision_to_json x a_rev) (\<lambda>a_json.
          and_then (map_err (\<lambda>e. ''A has no method: '' @ e) (method_from_json x (json_at a_json ''method''))) (\<lambda>method.
          and_then (need (''qTSA T '' @ link_text x t_tsa @ '' is not in the container'') (map_of (tr_revisions container) t_tsa)) (\<lambda>t.
          and_then (flip_tsa_token x t) (\<lambda>(flipped, note).
          and_then (link_of x flipped) (\<lambda>flipped_link.
          let links = sort_links x [t_evm, flipped_link]
          in and_then (anchor_calculate_link x head method links) (\<lambda>anchor_link.
             and_then (anchor_populate_leaves x head method links) (\<lambda>relinked.
             Inr \<lparr>rl_container = container\<lparr>tr_revisions := AList.update anchor_link relinked
                    (AList.update flipped_link flipped (AList.delete anchor (AList.delete t_tsa (tr_revisions container))))\<rparr>,
                  rl_flipped = flipped, rl_flipped_link = flipped_link, rl_anchor_link = anchor_link, rl_links = links, rl_note = note\<rparr>))))))))"

definition p_of :: "json \<Rightarrow> string \<Rightarrow> string + json" where
  "p_of doc p_key = need (''P '' @ p_key @ '' is not in the attestation document'') (json_get (json_at doc ''revisions'') p_key)"

definition remove_p :: "json \<Rightarrow> string \<Rightarrow> string + json" where
  "remove_p doc p_key =
     and_then (p_of doc p_key) (\<lambda>_.
     (case json_at doc ''revisions'' of
        JObj m \<Rightarrow> Inr (json_put doc ''revisions'' (JObj (AList.delete p_key m)))
      | _ \<Rightarrow> Inl ''document has no revisions object''))"

text \<open>\<open>u8::from_str_radix(s, 16)\<close>, which takes a leading plus sign.\<close>

definition hex_value :: "string \<Rightarrow> nat option" where
  "hex_value ds = fold (\<lambda>c acc. case (acc, map_of base16_table c) of (Some n, Some d) \<Rightarrow> Some (16 * n + d) | _ \<Rightarrow> None) ds (Some 0)"

definition u8_from_hex :: "string \<Rightarrow> string + u8" where
  "u8_from_hex s =
     (let ds = (case s of c # d # rest \<Rightarrow> if c = CHR ''+'' then d # rest else s | _ \<Rightarrow> s)
      in if ds = [] then Inl ''cannot parse integer from empty string''
         else case hex_value ds of
           None \<Rightarrow> Inl ''invalid digit found in string''
         | Some n \<Rightarrow> if n < 256 then Inr (word_of_nat n) else Inl ''number too large to fit in target type'')"

definition str_or_all :: "nat \<Rightarrow> string \<Rightarrow> string" where
  "str_or_all n s = (case str_get_to n s of Some t \<Rightarrow> t | None \<Rightarrow> s)"

definition alter_signature :: "json \<Rightarrow> string + json \<times> string" where
  "alter_signature p =
     and_then (need ''P has no signature hex'' (json_as_str (json_at (json_at p ''signature'') ''signature''))) (\<lambda>sig.
     and_then (need ''P's signature is not 0x-prefixed hex'' (Option.bind (strip_prefix ''0x'' sig) (str_get_to 2))) (\<lambda>first.
     and_then (u8_from_hex first) (\<lambda>b.
     let byte = b XOR 1;
         new_sig = ''0x'' @ base16_byte byte @ drop 4 sig;
         note = ''signature '' @ str_or_all 10 sig @ ''.. -> '' @ str_or_all 10 new_sig @ ''..''
     in Inr (json_put p ''signature'' (json_put (json_at p ''signature'') ''signature'' (JStr new_sig)), note))))"

definition alter_p_key_kept :: "json \<Rightarrow> string \<Rightarrow> string + json \<times> string" where
  "alter_p_key_kept doc p_key =
     and_then (p_of doc p_key) (\<lambda>p0.
     and_then (alter_signature p0) (\<lambda>(p, note).
     Inr (json_put doc ''revisions'' (json_put (json_at doc ''revisions'') p_key p), note)))"

record rekeyed_p =
  rk_doc :: json
  rk_key :: revision_link
  rk_note :: string

definition rekey_bad_signature :: "'z tamper_api_scheme \<Rightarrow> json \<Rightarrow> string \<Rightarrow> string + rekeyed_p" where
  "rekey_bad_signature x doc p_key =
     and_then (p_of doc p_key) (\<lambda>p0.
     and_then (alter_signature p0) (\<lambda>(p, note).
     and_then (map_err (\<lambda>e. ''altered P is no revision: '' @ e) (any_revision_from x p)) (\<lambda>revision.
     and_then (link_of x revision) (\<lambda>key.
     and_then (remove_p doc p_key) (\<lambda>out.
     Inr \<lparr>rk_doc = json_put out ''revisions'' (json_put (json_at out ''revisions'') (link_text x key) p), rk_key = key, rk_note = note\<rparr>)))))"

definition only_p :: "json \<Rightarrow> string \<Rightarrow> string + json" where
  "only_p doc p_key = and_then (p_of doc p_key) (\<lambda>p. Inr (json_put doc ''revisions'' (JObj [(p_key, p)])))"

section \<open>What the flips change\<close>

lemma json_get_put [simp]:
  "json_get (json_put (JObj m) k v) k' = (if k' = k then Some v else map_of m k')"
  by (simp add: update_conv')

lemma json_at_put [simp]: "json_at (json_put (JObj m) k v) k' = (if k' = k then v else json_at (JObj m) k')"
  by (simp add: json_at_def update_conv')

lemma json_at_object: "json_get (json_at j k) k' \<noteq> None \<Longrightarrow> \<exists>m m'. j = JObj m \<and> map_of m k = Some (JObj m')"
  by (cases j; cases "json_at j k") (auto simp: json_at_def split: option.splits)

lemma json_as_str_at: "json_as_str (json_at j k) = Some s \<Longrightarrow> json_get j k = Some (JStr s)"
  by (cases "json_get j k") (auto simp: json_at_def elim: json_as_str.elims)

lemma xor_one_less:
  fixes b :: u8
  shows "b XOR 1 \<noteq> b" and "(b XOR 1) XOR 1 = b"
proof -
  have "bit (b XOR 1) 0 \<noteq> bit b 0" by (simp add: bit_simps)
  then show "b XOR 1 \<noteq> b" by metis
  show "(b XOR 1) XOR 1 = b" by (simp add: xor.assoc)
qed

lemma base16_pairs_shift: "base16_pairs i s = Inr bs \<Longrightarrow> base16_pairs j s = Inr bs"
proof (induction i s arbitrary: bs j rule: base16_pairs.induct)
  case (1 i c d s)
  obtain hi lo cs where digits: "map_of base16_table c = Some hi" "map_of base16_table d = Some lo"
    and rest: "base16_pairs (i + 2) s = Inr cs" and bs: "bs = word_of_nat (16 * hi + lo) # cs"
    using "1.prems" by (auto simp del: of_nat_add of_nat_mult split: option.splits sum.splits)
  have "base16_pairs (j + 2) s = Inr cs"
    using "1.IH" [OF digits rest] .
  then show ?case by (simp only: base16_pairs.simps digits bs option.case sum.case)
qed simp_all

text \<open>The first two digits of a hex string are its first byte.\<close>

lemma base16_first_byte:
  assumes "base16_decode h = Inr (b # bs)"
  obtains c d s where "h = c # d # s" "u8_from_hex [c, d] = Inr b" "base16_decode s = Inr bs"
proof -
  have even: "even (length h)" and pairs: "base16_pairs 0 h = Inr (b # bs)"
    using assms by (auto simp: base16_decode_def split: if_splits)
  then obtain c d s where h: "h = c # d # s"
    by (cases h; cases "tl h") auto
  from pairs obtain hi lo where digits: "map_of base16_table c = Some hi" "map_of base16_table d = Some lo"
    and b: "b = word_of_nat (16 * hi + lo)" and rest: "base16_pairs (0 + 2) s = Inr bs"
    unfolding h base16_pairs.simps by (auto simp del: of_nat_add of_nat_mult split: option.splits sum.splits)
  have "c \<noteq> CHR ''+''"
    using digits(1) by (auto simp: base16_table_def)
  moreover have "hi < 16" "lo < 16"
    using base16_table_cases digits by auto
  ultimately have "u8_from_hex [c, d] = Inr b"
    using digits b by (simp add: u8_from_hex_def hex_value_def)
  moreover have "base16_decode s = Inr bs"
    using even h rest base16_pairs_shift [OF rest, of 0] by (simp add: base16_decode_def)
  ultimately show ?thesis using that h by blast
qed

lemma base16_byte_Cons:
  assumes "base16_decode s = Inr bs"
  shows "base16_decode (base16_byte b @ s) = Inr (b # bs)"
proof -
  have even: "even (length s)" and pairs: "base16_pairs 0 s = Inr bs"
    using assms by (auto simp: base16_decode_def split: if_splits)
  have "base16_pairs (0 + 2) s = Inr bs" using pairs by (rule base16_pairs_shift)
  then have "base16_pairs 0 (base16_byte b @ s) = Inr (b # bs)"
    unfolding base16_byte_def append_Cons append_Nil base16_pairs.simps
    by (simp add: map_of_base16_digit base16_byte_digits)
  then show ?thesis
    using even by (simp add: base16_decode_def base16_byte_def)
qed

text \<open>
  The tamper step's altered signature differs from the served one in exactly one bit.  For a P
  whose signature is hex text of at least one byte, \<open>alter_signature\<close> succeeds, the new signature is the
  text of the same bytes with the lowest bit of the first one flipped, and nothing else of P changes.
\<close>

theorem alter_signature_one_bit:
  assumes sig: "json_as_str (json_at (json_at p ''signature'') ''signature'') = Some (''0x'' @ h)"
    and bytes: "base16_decode h = Inr (b # bs)"
  shows "\<exists>p' note h'. alter_signature p = Inr (p', note)
    \<and> json_as_str (json_at (json_at p' ''signature'') ''signature'') = Some (''0x'' @ h') \<and> base16_decode h' = Inr ((b XOR 1) # bs) \<and> b XOR 1 \<noteq> b
    \<and> (\<forall>k. k \<noteq> ''signature'' \<longrightarrow> json_get p' k = json_get p k
         \<and> json_get (json_at p' ''signature'') k = json_get (json_at p ''signature'') k)"
proof -
  obtain c d s where h: "h = c # d # s" "u8_from_hex [c, d] = Inr b" "base16_decode s = Inr bs"
    using base16_first_byte [OF bytes] by metis
  obtain m m' where p: "p = JObj m" "map_of m ''signature'' = Some (JObj m')"
    using json_at_object [of p "''signature''" "''signature''"] json_as_str_at [OF sig] by auto
  then have at: "json_at p ''signature'' = JObj m'" by (simp add: json_at_def)
  have "strip_prefix ''0x'' (''0x'' @ h) = Some h" by (rule strip_prefix_append)
  then have run: "alter_signature p = Inr (json_put p ''signature'' (json_put (JObj m') ''signature''
      (JStr (''0x'' @ base16_byte (b XOR 1) @ s))), snd (projr (alter_signature p)))"
    using sig h by (simp add: alter_signature_def need_def at str_get_to_def Let_def)
  have new: "base16_decode (base16_byte (b XOR 1) @ s) = Inr ((b XOR 1) # bs)"
    using h(3) by (rule base16_byte_Cons)
  show ?thesis
    by (intro exI conjI, rule run) (use new xor_one_less in \<open>simp_all add: p at json_at_def update_conv'\<close>)
qed

text \<open>
  The relinked container holds what the container held, but for T and A, which it holds no more unless
  under a link that was computed anew, and for the flipped T and the new A under their own links; the
  revision replaced as A is an anchor that follows the head.
\<close>

theorem relink_replaces_t_and_a:
  assumes run: "relink_flipped_token x container anchor head t_tsa t_evm = Inr rl"
  shows "\<exists>a t note. map_of (tr_revisions container) anchor = Some a \<and> is_anchor x a \<and> previous_of x a = Some head
      \<and> map_of (tr_revisions container) t_tsa = Some t \<and> flip_tsa_token x t = Inr (rl_flipped rl, note)
      \<and> link_of x (rl_flipped rl) = Inr (rl_flipped_link rl)
      \<and> map_of (tr_revisions (rl_container rl)) (rl_anchor_link rl) \<noteq> None
      \<and> (rl_anchor_link rl \<noteq> rl_flipped_link rl \<longrightarrow> map_of (tr_revisions (rl_container rl)) (rl_flipped_link rl) = Some (rl_flipped rl))
      \<and> (\<forall>k. k \<notin> {rl_flipped_link rl, rl_anchor_link rl} \<longrightarrow>
           map_of (tr_revisions (rl_container rl)) k = (if k \<in> {t_tsa, anchor} then None else map_of (tr_revisions container) k))"
  using run unfolding relink_flipped_token_def and_then_Inr need_def Let_def
  by (elim exE conjE) (auto simp: update_conv' delete_conv' split: option.splits if_splits prod.splits)

lemma p_of_Inr: "p_of doc p_key = Inr p \<longleftrightarrow> (\<exists>m m'. doc = JObj m \<and> map_of m ''revisions'' = Some (JObj m') \<and> map_of m' p_key = Some p)"
proof
  assume "p_of doc p_key = Inr p"
  then have p: "json_get (json_at doc ''revisions'') p_key = Some p"
    by (simp add: p_of_def need_def split: option.splits)
  then obtain m m' where "doc = JObj m" "map_of m ''revisions'' = Some (JObj m')"
    using json_at_object by blast
  with p show "\<exists>m m'. doc = JObj m \<and> map_of m ''revisions'' = Some (JObj m') \<and> map_of m' p_key = Some p"
    by (simp add: json_at_def)
qed (auto simp: p_of_def need_def json_at_def)

text \<open>What a tampered attestation document keeps of the original: every field, and every other P.\<close>

definition keeps_others :: "string set \<Rightarrow> json \<Rightarrow> json \<Rightarrow> bool" where
  "keeps_others keys doc doc' \<longleftrightarrow> (\<forall>k. k \<noteq> ''revisions'' \<longrightarrow> json_get doc' k = json_get doc k)
     \<and> (\<forall>k. k \<notin> keys \<longrightarrow> json_get (json_at doc' ''revisions'') k = json_get (json_at doc ''revisions'') k)"

text \<open>
  C40: The tampered attestation documents are what step 5 says they are.  Removing P leaves a document
  without P; altering P under its key leaves an altered P there; re-keying leaves the altered P under the
  link of the altered revision and nothing under the old key, unless the two are the same; and each of
  them leaves every other attestation and every other field as it was.
\<close>

theorem tampered_documents:
  assumes "p_of doc p_key = Inr p" and "alter_signature p = Inr (p', note)"
    and "any_revision_from x p' = Inr revision" and "link_of x revision = Inr link"
  shows "\<exists>removed altered rekeyed. remove_p doc p_key = Inr removed \<and> alter_p_key_kept doc p_key = Inr (altered, note)
      \<and> rekey_bad_signature x doc p_key = Inr rekeyed
      \<and> keeps_others {p_key} doc removed \<and> p_of removed p_key = Inl (''P '' @ p_key @ '' is not in the attestation document'')
      \<and> keeps_others {p_key} doc altered \<and> p_of altered p_key = Inr p'
      \<and> keeps_others {p_key, link_text x link} doc (rk_doc rekeyed) \<and> rk_key rekeyed = link \<and> p_of (rk_doc rekeyed) (link_text x link) = Inr p'
      \<and> (link_text x link \<noteq> p_key \<longrightarrow> \<not> (\<exists>q. p_of (rk_doc rekeyed) p_key = Inr q))"
proof -
  obtain m m' where doc: "doc = JObj m" "map_of m ''revisions'' = Some (JObj m')" "map_of m' p_key = Some p"
    using assms(1) by (auto simp: p_of_Inr)
  have at: "json_at (JObj m) ''revisions'' = JObj m'" using doc(2) by (simp add: json_at_def)
  have removed: "remove_p doc p_key = Inr (json_put (JObj m) ''revisions'' (JObj (AList.delete p_key m')))"
    using assms(1) doc by (simp add: remove_p_def at)
  have altered: "alter_p_key_kept doc p_key = Inr (json_put (JObj m) ''revisions'' (json_put (JObj m') p_key p'), note)"
    using assms(1,2) doc by (simp add: alter_p_key_kept_def at)
  have rekeyed: "rekey_bad_signature x doc p_key = Inr \<lparr>rk_doc = json_put (json_put (JObj m) ''revisions'' (JObj (AList.delete p_key m')))
      ''revisions'' (json_put (JObj (AList.delete p_key m')) (link_text x link) p'), rk_key = link, rk_note = note\<rparr>"
    using assms removed by (simp add: rekey_bad_signature_def json_at_def update_conv')
  show ?thesis
    by (intro exI conjI, rule removed, rule altered, rule rekeyed)
      (auto simp: keeps_others_def p_of_def need_def doc at json_at_def update_conv' delete_conv')
qed

section \<open>Witnesses\<close>

definition demo_tamper :: tamper_api where
  "demo_tamper = seal_api.extend (demo_seal (\<lambda>_. ''did:me''))
     (tamper_api.fields (\<lambda>_. Inr (JObj [(''payloads'', JObj [(''transaction_hash'', JStr ''ab01'')]), (''method'', JStr ''tree'')]))
        base16_encode (\<lambda>s. map_err (\<lambda>_. ''bad'') (base16_decode s)) (\<lambda>_. True) (\<lambda>_. Inr ''tree'') (\<lambda>ls. ls)
        (\<lambda>h m ls. Inr [9]) (\<lambda>h m ls. Inr (OtherRevision ''anchor'')))"

definition demo_p :: json where
  "demo_p = JObj [(''revision_type'', JStr ''signature''), (''signature'', JObj [(''signature'', JStr ''0xAb01'')])]"

definition demo_doc :: json where
  "demo_doc = JObj [(''version'', JStr ''1''), (''revisions'', JObj [(''p'', demo_p), (''q'', JNull)])]"

lemma demo_alter: "\<exists>p' n. alter_signature demo_p = Inr (p', n)"
proof -
  have "case alter_signature demo_p of Inr (p', n) \<Rightarrow> True | _ \<Rightarrow> False" by code_simp
  then show ?thesis by (auto split: sum.splits)
qed

theorem alter_signature_one_bit_witness:
  "\<exists>p' note h'. alter_signature demo_p = Inr (p', note)
     \<and> json_as_str (json_at (json_at p' ''signature'') ''signature'') = Some (''0x'' @ h') \<and> base16_decode h' = Inr [0xAA, 0x01]"
proof -
  have "json_as_str (json_at (json_at demo_p ''signature'') ''signature'') = Some (''0x'' @ ''Ab01'')"
    by (simp add: demo_p_def json_at_def)
  moreover have "base16_decode ''Ab01'' = Inr [0xAB, 0x01]" by code_simp
  moreover have "(0xAB :: u8) XOR 1 = 0xAA" by code_simp
  ultimately show ?thesis
    using alter_signature_one_bit [of demo_p "''Ab01''" "0xAB" "[0x01]"] by auto
qed

theorem tampered_documents_witness:
  "\<exists>removed. remove_p demo_doc ''p'' = Inr removed \<and> keeps_others {''p''} demo_doc removed
     \<and> json_get (json_at removed ''revisions'') ''q'' = Some JNull"
proof -
  obtain p' n where alter: "alter_signature demo_p = Inr (p', n)"
    using demo_alter by blast
  have p: "p_of demo_doc ''p'' = Inr demo_p" by (simp add: p_of_def need_def json_at_def demo_doc_def)
  obtain r where rev': "any_revision_from demo_tamper p' = Inr r" "\<exists>l. link_of demo_tamper r = Inr l"
    by (cases "json_get p' ''payloads''")
      (auto simp: demo_tamper_def demo_seal_def seal_api.defs demo_flow_api_def link_of_def)
  then obtain l where l: "link_of demo_tamper r = Inr l" by blast
  show ?thesis
    using tampered_documents [OF p alter rev'(1) l] by (auto simp: keeps_others_def json_at_def demo_doc_def)
qed

end
