(* ===== verification/E2e_Step.thy ===== *)
theory E2e_Step
  imports E2e_Tamper
begin

text \<open>
  The frame of the seven seal steps (\<open>crates/aqua-timestamp-e2e/src/seal/steps.rs\<close>): the seal types of the
  SDK with the constructors and accessors the steps use, the state a step works on, and the actions a step
  is made of.

  A step is a function of its world: the log of the step, the file system, the number of host reads so far
  and the clock.  It answers \<open>Inl\<close> the error that \<open>?\<close> returns, or \<open>Inr\<close> a value, and the world after.  A
  function of the SDK that asks a host takes the number of the read, so two reads may answer differently.
  Log lines that are no assertion are left out, and of an assertion's text the fixed part is kept; its
  falsifier, which the verdict names, is kept in full.

  The locale \<open>step_relation\<close> carries a relation between the worlds before and after through every action a
  step can make, and so through the steps.
\<close>

section \<open>Seal types of the SDK\<close>

datatype seal_status = SealVerified | SealNotChecked | SealOther string

datatype witness_admission = Admitted | NotAdmitted string | AdmissionFailed string | AdmissionOther string

record witness_reading =
  wr_witness :: revision_link
  wr_descriptor :: string
  wr_admission :: witness_admission
  wr_timestamp :: u64
  wr_provenance :: "string option"

datatype seal_time = TimeAccepted "revision_link list" | TimeOther string

record verified_seal =
  vs_status :: seal_status
  vs_signed_head :: string
  vs_genesis :: revision_link
  vs_head_link :: revision_link
  vs_signature :: revision_link
  vs_signer :: did
  vs_witnesses :: "revision_link list"
  vs_anchor :: revision_link
  vs_sdk_outcome :: string
  vs_sdk_errors :: string
  vs_acceptance :: "witness_reading list"
  vs_acceptance_findings :: "string list list"
  vs_sealer_signature :: string
  vs_sealer_admitted :: bool
  vs_time :: seal_time
  vs_identity_verified :: bool

record rejected_seal =
  rj_id :: "revision_link option"
  rj_text :: string

datatype seal_reading = Seal verified_seal | Rejected rejected_seal | UnknownReading

datatype headline = HeadlineVerified | HeadlinePartiallyVerified | HeadlineOther string

datatype dimension = DimPass | DimFail | DimNotChecked | DimOther string

record finding =
  fi_code :: string
  fi_args :: "string list"

record full_set_verdict =
  fv_headline :: headline
  fv_completeness :: dimension
  fv_integrity :: dimension
  fv_non_suppression :: dimension
  fv_findings :: "finding list"

record full_set_package =
  pk_root :: "revision_link option"
  pk_seals :: "verified_seal list"
  pk_rejected :: "rejected_seal list"
  pk_members :: "revision_link list list"
  pk_receipts :: "string list"

datatype attestation_basis = Unpinned | Pinned

datatype attestation_verdict = AttVerified did string attestation_basis | AttUnverifiable string

record attestation_reading =
  ar_attestation :: revision_link
  ar_verdict :: attestation_verdict

record witness_attestations =
  wa_witness :: revision_link
  wa_attestations :: "attestation_reading list"

record seal_attestations_reading =
  sa_witnesses :: "witness_attestations list"
  sa_unmatched :: "string list"
  sa_findings :: "string list"
  sa_rejected :: "string option"

datatype witness_refusal = EvmAnchorNotFinal string | EvmAnchorNotVerified string | NoWitness | OtherRefusal string

datatype seal_error = SealNoWitness | SealRefused witness_refusal | SealErrorOther string

datatype anchor_kind = AnchorEvm | AnchorTsa

record accepted_witness =
  ak_kind :: anchor_kind
  ak_attester :: "did option"
  ak_timestamp :: revision_link

record accepted_witnesses =
  ac_anchor :: revision_link
  ac_witnesses :: "accepted_witness list"

datatype witness_requirement = OpenWitness | WithoutEvm | OtherRequirement string

record seal_output =
  so_container :: aqua_tree
  so_attestations :: string

type_synonym seal_witness = "any_revision \<times> any_revision"

text \<open>The parts of a seal reading that \<open>stable\<close> prints.\<close>

record stable_form =
  sf_status :: seal_status
  sf_signed_head :: string
  sf_links :: "revision_link list"
  sf_signer :: did
  sf_witnesses :: "revision_link list"
  sf_sdk_outcome :: string
  sf_acceptance :: "witness_reading list"
  sf_sealer_signature :: string
  sf_time :: seal_time
  sf_sdk_errors :: string
  sf_identity_verified :: bool

record step_api = tamper_api +
  verify_seal_container :: "nat \<Rightarrow> aqua_tree \<Rightarrow> witness_input \<Rightarrow> signature_catalogue \<Rightarrow> string + seal_reading"
  evaluate_seal_witnesses :: "nat \<Rightarrow> string \<Rightarrow> string \<Rightarrow> did \<Rightarrow> seal_witness list \<Rightarrow> witness_requirement \<Rightarrow> string + witness_refusal + accepted_witnesses"
  complete_seal :: "nat \<Rightarrow> string \<Rightarrow> string \<Rightarrow> did \<Rightarrow> seal_witness list \<Rightarrow> witness_requirement \<Rightarrow> string + seal_error + seal_output"
  build_seal_container :: "nat \<Rightarrow> string \<Rightarrow> bytes \<Rightarrow> witness_requirement \<Rightarrow> seal_error + seal_output"
  finish_seal :: "string \<Rightarrow> accepted_witnesses \<Rightarrow> string + seal_output"
  into_seal :: "seal_reading \<Rightarrow> rejected_seal + verified_seal"
  reading_status :: "seal_reading \<Rightarrow> seal_status"
  full_set_check :: "full_set_package \<Rightarrow> full_set_verdict"
  read_seal_attestations :: "verified_seal \<Rightarrow> string \<Rightarrow> did list \<Rightarrow> seal_attestations_reading"
  handover_passes :: "verified_seal \<Rightarrow> did \<Rightarrow> bool"
  receipt_issue :: "revision_link \<Rightarrow> string \<Rightarrow> hash32 list \<Rightarrow> nat \<Rightarrow> revision_link \<Rightarrow> hash32 \<Rightarrow> string + string"
  receipt_json :: "string \<Rightarrow> string"
  prepared_head :: "string \<Rightarrow> string + string"
  requirement_without_kinds :: "seal_error + witness_requirement"
  requirement_from_str :: "string \<Rightarrow> string + witness_requirement"
  tree_to_string :: "aqua_tree \<Rightarrow> string + string"
  attestations_json :: "string \<Rightarrow> string + string"
  link_parse :: "string \<Rightarrow> string + revision_link"
  parse_batch_digest :: "string \<Rightarrow> string + hash32"
  parse_batch_root :: "string \<Rightarrow> string + hash32"
  os_random :: "nat \<Rightarrow> nat \<Rightarrow> bytes"
  seal_debug :: "verified_seal \<Rightarrow> string"
  refusal_debug :: "witness_refusal \<Rightarrow> string"
  stable_text :: "stable_form \<Rightarrow> string"
  witness_debug :: "witness_attestations \<Rightarrow> string"
  reading_debug :: "seal_attestations_reading \<Rightarrow> string"
  elsewhere_debug :: "string list \<Rightarrow> string list \<Rightarrow> string"
  call_millis :: "nat \<Rightarrow> nat"
  sleep_delay :: "nat \<Rightarrow> nat"
  utc :: "nat \<Rightarrow> string"
  list_dir :: "files \<Rightarrow> path \<Rightarrow> string + string list"

section \<open>The world of a step\<close>

record step_world =
  sw_log :: step_log
  sw_fs :: files
  sw_moment :: nat
  sw_now :: nat

record seal_ctx =
  cx_store :: run_store
  cx_device :: device
  cx_policy :: reader_policy
  cx_state :: run_state
  cx_header :: "string list"
  cx_expect_server_did :: "did option"
  cx_finality_budget :: nat

type_synonym 'a step = "step_world \<Rightarrow> (string + 'a) \<times> step_world"

definition passing :: "step_world \<Rightarrow> bool" where
  "passing w \<longleftrightarrow> log_passed (sw_log w)"

section \<open>Actions\<close>

definition step_return :: "'a \<Rightarrow> 'a step" where
  "step_return a w = (Inr a, w)"

text \<open>The \<open>?\<close> operator, on a result and on an action.\<close>

definition step_lift :: "string + 'a \<Rightarrow> 'a step" where
  "step_lift r w = (r, w)"

definition step_bind :: "'a step \<Rightarrow> ('a \<Rightarrow> 'b step) \<Rightarrow> 'b step" where
  "step_bind m f w = (case m w of (Inl e, w') \<Rightarrow> (Inl e, w') | (Inr a, w') \<Rightarrow> f a w')"

text \<open>An action whose result is matched on instead of propagated.\<close>

definition step_try :: "'a step \<Rightarrow> (string + 'a) step" where
  "step_try m w = (case m w of (r, w') \<Rightarrow> (Inr r, w'))"

fun step_all :: "unit step list \<Rightarrow> unit step" where
  "step_all [] = step_return ()"
| "step_all (m # ms) = step_bind m (\<lambda>_. step_all ms)"

fun step_map :: "('a \<Rightarrow> 'b step) \<Rightarrow> 'a list \<Rightarrow> 'b list step" where
  "step_map f [] = step_return []"
| "step_map f (a # as) = step_bind (f a) (\<lambda>b. step_bind (step_map f as) (\<lambda>bs. step_return (b # bs)))"

definition step_check :: "bool \<Rightarrow> string \<Rightarrow> string \<Rightarrow> bool step" where
  "step_check ok what falsifier w = (Inr ok, w\<lparr>sw_log := snd (log_check ok what falsifier (sw_log w))\<rparr>)"

definition step_assert :: "bool \<Rightarrow> string \<Rightarrow> string \<Rightarrow> unit step" where
  "step_assert ok what falsifier = step_bind (step_check ok what falsifier) (\<lambda>_. step_return ())"

text \<open>A call of the SDK that reads a host.\<close>

definition step_ask :: "(nat \<Rightarrow> string + 'a) \<Rightarrow> 'a step" where
  "step_ask f w = (f (sw_moment w), w\<lparr>sw_moment := Suc (sw_moment w)\<rparr>)"

definition store_read :: "seal_ctx \<Rightarrow> string \<Rightarrow> string step" where
  "store_read c file w =
     ((case read_path (cx_device c) (sw_fs w) (join (st_run (cx_store c)) file) of
         Contents t \<Rightarrow> Inr t | _ \<Rightarrow> Inl (''read '' @ file)), w)"

definition store_list :: "'z step_api_scheme \<Rightarrow> seal_ctx \<Rightarrow> string \<Rightarrow> string list step" where
  "store_list x c sub w =
     (let p = join (st_run (cx_store c)) sub
      in (if read_path (cx_device c) (sw_fs w) p = entry_state.Missing then Inr []
          else and_then (list_dir x (sw_fs w) p) (\<lambda>names. Inr (sort names)), w))"

definition store_artifact :: "seal_ctx \<Rightarrow> string \<Rightarrow> string \<Rightarrow> unit step" where
  "store_artifact c file b w =
     (case artifact (cx_device c) (cx_store c) file b (sw_fs w) of (r, fs) \<Rightarrow> (r, w\<lparr>sw_fs := fs\<rparr>))"

definition store_derived :: "seal_ctx \<Rightarrow> string \<Rightarrow> string \<Rightarrow> string \<Rightarrow> unit step" where
  "store_derived c file b falsifier w =
     (case derived (cx_device c) (cx_store c) file b falsifier (sw_log w) (sw_fs w) of
        (r, log, fs) \<Rightarrow> (r, w\<lparr>sw_log := log, sw_fs := fs\<rparr>))"

definition store_ensure_dir :: "seal_ctx \<Rightarrow> string \<Rightarrow> unit step" where
  "store_ensure_dir c sub w =
     (case ensure_dir (cx_device c) (cx_store c) sub (sw_fs w) of (r, fs) \<Rightarrow> (r, w\<lparr>sw_fs := fs\<rparr>))"

section \<open>Relations that every step keeps\<close>

definition wrote :: "device \<Rightarrow> run_store \<Rightarrow> files \<Rightarrow> files \<Rightarrow> bool" where
  "wrote d s fs fs' \<longleftrightarrow> fs' = fs \<or> (\<exists>dir file e. write_dir s = Some dir \<and> fs' = fs(dv_place d (join dir file) := e))"

lemma artifact_wrote: "artifact d s file b fs = (r, fs') \<Longrightarrow> wrote d s fs fs'"
  by (auto simp: artifact_def write_file_def wrote_def split: option.splits if_splits)

lemma ensure_dir_wrote: "ensure_dir d s sub fs = (r, fs') \<Longrightarrow> wrote d s fs fs'"
  by (auto simp: ensure_dir_def wrote_def Let_def split: option.splits if_splits entry_state.splits)

lemma derived_split:
  "derived d s file b fals log fs = (r, log', fs') \<Longrightarrow>
     artifact d s file b fs = (r, fs') \<and> (log' = log \<or> (\<exists>ok what. log' = snd (log_check ok what fals log)))"
  by (auto simp: derived_def Let_def split: prod.splits store_mode.splits entry_state.splits)

locale step_relation =
  fixes R :: "step_world \<Rightarrow> step_world \<Rightarrow> bool" and c :: seal_ctx
  assumes refl: "R w w"
    and trans: "R u v \<Longrightarrow> R v w \<Longrightarrow> R u w"
    and logs: "R w (w\<lparr>sw_log := snd (log_check ok what falsifier (sw_log w))\<rparr>)"
    and writes: "wrote (cx_device c) (cx_store c) (sw_fs w) fs \<Longrightarrow> R w (w\<lparr>sw_fs := fs\<rparr>)"
    and ticks: "R w (w\<lparr>sw_moment := n, sw_now := t\<rparr>)"
begin

definition keeps :: "'a step \<Rightarrow> bool" where
  "keeps m \<longleftrightarrow> (\<forall>w. R w (snd (m w)))"

lemma keeps_return [simp]: "keeps (step_return a)"
  by (simp add: keeps_def step_return_def refl)

lemma keeps_lift [simp]: "keeps (step_lift r)"
  by (simp add: keeps_def step_lift_def refl)

lemma keeps_bind:
  assumes "keeps m" "\<And>a. keeps (f a)"
  shows "keeps (step_bind m f)"
  unfolding keeps_def
proof
  fix w
  obtain r w' where m: "m w = (r, w')" by fastforce
  then have "R w w'" using assms(1) by (metis keeps_def snd_conv)
  then show "R w (snd (step_bind m f w))"
    using m assms(2) by (cases r) (auto simp: step_bind_def keeps_def intro: trans)
qed

lemma keeps_try: "keeps m \<Longrightarrow> keeps (step_try m)"
  by (auto simp: keeps_def step_try_def split: prod.splits) (metis snd_conv)

lemma keeps_all: "(\<And>m. m \<in> set ms \<Longrightarrow> keeps m) \<Longrightarrow> keeps (step_all ms)"
  by (induction ms) (auto intro: keeps_bind)

lemma keeps_map: "(\<And>a. a \<in> set as \<Longrightarrow> keeps (f a)) \<Longrightarrow> keeps (step_map f as)"
  by (induction as) (auto intro!: keeps_bind)

lemma keeps_check [simp]: "keeps (step_check ok what falsifier)"
  by (simp add: keeps_def step_check_def logs)

lemma keeps_assert [simp]: "keeps (step_assert ok what falsifier)"
  unfolding step_assert_def by (rule keeps_bind) simp_all

lemma keeps_ask [simp]: "keeps (step_ask f)"
proof -
  have "R w (w\<lparr>sw_moment := Suc (sw_moment w)\<rparr>)" for w
    using ticks [of w, where n = "Suc (sw_moment w)" and t = "sw_now w"] by simp
  then show ?thesis by (simp add: keeps_def step_ask_def)
qed

lemma keeps_read [simp]: "keeps (store_read c file)" "keeps (store_list x c sub)"
  by (simp_all add: keeps_def store_read_def store_list_def Let_def refl)

lemma keeps_artifact [simp]: "keeps (store_artifact c file b)"
  by (auto simp: keeps_def store_artifact_def intro: writes artifact_wrote split: prod.splits)

lemma keeps_ensure_dir [simp]: "keeps (store_ensure_dir c sub)"
  by (auto simp: keeps_def store_ensure_dir_def intro: writes ensure_dir_wrote split: prod.splits)

lemma keeps_derived [simp]: "keeps (store_derived c file b falsifier)"
  unfolding keeps_def
proof
  fix w :: step_world
  obtain r log fs where d: "derived (cx_device c) (cx_store c) file b falsifier (sw_log w) (sw_fs w) = (r, log, fs)"
    by (metis prod_cases3)
  then have "R w (w\<lparr>sw_log := log\<rparr>)"
    using derived_split [OF d] logs refl by auto
  moreover have "R (w\<lparr>sw_log := log\<rparr>) (w\<lparr>sw_log := log, sw_fs := fs\<rparr>)"
    using writes [of "w\<lparr>sw_log := log\<rparr>" fs] derived_split [OF d] artifact_wrote by auto
  ultimately show "R w (snd (store_derived c file b falsifier w))"
    using d by (auto simp: store_derived_def intro: trans)
qed

lemmas keeps_rules = keeps_bind keeps_try keeps_all keeps_map

end

end
