(* ===== verification/E2e_Steps.thy ===== *)
theory E2e_Steps
  imports E2e_Step
begin

text \<open>
  Steps 1 to 7 of a seal run (\<open>crates/aqua-timestamp-e2e/src/seal/steps.rs\<close>), each with every assertion it
  makes, every file it reads and writes and every error it can stop with, and \<open>run\<close>, which runs them in
  order and writes each step's log.
\<close>

section \<open>Helpers\<close>

definition OWN_LEAVES :: u64 where
  "OWN_LEAVES = 2"

fun run_error_text :: "run_error \<Rightarrow> string" where
  "run_error_text (OtherError e) = e"
| "run_error_text (RunDirError file _) = file"

definition load_pair :: "'z step_api_scheme \<Rightarrow> seal_ctx \<Rightarrow> string \<Rightarrow> anchor_method \<Rightarrow> served_pair step" where
  "load_pair x c file method =
     step_bind (store_read c file) (\<lambda>body.
     step_lift (and_then (map_err (\<lambda>_. file @ '': no witness'') (parse_witness x method body)) (pair_of x)))"

definition fetch_status :: "'z step_api_scheme \<Rightarrow> seal_ctx \<Rightarrow> string \<Rightarrow> json step" where
  "fetch_status x c key =
     step_bind (step_try (store_read c FETCH_STATUS)) (\<lambda>r.
     step_return (case and_then r (from_str x) of Inr v \<Rightarrow> json_at v key | Inl _ \<Rightarrow> JNull))"

definition load_prepared_seal :: "'z step_api_scheme \<Rightarrow> seal_ctx \<Rightarrow> nat \<Rightarrow> string step" where
  "load_prepared_seal x c seal = step_bind (store_read c (prepared_file seal)) (\<lambda>t. step_lift (prepared_from_str x t))"

definition load_container :: "'z step_api_scheme \<Rightarrow> seal_ctx \<Rightarrow> aqua_tree step" where
  "load_container x c = step_bind (store_read c CONTAINER_1) (\<lambda>t. step_lift (tree_from_str x t))"

definition receipts_for :: "'z step_api_scheme \<Rightarrow> revision_link \<Rightarrow> string \<Rightarrow> hash32 list \<Rightarrow> revision_link list \<Rightarrow> hash32 list
  \<Rightarrow> string + string list" where
  "receipts_for x anchor head leaves tips nonces =
     collect_results (\<lambda>(i, t, n). map_err (\<lambda>e. ''receipt '' @ show_nat i @ '': '' @ e) (receipt_issue x anchor head leaves i t n))
       (enumerate 0 (zip tips nonces))"

definition verify :: "'z step_api_scheme \<Rightarrow> seal_ctx \<Rightarrow> aqua_tree \<Rightarrow> witness_input \<Rightarrow> seal_reading step" where
  "verify x c container input = step_ask (\<lambda>n. verify_seal_container x n container input (catalogue (cx_policy c)))"

definition members :: "'z step_api_scheme \<Rightarrow> seal_ctx \<Rightarrow> revision_link list list step" where
  "members x c = step_lift (map_err run_error_text (admit_members x (rs_members (cx_state c))))"

text \<open>\<open>str::rfind\<close> and \<open>without_chain_head\<close>.\<close>

fun str_rfind :: "string \<Rightarrow> string \<Rightarrow> nat option" where
  "str_rfind pat [] = (if pat = [] then Some 0 else None)"
| "str_rfind pat (c # s) = (case str_rfind pat s of Some i \<Rightarrow> Some (Suc i) | None \<Rightarrow> if starts_with pat (c # s) then Some 0 else None)"

definition is_ascii_digit :: "char \<Rightarrow> bool" where
  "is_ascii_digit ch \<longleftrightarrow> ch \<in> set ''0123456789''"

definition without_chain_head :: "string \<Rightarrow> string" where
  "without_chain_head provenance =
     (case str_rfind '' confirmations '' provenance of
        Some i \<Rightarrow> if list_all is_ascii_digit (drop (i + length '' confirmations '') provenance) then take i provenance else provenance
      | None \<Rightarrow> provenance)"

definition stable :: "'z step_api_scheme \<Rightarrow> verified_seal \<Rightarrow> string" where
  "stable x v =
     stable_text x \<lparr>sf_status = vs_status v, sf_signed_head = vs_signed_head v,
       sf_links = [vs_genesis v, vs_head_link v, vs_signature v, vs_anchor v], sf_signer = vs_signer v,
       sf_witnesses = vs_witnesses v, sf_sdk_outcome = vs_sdk_outcome v,
       sf_acceptance = map (\<lambda>w. w\<lparr>wr_provenance := map_option without_chain_head (wr_provenance w)\<rparr>) (vs_acceptance v),
       sf_sealer_signature = vs_sealer_signature v, sf_time = vs_time v, sf_sdk_errors = vs_sdk_errors v,
       sf_identity_verified = vs_identity_verified v\<rparr>"

text \<open>What \<open>log_seal\<close> writes; that it could not be written is a log line.\<close>

definition log_seal :: "'z step_api_scheme \<Rightarrow> seal_ctx \<Rightarrow> string \<Rightarrow> verified_seal \<Rightarrow> unit step" where
  "log_seal x c label v =
     step_bind (step_try (store_artifact c (''debug/'' @ label @ ''-seal.txt'') (seal_debug x v @ [CHR 0x0A]))) (\<lambda>_. step_return ())"

definition package_of :: "'z step_api_scheme \<Rightarrow> seal_reading \<Rightarrow> revision_link list list \<Rightarrow> string list \<Rightarrow> full_set_package" where
  "package_of x reading ms receipts =
     (case into_seal x reading of
        Inr seal \<Rightarrow> \<lparr>pk_root = Some (vs_anchor seal), pk_seals = [seal], pk_rejected = [], pk_members = ms, pk_receipts = receipts\<rparr>
      | Inl rej \<Rightarrow> \<lparr>pk_root = rj_id rej, pk_seals = [], pk_rejected = [rej], pk_members = ms, pk_receipts = receipts\<rparr>)"

definition reading_of :: "seal_attestations_reading \<Rightarrow> revision_link \<Rightarrow> attestation_verdict list option" where
  "reading_of r t = map_option (\<lambda>w. map ar_verdict (wa_attestations w)) (find (\<lambda>w. wa_witness w = t) (sa_witnesses r))"

definition admission_of :: "verified_seal \<Rightarrow> revision_link \<Rightarrow> witness_admission option" where
  "admission_of v t = map_option wr_admission (find (\<lambda>w. wr_witness w = t) (vs_acceptance v))"

section \<open>The evaluator and its retries\<close>

record evaluation =
  ev_prepared :: string
  ev_head :: string
  ev_did :: did
  ev_witnesses :: "seal_witness list"
  ev_requirement :: witness_requirement
  ev_budget :: nat

definition RETRY_PAUSE :: nat where
  "RETRY_PAUSE = 60000"

fun retryable :: "witness_refusal \<Rightarrow> bool" where
  "retryable (EvmAnchorNotFinal _) = True"
| "retryable (EvmAnchorNotVerified v) = (v = ''not_evaluable: host_unavailable'')"
| "retryable _ = False"

definition evaluate_once :: "'z step_api_scheme \<Rightarrow> evaluation \<Rightarrow> (witness_refusal + accepted_witnesses) step" where
  "evaluate_once x e w =
     (let n = sw_moment w
      in (evaluate_seal_witnesses x n (ev_prepared e) (ev_head e) (ev_did e) (ev_witnesses e) (ev_requirement e),
          w\<lparr>sw_moment := Suc n, sw_now := sw_now w + call_millis x n\<rparr>))"

text \<open>The loop; a sleep takes at least the pause, and the pause is at least a millisecond.\<close>

definition sleep_until :: "'z step_api_scheme \<Rightarrow> nat \<Rightarrow> step_world \<Rightarrow> step_world" where
  "sleep_until x deadline w =
     w\<lparr>sw_now := sw_now w + min RETRY_PAUSE (deadline - sw_now w) + sleep_delay x (sw_moment w)\<rparr>"

function evaluate_loop :: "'z step_api_scheme \<Rightarrow> evaluation \<Rightarrow> nat \<Rightarrow> (witness_refusal + accepted_witnesses) step" where
  "evaluate_loop x e deadline w =
     (case evaluate_once x e w of
        (Inr (Inl refusal), w') \<Rightarrow>
          if retryable refusal \<and> sw_now w' < deadline
          then evaluate_loop x e deadline (sleep_until x deadline w')
          else (Inr (Inl refusal), w')
      | (r, w') \<Rightarrow> (r, w'))"
  by pat_completeness auto
termination
  by (relation "measure (\<lambda>(x, e, deadline, w). deadline - sw_now w)")
    (auto simp: evaluate_once_def sleep_until_def RETRY_PAUSE_def Let_def)

declare evaluate_loop.simps [simp del]

definition evaluate_with_retry :: "'z step_api_scheme \<Rightarrow> evaluation \<Rightarrow> (witness_refusal + accepted_witnesses) step" where
  "evaluate_with_retry x e w = evaluate_loop x e (sw_now w + ev_budget e) w"

section \<open>Step 1\<close>

definition served_step :: "'z step_api_scheme \<Rightarrow> string \<Rightarrow> anchor_method \<Rightarrow> string \<Rightarrow> seal_witness option step" where
  "served_step x key method body w =
     (case served_witness x (sw_log w) key method body of (r, log) \<Rightarrow> (r, w\<lparr>sw_log := log\<rparr>))"

definition pull_witness :: "'z step_api_scheme \<Rightarrow> seal_ctx \<Rightarrow> string \<times> string \<times> anchor_method \<Rightarrow> seal_witness option step" where
  "pull_witness x c = (\<lambda>(file, key, method).
     step_bind (fetch_status x c key) (\<lambda>fetch.
     step_bind (step_check (json_at fetch ''status'' = JU64 200) (key @ '' served with HTTP 200'') ''anchor missing'') (\<lambda>ok.
     if \<not> ok then step_return None
     else step_bind (store_read c file) (\<lambda>body. served_step x key method body))))"

definition refusal_variant :: "'z step_api_scheme \<Rightarrow> witness_refusal \<Rightarrow> string" where
  "refusal_variant x r = takeWhile (\<lambda>ch. ch \<notin> set '' {('') (refusal_debug x r)"

definition step1_finish :: "'z step_api_scheme \<Rightarrow> seal_ctx \<Rightarrow> string \<Rightarrow> accepted_witnesses \<Rightarrow> unit step" where
  "step1_finish x c prepared accepted =
     (let ws = ac_witnesses accepted; server_did = rs_server_did (cx_state c)
      in step_bind (step_all (
           [step_assert (length ws = 2) ''accepted.witnesses().len() == 2'' ''anchor missing'',
            step_assert (set (map ak_kind ws) = {AnchorEvm, AnchorTsa}) ''kinds'' ''anchor missing'']
           @ map (\<lambda>w. step_assert (ak_attester w = Some server_did) ''witness attester'' ''refusal (attester)'') ws)) (\<lambda>_.
         step_bind (step_lift (map_err (\<lambda>e. ''finish_seal: '' @ e) (finish_seal x prepared accepted))) (\<lambda>out.
         step_bind (step_assert (length (tr_revisions (so_container out)) = 6) ''container revisions'' ''refusal (container shape)'') (\<lambda>_.
         step_bind (step_lift (tree_to_string x (so_container out))) (\<lambda>container.
         step_bind (step_lift (attestations_json x (so_attestations out))) (\<lambda>attestations.
         step_all (
           [store_artifact c CONTAINER_1 container, store_artifact c ATTESTATIONS_1 attestations]
           @ map (\<lambda>(_, r). step_bind (step_lift (revision_to_json x r)) (\<lambda>_. step_return ())) (tr_revisions (so_container out)))))))))"

definition step1_inner :: "'z step_api_scheme \<Rightarrow> seal_ctx \<Rightarrow> unit step" where
  "step1_inner x c =
     (let st = cx_state c; head1 = fst (rs_heads st)
      in step_bind (step_map (pull_witness x c) [(''s1-evm.json'', ''s1_evm'', Evm), (''s1-qtsa.json'', ''s1_qtsa'', Qtsa)]) (\<lambda>pulled.
         let witnesses = List.map_filter id pulled
         in if length witnesses \<noteq> 2 then step_return ()
            else step_bind (load_prepared_seal x c 1) (\<lambda>prepared.
                 step_bind (step_lift (prepared_head x prepared)) (\<lambda>head.
                 step_bind (step_assert (head = head1) ''prepared-seal-1 head equals SealHead::from_leaves(set, leaves1)''
                   ''refusal (prepared state)'') (\<lambda>_.
                 let submitter = (case str_at (json_at (rs_meta st) ''post_body'') ''submitter_did'' of Some s \<Rightarrow> s | None \<Rightarrow> [])
                 in step_bind (step_assert (submitter = rs_did st) ''the server's submitter_did is S's signer'' ''refusal (prepared state)'') (\<lambda>_.
                    step_bind (evaluate_with_retry x \<lparr>ev_prepared = prepared, ev_head = head1, ev_did = rs_did st, ev_witnesses = witnesses,
                        ev_requirement = OpenWitness, ev_budget = cx_finality_budget c\<rparr>) (\<lambda>res.
                    (case res of
                       Inl r \<Rightarrow> step_assert False ''evaluate_seal_witnesses refused'' (''refusal '' @ refusal_variant x r)
                     | Inr accepted \<Rightarrow> step1_finish x c prepared accepted))))))))"

text \<open>A step: a new log, its body, and an error of the body as a failed assertion.\<close>

definition harness :: "string \<Rightarrow> unit step \<Rightarrow> unit step" where
  "harness part body =
     step_bind (step_try body) (\<lambda>r.
     (case r of
        Inl e \<Rightarrow> step_assert False (''harness error'' @ part @ '': '' @ e) ''harness error''
      | Inr _ \<Rightarrow> step_return ()))"

definition new_log :: "'z step_api_scheme \<Rightarrow> seal_ctx \<Rightarrow> nat \<Rightarrow> string \<Rightarrow> step_world \<Rightarrow> step_world" where
  "new_log x c n title w = w\<lparr>sw_log := step_log_new n title (cx_header c) (utc x (sw_now w))\<rparr>"

definition step1 :: "'z step_api_scheme \<Rightarrow> seal_ctx \<Rightarrow> step_world \<Rightarrow> step_world" where
  "step1 x c w =
     snd (harness [] (step1_inner x c) (new_log x c 1
       ''seal a Folder of three members through the aggregator (prepare, submit S, pull both witnesses, evaluate, finish)'' w))"

section \<open>Step 2\<close>

record step2_out =
  s2_seal :: verified_seal
  s2_stable :: string

definition derive_receipts :: "'z step_api_scheme \<Rightarrow> seal_ctx \<Rightarrow> nat \<Rightarrow> string list \<Rightarrow> string \<Rightarrow> unit step" where
  "derive_receipts x c seal receipts falsifier =
     step_all (map (\<lambda>(i, r). store_derived c (receipt_file seal (i + 1)) (receipt_json x r @ [CHR 0x0A]) falsifier) (enumerate 0 receipts))"

definition step2_reading :: "'z step_api_scheme \<Rightarrow> seal_ctx \<Rightarrow> verified_seal \<Rightarrow> full_set_verdict \<Rightarrow> unit step" where
  "step2_reading x c seal v =
     (let wa = vs_acceptance seal; partially = ''partially_verified''
      in step_all
          [step_assert (vs_status seal = SealVerified) ''seal.status() == Verified'' partially,
           step_assert (vs_sealer_admitted seal) ''sealer_signature().is_admitted()'' partially,
           step_assert (length wa = 2 \<and> length (filter (\<lambda>w. wr_admission w = Admitted) wa) = 2)
             ''witness_acceptance().witnesses: 2 readings, 2 Admitted'' partially,
           step_assert (case vs_time seal of TimeAccepted ts \<Rightarrow> length ts = 2 | _ \<Rightarrow> False)
             ''time is SealTime::Accepted with 2 witnesses'' partially,
           step_assert (fv_headline v = HeadlineVerified) ''set_headline == verified'' partially,
           step_assert (fv_completeness v = DimPass \<and> fv_integrity v = DimPass \<and> fv_non_suppression v = DimPass)
             ''completeness, integrity, non_suppression all pass'' partially,
           step_assert (\<not> list_ex (\<lambda>f. fi_code f = ''seal_extra_revisions'') (fv_findings v))
             ''no seal_extra_revisions finding'' ''seal_extra_revisions''])"

definition step2_attestations :: "'z step_api_scheme \<Rightarrow> seal_ctx \<Rightarrow> verified_seal \<Rightarrow> string \<Rightarrow> attestation_basis \<times> did list \<Rightarrow> unit step" where
  "step2_attestations x c seal doc = (\<lambda>(basis, pins).
     let r = read_seal_attestations x seal doc pins
     in step_all (
          step_assert (length (sa_witnesses r) = 2) ''attestation reading has 2 witnesses'' ''no attester''
          # map (\<lambda>w. step_assert (map ar_verdict (wa_attestations w)
                = [AttVerified (rs_server_did (cx_state c)) (rp_sealer_signature_type (cx_policy c)) basis])
                ''one attestation Verified'' ''no attester'') (sa_witnesses r)
          @ [step_assert (sa_unmatched r = [] \<and> sa_findings r = [] \<and> sa_rejected r = None)
               ''unmatched empty, findings empty, rejected None'' ''no attester'']))"

definition step2_inner :: "'z step_api_scheme \<Rightarrow> seal_ctx \<Rightarrow> step2_out option step" where
  "step2_inner x c =
     (let st = cx_state c; server_did = rs_server_did st
      in step_bind (step_try (load_container x c)) (\<lambda>loaded.
         (case loaded of
            Inl e \<Rightarrow> step_bind (step_assert False (CONTAINER_1 @ '' exists (from step 1)'') ''partially_verified (no container from step 1)'')
                       (\<lambda>_. step_return None)
          | Inr container \<Rightarrow>
              step_bind (verify x c container (dual (cx_policy c))) (\<lambda>reading.
              step_bind (members x c) (\<lambda>admitted_members.
              (case reading of
                 Rejected r \<Rightarrow> step_bind (step_assert False ''container read as a seal'' ''partially_verified'') (\<lambda>_. step_return None)
               | UnknownReading \<Rightarrow> step_lift (Inl ''unknown SealReading variant'')
               | Seal seal \<Rightarrow>
                   step_bind (log_seal x c ''step2-P2'' seal) (\<lambda>_.
                   step_bind (step_lift (receipts_for x (vs_anchor seal) (fst (rs_heads st)) (fst (rs_leaves st)) (rs_tips st) (fst (rs_nonces st)))) (\<lambda>receipts.
                   step_bind (derive_receipts x c 1 receipts ''partially_verified (receipt differs)'') (\<lambda>_.
                   step_bind (step2_reading x c seal (full_set_check x (package_of x reading admitted_members receipts))) (\<lambda>_.
                   step_bind (store_read c ATTESTATIONS_1) (\<lambda>doc.
                   step_bind (step_all (map (step2_attestations x c seal doc) [(Unpinned, []), (Pinned, [server_did])])) (\<lambda>_.
                   step_bind (case cx_expect_server_did c of
                       Some want \<Rightarrow> step_assert (server_did = want) ''server_did equals --expect-server-did'' ''no attester''
                     | None \<Rightarrow> step_return ()) (\<lambda>_.
                   step_return (Some \<lparr>s2_seal = seal, s2_stable = stable x seal\<rparr>))))))))))))))"

text \<open>\<open>step2\<close> hands its reading to step 5; on an error there is none.\<close>

definition step2 :: "'z step_api_scheme \<Rightarrow> seal_ctx \<Rightarrow> step_world \<Rightarrow> step2_out option \<times> step_world" where
  "step2 x c w =
     (case step2_inner x c (new_log x c 2 ''verify the container and the full-set check under the pinned reader policy P2'' w) of
        (Inr out, w') \<Rightarrow> (out, w')
      | (Inl e, w') \<Rightarrow> (None, snd (step_assert False (''harness error: '' @ e) ''harness error'' w')))"

section \<open>Step 3\<close>

definition step3_inner :: "'z step_api_scheme \<Rightarrow> seal_ctx \<Rightarrow> unit step" where
  "step3_inner x c =
     (let st = cx_state c; below = ''below verified''
      in step_bind (step_try (load_container x c)) (\<lambda>loaded.
         (case loaded of
            Inl e \<Rightarrow> step_assert False (CONTAINER_1 @ '' exists (from step 1)'') ''below verified (no container from step 1)''
          | Inr container \<Rightarrow>
              step_bind (load_pair x c ''s1-qtsa.json'' Qtsa) (\<lambda>t_qtsa.
              step_bind (load_pair x c ''s1-evm.json'' Evm) (\<lambda>t_evm.
              step_bind (verify x c container (tsa_only (cx_policy c))) (\<lambda>reading.
              step_bind (members x c) (\<lambda>admitted_members.
              (case reading of
                 Seal seal \<Rightarrow>
                   step_bind (log_seal x c ''step3-P3'' seal) (\<lambda>_.
                   step_bind (step_lift (receipts_for x (vs_anchor seal) (fst (rs_heads st)) (fst (rs_leaves st)) (rs_tips st) (fst (rs_nonces st)))) (\<lambda>receipts.
                   let v = full_set_check x (package_of x reading admitted_members receipts)
                   in step_bind (step_assert (vs_status seal = SealVerified) ''seal.status() == Verified'' below) (\<lambda>_.
                      step_bind (step_lift (link_parse x (ft_object_key (sp_fetched t_qtsa)))) (\<lambda>tq.
                      step_bind (step_lift (link_parse x (ft_object_key (sp_fetched t_evm)))) (\<lambda>te.
                      step_all
                        [step_assert (admission_of seal tq = Some Admitted) ''TSA witness Admitted'' below,
                         step_assert (case admission_of seal te of Some (NotAdmitted _) \<Rightarrow> True | _ \<Rightarrow> False) ''EVM witness NotAdmitted'' below,
                         step_assert (list_ex (\<lambda>f. f \<noteq> [] \<and> hd f = ''trust_input_not_admitted'') (vs_acceptance_findings seal))
                           ''finding trust_input_not_admitted listed in the witness findings'' below,
                         step_assert (fv_headline v = HeadlineVerified) ''set_headline == verified'' below])))))
               | _ \<Rightarrow> step_assert False ''container read as a seal'' below)))))
         )))"

definition step3 :: "'z step_api_scheme \<Rightarrow> seal_ctx \<Rightarrow> step_world \<Rightarrow> step_world" where
  "step3 x c w =
     snd (harness [] (step3_inner x c) (new_log x c 3 ''the same container under a reader policy that admits qTSA only (P3)'' w))"

section \<open>Step 4\<close>

definition step4a_read :: "'z step_api_scheme \<Rightarrow> seal_ctx \<Rightarrow> aqua_tree \<Rightarrow> unit step" where
  "step4a_read x c container =
     (let st = cx_state c; below = ''seal 2 below verified''
      in step_bind (verify x c container (tsa_only (cx_policy c))) (\<lambda>reading.
         step_bind (members x c) (\<lambda>admitted_members.
         (case reading of
            Seal seal \<Rightarrow>
              step_bind (log_seal x c ''step4a-P3'' seal) (\<lambda>_.
              step_bind (step_assert (length (vs_witnesses seal) = 1) ''seal 2 links exactly one T'' ''seal 2 not exactly one qTSA T'') (\<lambda>_.
              step_bind (step_lift (receipts_for x (vs_anchor seal) (snd (rs_heads st)) (snd (rs_leaves st)) (rs_tips st) (snd (rs_nonces st)))) (\<lambda>receipts.
              step_bind (derive_receipts x c 2 receipts ''seal 2 differs from the persisted run'') (\<lambda>_.
              step_all
                [step_assert (vs_status seal = SealVerified) ''seal 2 status == Verified'' below,
                 step_assert (fv_headline (full_set_check x (package_of x reading admitted_members receipts)) = HeadlineVerified)
                   ''seal 2 set_headline == verified'' below]))))
          | _ \<Rightarrow> step_assert False ''container 2 read as a seal'' below))))"

definition step4a :: "'z step_api_scheme \<Rightarrow> seal_ctx \<Rightarrow> unit step" where
  "step4a x c =
     (let st = cx_state c; not_one = ''seal 2 not exactly one qTSA T''; differs = ''seal 2 differs from the persisted run''
      in step_bind (step_try (load_pair x c ''s2-qtsa.json'' Qtsa)) (\<lambda>loaded.
         (case loaded of
            Inl e \<Rightarrow> step_assert False ''s2 qTSA witness'' ''seal 2 not built (witness missing)''
          | Inr pair \<Rightarrow>
              step_bind (load_prepared_seal x c 2) (\<lambda>prepared.
              step_bind (evaluate_with_retry x \<lparr>ev_prepared = prepared, ev_head = snd (rs_heads st), ev_did = rs_did st,
                  ev_witnesses = [(sp_object pair, sp_signature pair)], ev_requirement = WithoutEvm, ev_budget = 0\<rparr>) (\<lambda>res.
              (case res of
                 Inl r \<Rightarrow> step_assert False ''seal 2 evaluate refused'' ''seal 2 not built (refusal)''
               | Inr accepted \<Rightarrow>
                   step_bind (step_assert (map ak_kind (ac_witnesses accepted) = [AnchorTsa]) ''seal 2 accepted kinds (exactly one, Tsa)'' not_one) (\<lambda>_.
                   step_bind (step_lift (map_err (\<lambda>e. ''finish_seal: '' @ e) (finish_seal x prepared accepted))) (\<lambda>out.
                   step_bind (step_assert (length (tr_revisions (so_container out)) = 5) ''container 2 revisions (G, H, S, T, A expected 5)'' not_one) (\<lambda>_.
                   step_bind (step_lift (tree_to_string x (so_container out))) (\<lambda>container.
                   step_bind (store_derived c CONTAINER_2 container differs) (\<lambda>_.
                   step_bind (step_lift (attestations_json x (so_attestations out))) (\<lambda>attestations.
                   step_bind (store_derived c ATTESTATIONS_2 attestations differs) (\<lambda>_.
                   step4a_read x c (so_container out))))))))))))))"

text \<open>Fresh leaves of probe 4: one random nonce per tip.\<close>

definition probe_leaves :: "'z step_api_scheme \<Rightarrow> nat \<Rightarrow> revision_link list \<Rightarrow> string + hash32 list" where
  "probe_leaves x n tips = collect_results (\<lambda>(i, t). shielded_leaf x t (os_random x n i)) (enumerate 0 tips)"

definition step4b :: "'z step_api_scheme \<Rightarrow> seal_ctx \<Rightarrow> unit step" where
  "step4b x c =
     (let st = cx_state c; fals = ''a seal without T is written''
      in step_bind (store_ensure_dir c ''step4b'') (\<lambda>_.
         step_bind (step_assert (requirement_without_kinds x = Inl SealNoWitness) ''probe 1 is Err(SealError::NoWitness)'' fals) (\<lambda>_.
         step_bind (step_assert (isl (requirement_from_str x (''{'' @ [CHR 0x22] @ ''kinds'' @ [CHR 0x22] @ '':[],'' @ [CHR 0x22] @ ''tsa_minimum''
               @ [CHR 0x22, CHR '':'', CHR 0x22] @ ''none'' @ [CHR 0x22, CHR '','', CHR 0x22] @ ''attestation'' @ [CHR 0x22, CHR '':'', CHR 0x22]
               @ ''if_present'' @ [CHR 0x22] @ ''}''))) ''probe 2 serde form refused'' fals) (\<lambda>_.
         step_bind (load_prepared_seal x c 2) (\<lambda>prepared.
         step_bind (step_ask (\<lambda>n. evaluate_seal_witnesses x n prepared (snd (rs_heads st)) (rs_did st) [] WithoutEvm)) (\<lambda>p3.
         step_bind (step_assert (p3 = Inl NoWitness) ''probe 3 is Err(WitnessRefusal::NoWitness)'' fals) (\<lambda>_.
         step_bind (step_ask (\<lambda>n. probe_leaves x n (rs_tips st))) (\<lambda>leaves.
         step_bind (step_lift (head_from_leaves x (rs_set st) leaves)) (\<lambda>head2b.
         step_bind (step_ask (\<lambda>n. Inr (os_random x n 0))) (\<lambda>throwaway.
         step_bind (step_ask (\<lambda>n. Inr (build_seal_container x n head2b throwaway WithoutEvm))) (\<lambda>p4.
         step_bind (case p4 of
             Inr out \<Rightarrow> step_bind (step_lift (tree_to_string x (so_container out))) (\<lambda>t. store_artifact c ''step4b/container-probe4.json'' t)
           | Inl _ \<Rightarrow> step_return ()) (\<lambda>_.
         step_bind (step_assert (p4 = Inl (SealRefused NoWitness)) ''probe 4 is Err(SealError::Refused(NoWitness))'' fals) (\<lambda>_.
         step_bind (store_list x c ''step4b'') (\<lambda>names.
         step_assert (names = []) ''step4b/ holds no container'' fals))))))))))))))"

definition step4 :: "'z step_api_scheme \<Rightarrow> seal_ctx \<Rightarrow> step_world \<Rightarrow> step_world" where
  "step4 x c w =
     snd (step_all [harness '' (4a)'' (step4a x c), harness '' (4b)'' (step4b x c)]
       (new_log x c 4 ''seal the Folder with EVM opted out (qTSA only); a build with no timestamp is refused'' w))"

section \<open>Step 5\<close>

definition Q16 :: string where
  "Q16 = ''Q16 default: a reading is verified or pass, or a dimension is fail''"

definition step5a_seal :: "'z step_api_scheme \<Rightarrow> seal_ctx \<Rightarrow> relinked_container \<Rightarrow> verified_seal \<Rightarrow> full_set_verdict \<Rightarrow> unit step" where
  "step5a_seal x c relinked seal v =
     (let t2 = rl_flipped_link relinked; a2 = rl_anchor_link relinked
      in step_bind (log_seal x c ''step5a-P2'' seal) (\<lambda>_.
         step_all
          [step_assert (case admission_of seal t2 of Some (AdmissionFailed r) \<Rightarrow> r \<noteq> [] | _ \<Rightarrow> False)
             ''TSA witness T' reads WitnessAdmission::Failed(reason) with a non-empty reason'' ''witness not Failed with a reason'',
           step_assert (vs_status seal = SealNotChecked) ''per-seal status NotChecked'' Q16,
           step_assert (fv_integrity v = DimNotChecked) ''set integrity not_checked'' Q16,
           step_assert (list_ex (\<lambda>f. fi_code f = ''seal_witness_failed'' \<and> fi_args f = [link_text x a2, link_text x t2]) (fv_findings v))
             ''finding seal_witness_failed'' Q16,
           step_assert (\<not> handover_passes x seal (rs_did (cx_state c))) ''hand-over not pass'' Q16,
           step_assert (fv_headline v = HeadlinePartiallyVerified) ''set_headline == partially_verified'' Q16,
           step_assert (fv_completeness v \<noteq> DimFail \<and> fv_non_suppression v \<noteq> DimFail) ''completeness and non_suppression not fail'' Q16,
           step_assert (vs_status seal \<noteq> SealVerified \<and> fv_headline v \<noteq> HeadlineVerified) ''not verified'' ''verified'']))"

text \<open>The in-place flip under the old key.\<close>

definition step5a_in_place :: "'z step_api_scheme \<Rightarrow> seal_ctx \<Rightarrow> aqua_tree \<Rightarrow> revision_link \<Rightarrow> any_revision \<Rightarrow> revision_link \<Rightarrow> unit step" where
  "step5a_in_place x c c1 tq t2 a_key =
     (let st = cx_state c; c5b = c1\<lparr>tr_revisions := AList.update tq t2 (tr_revisions c1)\<rparr>
      in step_bind (step_lift (tree_to_string x c5b)) (\<lambda>txt.
         step_bind (store_artifact c ''container-5a2.json'' txt) (\<lambda>_.
         step_bind (verify x c c5b (dual (cx_policy c))) (\<lambda>r2.
         step_bind (members x c) (\<lambda>admitted_members.
         step_bind (step_lift (receipts_for x a_key (fst (rs_heads st)) (fst (rs_leaves st)) (rs_tips st) (fst (rs_nonces st)))) (\<lambda>receipts.
         step_assert (reading_status x r2 \<noteq> SealVerified
             \<and> fv_headline (full_set_check x (package_of x r2 admitted_members receipts)) \<noteq> HeadlineVerified)
           ''5a2 not verified'' ''verified''))))))"

definition step5a :: "'z step_api_scheme \<Rightarrow> seal_ctx \<Rightarrow> step2_out option \<Rightarrow> unit step" where
  "step5a x c s2 =
     (let st = cx_state c
      in step_bind (step_try (load_container x c)) (\<lambda>loaded.
         (case loaded of
            Inl e \<Rightarrow> step_assert False (CONTAINER_1 @ '' exists (from step 1)'') ''verified (no container from step 1)''
          | Inr c1 \<Rightarrow>
              (case s2 of
                 None \<Rightarrow> step_assert False ''step 2 seal reading available (it names A and H)'' ''verified (no seal reading from step 2)''
               | Some o2 \<Rightarrow>
                   let a_key = vs_anchor (s2_seal o2); head_link = vs_head_link (s2_seal o2)
                   in step_bind (load_pair x c ''s1-qtsa.json'' Qtsa) (\<lambda>q.
                      step_bind (step_lift (link_parse x (ft_object_key (sp_fetched q)))) (\<lambda>tq.
                      step_bind (load_pair x c ''s1-evm.json'' Evm) (\<lambda>e.
                      step_bind (step_lift (link_parse x (ft_object_key (sp_fetched e)))) (\<lambda>te.
                      step_bind (step_lift (relink_flipped_token x c1 a_key head_link tq te)) (\<lambda>relinked.
                      step_bind (step_lift (tree_to_string x (rl_container relinked))) (\<lambda>txt.
                      step_bind (store_artifact c ''container-5a.json'' txt) (\<lambda>_.
                      step_bind (verify x c (rl_container relinked) (dual (cx_policy c))) (\<lambda>reading.
                      step_bind (members x c) (\<lambda>admitted_members.
                      step_bind (step_lift (receipts_for x (rl_anchor_link relinked) (fst (rs_heads st)) (fst (rs_leaves st)) (rs_tips st) (fst (rs_nonces st)))) (\<lambda>receipts.
                      let v = full_set_check x (package_of x reading admitted_members receipts)
                      in (case reading of
                            Seal seal \<Rightarrow>
                              step_bind (step5a_seal x c relinked seal v) (\<lambda>_.
                              step5a_in_place x c c1 tq (rl_flipped relinked) a_key)
                          | _ \<Rightarrow> step_assert False ''container' read as a seal (needed for the witness reading)'' Q16))))))))))))))) "

definition rekeyed_reading_ok :: "'z step_api_scheme \<Rightarrow> seal_attestations_reading \<Rightarrow> revision_link \<Rightarrow> revision_link \<Rightarrow> string + string" where
  "rekeyed_reading_ok x r t new_key =
     (case find (\<lambda>w. wa_witness w = t) (sa_witnesses r) of
        None \<Rightarrow> Inl (''no reading for witness '' @ link_text x t)
      | Some witness \<Rightarrow>
          (case wa_attestations witness of
             [one] \<Rightarrow>
               if ar_attestation one \<noteq> new_key then Inl (''read P '' @ link_text x (ar_attestation one) @ '' is not the re-keyed '' @ link_text x new_key)
               else (case ar_verdict one of
                  AttVerified attester _ _ \<Rightarrow> Inl (''Verified with attester '' @ attester)
                | AttUnverifiable cause \<Rightarrow>
                    if cause = ''not_addressed'' then Inl ''stopped at addressing: the signature check did not run''
                    else if str_contains ''did:'' cause then Inl (''a DID in the cause: '' @ cause)
                    else if \<not> starts_with ''signature_invalid'' cause then Inl (''the signature check did not run: '' @ cause)
                    else if str_contains ''did:'' (witness_debug x witness) then Inl ''a DID in the witness reading''
                    else Inr cause)
           | _ \<Rightarrow> Inl (''expected one attestation over '' @ link_text x t)))"

definition FALS_5B :: string where
  "FALS_5B = ''an attester DID is reported for a removed or altered P, or the seal reading changes''"

definition unverifiable_silently :: "attestation_verdict list \<Rightarrow> bool" where
  "unverifiable_silently q = (case q of [AttUnverifiable cause] \<Rightarrow> \<not> str_contains ''did:'' cause | _ \<Rightarrow> False)"

definition step5b_readings :: "'z step_api_scheme \<Rightarrow> verified_seal \<Rightarrow> revision_link \<Rightarrow> revision_link
  \<Rightarrow> string \<times> string \<times> string \<times> string \<times> string \<Rightarrow> did list \<Rightarrow> unit step" where
  "step5b_readings x seal tq rekeyed_key = (\<lambda>(removed, altered, alone, rekeyed, rekeyed_alone) pins.
     let read = (\<lambda>doc. read_seal_attestations x seal doc pins);
         r1 = read removed; r2 = read altered; r3 = read alone; r4 = read rekeyed; r5 = read rekeyed_alone;
         verdicts = (\<lambda>r. case reading_of r tq of Some q \<Rightarrow> q | None \<Rightarrow> []);
         wq = (case find (\<lambda>w. wa_witness w = tq) (sa_witnesses r2) of Some w \<Rightarrow> witness_debug x w | None \<Rightarrow> [])
     in step_all
         [step_assert (case reading_of r1 tq of Some q \<Rightarrow> q = [] | None \<Rightarrow> True) ''removed: qTSA witness has no attestation and no attester'' FALS_5B,
          step_assert (unverifiable_silently (verdicts r2) \<and> \<not> str_contains ''did:'' wq)
            ''altered: qTSA witness reads Unverifiable{cause} with no did: in the cause or its reading'' FALS_5B,
          step_assert (\<not> str_contains ''did:'' (elsewhere_debug x (sa_unmatched r2) (sa_findings r2)))
            ''altered: no did: in unmatched or findings'' FALS_5B,
          step_assert ((case verdicts r3 of [AttUnverifiable _] \<Rightarrow> True | _ \<Rightarrow> False) \<and> \<not> str_contains ''did:'' (reading_debug x r3))
            ''altered alone: Unverifiable and no did: anywhere in the reading'' FALS_5B,
          step_assert (\<not> isl (rekeyed_reading_ok x r4 tq rekeyed_key))
            ''re-keyed: addressed P with a bad signature is not Verified'' FALS_5B,
          step_assert (\<not> isl (rekeyed_reading_ok x r5 tq rekeyed_key) \<and> \<not> str_contains ''did:'' (reading_debug x r5))
            ''re-keyed alone: no did: anywhere in the reading'' FALS_5B])"

definition step5b :: "'z step_api_scheme \<Rightarrow> seal_ctx \<Rightarrow> step2_out option \<Rightarrow> unit step" where
  "step5b x c s2 =
     (case s2 of
        None \<Rightarrow> step_assert False ''step 2 seal reading available'' FALS_5B
      | Some o2 \<Rightarrow>
          step_bind (store_read c ATTESTATIONS_1) (\<lambda>t.
          step_bind (step_lift (from_str x t)) (\<lambda>doc.
          step_bind (load_pair x c ''s1-qtsa.json'' Qtsa) (\<lambda>qtsa.
          step_bind (step_lift (link_parse x (ft_object_key (sp_fetched qtsa)))) (\<lambda>tq.
          let pq = ft_signature_key (sp_fetched qtsa)
          in if json_get (json_at doc ''revisions'') pq = None then step_assert False ''qTSA P is in the attestations'' FALS_5B
             else step_bind (step_lift (and_then (remove_p doc pq) (\<lambda>j. Inr (json_text x j)))) (\<lambda>removed_s.
                  step_bind (store_artifact c ''attestations-5b-removed.json'' removed_s) (\<lambda>_.
                  step_bind (step_lift (alter_p_key_kept doc pq)) (\<lambda>(altered, _).
                  step_bind (store_artifact c ''attestations-5b-altered.json'' (json_text x altered)) (\<lambda>_.
                  step_bind (step_lift (and_then (only_p altered pq) (\<lambda>j. Inr (json_text x j)))) (\<lambda>alone_s.
                  step_bind (store_artifact c ''attestations-5b-altered-alone.json'' alone_s) (\<lambda>_.
                  step_bind (step_lift (rekey_bad_signature x doc pq)) (\<lambda>rekeyed.
                  step_bind (store_artifact c ''attestations-5b-rekeyed.json'' (json_text x (rk_doc rekeyed))) (\<lambda>_.
                  step_bind (step_lift (and_then (only_p (rk_doc rekeyed) (link_text x (rk_key rekeyed))) (\<lambda>j. Inr (json_text x j)))) (\<lambda>rekeyed_alone_s.
                  step_bind (store_artifact c ''attestations-5b-rekeyed-alone.json'' rekeyed_alone_s) (\<lambda>_.
                  step_bind (step_all (map (step5b_readings x (s2_seal o2) tq (rk_key rekeyed)
                      (removed_s, json_text x altered, alone_s, json_text x (rk_doc rekeyed), rekeyed_alone_s)) [[], [rs_server_did (cx_state c)]])) (\<lambda>_.
                  step_bind (load_container x c) (\<lambda>c1.
                  step_bind (verify x c c1 (dual (cx_policy c))) (\<lambda>reading.
                  (case into_seal x reading of
                     Inr again \<Rightarrow> step_assert (stable x again = s2_stable o2) ''a fresh P2 read of container 1 is byte-equal to step 2 (stable form)'' FALS_5B
                   | Inl r \<Rightarrow> step_assert False ''fresh P2 read of container 1 is a seal'' FALS_5B))))))))))))))))))) "

definition step5 :: "'z step_api_scheme \<Rightarrow> seal_ctx \<Rightarrow> step2_out option \<Rightarrow> step_world \<Rightarrow> step_world" where
  "step5 x c s2 w =
     snd (step_all [harness '' (5a)'' (step5a x c s2), harness '' (5b)'' (step5b x c s2)]
       (new_log x c 5 ''tamper: one byte of the qTSA token changed (relinked); the attestation P removed or altered (Q16 default)'' w))"

section \<open>Step 6\<close>

definition step6_inner :: "'z step_api_scheme \<Rightarrow> seal_ctx \<Rightarrow> unit step" where
  "step6_inner x c =
     (let st = cx_state c; fals = ''any byte differs''
      in step_bind (step_try (store_read c CONTAINER_1)) (\<lambda>rc.
         step_bind (step_try (store_read c ATTESTATIONS_1)) (\<lambda>ra.
         (case (rc, ra) of
            (Inr c1, Inr a1) \<Rightarrow>
              step_bind (step_map (\<lambda>(file, method). load_pair x c file method) [(''s1-evm.json'', Evm), (''s1-qtsa.json'', Qtsa)]) (\<lambda>pairs.
              step_bind (load_prepared_seal x c 1) (\<lambda>prepared.
              step_bind (step_ask (\<lambda>n. complete_seal x n prepared (fst (rs_heads st)) (rs_did st)
                  (map (\<lambda>p. (sp_object p, sp_signature p)) pairs) OpenWitness)) (\<lambda>out.
              (case out of
                 Inl e \<Rightarrow> step_assert False ''complete_seal returned Ok'' fals
               | Inr o6 \<Rightarrow>
                   step_bind (step_lift (tree_to_string x (so_container o6))) (\<lambda>c6.
                   step_bind (step_lift (attestations_json x (so_attestations o6))) (\<lambda>a6.
                   step_all
                     [store_artifact c ''container-6b.json'' c6, store_artifact c ''attestations-6b.json'' a6,
                      step_assert (c6 = c1) ''container bytes equal'' fals,
                      step_assert (a6 = a1) ''attestation document bytes equal'' fals]))))))
          | _ \<Rightarrow> step_assert False ''step 1 output present'' fals))))"

definition step6 :: "'z step_api_scheme \<Rightarrow> seal_ctx \<Rightarrow> step_world \<Rightarrow> step_world" where
  "step6 x c w =
     snd (harness [] (step6_inner x c) (new_log x c 6 ''one-shot and two-step builds give byte-identical containers for the same inputs'' w))"

section \<open>Step 7\<close>

datatype coverage = Full u64 | Partial u64 u64

text \<open>\<open>2 * own_leaves\<close> is the product modulo \<open>2^64\<close> of a release build; the run calls it with two leaves.\<close>

definition pair_coverage :: "u64 \<Rightarrow> u64 \<Rightarrow> u64 \<Rightarrow> string + coverage" where
  "pair_coverage visible_pairs own_leaves leaf_count =
     (let want = 2 * own_leaves
      in if visible_pairs \<noteq> want
         then Inl (show_nat (unat visible_pairs) @ '' witness pairs visible, 2 x '' @ show_nat (unat own_leaves) @ '' own leaves = ''
                @ show_nat (unat want) @ '' expected'')
         else if leaf_count < own_leaves
         then Inl (''epoch lists leaf_count '' @ show_nat (unat leaf_count) @ '', fewer than the '' @ show_nat (unat own_leaves) @ '' own leaves'')
         else if leaf_count = own_leaves then Inr (Full visible_pairs)
         else Inr (Partial visible_pairs leaf_count))"

definition payload_entries :: "json \<Rightarrow> (string \<times> json) list" where
  "payload_entries body =
     (let revisions = (case json_object (json_at body ''revisions'') of Some m \<Rightarrow> m | None \<Rightarrow> [])
      in List.map_filter (\<lambda>(k, r). map_option (\<lambda>p. (k, p)) (json_get r ''payloads'')) revisions)"

definition step7_method :: "'z step_api_scheme \<Rightarrow> seal_ctx \<Rightarrow> u64 \<Rightarrow> hash32 \<Rightarrow> anchor_method \<Rightarrow> u64 step" where
  "step7_method x c epoch epoch_root m =
     (let fals = ''a stub served''; key = ''epoch_'' @ as_str m
      in step_bind (fetch_status x c key) (\<lambda>fetch.
         step_bind (step_assert (json_at fetch ''status'' = JU64 200) (key @ '': HTTP 200 (not 410 / not verifiable)'') fals) (\<lambda>_.
         step_bind (store_read c (epoch_file epoch m)) (\<lambda>t.
         step_bind (step_lift (from_str x t)) (\<lambda>body.
         step_bind (step_all (concat (map (\<lambda>(k, p).
             [step_assert (detect_stub x m p = None) (as_str m @ '' T '' @ k @ '': detect_stub'') fals,
              step_assert (parse_batch_root x (payload_str p ''merkle_root'') = Inr epoch_root)
                (as_str m @ '' T '' @ k @ '': payload merkle_root names the epoch's root'') fals]) (payload_entries body)))) (\<lambda>_.
         let method_pairs = word_of_nat (length (payload_entries body))
         in step_bind (step_assert (method_pairs = OWN_LEAVES) (as_str m @ '' witness pairs read'') fals) (\<lambda>_.
            step_return method_pairs)))))))"

definition step7_inner :: "'z step_api_scheme \<Rightarrow> seal_ctx \<Rightarrow> unit step" where
  "step7_inner x c =
     (let meta = rs_meta (cx_state c); fals = ''a stub served''
      in step_bind (step_lift (need ''no epoch_id'' (u64_at meta ''epoch_id''))) (\<lambda>epoch.
         step_bind (step_assert (u64_at (json_at meta ''post_body'') ''accepted'' = Some OWN_LEAVES) ''the server accepted the leaves of this run'' fals) (\<lambda>_.
         step_bind (store_read c (epochs_file epoch)) (\<lambda>t.
         step_bind (step_lift (from_str x t)) (\<lambda>epochs.
         (case (case json_at epochs ''epochs'' of JArr es \<Rightarrow> find (\<lambda>e. u64_at e ''id'' = Some epoch) es | _ \<Rightarrow> None) of
            None \<Rightarrow> step_assert False ''/v1/epochs lists the epoch'' fals
          | Some item \<Rightarrow>
              step_bind (step_lift (map_err (\<lambda>e. ''epoch merkle_root: '' @ e) (parse_batch_digest x (payload_str item ''merkle_root'')))) (\<lambda>epoch_root.
              step_bind (step_map (step7_method x c epoch epoch_root) [Evm, Qtsa]) (\<lambda>counts.
              (case u64_at item ''leaf_count'' of
                 None \<Rightarrow> step_assert False ''the epoch lists a leaf_count'' fals
               | Some leaf_count \<Rightarrow>
                   (case pair_coverage (sum_list counts) OWN_LEAVES leaf_count of
                      Inr _ \<Rightarrow> step_return ()
                    | Inl why \<Rightarrow> step_assert False why fals))))))))))"

definition step7 :: "'z step_api_scheme \<Rightarrow> seal_ctx \<Rightarrow> step_world \<Rightarrow> step_world" where
  "step7 x c w =
     snd (harness [] (step7_inner x c) (new_log x c 7 ''no stub witness in the test leaf's epoch on the aggregator'' w))"

section \<open>The run\<close>

datatype steps = AllSteps | FromPersisted

text \<open>\<open>keep\<close>: the step's log is written, if anything is, and appended.\<close>

definition keep_log :: "seal_ctx \<Rightarrow> string \<Rightarrow> step_log list \<Rightarrow> step_log list step" where
  "keep_log c closing logs w =
     (case write_dir (cx_store c) of
        None \<Rightarrow> (Inr (logs @ [sw_log w]), w)
      | Some dir \<Rightarrow>
          (case log_write (cx_device c) dir closing (sw_log w) (sw_fs w) of
             (Inl e, fs) \<Rightarrow> (Inl e, w\<lparr>sw_fs := fs\<rparr>)
           | (Inr _, fs) \<Rightarrow> (Inr (logs @ [sw_log w]), w\<lparr>sw_fs := fs\<rparr>)))"

fun run_kept :: "seal_ctx \<Rightarrow> string \<Rightarrow> (step_world \<Rightarrow> step_world) list \<Rightarrow> step_log list \<Rightarrow> step_log list step" where
  "run_kept c closing [] logs = step_return logs"
| "run_kept c closing (s # ss) logs = (\<lambda>w. step_bind (keep_log c closing logs) (run_kept c closing ss) (s w))"

definition run :: "'z step_api_scheme \<Rightarrow> seal_ctx \<Rightarrow> steps \<Rightarrow> string \<Rightarrow> step_log list step" where
  "run x c which closing w =
     step_bind (run_kept c closing (if which = AllSteps then [step1 x c] else []) []) (\<lambda>logs w1.
       (case step2 x c w1 of
          (s2, w2) \<Rightarrow> step_bind (keep_log c closing logs)
             (run_kept c closing [step3 x c, step4 x c, step5 x c s2, step6 x c, step7 x c]) w2)) w"

end
