(* ===== verification/E2e_Keeps.thy ===== *)
theory E2e_Keeps
  imports E2e_Steps
begin

text \<open>
  Every action and every step of a seal run keeps a relation of the locale \<open>step_relation\<close>
  (\<open>crates/aqua-timestamp-e2e/src/seal/steps.rs\<close>).  Two relations interpret it: an assertion that failed stays
  failed, and nothing below a directory the store does not write to changes.
\<close>

section \<open>Every step keeps a step relation\<close>

lemma evaluate_loop_world:
  assumes "\<And>w n t. R w (w\<lparr>sw_moment := n, sw_now := t\<rparr>)" and "\<And>u v w. R u v \<Longrightarrow> R v w \<Longrightarrow> R u w"
  shows "R w (snd (evaluate_loop x e deadline w))"
proof (induction x e deadline w rule: evaluate_loop.induct)
  case (1 x e deadline w)
  obtain r w1 where once: "evaluate_once x e w = (r, w1)" by fastforce
  then have w1: "R w w1" using assms(1) by (auto simp: evaluate_once_def Let_def)
  have sleep: "R w1 (sleep_until x deadline w1)"
    using assms(1) [of w1 "sw_now (sleep_until x deadline w1)" "sw_moment w1"] by (simp add: sleep_until_def)
  show ?case
  proof (cases "\<exists>refusal. r = Inr (Inl refusal) \<and> retryable refusal \<and> sw_now w1 < deadline")
    case True
    then obtain refusal where r: "r = Inr (Inl refusal)" "retryable refusal" "sw_now w1 < deadline" by blast
    then have "R (sleep_until x deadline w1) (snd (evaluate_loop x e deadline (sleep_until x deadline w1)))"
      using "1.IH" [OF once [unfolded r(1), symmetric]] by blast
    then show ?thesis
      using once r w1 sleep assms(2) by (subst evaluate_loop.simps) (auto intro: assms(2))
  next
    case False
    then show ?thesis
      using once w1 by (subst evaluate_loop.simps) (auto split: sum.splits)
  qed
qed

lemma served_witness_log:
  assumes "\<And>ok what fals log. P log \<Longrightarrow> P (snd (log_check ok what fals log))" and "P log"
  shows "P (snd (served_witness x log key method body))"
  using assms unfolding served_witness_def Let_def
  by (auto simp: prod.case_eq_if split: sum.splits)

context step_relation
begin

lemma keeps_cases:
  "(\<And>a. keeps (f a)) \<Longrightarrow> (\<And>b. keeps (g b)) \<Longrightarrow> keeps (case r of Inl a \<Rightarrow> f a | Inr b \<Rightarrow> g b)"
  "keeps m \<Longrightarrow> (\<And>b. keeps (h b)) \<Longrightarrow> keeps (case oo of None \<Rightarrow> m | Some b \<Rightarrow> h b)"
  "keeps m1 \<Longrightarrow> keeps m2 \<Longrightarrow> keeps (if b then m1 else m2)"
  "(\<And>a b. keeps (k a b)) \<Longrightarrow> keeps (case p of (a, b) \<Rightarrow> k a b)"
  "(\<And>s. keeps (k1 s)) \<Longrightarrow> (\<And>s. keeps (k2 s)) \<Longrightarrow> keeps k3 \<Longrightarrow>
     keeps (case rd of Seal s \<Rightarrow> k1 s | Rejected j \<Rightarrow> k2 j | UnknownReading \<Rightarrow> k3)"
  by (auto split: sum.splits option.splits prod.splits seal_reading.splits)

lemma keeps_evaluate: "keeps (evaluate_with_retry x e)"
  unfolding keeps_def evaluate_with_retry_def using evaluate_loop_world [of R] ticks trans by blast

lemma keeps_served: "keeps (served_step x key method body)"
proof -
  have "R w (w\<lparr>sw_log := snd (served_witness x (sw_log w) key method body)\<rparr>)" for w
  proof (rule served_witness_log [where P = "\<lambda>log. R w (w\<lparr>sw_log := log\<rparr>)"])
    show "R w (w\<lparr>sw_log := snd (log_check ok what fals log)\<rparr>)" if "R w (w\<lparr>sw_log := log\<rparr>)" for ok what fals log
      using trans [OF that, of "w\<lparr>sw_log := snd (log_check ok what fals log)\<rparr>"] logs [of "w\<lparr>sw_log := log\<rparr>" ok what fals] by simp
  qed (simp add: refl)
  then show ?thesis by (simp add: keeps_def served_step_def split: prod.splits) (metis snd_conv)
qed

lemmas keeps_step = keeps_rules keeps_cases keeps_evaluate keeps_served
  keeps_return keeps_lift keeps_check keeps_assert keeps_ask keeps_read keeps_artifact keeps_ensure_dir keeps_derived

lemma keeps_helpers:
  "keeps (load_pair x c file method)" "keeps (fetch_status x c key)" "keeps (load_prepared_seal x c n)" "keeps (load_container x c)"
  "keeps (verify x c container input)" "keeps (members x c)" "keeps (log_seal x c label v)" "keeps (pull_witness x c fkm)"
  "keeps (derive_receipts x c n rs fals)" "keeps (step2_reading x c seal vd)" "keeps (step2_attestations x c seal doc bp)"
  unfolding load_pair_def fetch_status_def load_prepared_seal_def load_container_def verify_def members_def log_seal_def pull_witness_def
    derive_receipts_def step2_reading_def step2_attestations_def Let_def case_prod_unfold
  by (auto intro!: keeps_step)

lemma keeps_step1: "keeps (step1_inner x c)"
  unfolding step1_inner_def step1_finish_def Let_def case_prod_unfold by (auto intro!: keeps_step keeps_helpers)

lemma keeps_step2: "keeps (step2_inner x c)"
  unfolding step2_inner_def Let_def by (auto intro!: keeps_step keeps_helpers)

lemma keeps_step3: "keeps (step3_inner x c)"
  unfolding step3_inner_def Let_def by (auto intro!: keeps_step keeps_helpers)

lemma keeps_step4: "keeps (step4a x c)" "keeps (step4b x c)"
  unfolding step4a_def step4a_read_def step4b_def Let_def by (auto intro!: keeps_step keeps_helpers)

lemma keeps_step5: "keeps (step5a x c s2)" "keeps (step5b x c s2)"
  unfolding step5a_def step5a_seal_def step5a_in_place_def step5b_def step5b_readings_def Let_def case_prod_unfold
  by (auto intro!: keeps_step keeps_helpers)

lemma keeps_step6: "keeps (step6_inner x c)"
  unfolding step6_inner_def Let_def case_prod_unfold by (auto intro!: keeps_step keeps_helpers)

lemma keeps_step7: "keeps (step7_method x c epoch root m)" "keeps (step7_inner x c)"
  unfolding step7_inner_def step7_method_def Let_def case_prod_unfold by (auto intro!: keeps_step keeps_helpers)

end

section \<open>A failed assertion stays failed\<close>

interpretation failing: step_relation "\<lambda>w w'. passing w' \<longrightarrow> passing w" c for c
  by unfold_locales (auto simp: passing_def)

section \<open>A run writes where its store writes\<close>

lemma log_write_wrote:
  "log_write d dir closing log fs = (r, fs') \<Longrightarrow> write_dir s = Some dir \<Longrightarrow> wrote d s fs fs'"
  unfolding log_write_def write_file_def wrote_def by (cases "dv_fails d (join dir (''step-'' @ show_nat (sl_n log) @ ''.log''))") auto

locale run_relation = step_relation +
  assumes relogs: "R w (w\<lparr>sw_log := l\<rparr>)"
begin

lemma harness_rel: "keeps m \<Longrightarrow> keeps (harness part m)"
  unfolding harness_def by (auto intro!: keeps_step)

lemma framed: "keeps m \<Longrightarrow> R w (snd (m (new_log x c n title w)))"
  using relogs trans unfolding keeps_def new_log_def by blast

lemma steps_rel:
  "R w (step1 x c w)" "R w (snd (step2 x c w))" "R w (step3 x c w)" "R w (step4 x c w)" "R w (step5 x c s2 w)" "R w (step6 x c w)" "R w (step7 x c w)"
proof -
  show "R w (snd (step2 x c w))"
  proof -
    obtain r w' where inner: "step2_inner x c (new_log x c 2 ''verify the container and the full-set check under the pinned reader policy P2'' w) = (r, w')"
      by fastforce
    then have "R w w'" using framed [OF keeps_step2] by (metis snd_conv)
    moreover have "R w' (snd (step_assert False what fals w'))" for what fals
      using keeps_assert by (simp add: keeps_def)
    ultimately show ?thesis
      using inner by (cases r) (auto simp: step2_def intro: trans)
  qed
qed (simp_all add: step1_def step3_def step4_def step5_def step6_def step7_def framed keeps_step1 keeps_step3 keeps_step4
  keeps_step5 keeps_step6 keeps_step7 harness_rel keeps_bind del: step_all.simps add: step_all.simps)

lemma keep_log_rel: "keeps (keep_log c closing logs)"
  unfolding keeps_def keep_log_def
  by (auto intro!: writes intro: log_write_wrote simp: refl split: option.splits prod.splits sum.splits)

lemma run_kept_rel:
  assumes "\<And>s w. s \<in> set ss \<Longrightarrow> R w (s w)"
  shows "keeps (run_kept c closing ss logs)"
  using assms
proof (induction ss arbitrary: logs)
  case (Cons s ss)
  have "keeps (step_bind (keep_log c closing logs) (run_kept c closing ss))"
    using Cons by (intro keeps_bind keep_log_rel) simp_all
  then show ?case using Cons.prems trans unfolding keeps_def by simp blast
qed simp

lemma run_rel: "R w (snd (run x c which closing w))"
proof -
  have rest: "keeps (\<lambda>w. case step2 x c w of (s2, w2) \<Rightarrow> step_bind (keep_log c closing logs)
      (run_kept c closing [step3 x c, step4 x c, step5 x c s2, step6 x c, step7 x c]) w2)" for logs
  proof -
    let ?rest = "\<lambda>s2. step_bind (keep_log c closing logs) (run_kept c closing [step3 x c, step4 x c, step5 x c s2, step6 x c, step7 x c])"
    have "keeps (?rest s2)" for s2
      by (intro keeps_bind keep_log_rel run_kept_rel) (auto simp: steps_rel)
    then have "R w (snd (?rest (fst (step2 x c w)) (snd (step2 x c w))))" for w
      using trans [OF steps_rel(2)] unfolding keeps_def by blast
    then show ?thesis by (simp add: keeps_def case_prod_unfold)
  qed
  have "keeps (run x c which closing)"
    unfolding run_def by (rule keeps_bind [OF run_kept_rel rest]) (auto simp: steps_rel split: if_splits)
  then show ?thesis by (simp add: keeps_def)
qed

end

text \<open>What lies below \<open>g\<close> is as it was.\<close>

lemma path_starts_append: "path_starts_with (p @ q) g \<Longrightarrow> path_starts_with p g \<or> path_starts_with g p"
proof (cases "length g \<le> length p")
  case False
  assume "path_starts_with (p @ q) g"
  then have "take (length p) g = take (length p) (take (length g) (p @ q))" by (simp add: path_starts_with_def)
  also have "\<dots> = p" using False by (simp add: min_def)
  finally show ?thesis by (simp add: path_starts_with_def)
qed (simp add: path_starts_with_def)

definition untouched :: "path \<Rightarrow> files \<Rightarrow> files \<Rightarrow> bool" where
  "untouched g fs fs' \<longleftrightarrow> (\<forall>p. path_starts_with p g \<longrightarrow> fs' p = fs p)"

definition writes_outside :: "device \<Rightarrow> run_store \<Rightarrow> path \<Rightarrow> bool" where
  "writes_outside d s g \<longleftrightarrow> (\<forall>dir file. write_dir s = Some dir \<longrightarrow> \<not> path_starts_with (dv_place d (join dir file)) g)"

text \<open>The relation holds of a store that writes outside \<open>g\<close>; for any other store it says nothing.\<close>

definition spares :: "path \<Rightarrow> seal_ctx \<Rightarrow> step_world \<Rightarrow> step_world \<Rightarrow> bool" where
  "spares g c w w' \<longleftrightarrow> (writes_outside (cx_device c) (cx_store c) g \<longrightarrow> untouched g (sw_fs w) (sw_fs w'))"

interpretation sparing: run_relation "spares g c" c for g c
  by unfold_locales (auto simp: spares_def untouched_def wrote_def writes_outside_def)

end
