(* ===== verification/E2e_Verdict.thy ===== *)
theory E2e_Verdict
  imports E2e_Keeps
begin

text \<open>
  What the verdict of a seal step means (\<open>crates/aqua-timestamp-e2e/src/seal/steps.rs\<close>): a step that passes has
  seen, in the SDK's own answers, each of the facts it is there to check; the evaluator is retried for a bounded
  time; and what step 7 counts.

  \<open>good m Q\<close> says that when \<open>m\<close> ends with a passing log, the log passed before, and if \<open>m\<close> returned a value, \<open>Q\<close>
  holds of the world before, the value and the world after.  There is one rule per action, which gives the
  strongest such \<open>Q\<close>; a step's own statement follows from what the rules compute for its body.
\<close>

section \<open>Rules\<close>

definition good :: "'a step \<Rightarrow> (step_world \<Rightarrow> 'a \<Rightarrow> step_world \<Rightarrow> bool) \<Rightarrow> bool" where
  "good m Q \<longleftrightarrow> (\<forall>w r w'. m w = (r, w') \<longrightarrow> passing w' \<longrightarrow> passing w \<and> (\<forall>a. r = Inr a \<longrightarrow> Q w a w'))"

lemma goodD: "good m Q \<Longrightarrow> m w = (Inr a, w') \<Longrightarrow> passing w' \<Longrightarrow> Q w a w'"
  by (simp add: good_def)

lemma good_weaken: "good m P \<Longrightarrow> (\<And>w a w'. P w a w' \<Longrightarrow> Q w a w') \<Longrightarrow> good m Q"
  by (auto simp: good_def)

text \<open>The file system after some writes of the store.\<close>

definition later :: "seal_ctx \<Rightarrow> files \<Rightarrow> files \<Rightarrow> bool" where
  "later c = (wrote (cx_device c) (cx_store c))\<^sup>*\<^sup>*"

lemma later_refl [simp]: "later c fs fs"
  by (simp add: later_def)

lemma later_trans: "later c a b \<Longrightarrow> later c b d \<Longrightarrow> later c a d"
  by (simp add: later_def)

lemma later_wrote: "wrote (cx_device c) (cx_store c) a b \<Longrightarrow> later c a b"
  by (simp add: later_def)

lemma later_none: "later c a b \<Longrightarrow> write_dir (cx_store c) = None \<Longrightarrow> b = a"
  unfolding later_def by (induction rule: rtranclp_induct) (auto simp: wrote_def)

interpretation later_rel: run_relation "\<lambda>w w'. later c (sw_fs w) (sw_fs w')" c for c
  by unfold_locales (auto intro: later_trans later_wrote)

definition file_text :: "seal_ctx \<Rightarrow> files \<Rightarrow> string \<Rightarrow> string option" where
  "file_text c fs name = (case read_path (cx_device c) fs (join (st_run (cx_store c)) name) of Contents t \<Rightarrow> Some t | _ \<Rightarrow> None)"

text \<open>The actions that only touch the log or the clock leave the files as they are.\<close>

definition same_files :: "step_world \<Rightarrow> step_world \<Rightarrow> bool" where
  "same_files w w' \<longleftrightarrow> sw_fs w' = sw_fs w"

lemma good_return: "good (step_return a) (\<lambda>w r w'. r = a \<and> w' = w)"
  by (simp add: good_def step_return_def)

lemma good_lift: "good (step_lift s) (\<lambda>w r w'. s = Inr r \<and> w' = w)"
  by (simp add: good_def step_lift_def)

lemma good_bind:
  assumes "good m P" "\<And>a. good (f a) (R a)"
  shows "good (step_bind m f) (\<lambda>w r w''. \<exists>a w'. P w a w' \<and> R a w' r w'')"
  unfolding good_def
proof (intro allI impI)
  fix w r w'' assume run: "step_bind m f w = (r, w'')" "passing w''"
  obtain s w' where m: "m w = (s, w')" by fastforce
  show "passing w \<and> (\<forall>b. r = Inr b \<longrightarrow> (\<exists>a w'. P w a w' \<and> R a w' b w''))"
  proof (cases s)
    case (Inl e)
    then show ?thesis using run m assms(1) by (auto simp: step_bind_def good_def)
  next
    case (Inr a)
    then have "f a w' = (r, w'')" using run m by (simp add: step_bind_def)
    then have "passing w'" "\<forall>b. r = Inr b \<longrightarrow> R a w' b w''"
      using assms(2) [of a] run(2) unfolding good_def by blast+
    then show ?thesis using m Inr assms(1) unfolding good_def by blast
  qed
qed

lemma good_assert: "good (step_assert ok what fals) (\<lambda>w r w'. ok \<and> same_files w w')"
  by (auto simp: good_def step_assert_def step_bind_def step_check_def step_return_def passing_def same_files_def)

lemma good_check: "good (step_check ok what fals) (\<lambda>w r w'. ok \<and> r \<and> same_files w w')"
  by (auto simp: good_def step_check_def passing_def same_files_def)

lemma good_try: "good m Q \<Longrightarrow> good (step_try m) (\<lambda>w r w'. \<forall>a. r = Inr a \<longrightarrow> Q w a w')"
  unfolding good_def step_try_def by (simp split: prod.splits)

lemma good_ask: "good (step_ask f) (\<lambda>w a w'. (\<exists>n. f n = Inr a) \<and> same_files w w')"
  by (auto simp: good_def step_ask_def passing_def same_files_def)

lemma good_read: "good (store_read c name) (\<lambda>w t w'. file_text c (sw_fs w) name = Some t \<and> w' = w)"
  by (auto simp: good_def store_read_def file_text_def split: entry_state.splits)

text \<open>An action of which only its effect on the files is kept.\<close>

lemma good_later: "failing.keeps m \<Longrightarrow> later_rel.keeps c m \<Longrightarrow> good m (\<lambda>w a w'. later c (sw_fs w) (sw_fs w'))"
  unfolding good_def later_rel.keeps_def failing.keeps_def by (metis snd_conv)

text \<open>In a replay, what a step derives is what the run persisted.\<close>

definition reproduced :: "seal_ctx \<Rightarrow> files \<Rightarrow> string \<Rightarrow> string \<Rightarrow> bool" where
  "reproduced c fs name b \<longleftrightarrow> (\<forall>out. st_mode (cx_store c) = Replay out \<longrightarrow> file_text c fs name = Some b)"

lemma good_derived: "good (store_derived c name b fals) (\<lambda>w a w'. reproduced c (sw_fs w) name b \<and> later c (sw_fs w) (sw_fs w'))"
  unfolding good_def
proof (intro allI impI)
  fix w r w' assume run: "store_derived c name b fals w = (r, w')" and pass: "passing w'"
  have "passing w" "later c (sw_fs w) (sw_fs w')"
    using run pass failing.keeps_derived [of c name b fals] later_rel.keeps_derived [of c name b fals]
    unfolding failing.keeps_def later_rel.keeps_def by (metis snd_conv)+
  moreover have "reproduced c (sw_fs w) name b"
    unfolding reproduced_def
  proof (intro allI impI)
    fix out assume mode: "st_mode (cx_store c) = Replay out"
    show "file_text c (sw_fs w) name = Some b"
      using run pass mode
      by (cases "read_path (cx_device c) (sw_fs w) (join (st_run (cx_store c)) name)")
        (auto simp: store_derived_def derived_def file_text_def passing_def Let_def split: prod.splits)
  qed
  ultimately show "passing w \<and> (\<forall>a. r = Inr a \<longrightarrow> reproduced c (sw_fs w) name b \<and> later c (sw_fs w) (sw_fs w'))" by blast
qed

lemma good_artifact: "good (store_artifact c name b) (\<lambda>w a w'. later c (sw_fs w) (sw_fs w'))"
  by (intro good_later failing.keeps_artifact later_rel.keeps_artifact)

lemma good_cases:
  "(\<And>a. good (f a) (P a)) \<Longrightarrow> (\<And>b. good (g b) (R b)) \<Longrightarrow>
     good (case r of Inl a \<Rightarrow> f a | Inr b \<Rightarrow> g b) (\<lambda>w z w'. (\<exists>a. r = Inl a \<and> P a w z w') \<or> (\<exists>b. r = Inr b \<and> R b w z w'))"
  "good m P' \<Longrightarrow> (\<And>b. good (h b) (R' b)) \<Longrightarrow>
     good (case oo of None \<Rightarrow> m | Some b \<Rightarrow> h b) (\<lambda>w z w'. (oo = None \<and> P' w z w') \<or> (\<exists>b. oo = Some b \<and> R' b w z w'))"
  "good m1 P1 \<Longrightarrow> good m2 P2 \<Longrightarrow> good (if b then m1 else m2) (\<lambda>w z w'. (b \<and> P1 w z w') \<or> (\<not> b \<and> P2 w z w'))"
  "(\<And>s. good (k1 s) (Q1 s)) \<Longrightarrow> (\<And>s. good (k2 s) (Q2 s)) \<Longrightarrow> good k3 Q3 \<Longrightarrow>
     good (case rd of Seal s \<Rightarrow> k1 s | Rejected j \<Rightarrow> k2 j | UnknownReading \<Rightarrow> k3)
       (\<lambda>w z w'. (\<exists>s. rd = Seal s \<and> Q1 s w z w') \<or> (\<exists>j. rd = Rejected j \<and> Q2 j w z w') \<or> (rd = UnknownReading \<and> Q3 w z w'))"
  by (auto simp: good_def split: sum.splits option.splits seal_reading.splits)

lemma step_all_append: "step_all (ms @ ns) = step_bind (step_all ms) (\<lambda>_. step_all ns)"
proof (induction ms)
  case (Cons m ms)
  then show ?case by (auto simp: step_bind_def split: prod.splits sum.splits)
qed (auto simp: step_bind_def step_return_def)

lemma good_all_assert:
  "good (step_all (map (\<lambda>a. step_assert (P a) (what a) (fals a)) as)) (\<lambda>w r w'. (\<forall>a\<in>set as. P a) \<and> same_files w w')"
proof (induction as)
  case (Cons a as)
  show ?case
    unfolding list.map step_all.simps
    by (rule good_weaken [OF good_bind [OF good_assert Cons.IH]]) (auto simp: same_files_def)
qed (simp add: good_def step_return_def same_files_def)

lemma good_log_seal: "good (log_seal x c label v) (\<lambda>w a w'. later c (sw_fs w) (sw_fs w'))"
  by (intro good_later failing.keeps_helpers later_rel.keeps_helpers)

lemma good_receipts: "good (derive_receipts x c n rs fals) (\<lambda>w a w'. later c (sw_fs w) (sw_fs w'))"
  by (intro good_later failing.keeps_helpers later_rel.keeps_helpers)

lemma good_load_container: "good (load_container x c) (\<lambda>w t w'. \<exists>s. file_text c (sw_fs w) CONTAINER_1 = Some s \<and> tree_from_str x s = Inr t \<and> w' = w)"
  unfolding load_container_def
  by (rule good_weaken [OF good_bind [OF good_read good_lift]]) auto

lemma good_load_prepared: "good (load_prepared_seal x c n) (\<lambda>w p w'. \<exists>s. file_text c (sw_fs w) (prepared_file n) = Some s \<and> prepared_from_str x s = Inr p \<and> w' = w)"
  unfolding load_prepared_seal_def
  by (rule good_weaken [OF good_bind [OF good_read good_lift]]) auto

lemma good_load_pair:
  "good (load_pair x c name m) (\<lambda>w p w'. \<exists>s f. file_text c (sw_fs w) name = Some s \<and> parse_witness x m s = Inr f \<and> pair_of x f = Inr p \<and> w' = w)"
  unfolding load_pair_def
  by (rule good_weaken [OF good_bind [OF good_read good_lift]]) auto

lemma good_verify:
  "good (verify x c t i) (\<lambda>w r w'. (\<exists>n. verify_seal_container x n t i (catalogue (cx_policy c)) = Inr r) \<and> same_files w w')"
  unfolding verify_def by (rule good_ask)

lemma good_members: "good (members x c) (\<lambda>w ms w'. admit_members x (rs_members (cx_state c)) = Inr ms \<and> w' = w)"
  unfolding members_def by (rule good_weaken [OF good_lift]) simp

lemmas good_rules = good_bind good_return good_lift good_assert good_check good_ask good_read good_cases good_all_assert
  good_artifact good_derived good_try good_log_seal good_receipts good_load_container good_load_prepared good_load_pair good_verify good_members

section \<open>Step 2\<close>

text \<open>What a reading has to show in step 2, and the attestations under one set of pins.\<close>

definition fully_verified :: "verified_seal \<Rightarrow> full_set_verdict \<Rightarrow> bool" where
  "fully_verified seal v \<longleftrightarrow> vs_status seal = SealVerified \<and> vs_sealer_admitted seal
     \<and> length (vs_acceptance seal) = 2 \<and> (\<forall>w\<in>set (vs_acceptance seal). wr_admission w = Admitted)
     \<and> (\<exists>ts. vs_time seal = TimeAccepted ts \<and> length ts = 2)
     \<and> fv_headline v = HeadlineVerified \<and> fv_completeness v = DimPass \<and> fv_integrity v = DimPass \<and> fv_non_suppression v = DimPass
     \<and> (\<forall>f\<in>set (fv_findings v). fi_code f \<noteq> ''seal_extra_revisions'')"

definition attested_by_server :: "'z step_api_scheme \<Rightarrow> seal_ctx \<Rightarrow> verified_seal \<Rightarrow> string \<Rightarrow> attestation_basis \<times> did list \<Rightarrow> bool" where
  "attested_by_server x c seal doc = (\<lambda>(basis, pins).
     let r = read_seal_attestations x seal doc pins
     in length (sa_witnesses r) = 2 \<and> sa_unmatched r = [] \<and> sa_findings r = [] \<and> sa_rejected r = None
        \<and> (\<forall>w\<in>set (sa_witnesses r). map ar_verdict (wa_attestations w)
             = [AttVerified (rs_server_did (cx_state c)) (rp_sealer_signature_type (cx_policy c)) basis]))"

lemma all_admitted: "length xs = n \<Longrightarrow> length (filter P xs) = n \<Longrightarrow> \<forall>x\<in>set xs. P x"
  by (metis filter_id_conv length_filter_less less_irrefl)

lemma good_reading: "good (step2_reading x c seal v) (\<lambda>w a w'. fully_verified seal v \<and> same_files w w')"
  unfolding step2_reading_def Let_def step_all.simps
  by (rule good_weaken, (rule good_rules)+)
    (auto simp: same_files_def fully_verified_def list_ex_iff dest: all_admitted split: seal_time.splits)

lemma good_attestations: "good (step2_attestations x c seal doc bp) (\<lambda>w a w'. attested_by_server x c seal doc bp \<and> same_files w w')"
  unfolding step2_attestations_def case_prod_unfold Let_def step_all.simps step_all_append append_Cons append_Nil
  by (rule good_weaken, (rule good_rules)+) (auto simp: same_files_def attested_by_server_def case_prod_unfold Let_def)

lemmas good_step2_rules = good_rules good_reading good_attestations

lemma new_log_fs [simp]: "sw_fs (new_log x c n title w) = sw_fs w" "passing (new_log x c n title w)"
  by (simp_all add: new_log_def passing_def log_passed_def step_log_new_def)

lemma passing_assert_False [simp]: "\<not> passing (snd (step_assert False what fals w))"
  by (simp add: step_assert_def step_bind_def step_check_def step_return_def passing_def)

text \<open>What step 2 sees on the way: the container of the run directory, read by the SDK under the policy.\<close>

definition read_container :: "'z step_api_scheme \<Rightarrow> seal_ctx \<Rightarrow> files \<Rightarrow> witness_input \<Rightarrow> verified_seal \<Rightarrow> bool" where
  "read_container x c fs input seal \<longleftrightarrow> (\<exists>s tree n. file_text c fs CONTAINER_1 = Some s \<and> tree_from_str x s = Inr tree
     \<and> verify_seal_container x n tree input (catalogue (cx_policy c)) = Inr (Seal seal))"

definition full_set_of :: "'z step_api_scheme \<Rightarrow> seal_ctx \<Rightarrow> seal_reading \<Rightarrow> string list \<Rightarrow> full_set_verdict \<Rightarrow> bool" where
  "full_set_of x c reading receipts v \<longleftrightarrow> (\<exists>ms. admit_members x (rs_members (cx_state c)) = Inr ms \<and> v = full_set_check x (package_of x reading ms receipts))"

text \<open>What step 2 checks; the reading it hands to step 5 is that of the container.\<close>

definition seal_verified :: "'z step_api_scheme \<Rightarrow> seal_ctx \<Rightarrow> files \<Rightarrow> step2_out option \<Rightarrow> bool" where
  "seal_verified x c fs out \<longleftrightarrow> (\<exists>seal receipts v doc fs'. out = Some \<lparr>s2_seal = seal, s2_stable = stable x seal\<rparr>
     \<and> read_container x c fs (dual (cx_policy c)) seal
     \<and> receipts_for x (vs_anchor seal) (fst (rs_heads (cx_state c))) (fst (rs_leaves (cx_state c))) (rs_tips (cx_state c)) (fst (rs_nonces (cx_state c))) = Inr receipts
     \<and> full_set_of x c (Seal seal) receipts v \<and> fully_verified seal v
     \<and> later c fs fs' \<and> file_text c fs' ATTESTATIONS_1 = Some doc
     \<and> attested_by_server x c seal doc (Unpinned, []) \<and> attested_by_server x c seal doc (Pinned, [rs_server_did (cx_state c)])
     \<and> (\<forall>want. cx_expect_server_did c = Some want \<longrightarrow> rs_server_did (cx_state c) = want))"

lemma good_step2: "good (step2_inner x c) (\<lambda>w out w'. seal_verified x c (sw_fs w) out)"
  unfolding step2_inner_def seal_verified_def Let_def list.map step_all.simps
  by (rule good_weaken, (rule good_step2_rules)+)
    (clarsimp simp: same_files_def read_container_def full_set_of_def, (elim disjE exE conjE; simp), (frule (1) later_trans, blast)+)

text \<open>
  Step 2 passes only on a verified seal.  When its log passes, the container of the run directory was read
  by the SDK under the pinned dual policy as a seal whose status is verified, whose sealer is admitted, with two
  witnesses, both admitted, and an accepted time of both; the full-set check over the admitted members and the
  receipts is verified in all three dimensions; the attestation document names the server as the attester of
  both witnesses, pinned and unpinned, and nothing else; and the expected server DID, if one is given, is the
  one of the run.
\<close>

theorem step2_pass_means:
  assumes "step2 x c w = (out, w')" and "passing w'"
  shows "seal_verified x c (sw_fs w) out"
proof -
  let ?w = "new_log x c 2 ''verify the container and the full-set check under the pinned reader policy P2'' w"
  have inner: "step2_inner x c ?w = (Inr out, w')"
    using assms by (auto simp: step2_def split: prod.splits sum.splits)
  show ?thesis
    using goodD [OF good_step2 inner assms(2)] unfolding new_log_fs .
qed

section \<open>Steps 3 and 4\<close>

lemma good_harness: "good m Q \<Longrightarrow> good (harness part m) Q"
  unfolding harness_def by (rule good_weaken, (rule good_rules | assumption)+) auto

lemma harness_ends: "fst (harness part m w) = Inr ()"
  by (auto simp: harness_def step_bind_def step_try_def step_assert_def step_check_def step_return_def split: prod.splits sum.splits)

lemma framed_pass:
  assumes "good m Q" "passing (snd (harness part m (new_log x c n title w)))"
  shows "Q (new_log x c n title w) () (snd (harness part m (new_log x c n title w)))"
  using goodD [OF good_harness [OF assms(1)] _ assms(2), of part] harness_ends [of part m] by (metis prod.collapse)

lemma not_admitted_iff: "(case ad of None \<Rightarrow> False | Some a \<Rightarrow> (case a of NotAdmitted _ \<Rightarrow> True | _ \<Rightarrow> False)) \<longleftrightarrow> (\<exists>reason. ad = Some (NotAdmitted reason))"
  by (auto split: option.splits witness_admission.splits)

lemma not_admitted_iff2: "(case ad of Some (NotAdmitted _) \<Rightarrow> True | _ \<Rightarrow> False) \<longleftrightarrow> (\<exists>reason. ad = Some (NotAdmitted reason))"
  by (auto split: option.splits witness_admission.splits)

text \<open>A witness of the run directory, with the link of its timestamp object.\<close>

definition pulled_witness :: "'z step_api_scheme \<Rightarrow> seal_ctx \<Rightarrow> files \<Rightarrow> string \<Rightarrow> anchor_method \<Rightarrow> served_pair \<Rightarrow> revision_link \<Rightarrow> bool" where
  "pulled_witness x c fs name m pair t \<longleftrightarrow> (\<exists>s f. file_text c fs name = Some s \<and> parse_witness x m s = Inr f \<and> pair_of x f = Inr pair)
     \<and> link_parse x (ft_object_key (sp_fetched pair)) = Inr t"

text \<open>What step 3 checks.\<close>

definition verified_without_evm :: "'z step_api_scheme \<Rightarrow> seal_ctx \<Rightarrow> files \<Rightarrow> bool" where
  "verified_without_evm x c fs \<longleftrightarrow> (\<exists>seal q tq e te receipts v reason. read_container x c fs (tsa_only (cx_policy c)) seal \<and> vs_status seal = SealVerified
     \<and> pulled_witness x c fs ''s1-qtsa.json'' Qtsa q tq \<and> pulled_witness x c fs ''s1-evm.json'' Evm e te
     \<and> admission_of seal tq = Some Admitted \<and> admission_of seal te = Some (NotAdmitted reason)
     \<and> (\<exists>f\<in>set (vs_acceptance_findings seal). f \<noteq> [] \<and> hd f = ''trust_input_not_admitted'')
     \<and> full_set_of x c (Seal seal) receipts v \<and> fv_headline v = HeadlineVerified)"

lemma good_step3: "good (step3_inner x c) (\<lambda>w a w'. verified_without_evm x c (sw_fs w))"
  unfolding step3_inner_def verified_without_evm_def pulled_witness_def Let_def step_all.simps not_admitted_iff list_ex_iff read_container_def full_set_of_def
  by (rule good_weaken, (rule good_rules)+) (clarsimp simp: same_files_def, blast)

text \<open>
  Step 3 passes only if the reader that accepts no EVM anchor still verifies the seal by its qualified
  timestamp: the same container reads as a verified seal under the policy without EVM, the qTSA witness pulled
  for it is admitted, the EVM witness is not, the finding is listed, and the set is verified.
\<close>

theorem step3_pass_means:
  assumes "passing (step3 x c w)"
  shows "verified_without_evm x c (sw_fs w)"
  using framed_pass [OF good_step3 assms [unfolded step3_def]] unfolding new_log_fs .

lemma good_evaluate:
  "good (evaluate_with_retry x e) (\<lambda>w r w'. (\<exists>n. evaluate_seal_witnesses x n (ev_prepared e) (ev_head e) (ev_did e) (ev_witnesses e) (ev_requirement e) = Inr r)
     \<and> same_files w w')"
proof -
  have "evaluate_loop x e deadline w = (r, w') \<Longrightarrow> sw_log w' = sw_log w \<and> sw_fs w' = sw_fs w
      \<and> (\<exists>n. evaluate_seal_witnesses x n (ev_prepared e) (ev_head e) (ev_did e) (ev_witnesses e) (ev_requirement e) = r)" for deadline w r w'
  proof (induction x e deadline w arbitrary: r w' rule: evaluate_loop.induct)
    case (1 x e deadline w)
    obtain s w1 where once: "evaluate_once x e w = (s, w1)" by fastforce
    then have w1: "sw_log w1 = sw_log w" "sw_fs w1 = sw_fs w"
      "s = evaluate_seal_witnesses x (sw_moment w) (ev_prepared e) (ev_head e) (ev_did e) (ev_witnesses e) (ev_requirement e)"
      by (auto simp: evaluate_once_def Let_def)
    show ?case
    proof (cases "\<exists>refusal. s = Inr (Inl refusal) \<and> retryable refusal \<and> sw_now w1 < deadline")
      case True
      then obtain refusal where s: "s = Inr (Inl refusal)" "retryable refusal" "sw_now w1 < deadline" by blast
      then have "evaluate_loop x e deadline (sleep_until x deadline w1) = (r, w')"
        using "1.prems" once by (subst (asm) evaluate_loop.simps) simp
      from "1.IH" [OF once [unfolded s(1), symmetric] refl refl _ this] s w1 show ?thesis
        by (auto simp: sleep_until_def)
    next
      case False
      then have "(r, w') = (s, w1)"
        using "1.prems" once by (subst (asm) evaluate_loop.simps) (auto split: sum.splits if_splits)
      then show ?thesis using w1 by auto
    qed
  qed
  then show ?thesis
    by (fastforce simp: good_def evaluate_with_retry_def passing_def same_files_def)
qed

definition holds_no_files :: "'z step_api_scheme \<Rightarrow> seal_ctx \<Rightarrow> files \<Rightarrow> string \<Rightarrow> bool" where
  "holds_no_files x c fs sub \<longleftrightarrow> (let p = join (st_run (cx_store c)) sub
     in read_path (cx_device c) fs p = entry_state.Missing \<or> list_dir x fs p = Inr [])"

lemma sort_Nil_iff: "sort xs = [] \<longleftrightarrow> xs = []"
  by (metis length_0_conv length_sort)

lemma good_list: "good (store_list x c sub) (\<lambda>w names w'. (names = [] \<longrightarrow> holds_no_files x c (sw_fs w) sub) \<and> w' = w)"
  by (auto simp: good_def store_list_def holds_no_files_def Let_def sort_Nil_iff)

lemma good_ensure_dir: "good (store_ensure_dir c sub) (\<lambda>w a w'. later c (sw_fs w) (sw_fs w'))"
  by (intro good_later failing.keeps_ensure_dir later_rel.keeps_ensure_dir)

lemmas good_step4_rules = good_rules good_evaluate good_list good_ensure_dir

text \<open>The second seal of step 4: made of the one qTSA witness, and verified by the reader that takes only those.\<close>

definition second_seal :: "'z step_api_scheme \<Rightarrow> seal_ctx \<Rightarrow> files \<Rightarrow> seal_output \<Rightarrow> verified_seal \<Rightarrow> bool" where
  "second_seal x c fs out seal \<longleftrightarrow> (\<exists>s f pair prepared n accepted m receipts v.
     file_text c fs ''s2-qtsa.json'' = Some s \<and> parse_witness x Qtsa s = Inr f \<and> pair_of x f = Inr pair
     \<and> evaluate_seal_witnesses x n prepared (snd (rs_heads (cx_state c))) (rs_did (cx_state c)) [(sp_object pair, sp_signature pair)] WithoutEvm
         = Inr (Inr accepted)
     \<and> map ak_kind (ac_witnesses accepted) = [AnchorTsa] \<and> finish_seal x prepared accepted = Inr out \<and> length (tr_revisions (so_container out)) = 5
     \<and> verify_seal_container x m (so_container out) (tsa_only (cx_policy c)) (catalogue (cx_policy c)) = Inr (Seal seal)
     \<and> length (vs_witnesses seal) = 1 \<and> vs_status seal = SealVerified \<and> full_set_of x c (Seal seal) receipts v \<and> fv_headline v = HeadlineVerified)"

lemma good_step4a_read:
  "good (step4a_read x c tree) (\<lambda>w a w'. \<exists>m seal receipts v. verify_seal_container x m tree (tsa_only (cx_policy c)) (catalogue (cx_policy c)) = Inr (Seal seal)
     \<and> length (vs_witnesses seal) = 1 \<and> vs_status seal = SealVerified \<and> full_set_of x c (Seal seal) receipts v \<and> fv_headline v = HeadlineVerified)"
  unfolding step4a_read_def Let_def step_all.simps full_set_of_def
  by (rule good_weaken, (rule good_rules)+) (clarsimp simp: same_files_def, blast)

definition sealed_without_evm :: "'z step_api_scheme \<Rightarrow> seal_ctx \<Rightarrow> files \<Rightarrow> bool" where
  "sealed_without_evm x c fs \<longleftrightarrow> (\<exists>out seal container doc fs'. second_seal x c fs out seal \<and> tree_to_string x (so_container out) = Inr container
     \<and> attestations_json x (so_attestations out) = Inr doc
     \<and> reproduced c fs CONTAINER_2 container \<and> later c fs fs' \<and> reproduced c fs' ATTESTATIONS_2 doc)"

lemma good_step4a: "good (step4a x c) (\<lambda>w a w'. sealed_without_evm x c (sw_fs w))"
  unfolding step4a_def Let_def second_seal_def sealed_without_evm_def
  by (rule good_weaken, (rule good_step4_rules good_step4a_read)+) (clarsimp simp: same_files_def, intro exI conjI, assumption+, simp, assumption+)

text \<open>With what an action does to the files.\<close>

lemma good_and_later: "good m Q \<Longrightarrow> later_rel.keeps c m \<Longrightarrow> good m (\<lambda>w a w'. Q w a w' \<and> later c (sw_fs w) (sw_fs w'))"
  unfolding good_def later_rel.keeps_def by (metis snd_conv)

text \<open>The four probes: a seal without a timestamp is refused, and no container was written.\<close>

definition without_witness_refused :: "'z step_api_scheme \<Rightarrow> seal_ctx \<Rightarrow> bool" where
  "without_witness_refused x c \<longleftrightarrow> requirement_without_kinds x = Inl SealNoWitness
     \<and> (\<exists>n prepared. evaluate_seal_witnesses x n prepared (snd (rs_heads (cx_state c))) (rs_did (cx_state c)) [] WithoutEvm = Inr (Inl NoWitness))
     \<and> (\<exists>n head key. build_seal_container x n head key WithoutEvm = Inl (SealRefused NoWitness))"

lemma good_step4b:
  "good (step4b x c) (\<lambda>w a w'. without_witness_refused x c \<and> (\<exists>fs. later c (sw_fs w) fs \<and> holds_no_files x c fs ''step4b''))"
  unfolding step4b_def Let_def without_witness_refused_def
  by (rule good_weaken, (rule good_step4_rules)+) (clarsimp simp: same_files_def, blast)

text \<open>Two parts under one log: each is good from the world the part before it left.\<close>

lemma good_parts:
  assumes "good m1 P" "good m2 Q"
  shows "good (step_all [harness p1 m1, harness p2 m2]) (\<lambda>w a w'. \<exists>w1. P w () w1 \<and> Q w1 () w')"
  unfolding step_all.simps
  by (rule good_weaken, (rule good_bind good_return good_harness [OF assms(1)] good_harness [OF assms(2)])+) auto

lemma parts_end: "fst (step_all [harness p1 m1, harness p2 m2] w) = Inr ()"
proof -
  obtain w1 where w1: "harness p1 m1 w = (Inr (), w1)" using harness_ends by (metis prod.collapse)
  obtain w2 where "harness p2 m2 w1 = (Inr (), w2)" using harness_ends by (metis prod.collapse)
  with w1 show ?thesis by (simp add: step_bind_def step_return_def)
qed

lemma parts_pass:
  assumes "good m1 P" "good m2 Q" "passing (snd (step_all [harness p1 m1, harness p2 m2] w))"
  shows "\<exists>w1. P w () w1 \<and> Q w1 () (snd (step_all [harness p1 m1, harness p2 m2] w))"
  using goodD [OF good_parts [OF assms(1,2)] _ assms(3)] parts_end by (metis prod.collapse)

text \<open>
  Step 4 passes only if a seal can be made of the qualified timestamp alone and none can be made without a
  witness.  The second seal is made of the one qTSA witness, links exactly one, and verifies under the policy
  without EVM; in a replay its bytes are those the run persisted; each way of asking for a seal without a
  witness is refused, and no container was written by the refused one.
\<close>

theorem step4_pass_means:
  assumes "passing (step4 x c w)"
  shows "sealed_without_evm x c (sw_fs w) \<and> without_witness_refused x c \<and> (\<exists>fs. later c (sw_fs w) fs \<and> holds_no_files x c fs ''step4b'')"
  using parts_pass [OF good_and_later [OF good_step4a later_rel.keeps_step4(1)] good_step4b assms [unfolded step4_def]]
  unfolding new_log_fs by (blast intro: later_trans)

section \<open>Steps 5 and 6\<close>

text \<open>The reading of the relinked container, and of the one flipped in place.\<close>

definition tamper_detected :: "'z step_api_scheme \<Rightarrow> seal_ctx \<Rightarrow> relinked_container \<Rightarrow> verified_seal \<Rightarrow> full_set_verdict \<Rightarrow> bool" where
  "tamper_detected x c rl seal v \<longleftrightarrow> (\<exists>reason. admission_of seal (rl_flipped_link rl) = Some (AdmissionFailed reason) \<and> reason \<noteq> [])
     \<and> vs_status seal = SealNotChecked \<and> fv_integrity v = DimNotChecked \<and> fv_headline v = HeadlinePartiallyVerified
     \<and> (\<exists>f\<in>set (fv_findings v). fi_code f = ''seal_witness_failed'' \<and> fi_args f = [link_text x (rl_anchor_link rl), link_text x (rl_flipped_link rl)])
     \<and> \<not> handover_passes x seal (rs_did (cx_state c)) \<and> fv_completeness v \<noteq> DimFail \<and> fv_non_suppression v \<noteq> DimFail"

lemma failed_iff: "(case ad of None \<Rightarrow> False | Some a \<Rightarrow> (case a of AdmissionFailed r \<Rightarrow> r \<noteq> [] | _ \<Rightarrow> False)) \<longleftrightarrow> (\<exists>reason. ad = Some (AdmissionFailed reason) \<and> reason \<noteq> [])"
  by (auto split: option.splits witness_admission.splits)

lemma good_step5a_seal: "good (step5a_seal x c rl seal v) (\<lambda>w a w'. tamper_detected x c rl seal v)"
  unfolding step5a_seal_def Let_def step_all.simps tamper_detected_def failed_iff list_ex_iff
  by (rule good_weaken, (rule good_rules)+) (clarsimp simp: same_files_def, blast)

definition in_place_not_verified :: "'z step_api_scheme \<Rightarrow> seal_ctx \<Rightarrow> aqua_tree \<Rightarrow> bool" where
  "in_place_not_verified x c tree \<longleftrightarrow> (\<exists>n reading receipts v. verify_seal_container x n tree (dual (cx_policy c)) (catalogue (cx_policy c)) = Inr reading
     \<and> reading_status x reading \<noteq> SealVerified \<and> full_set_of x c reading receipts v \<and> fv_headline v \<noteq> HeadlineVerified)"

lemma good_in_place:
  "good (step5a_in_place x c c1 tq t2 a_key) (\<lambda>w a w'. in_place_not_verified x c (c1\<lparr>tr_revisions := AList.update tq t2 (tr_revisions c1)\<rparr>))"
  unfolding step5a_in_place_def Let_def in_place_not_verified_def full_set_of_def
  by (rule good_weaken, (rule good_rules)+) (clarsimp simp: same_files_def, blast)

text \<open>Part (5a): the container of the run with the timestamp token flipped in one bit, relinked and in place.\<close>

definition relinked_refused :: "'z step_api_scheme \<Rightarrow> seal_ctx \<Rightarrow> files \<Rightarrow> step2_out \<Rightarrow> bool" where
  "relinked_refused x c fs o2 \<longleftrightarrow> (\<exists>s c1 q tq e te rl n seal receipts v. file_text c fs CONTAINER_1 = Some s \<and> tree_from_str x s = Inr c1
     \<and> pulled_witness x c fs ''s1-qtsa.json'' Qtsa q tq \<and> pulled_witness x c fs ''s1-evm.json'' Evm e te
     \<and> relink_flipped_token x c1 (vs_anchor (s2_seal o2)) (vs_head_link (s2_seal o2)) tq te = Inr rl
     \<and> verify_seal_container x n (rl_container rl) (dual (cx_policy c)) (catalogue (cx_policy c)) = Inr (Seal seal)
     \<and> full_set_of x c (Seal seal) receipts v \<and> tamper_detected x c rl seal v
     \<and> in_place_not_verified x c (c1\<lparr>tr_revisions := AList.update tq (rl_flipped rl) (tr_revisions c1)\<rparr>))"

lemma good_step5a: "good (step5a x c s2) (\<lambda>w a w'. \<exists>o2. s2 = Some o2 \<and> relinked_refused x c (sw_fs w) o2)"
  unfolding step5a_def Let_def full_set_of_def relinked_refused_def pulled_witness_def
  by (rule good_weaken, (rule good_rules good_step5a_seal good_in_place)+) (clarsimp simp: same_files_def, blast)

text \<open>No reading of a tampered attestation document names an attester.\<close>

definition names_nobody :: "'z step_api_scheme \<Rightarrow> verified_seal \<Rightarrow> revision_link \<Rightarrow> revision_link \<Rightarrow> string \<times> string \<times> string \<times> string \<times> string \<Rightarrow> did list \<Rightarrow> bool" where
  "names_nobody x seal tq key = (\<lambda>(removed, altered, alone, rekeyed, rekeyed_alone) pins.
     let read = (\<lambda>doc. read_seal_attestations x seal doc pins)
     in reading_of (read removed) tq \<in> {None, Some []}
      \<and> (\<exists>cause. reading_of (read altered) tq = Some [AttUnverifiable cause] \<and> \<not> str_contains ''did:'' cause)
      \<and> (\<exists>cause. reading_of (read alone) tq = Some [AttUnverifiable cause]) \<and> \<not> str_contains ''did:'' (reading_debug x (read alone))
      \<and> (\<exists>cause. rekeyed_reading_ok x (read rekeyed) tq key = Inr cause)
      \<and> (\<exists>cause. rekeyed_reading_ok x (read rekeyed_alone) tq key = Inr cause) \<and> \<not> str_contains ''did:'' (reading_debug x (read rekeyed_alone)))"

lemma unverifiable_iff: "(case q of [AttUnverifiable _] \<Rightarrow> True | _ \<Rightarrow> False) \<longleftrightarrow> (\<exists>cause. q = [AttUnverifiable cause])"
  by (cases q; cases "hd q"; cases "tl q") auto

lemma silently_iff: "unverifiable_silently q \<longleftrightarrow> (\<exists>cause. q = [AttUnverifiable cause] \<and> \<not> str_contains ''did:'' cause)"
  unfolding unverifiable_silently_def by (cases q; cases "hd q"; cases "tl q") auto

lemma not_isl_iff: "\<not> isl r \<longleftrightarrow> (\<exists>a. r = Inr a)"
  by (cases r) auto

lemma verdicts_iff: "(case oo of Some q \<Rightarrow> q | None \<Rightarrow> []) = [v] \<longleftrightarrow> oo = Some [v]"
  by (cases oo) auto

lemma nothing_iff: "(case oo of Some q \<Rightarrow> q = [] | None \<Rightarrow> True) \<longleftrightarrow> oo \<in> {None, Some []}"
  by (cases oo) auto

lemma good_5b_readings: "good (step5b_readings x seal tq key docs pins) (\<lambda>w a w'. names_nobody x seal tq key docs pins \<and> same_files w w')"
  unfolding step5b_readings_def case_prod_unfold Let_def step_all.simps silently_iff unverifiable_iff not_isl_iff verdicts_iff nothing_iff
  by (rule good_weaken, (rule good_rules)+) (clarsimp simp: same_files_def names_nobody_def case_prod_unfold Let_def)

text \<open>The documents of step 5b, tampered as \<open>tamper.rs\<close> does it, read against the seal of step 2.\<close>

definition attestations_silent :: "'z step_api_scheme \<Rightarrow> seal_ctx \<Rightarrow> files \<Rightarrow> verified_seal \<Rightarrow> bool" where
  "attestations_silent x c fs seal \<longleftrightarrow> (\<exists>s doc q tq pq removed altered how alone rekeyed rekeyed_alone.
     file_text c fs ATTESTATIONS_1 = Some s \<and> from_str x s = Inr doc
     \<and> pulled_witness x c fs ''s1-qtsa.json'' Qtsa q tq \<and> pq = ft_signature_key (sp_fetched q) \<and> json_get (json_at doc ''revisions'') pq \<noteq> None
     \<and> remove_p doc pq = Inr removed \<and> alter_p_key_kept doc pq = Inr (altered, how) \<and> only_p altered pq = Inr alone
     \<and> rekey_bad_signature x doc pq = Inr rekeyed \<and> only_p (rk_doc rekeyed) (link_text x (rk_key rekeyed)) = Inr rekeyed_alone
     \<and> (\<forall>pins\<in>{[], [rs_server_did (cx_state c)]}. names_nobody x seal tq (rk_key rekeyed)
          (json_text x removed, json_text x altered, json_text x alone, json_text x (rk_doc rekeyed), json_text x rekeyed_alone) pins))"

text \<open>A second read of the container gives the reading of step 2.\<close>

definition reads_again :: "'z step_api_scheme \<Rightarrow> seal_ctx \<Rightarrow> files \<Rightarrow> step2_out \<Rightarrow> bool" where
  "reads_again x c fs o2 \<longleftrightarrow> (\<exists>t tree m reading again. file_text c fs CONTAINER_1 = Some t \<and> tree_from_str x t = Inr tree
     \<and> verify_seal_container x m tree (dual (cx_policy c)) (catalogue (cx_policy c)) = Inr reading \<and> into_seal x reading = Inr again
     \<and> stable x again = s2_stable o2)"

lemma good_step5b:
  "good (step5b x c s2) (\<lambda>w a w'. \<exists>o2 fs. s2 = Some o2 \<and> attestations_silent x c (sw_fs w) (s2_seal o2) \<and> reads_again x c fs o2 \<and> later c (sw_fs w) fs)"
  unfolding step5b_def Let_def case_prod_unfold list.map step_all.simps attestations_silent_def reads_again_def pulled_witness_def
  by (rule good_weaken, (rule good_rules good_5b_readings)+)
    (clarsimp simp: same_files_def, (drule (1) later_trans)+, intro exI conjI, assumption+)

text \<open>
  Step 5 passes only if tampering is detected and names nobody.  The container whose timestamp token was
  flipped in one bit and relinked reads as a seal whose tampered witness failed with a reason, which is not
  checked, partially verified and refused at hand-over; the one flipped in place is not verified; and none of
  the tampered attestation documents yields a verified attester or a DID, with and without pins, while the
  seal itself reads as it did in step 2.
\<close>

theorem step5_pass_means:
  assumes "passing (step5 x c s2 w)"
  shows "\<exists>o2 fs fs'. s2 = Some o2 \<and> relinked_refused x c (sw_fs w) o2
    \<and> later c (sw_fs w) fs \<and> attestations_silent x c fs (s2_seal o2) \<and> later c fs fs' \<and> reads_again x c fs' o2"
  using parts_pass [OF good_and_later [OF good_step5a later_rel.keeps_step5(1)] good_step5b assms [unfolded step5_def]]
  unfolding new_log_fs by auto

definition rebuilt_identically :: "'z step_api_scheme \<Rightarrow> seal_ctx \<Rightarrow> files \<Rightarrow> bool" where
  "rebuilt_identically x c fs \<longleftrightarrow> (\<exists>prepared s e q n out. file_text c fs (prepared_file 1) = Some s \<and> prepared_from_str x s = Inr prepared
     \<and> (\<exists>t f. file_text c fs ''s1-evm.json'' = Some t \<and> parse_witness x Evm t = Inr f \<and> pair_of x f = Inr e)
     \<and> (\<exists>t f. file_text c fs ''s1-qtsa.json'' = Some t \<and> parse_witness x Qtsa t = Inr f \<and> pair_of x f = Inr q)
     \<and> complete_seal x n prepared (fst (rs_heads (cx_state c))) (rs_did (cx_state c))
         [(sp_object e, sp_signature e), (sp_object q, sp_signature q)] OpenWitness = Inr (Inr out)
     \<and> (\<exists>t. tree_to_string x (so_container out) = Inr t \<and> file_text c fs CONTAINER_1 = Some t)
     \<and> (\<exists>t. attestations_json x (so_attestations out) = Inr t \<and> file_text c fs ATTESTATIONS_1 = Some t))"

lemma good_step6: "good (step6_inner x c) (\<lambda>w a w'. rebuilt_identically x c (sw_fs w))"
  unfolding step6_inner_def rebuilt_identically_def Let_def step_map.simps step_all.simps case_prod_unfold
  by (rule good_weaken, (rule good_rules)+) (clarsimp simp: same_files_def, blast)

text \<open>
  Step 6 passes only if the one-shot build gives the very bytes of the two-step build: \<open>complete_seal\<close>, on the
  prepared seal and the two witnesses of the run, yields a container and an attestation document whose texts
  are those the run directory holds.
\<close>

theorem step6_pass_means:
  assumes "passing (step6 x c w)"
  shows "rebuilt_identically x c (sw_fs w)"
  using framed_pass [OF good_step6 assms [unfolded step6_def]] unfolding new_log_fs .

section \<open>Step 7\<close>

lemma good_all_two:
  "good (step_all (concat (map (\<lambda>a. [step_assert (P a) (what a) (fals a), step_assert (Q a) (what' a) (fals' a)]) as)))
     (\<lambda>w r w'. (\<forall>a\<in>set as. P a \<and> Q a) \<and> same_files w w')"
proof (induction as)
  case (Cons a as)
  show ?case
    unfolding list.map concat.simps append_Cons append_Nil step_all.simps
    by (rule good_weaken [OF good_bind [OF good_assert good_bind [OF good_assert Cons.IH]]]) (auto simp: same_files_def)
qed (simp add: good_def step_return_def same_files_def)

text \<open>The epoch as one method served it: two payloads, none a stub, each naming the epoch's root.\<close>

definition epoch_genuine :: "'z step_api_scheme \<Rightarrow> seal_ctx \<Rightarrow> files \<Rightarrow> u64 \<Rightarrow> hash32 \<Rightarrow> anchor_method \<Rightarrow> bool" where
  "epoch_genuine x c fs epoch root m \<longleftrightarrow> (\<exists>t body. file_text c fs (epoch_file epoch m) = Some t \<and> from_str x t = Inr body
     \<and> word_of_nat (length (payload_entries body)) = OWN_LEAVES
     \<and> (\<forall>(k, p)\<in>set (payload_entries body). detect_stub x m p = None \<and> parse_batch_root x (payload_str p ''merkle_root'') = Inr root))"

lemma good_status: "good (fetch_status x c key) (\<lambda>w a w'. same_files w w')"
  by (auto simp: good_def fetch_status_def step_bind_def step_try_def store_read_def step_return_def same_files_def)

lemma good_step7_method: "good (step7_method x c epoch root m) (\<lambda>w n w'. n = OWN_LEAVES \<and> epoch_genuine x c (sw_fs w) epoch root m \<and> same_files w w')"
  unfolding step7_method_def Let_def case_prod_unfold epoch_genuine_def
  by (rule good_weaken, (rule good_rules good_status good_all_two)+) (auto simp: same_files_def)

definition epoch_without_stub :: "'z step_api_scheme \<Rightarrow> seal_ctx \<Rightarrow> files \<Rightarrow> bool" where
  "epoch_without_stub x c fs \<longleftrightarrow> (\<exists>epoch t epochs es item root leaf_count. u64_at (rs_meta (cx_state c)) ''epoch_id'' = Some epoch
     \<and> u64_at (json_at (rs_meta (cx_state c)) ''post_body'') ''accepted'' = Some OWN_LEAVES
     \<and> file_text c fs (epochs_file epoch) = Some t \<and> from_str x t = Inr epochs
     \<and> json_at epochs ''epochs'' = JArr es \<and> item \<in> set es \<and> u64_at item ''id'' = Some epoch
     \<and> parse_batch_digest x (payload_str item ''merkle_root'') = Inr root
     \<and> epoch_genuine x c fs epoch root Evm \<and> epoch_genuine x c fs epoch root Qtsa
     \<and> u64_at item ''leaf_count'' = Some leaf_count \<and> OWN_LEAVES \<le> leaf_count)"

lemma good_step7: "good (step7_inner x c) (\<lambda>w a w'. epoch_without_stub x c (sw_fs w))"
proof -
  have found: "(case v of JArr es \<Rightarrow> find P es | _ \<Rightarrow> None) = Some item \<longleftrightarrow> (\<exists>es. v = JArr es \<and> find P es = Some item)" for v P and item :: json
    by (cases v) auto
  have need_iff: "need why oo = Inr v \<longleftrightarrow> oo = Some v" for why and oo :: "u64 option" and v
    by (cases oo) (auto simp: need_def)
  have find_in: "find P es = Some item \<Longrightarrow> item \<in> set es \<and> P item" for P and item :: json and es
    by (auto simp: find_Some_iff)
  have covered: "pair_coverage n own leaves = Inr cov \<Longrightarrow> own \<le> leaves" for n own leaves cov
    by (auto simp: pair_coverage_def Let_def split: if_splits)
  show ?thesis
    unfolding step7_inner_def epoch_without_stub_def Let_def step_map.simps
    by (rule good_weaken, (rule good_rules good_step7_method)+)
      (clarsimp simp: same_files_def found need_iff, drule covered, drule find_in, elim conjE, intro exI conjI, assumption+)
qed

text \<open>
  Step 7 passes only if the epoch of the run serves no stub: the run recorded an epoch and two accepted
  leaves, \<open>/v1/epochs\<close> lists that epoch, and under both methods the epoch's body holds exactly two payloads, each
  no stub and naming the Merkle root of the listed epoch, which lists at least the two leaves of this run.
\<close>

theorem step7_pass_means:
  assumes "passing (step7 x c w)"
  shows "epoch_without_stub x c (sw_fs w)"
  using framed_pass [OF good_step7 assms [unfolded step7_def]] unfolding new_log_fs .

section \<open>Step 1\<close>

text \<open>A witness that step 1 pulled: no stub, and served under the links the SDK computes of its two objects.\<close>

definition witness_served :: "'z step_api_scheme \<Rightarrow> seal_ctx \<Rightarrow> files \<Rightarrow> string \<Rightarrow> anchor_method \<Rightarrow> seal_witness \<Rightarrow> bool" where
  "witness_served x c fs name m = (\<lambda>(t, p). \<exists>body f. file_text c fs name = Some body \<and> parse_served x m body = Inr f
     \<and> detect_stub x m (ft_payloads f) = None
     \<and> (\<exists>l. link_of x t = Inr l \<and> link_text x l = ft_object_key f) \<and> (\<exists>l. link_of x p = Inr l \<and> link_text x l = ft_signature_key f))"

lemma good_served:
  "good (served_step x key m body) (\<lambda>w r w'. \<exists>t p f. r = Some (t, p) \<and> parse_served x m body = Inr f \<and> detect_stub x m (ft_payloads f) = None
     \<and> (\<exists>l. link_of x t = Inr l \<and> link_text x l = ft_object_key f) \<and> (\<exists>l. link_of x p = Inr l \<and> link_text x l = ft_signature_key f)
     \<and> same_files w w')"
  unfolding good_def
proof (intro allI impI)
  fix w r w' assume run: "served_step x key m body w = (r, w')" and pass: "passing w'"
  then obtain log where s: "served_witness x (sw_log w) key m body = (r, log)" and w': "w' = w\<lparr>sw_log := log\<rparr>"
    by (auto simp: served_step_def split: prod.splits)
  have "passing w"
    using run pass failing.keeps_served [of x key m body] unfolding failing.keeps_def by (metis snd_conv)
  moreover have "\<forall>a. r = Inr a \<longrightarrow> (\<exists>t p f. a = Some (t, p) \<and> parse_served x m body = Inr f \<and> detect_stub x m (ft_payloads f) = None
     \<and> (\<exists>l. link_of x t = Inr l \<and> link_text x l = ft_object_key f) \<and> (\<exists>l. link_of x p = Inr l \<and> link_text x l = ft_signature_key f)
     \<and> same_files w w')"
  proof (intro allI impI)
    fix a assume a: "r = Inr a"
    from served_witness_never_silent [OF s [unfolded a]] pass show "\<exists>t p f. a = Some (t, p) \<and> parse_served x m body = Inr f \<and> detect_stub x m (ft_payloads f) = None
     \<and> (\<exists>l. link_of x t = Inr l \<and> link_text x l = ft_object_key f) \<and> (\<exists>l. link_of x p = Inr l \<and> link_text x l = ft_signature_key f)
     \<and> same_files w w'"
      by (auto simp: w' passing_def same_files_def split: option.splits prod.splits)
  qed
  ultimately show "passing w \<and> (\<forall>a. r = Inr a \<longrightarrow> (\<exists>t p f. a = Some (t, p) \<and> parse_served x m body = Inr f \<and> detect_stub x m (ft_payloads f) = None
     \<and> (\<exists>l. link_of x t = Inr l \<and> link_text x l = ft_object_key f) \<and> (\<exists>l. link_of x p = Inr l \<and> link_text x l = ft_signature_key f)
     \<and> same_files w w'))" by blast
qed

lemma good_pull: "good (pull_witness x c (name, key, m)) (\<lambda>w r w'. \<exists>ws. r = Some ws \<and> witness_served x c (sw_fs w) name m ws \<and> same_files w w')"
  unfolding pull_witness_def case_prod_conv witness_served_def
  by (rule good_weaken, (rule good_rules good_status good_served)+) (auto simp: same_files_def)

text \<open>What the two-step build made of the accepted witnesses.\<close>

definition sealed_by_server :: "'z step_api_scheme \<Rightarrow> seal_ctx \<Rightarrow> string \<Rightarrow> accepted_witnesses \<Rightarrow> bool" where
  "sealed_by_server x c prepared accepted \<longleftrightarrow> length (ac_witnesses accepted) = 2 \<and> set (map ak_kind (ac_witnesses accepted)) = {AnchorEvm, AnchorTsa}
     \<and> (\<forall>w\<in>set (ac_witnesses accepted). ak_attester w = Some (rs_server_did (cx_state c)))
     \<and> (\<exists>out ct at. finish_seal x prepared accepted = Inr out \<and> length (tr_revisions (so_container out)) = 6
          \<and> tree_to_string x (so_container out) = Inr ct \<and> attestations_json x (so_attestations out) = Inr at)"

lemma good_printed: "good (step_all (map (\<lambda>(k, r). step_bind (step_lift (revision_to_json x r)) (\<lambda>_. step_return ())) rs)) (\<lambda>w a w'. True)"
proof (induction rs)
  case (Cons a rs)
  show ?case
    unfolding list.map step_all.simps case_prod_unfold
    by (rule good_weaken [OF good_bind [OF good_bind [OF good_lift good_return] Cons.IH [unfolded case_prod_unfold]]]) simp
qed (simp add: good_def step_return_def)

lemma good_finish: "good (step1_finish x c prepared accepted) (\<lambda>w a w'. sealed_by_server x c prepared accepted)"
  unfolding step1_finish_def Let_def step_all_append step_all.simps append_Cons append_Nil sealed_by_server_def
  by (rule good_weaken, (rule good_rules good_printed)+) (auto simp: same_files_def)

text \<open>The seal of step 1: both witnesses served, the stored prepared seal is that of the run, and the evaluator took both.\<close>

definition sealed_from :: "'z step_api_scheme \<Rightarrow> seal_ctx \<Rightarrow> files \<Rightarrow> seal_witness \<Rightarrow> seal_witness \<Rightarrow> bool" where
  "sealed_from x c fs e q \<longleftrightarrow> witness_served x c fs ''s1-evm.json'' Evm e \<and> witness_served x c fs ''s1-qtsa.json'' Qtsa q
     \<and> (case str_at (json_at (rs_meta (cx_state c)) ''post_body'') ''submitter_did'' of Some d \<Rightarrow> d | None \<Rightarrow> []) = rs_did (cx_state c)
     \<and> (\<exists>s prepared n accepted. file_text c fs (prepared_file 1) = Some s \<and> prepared_from_str x s = Inr prepared
          \<and> prepared_head x prepared = Inr (fst (rs_heads (cx_state c)))
          \<and> evaluate_seal_witnesses x n prepared (fst (rs_heads (cx_state c))) (rs_did (cx_state c)) [e, q] OpenWitness = Inr (Inr accepted)
          \<and> sealed_by_server x c prepared accepted)"

text \<open>
  Step 1 passes only if the aggregator's two witnesses seal the Folder.  Both served bodies are no stubs and
  keyed by the links the SDK computes; the submitter the server names is the signer of the run; the prepared
  seal on disk has the head of the run's leaves; the evaluator accepted the pair under the open requirement,
  one EVM and one TSA witness, both attested by the server; and the container finished from them has six
  revisions.
\<close>

theorem step1_pass_means:
  assumes "passing (step1 x c w)"
  shows "\<exists>e q. sealed_from x c (sw_fs w) e q"
proof -
  have filter_two: "List.map_filter id [Some a, Some b] = [a, b]" for a b :: seal_witness
    by (simp add: List.map_filter_def)
  have "good (step1_inner x c) (\<lambda>w a w'. \<exists>e q. sealed_from x c (sw_fs w) e q)"
    unfolding step1_inner_def Let_def step_map.simps sealed_from_def
    by (rule good_weaken, (rule good_rules good_pull good_evaluate good_finish)+)
      (clarsimp simp: same_files_def filter_two, blast)
  from framed_pass [OF this assms [unfolded step1_def]] show ?thesis
    unfolding new_log_fs .
qed

section \<open>The evaluator's retries\<close>

text \<open>The calls a loop can still make before its deadline.\<close>

definition calls_left :: "nat \<Rightarrow> nat \<Rightarrow> nat" where
  "calls_left deadline now = (if now < deadline then (deadline - now) div RETRY_PAUSE + 2 else 1)"

lemma calls_left_sleep:
  assumes "now \<le> now1" "now1 < deadline" "now1 + min RETRY_PAUSE (deadline - now1) \<le> now2"
  shows "Suc (calls_left deadline now2) \<le> calls_left deadline now"
proof (cases "now2 < deadline")
  case True
  then have "RETRY_PAUSE + (deadline - now2) \<le> deadline - now" using assms by (auto simp: min_def split: if_splits)
  then have "Suc ((deadline - now2) div RETRY_PAUSE) \<le> (deadline - now) div RETRY_PAUSE"
    using div_le_mono [of "RETRY_PAUSE + (deadline - now2)" "deadline - now" RETRY_PAUSE] div_add_self1 [of RETRY_PAUSE "deadline - now2"]
    unfolding RETRY_PAUSE_def by linarith
  then show ?thesis using True assms by (simp add: calls_left_def)
qed (use assms in \<open>simp add: calls_left_def\<close>)

lemma evaluate_loop_calls:
  "evaluate_loop x e deadline w = (r, w') \<Longrightarrow>
     (let answer = (\<lambda>n. evaluate_seal_witnesses x n (ev_prepared e) (ev_head e) (ev_did e) (ev_witnesses e) (ev_requirement e))
      in \<exists>calls. sw_moment w' = sw_moment w + Suc calls \<and> Suc calls \<le> calls_left deadline (sw_now w)
         \<and> r = answer (sw_moment w + calls) \<and> (\<forall>i<calls. \<exists>refusal. answer (sw_moment w + i) = Inr (Inl refusal) \<and> retryable refusal)
         \<and> (\<forall>refusal. r = Inr (Inl refusal) \<longrightarrow> retryable refusal \<longrightarrow> deadline \<le> sw_now w'))"
proof (induction x e deadline w arbitrary: r w' rule: evaluate_loop.induct)
  case (1 x e deadline w)
  let ?answer = "\<lambda>n. evaluate_seal_witnesses x n (ev_prepared e) (ev_head e) (ev_did e) (ev_witnesses e) (ev_requirement e)"
  let ?w1 = "w\<lparr>sw_moment := Suc (sw_moment w), sw_now := sw_now w + call_millis x (sw_moment w)\<rparr>"
  have once: "evaluate_once x e w = (?answer (sw_moment w), ?w1)" by (simp add: evaluate_once_def Let_def)
  have one: "1 \<le> calls_left deadline (sw_now w)" by (simp add: calls_left_def)
  show ?case
  proof (cases "\<exists>refusal. ?answer (sw_moment w) = Inr (Inl refusal) \<and> retryable refusal \<and> sw_now ?w1 < deadline")
    case True
    then obtain refusal where s: "?answer (sw_moment w) = Inr (Inl refusal)" "retryable refusal" "sw_now ?w1 < deadline" by blast
    let ?w2 = "sleep_until x deadline ?w1"
    have "evaluate_loop x e deadline ?w2 = (r, w')"
      using "1.prems" s by (subst (asm) evaluate_loop.simps) (simp add: once)
    from "1.IH" [OF once [unfolded s(1), symmetric] refl refl _ this] s(2,3) obtain calls where
      rest: "sw_moment w' = sw_moment ?w2 + Suc calls" "Suc calls \<le> calls_left deadline (sw_now ?w2)" "r = ?answer (sw_moment ?w2 + calls)"
        "\<forall>i<calls. \<exists>refusal. ?answer (sw_moment ?w2 + i) = Inr (Inl refusal) \<and> retryable refusal"
        "\<forall>refusal. r = Inr (Inl refusal) \<longrightarrow> retryable refusal \<longrightarrow> deadline \<le> sw_now w'"
      by (auto simp: Let_def)
    have moment: "sw_moment ?w2 = Suc (sw_moment w)" by (simp add: sleep_until_def)
    have "Suc (calls_left deadline (sw_now ?w2)) \<le> calls_left deadline (sw_now w)"
      by (rule calls_left_sleep [of _ "sw_now ?w1"]) (use s(3) in \<open>auto simp: sleep_until_def\<close>)
    with rest(2) have bound: "Suc (Suc calls) \<le> calls_left deadline (sw_now w)" by linarith
    have before: "\<exists>refusal. ?answer (sw_moment w + i) = Inr (Inl refusal) \<and> retryable refusal" if "i < Suc calls" for i
      using that s rest(4) moment by (cases i) auto
    show ?thesis
      unfolding Let_def by (intro exI [of _ "Suc calls"]) (use rest bound before moment in \<open>simp add: rest\<close>)
  next
    case False
    then have done_: "(r, w') = (?answer (sw_moment w), ?w1)"
      using "1.prems" by (subst (asm) evaluate_loop.simps) (auto simp: once split: sum.splits if_splits)
    then show ?thesis
      unfolding Let_def using one False by (intro exI [of _ 0]) auto
  qed
qed

text \<open>
  C39: The evaluator is asked a bounded number of times.  With a budget of \<open>b\<close> milliseconds it is called at most
  \<open>b div 60000 + 2\<close> times, however long a call or a sleep takes; the answer returned is that of the last call, every
  earlier one was a refusal worth a retry, and a refusal worth a retry is returned only once the budget is used.
\<close>

theorem evaluate_with_retry_bounded:
  assumes "evaluate_with_retry x e w = (r, w')"
  shows "\<exists>calls. sw_moment w' = sw_moment w + Suc calls \<and> Suc calls \<le> ev_budget e div RETRY_PAUSE + 2
    \<and> r = evaluate_seal_witnesses x (sw_moment w + calls) (ev_prepared e) (ev_head e) (ev_did e) (ev_witnesses e) (ev_requirement e)
    \<and> (\<forall>i<calls. \<exists>refusal. evaluate_seal_witnesses x (sw_moment w + i) (ev_prepared e) (ev_head e) (ev_did e) (ev_witnesses e) (ev_requirement e)
          = Inr (Inl refusal) \<and> retryable refusal)
    \<and> (\<forall>refusal. r = Inr (Inl refusal) \<longrightarrow> retryable refusal \<longrightarrow> sw_now w + ev_budget e \<le> sw_now w')"
proof -
  have "calls_left (sw_now w + ev_budget e) (sw_now w) \<le> ev_budget e div RETRY_PAUSE + 2" by (simp add: calls_left_def)
  then show ?thesis
    using evaluate_loop_calls [OF assms [unfolded evaluate_with_retry_def]] unfolding Let_def
    by (elim exE conjE) (intro exI conjI, assumption, erule (1) order_trans, assumption+)
qed

end
