(* ===== verification/E2e_Replay.thy ===== *)
theory E2e_Replay
  imports E2e_Verdict
begin

text \<open>
  A whole seal run and its replay (\<open>run\<close> of \<open>steps.rs\<close>, \<open>replay.rs\<close>): what it means that every step of a run
  passed, that a replay writes nothing into the run directory, and that a replay whose verdict is a pass has
  established each fact of the seven steps about the bytes that are in the run directory.
\<close>

section \<open>A passing run\<close>

text \<open>\<open>P\<close> held of the files at some moment of the run.\<close>

definition seen :: "seal_ctx \<Rightarrow> files \<Rightarrow> (files \<Rightarrow> bool) \<Rightarrow> bool" where
  "seen c fs P \<longleftrightarrow> (\<exists>fs'. later c fs fs' \<and> P fs')"

lemma seenI: "later c fs fs' \<Longrightarrow> P fs' \<Longrightarrow> seen c fs P"
  by (auto simp: seen_def)

lemma keep_log_kept:
  assumes "keep_log c closing logs w = (Inr ls, w')"
  shows "ls = logs @ [sw_log w]" "later c (sw_fs w) (sw_fs w')"
proof -
  show "ls = logs @ [sw_log w]"
    using assms by (auto simp: keep_log_def split: option.splits prod.splits sum.splits)
  show "later c (sw_fs w) (sw_fs w')"
    using later_rel.keep_log_rel [of c closing logs] assms unfolding later_rel.keeps_def by (metis snd_conv)
qed

lemma run_kept_extends: "run_kept c closing ss logs w = (Inr ls, w') \<Longrightarrow> set logs \<subseteq> set ls \<and> length ls = length logs + length ss"
proof (induction ss arbitrary: logs w)
  case (Cons s ss)
  then obtain l1 w1 where k: "keep_log c closing logs (s w) = (Inr l1, w1)" and r: "run_kept c closing ss l1 w1 = (Inr ls, w')"
    by (auto simp: step_bind_def split: prod.splits sum.splits)
  from Cons.IH [OF r] keep_log_kept(1) [OF k] show ?case by auto
qed (simp add: step_return_def)

text \<open>One step of a run whose logs all pass.\<close>

lemma kept_pass:
  assumes "step_bind (keep_log c closing logs) (run_kept c closing ss) w = (Inr ls, w')" "\<forall>log\<in>set ls. log_passed log"
  obtains w1 where "passing w" "later c (sw_fs w) (sw_fs w1)" "run_kept c closing ss (logs @ [sw_log w]) w1 = (Inr ls, w')"
    "length ls = Suc (length logs + length ss)"
proof -
  obtain l1 w1 where k: "keep_log c closing logs w = (Inr l1, w1)" and r: "run_kept c closing ss l1 w1 = (Inr ls, w')"
    using assms(1) by (auto simp: step_bind_def split: prod.splits sum.splits)
  note l1 = keep_log_kept [OF k]
  have "sw_log w \<in> set ls" using run_kept_extends [OF r] l1(1) by auto
  then have "passing w" using assms(2) by (simp add: passing_def)
  then show ?thesis using that l1 r run_kept_extends [OF r] by auto
qed

lemma run_kept_pass:
  assumes "run_kept c closing (s # ss) logs w = (Inr ls, w')" "\<forall>log\<in>set ls. log_passed log" "later c (sw_fs w) (sw_fs (s w))"
  obtains w1 logs1 where "passing (s w)" "later c (sw_fs w) (sw_fs w1)" "run_kept c closing ss logs1 w1 = (Inr ls, w')"
proof -
  have "step_bind (keep_log c closing logs) (run_kept c closing ss) (s w) = (Inr ls, w')" using assms(1) by simp
  from kept_pass [OF this assms(2)] obtain w1 where "passing (s w)" "later c (sw_fs (s w)) (sw_fs w1)"
    "run_kept c closing ss (logs @ [sw_log (s w)]) w1 = (Inr ls, w')" by blast
  then show ?thesis using that assms(3) later_trans by blast
qed

text \<open>
  A run all of whose logs pass has shown everything it is there to show.  Steps 2 to 7 left one log each, and
  step 1 too in a live run; the container of the run directory read as a fully verified seal; that same reading
  is the one the tampered container and attestations were held against; the reader without EVM verified the
  seal; a seal without EVM was made and verified, and none without a witness; the one-shot build gave the same
  bytes; and the epoch served no stub.
\<close>

theorem run_pass_means:
  assumes "run x c which closing w = (Inr logs, w')" and "all_passed logs"
  shows "\<exists>o2. length logs = (if which = AllSteps then 7 else 6)
    \<and> (which = AllSteps \<longrightarrow> (\<exists>e q. sealed_from x c (sw_fs w) e q))
    \<and> seen c (sw_fs w) (\<lambda>fs. seal_verified x c fs (Some o2)) \<and> seen c (sw_fs w) (verified_without_evm x c)
    \<and> seen c (sw_fs w) (sealed_without_evm x c) \<and> without_witness_refused x c
    \<and> seen c (sw_fs w) (\<lambda>fs. holds_no_files x c fs ''step4b'')
    \<and> seen c (sw_fs w) (\<lambda>fs. relinked_refused x c fs o2) \<and> seen c (sw_fs w) (\<lambda>fs. attestations_silent x c fs (s2_seal o2))
    \<and> seen c (sw_fs w) (\<lambda>fs. reads_again x c fs o2) \<and> seen c (sw_fs w) (rebuilt_identically x c)
    \<and> seen c (sw_fs w) (epoch_without_stub x c)"
proof -
  have all: "\<forall>log\<in>set logs. log_passed log" using assms(2) by (simp add: all_passed_def list_all_iff)
  obtain logs1 w1 where one: "run_kept c closing (if which = AllSteps then [step1 x c] else []) [] w = (Inr logs1, w1)"
    and rest: "(case step2 x c w1 of (s2, w2) \<Rightarrow> step_bind (keep_log c closing logs1)
      (run_kept c closing [step3 x c, step4 x c, step5 x c s2, step6 x c, step7 x c]) w2) = (Inr logs, w')"
    using assms(1) by (auto simp: run_def step_bind_def split: prod.splits sum.splits)
  obtain s2 w2 where two: "step2 x c w1 = (s2, w2)" by fastforce
  note bind2 = rest [unfolded two prod.case]
  have rels: "later c (sw_fs v) (sw_fs (step3 x c v))" "later c (sw_fs v) (sw_fs (step4 x c v))" "later c (sw_fs v) (sw_fs (step5 x c s2 v))"
    "later c (sw_fs v) (sw_fs (step6 x c v))" "later c (sw_fs v) (sw_fs (step7 x c v))" for v
    by (rule later_rel.steps_rel)+
  obtain w3 where p2: "passing w2" and l3: "later c (sw_fs w2) (sw_fs w3)"
    and r3: "run_kept c closing [step3 x c, step4 x c, step5 x c s2, step6 x c, step7 x c] (logs1 @ [sw_log w2]) w3 = (Inr logs, w')"
    and len: "length logs = length logs1 + 6"
    by (rule kept_pass [OF bind2 all]) simp
  obtain w4 g4 where p3: "passing (step3 x c w3)" and l4: "later c (sw_fs w3) (sw_fs w4)"
    and r4: "run_kept c closing [step4 x c, step5 x c s2, step6 x c, step7 x c] g4 w4 = (Inr logs, w')"
    by (rule run_kept_pass [OF r3 all rels(1)])
  obtain w5 g5 where p4: "passing (step4 x c w4)" and l5: "later c (sw_fs w4) (sw_fs w5)"
    and r5: "run_kept c closing [step5 x c s2, step6 x c, step7 x c] g5 w5 = (Inr logs, w')"
    by (rule run_kept_pass [OF r4 all rels(2)])
  obtain w6 g6 where p5: "passing (step5 x c s2 w5)" and l6: "later c (sw_fs w5) (sw_fs w6)"
    and r6: "run_kept c closing [step6 x c, step7 x c] g6 w6 = (Inr logs, w')"
    by (rule run_kept_pass [OF r5 all rels(3)])
  obtain w7 g7 where p6: "passing (step6 x c w6)" and l7: "later c (sw_fs w6) (sw_fs w7)"
    and r7: "run_kept c closing [step7 x c] g7 w7 = (Inr logs, w')"
    by (rule run_kept_pass [OF r6 all rels(4)])
  have p7: "passing (step7 x c w7)"
    by (rule run_kept_pass [OF r7 all rels(5)])
  have l1: "later c (sw_fs w) (sw_fs w1)" and len1: "length logs1 = (if which = AllSteps then 1 else 0)"
    and logs1: "set logs1 \<subseteq> set logs"
  proof -
    have "later_rel.keeps c (run_kept c closing (if which = AllSteps then [step1 x c] else []) [])"
      by (rule later_rel.run_kept_rel) (auto intro: later_rel.steps_rel split: if_splits)
    then show "later c (sw_fs w) (sw_fs w1)" using one unfolding later_rel.keeps_def by (metis snd_conv)
    show "length logs1 = (if which = AllSteps then 1 else 0)" using run_kept_extends [OF one] by simp
    show "set logs1 \<subseteq> set logs" using run_kept_extends [OF r3] by simp
  qed
  have first: "\<exists>e q. sealed_from x c (sw_fs w) e q" if "which = AllSteps"
  proof -
    have r1: "run_kept c closing [step1 x c] [] w = (Inr logs1, w1)" using one that by simp
    have "\<forall>log\<in>set logs1. log_passed log" using logs1 all by blast
    from run_kept_pass [OF r1 this later_rel.steps_rel(1)] have "passing (step1 x c w)" by blast
    then show ?thesis by (rule step1_pass_means)
  qed
  have l2: "later c (sw_fs w1) (sw_fs w2)" using later_rel.steps_rel(2) [of c w1 x] two by simp
  have ls: "later c (sw_fs w) (sw_fs w3)" "later c (sw_fs w) (sw_fs w4)" "later c (sw_fs w) (sw_fs w5)"
    "later c (sw_fs w) (sw_fs w6)" "later c (sw_fs w) (sw_fs w7)"
    using l1 l2 l3 l4 l5 l6 l7 by (meson later_trans)+
  have v2: "seal_verified x c (sw_fs w1) s2" by (rule step2_pass_means [OF two p2])
  obtain o2 where o2: "s2 = Some o2" using v2 by (auto simp: seal_verified_def)
  have four: "sealed_without_evm x c (sw_fs w4)" "without_witness_refused x c" "seen c (sw_fs w4) (\<lambda>fs. holds_no_files x c fs ''step4b'')"
    using step4_pass_means [OF p4] by (auto simp: seen_def)
  obtain fs fs' where five: "relinked_refused x c (sw_fs w5) o2" "later c (sw_fs w5) fs" "attestations_silent x c fs (s2_seal o2)"
    "later c fs fs'" "reads_again x c fs' o2"
    using step5_pass_means [OF p5] o2 by auto
  show ?thesis
  proof (intro exI conjI)
    show "seen c (sw_fs w) (\<lambda>fs. seal_verified x c fs (Some o2))" using v2 o2 l1 by (auto simp: seen_def)
    show "seen c (sw_fs w) (verified_without_evm x c)" by (rule seenI, rule ls(1), rule step3_pass_means [OF p3])
    show "seen c (sw_fs w) (sealed_without_evm x c)" by (rule seenI, rule ls(2), rule four(1))
    show "seen c (sw_fs w) (\<lambda>fs. holds_no_files x c fs ''step4b'')" using four(3) ls(2) later_trans by (fastforce simp: seen_def)
    show "seen c (sw_fs w) (\<lambda>fs. relinked_refused x c fs o2)" by (rule seenI, rule ls(3), rule five(1))
    show "seen c (sw_fs w) (\<lambda>fs. attestations_silent x c fs (s2_seal o2))" by (rule seenI, rule later_trans [OF ls(3) five(2)], rule five(3))
    show "seen c (sw_fs w) (\<lambda>fs. reads_again x c fs o2)" by (rule seenI, rule later_trans [OF later_trans [OF ls(3) five(2)] five(4)], rule five(5))
    show "seen c (sw_fs w) (rebuilt_identically x c)" by (rule seenI, rule ls(4), rule step6_pass_means [OF p6])
    show "seen c (sw_fs w) (epoch_without_stub x c)" by (rule seenI, rule ls(5), rule step7_pass_means [OF p7])
  qed (use len len1 four(2) first in auto)
qed

section \<open>The replay\<close>

record replay_config =
  rc_run_dir :: path
  rc_out :: "path option"
  rc_reader :: reader_policy
  rc_expect_server_did :: did

fun display_path :: "path \<Rightarrow> string" where
  "display_path [] = []"
| "display_path [p] = p"
| "display_path (p # ps) = p @ ''/'' @ display_path ps"

definition replay_header :: "'z step_api_scheme \<Rightarrow> path \<Rightarrow> string \<Rightarrow> json \<Rightarrow> string list" where
  "replay_header x run_dir sdk meta =
     [''# mode = replay of '' @ display_path run_dir @ '': no key, no session, nothing sent to the aggregator; reads are the persisted bodies and the EVM host's chain reads'',
      ''# SDK rev of this binary (Cargo.lock) = '' @ sdk,
      ''# SDK rev of the run (run.json) = '' @ json_text x (json_at meta ''sdk_rev''),
      ''# server /version recorded by the run: '' @ json_text x (json_at meta ''server_version_before'')]"

definition replay_ctx :: "'z step_api_scheme \<Rightarrow> device \<Rightarrow> replay_config \<Rightarrow> string \<Rightarrow> run_state \<Rightarrow> seal_ctx" where
  "replay_ctx x d cfg sdk state =
     \<lparr>cx_store = \<lparr>st_run = rc_run_dir cfg, st_mode = Replay (rc_out cfg)\<rparr>, cx_device = d, cx_policy = rc_reader cfg, cx_state = state,
      cx_header = replay_header x (rc_run_dir cfg) sdk (rs_meta state), cx_expect_server_did = Some (rc_expect_server_did cfg),
      cx_finality_budget = 0\<rparr>"

text \<open>\<open>run_replay\<close>: the guards, then steps 2 to 7.\<close>

definition run_replay :: "'z step_api_scheme \<Rightarrow> path_api \<Rightarrow> device \<Rightarrow> string list \<Rightarrow> replay_config \<Rightarrow> step_world
  \<Rightarrow> (run_error + step_log list) \<times> step_world" where
  "run_replay x a d lock cfg w =
     (case and_then (case rc_out cfg of Some dir \<Rightarrow> map_err OtherError (ensure_outside a dir (rc_run_dir cfg)) | None \<Rightarrow> Inr ()) (\<lambda>_.
           and_then (verify_complete x (read_path d (sw_fs w)) (rc_run_dir cfg)) (\<lambda>_.
           and_then (run_state_load x (read_path d (sw_fs w)) (rc_run_dir cfg)) (\<lambda>state.
           and_then (map_err OtherError (sdk_rev_in lock)) (\<lambda>sdk. Inr (state, sdk))))) of
        Inl e \<Rightarrow> (Inl e, w)
      | Inr (state, sdk) \<Rightarrow>
          (case run x (replay_ctx x d cfg sdk state) FromPersisted ''replay'' w of
             (r, w') \<Rightarrow> (map_err OtherError r, w')))"

text \<open>
  The layout a replay with an output directory needs: no symbolic link below either directory, and the run
  directory does not lie inside the output directory.
\<close>

definition apart :: "path_api \<Rightarrow> device \<Rightarrow> path \<Rightarrow> path \<Rightarrow> bool" where
  "apart a d run_dir dir \<longleftrightarrow> (\<exists>g real. resolved a run_dir = Inr g \<and> resolved a dir = Inr real
     \<and> (\<forall>cs. dv_place d (run_dir @ cs) = g @ cs) \<and> (\<forall>cs. dv_place d (dir @ cs) = real @ cs) \<and> \<not> path_starts_with g real)"

lemma replay_runs:
  assumes "run_replay x a d lock cfg w = (r, w')"
  shows "(\<exists>e. r = Inl e \<and> w' = w) \<or> (\<exists>state sdk rr. run_state_load x (read_path d (sw_fs w)) (rc_run_dir cfg) = Inr state
    \<and> run x (replay_ctx x d cfg sdk state) FromPersisted ''replay'' w = (rr, w') \<and> r = map_err OtherError rr
    \<and> (\<forall>dir. rc_out cfg = Some dir \<longrightarrow> ensure_outside a dir (rc_run_dir cfg) = Inr ()))"
proof (cases "and_then (case rc_out cfg of Some dir \<Rightarrow> map_err OtherError (ensure_outside a dir (rc_run_dir cfg)) | None \<Rightarrow> Inr ()) (\<lambda>_.
           and_then (verify_complete x (read_path d (sw_fs w)) (rc_run_dir cfg)) (\<lambda>_.
           and_then (run_state_load x (read_path d (sw_fs w)) (rc_run_dir cfg)) (\<lambda>state.
           and_then (map_err OtherError (sdk_rev_in lock)) (\<lambda>sdk. Inr (state, sdk)))))")
  case (Inl e)
  then show ?thesis using assms unfolding run_replay_def Inl by auto
next
  case (Inr sr)
  obtain state sdk where sr: "sr = (state, sdk)" by fastforce
  obtain rr w2 where rr: "run x (replay_ctx x d cfg sdk state) FromPersisted ''replay'' w = (rr, w2)" by fastforce
  have "r = map_err OtherError rr" "w' = w2"
    using assms Inr sr rr by (auto simp: run_replay_def)
  moreover have "run_state_load x (read_path d (sw_fs w)) (rc_run_dir cfg) = Inr state"
    "\<forall>dir. rc_out cfg = Some dir \<longrightarrow> ensure_outside a dir (rc_run_dir cfg) = Inr ()"
    using Inr sr by auto
  ultimately show ?thesis using rr by blast
qed

text \<open>Where the store of a replay writes.\<close>

lemma replay_outside:
  assumes "rc_out cfg = None \<or> (\<exists>dir. rc_out cfg = Some dir \<and> apart a d (rc_run_dir cfg) dir)"
    and "\<forall>dir. rc_out cfg = Some dir \<longrightarrow> ensure_outside a dir (rc_run_dir cfg) = Inr ()"
    and "resolved a (rc_run_dir cfg) = Inr g"
  shows "writes_outside d \<lparr>st_run = rc_run_dir cfg, st_mode = Replay (rc_out cfg)\<rparr> g"
proof -
  have "\<not> path_starts_with (dv_place d (join dir name)) g" if out: "rc_out cfg = Some dir" for dir name
  proof -
    obtain real where real: "resolved a dir = Inr real" "\<forall>cs. dv_place d (dir @ cs) = real @ cs" "\<not> path_starts_with g real"
      using assms(1,3) out by (auto simp: apart_def)
    have "\<not> path_starts_with real g"
      using assms(2,3) out real(1) by (auto simp: ensure_outside_def split: if_splits)
    then show ?thesis
      using path_starts_append [of real "split_on CHR ''/'' name" g] real(2,3) by (auto simp: join_def)
  qed
  then show ?thesis by (auto simp: writes_outside_def write_dir_def)
qed

text \<open>
  C38: A replay leaves the run directory alone.  With no output directory it writes nothing at all.
  With one, and no symbolic link below it, every file in the run directory is as it was, whatever the
  steps write, whichever writes fail and whatever the SDK answers, provided the run directory does not lie
  inside the output directory.
\<close>

theorem replay_leaves_run_dir:
  assumes "run_replay x a d lock cfg w = (r, w')"
    and "resolved a (rc_run_dir cfg) = Inr g"
    and "rc_out cfg = None \<or> (\<exists>dir. rc_out cfg = Some dir \<and> apart a d (rc_run_dir cfg) dir)"
  shows "(\<forall>p. path_starts_with p g \<longrightarrow> sw_fs w' p = sw_fs w p) \<and> (rc_out cfg = None \<longrightarrow> sw_fs w' = sw_fs w)"
  using replay_runs [OF assms(1)]
proof (elim disjE exE conjE)
  fix state sdk rr
  let ?c = "replay_ctx x d cfg sdk state"
  assume run: "run x ?c FromPersisted ''replay'' w = (rr, w')"
    and guard: "\<forall>dir. rc_out cfg = Some dir \<longrightarrow> ensure_outside a dir (rc_run_dir cfg) = Inr ()"
  have "writes_outside (cx_device ?c) (cx_store ?c) g'" if "g' = g \<or> rc_out cfg = None" for g'
    using that replay_outside [OF assms(3) guard assms(2)] by (auto simp: replay_ctx_def writes_outside_def write_dir_def)
  then have "untouched g' (sw_fs w) (sw_fs w')" if "g' = g \<or> rc_out cfg = None" for g'
    using that sparing.run_rel [of g' ?c w x FromPersisted "''replay''"] run by (simp add: spares_def)
  from this [of g] this [of "[]"] show ?thesis by (auto simp: untouched_def path_starts_with_def)
qed simp

section \<open>A passing replay\<close>

text \<open>What depends on the files only through their texts in the run directory.\<close>

lemma same_text:
  assumes "file_text c fs' = file_text c fs"
  shows "verified_without_evm x c fs' = verified_without_evm x c fs"
    "relinked_refused x c fs' o2 = relinked_refused x c fs o2"
    "attestations_silent x c fs' seal = attestations_silent x c fs seal"
    "reads_again x c fs' o2 = reads_again x c fs o2"
    "rebuilt_identically x c fs' = rebuilt_identically x c fs"
    "epoch_without_stub x c fs' = epoch_without_stub x c fs"
    "read_container x c fs' i v = read_container x c fs i v"
    "second_seal x c fs' out v = second_seal x c fs out v"
    "reproduced c fs' = reproduced c fs"
proof -
  show "verified_without_evm x c fs' = verified_without_evm x c fs"
    unfolding verified_without_evm_def read_container_def pulled_witness_def assms ..
  show "relinked_refused x c fs' o2 = relinked_refused x c fs o2"
    unfolding relinked_refused_def pulled_witness_def assms ..
  show "attestations_silent x c fs' seal = attestations_silent x c fs seal"
    unfolding attestations_silent_def pulled_witness_def assms ..
  show "reads_again x c fs' o2 = reads_again x c fs o2"
    unfolding reads_again_def assms ..
  show "rebuilt_identically x c fs' = rebuilt_identically x c fs"
    unfolding rebuilt_identically_def assms ..
  show "epoch_without_stub x c fs' = epoch_without_stub x c fs"
    unfolding epoch_without_stub_def epoch_genuine_def assms ..
  show "read_container x c fs' i v = read_container x c fs i v"
    unfolding read_container_def assms ..
  show "second_seal x c fs' out v = second_seal x c fs out v"
    unfolding second_seal_def assms ..
  show "reproduced c fs' = reproduced c fs"
    unfolding reproduced_def [abs_def] assms ..
qed

lemma seen_same: "seen c fs P \<Longrightarrow> (\<And>fs'. later c fs fs' \<Longrightarrow> P fs' = P fs) \<Longrightarrow> P fs"
  unfolding seen_def by blast

lemma seen_settled:
  assumes "\<forall>fs'. later c fs fs' \<longrightarrow> file_text c fs' = file_text c fs"
  shows "seen c fs (\<lambda>fs. seal_verified x c fs out) \<Longrightarrow> seal_verified x c fs out"
    "seen c fs (verified_without_evm x c) \<Longrightarrow> verified_without_evm x c fs"
    "seen c fs (sealed_without_evm x c) \<Longrightarrow> sealed_without_evm x c fs"
    "seen c fs (\<lambda>fs. relinked_refused x c fs o2) \<Longrightarrow> relinked_refused x c fs o2"
    "seen c fs (\<lambda>fs. attestations_silent x c fs seal) \<Longrightarrow> attestations_silent x c fs seal"
    "seen c fs (\<lambda>fs. reads_again x c fs o2) \<Longrightarrow> reads_again x c fs o2"
    "seen c fs (rebuilt_identically x c) \<Longrightarrow> rebuilt_identically x c fs"
    "seen c fs (epoch_without_stub x c) \<Longrightarrow> epoch_without_stub x c fs"
proof -
  have texts: "file_text c fs' = file_text c fs" if "later c fs fs'" for fs' using assms that by blast
  show "seal_verified x c fs out" if here: "seen c fs (\<lambda>fs. seal_verified x c fs out)"
  proof -
    obtain fs' where l: "later c fs fs'" and v: "seal_verified x c fs' out" using here by (auto simp: seen_def)
    show ?thesis
      using v unfolding seal_verified_def same_text [OF texts [OF l]]
      by (elim exE conjE) (intro exI conjI, (assumption | rule later_trans [OF l])+)
  qed
  show "sealed_without_evm x c fs" if here: "seen c fs (sealed_without_evm x c)"
  proof -
    obtain fs' where l: "later c fs fs'" and v: "sealed_without_evm x c fs'" using here by (auto simp: seen_def)
    show ?thesis
      using v unfolding sealed_without_evm_def same_text [OF texts [OF l]]
      by (elim exE conjE) (intro exI conjI, (assumption | rule later_trans [OF l])+)
  qed
qed (erule seen_same, rule same_text, use assms in blast)+

text \<open>With nothing written into the run directory, the texts of its files stay what they are.\<close>

lemma later_untouched: "later c fs fs' \<Longrightarrow> writes_outside (cx_device c) (cx_store c) g \<Longrightarrow> untouched g fs fs'"
  unfolding later_def by (induction rule: rtranclp_induct) (auto simp: untouched_def wrote_def writes_outside_def)

lemma replay_texts:
  assumes "rc_out cfg = None \<or> (\<exists>dir. rc_out cfg = Some dir \<and> apart a d (rc_run_dir cfg) dir)"
    and "\<forall>dir. rc_out cfg = Some dir \<longrightarrow> ensure_outside a dir (rc_run_dir cfg) = Inr ()"
    and "later (replay_ctx x d cfg sdk state) fs fs'"
  shows "file_text (replay_ctx x d cfg sdk state) fs' = file_text (replay_ctx x d cfg sdk state) fs"
proof (cases "rc_out cfg")
  case None
  then show ?thesis using later_none [OF assms(3)] by (simp add: replay_ctx_def write_dir_def)
next
  case (Some dir)
  then obtain g where g: "resolved a (rc_run_dir cfg) = Inr g" "\<forall>cs. dv_place d (rc_run_dir cfg @ cs) = g @ cs"
    using assms(1) by (auto simp: apart_def)
  have "untouched g fs fs'"
    using later_untouched [OF assms(3)] replay_outside [OF assms(1,2) g(1)] by (simp add: replay_ctx_def)
  then have "fs' (g @ cs) = fs (g @ cs)" for cs by (simp add: untouched_def path_starts_with_def)
  then show ?thesis using g(2) by (auto simp: file_text_def replay_ctx_def read_path_def join_def fun_eq_iff)
qed

text \<open>
  C8: The verdict of a replay is about the bytes in the run directory.  A replay that returns with every log
  passed has loaded the run's state and, of the files as they are in the run directory, established all that
  steps 2 to 7 are there to show: one and the same seal reads as fully verified and attested by the server, is
  verified without EVM too, is not reproduced by a tampered token or attestation, is rebuilt byte for byte by
  the one-shot build; the second seal is the persisted one, byte for byte; and the epoch served no stub.
\<close>

theorem replay_pass_means:
  assumes "run_replay x a d lock cfg w = (Inr logs, w')" and "all_passed logs"
    and "rc_out cfg = None \<or> (\<exists>dir. rc_out cfg = Some dir \<and> apart a d (rc_run_dir cfg) dir)"
  shows "\<exists>state sdk o2. run_state_load x (read_path d (sw_fs w)) (rc_run_dir cfg) = Inr state \<and> length logs = 6
    \<and> (let c = replay_ctx x d cfg sdk state; fs = sw_fs w
       in seal_verified x c fs (Some o2) \<and> rs_server_did state = rc_expect_server_did cfg \<and> verified_without_evm x c fs
          \<and> sealed_without_evm x c fs \<and> without_witness_refused x c
          \<and> relinked_refused x c fs o2 \<and> attestations_silent x c fs (s2_seal o2) \<and> reads_again x c fs o2
          \<and> rebuilt_identically x c fs \<and> epoch_without_stub x c fs)"
proof -
  obtain state sdk rr where load: "run_state_load x (read_path d (sw_fs w)) (rc_run_dir cfg) = Inr state"
    and run: "run x (replay_ctx x d cfg sdk state) FromPersisted ''replay'' w = (rr, w')" "Inr logs = map_err OtherError rr"
    and guard: "\<forall>dir. rc_out cfg = Some dir \<longrightarrow> ensure_outside a dir (rc_run_dir cfg) = Inr ()"
    using replay_runs [OF assms(1)] by blast
  let ?c = "replay_ctx x d cfg sdk state"
  have rr: "rr = Inr logs" using run(2) by (cases rr) auto
  have same: "\<forall>fs'. later ?c (sw_fs w) fs' \<longrightarrow> file_text ?c fs' = file_text ?c (sw_fs w)"
    using replay_texts [OF assms(3) guard] by blast
  note settled = seen_settled [OF same]
  obtain o2 where o2: "length logs = 6"
    "seen ?c (sw_fs w) (\<lambda>fs. seal_verified x ?c fs (Some o2))" "seen ?c (sw_fs w) (verified_without_evm x ?c)"
    "seen ?c (sw_fs w) (sealed_without_evm x ?c)" "without_witness_refused x ?c"
    "seen ?c (sw_fs w) (\<lambda>fs. relinked_refused x ?c fs o2)" "seen ?c (sw_fs w) (\<lambda>fs. attestations_silent x ?c fs (s2_seal o2))"
    "seen ?c (sw_fs w) (\<lambda>fs. reads_again x ?c fs o2)" "seen ?c (sw_fs w) (rebuilt_identically x ?c)"
    "seen ?c (sw_fs w) (epoch_without_stub x ?c)"
    using run_pass_means [OF run(1) [unfolded rr] assms(2)] by auto
  have "seal_verified x ?c (sw_fs w) (Some o2)" by (rule settled(1) [OF o2(2)])
  then have "rs_server_did state = rc_expect_server_did cfg" by (auto simp: seal_verified_def replay_ctx_def)
  then show ?thesis
    using load o2(1,5) settled(1) [OF o2(2)] settled(2) [OF o2(3)] settled(3) [OF o2(4)] settled(4) [OF o2(6)] settled(5) [OF o2(7)]
      settled(6) [OF o2(8)] settled(7) [OF o2(9)] settled(8) [OF o2(10)]
    unfolding Let_def by blast
qed

end
