(* ===== verification/E2e_Demo.thy ===== *)
theory E2e_Demo
  imports E2e_Replay
begin

text \<open>
  A run directory and an SDK with concrete answers on which a whole replay passes, and the theorems about the
  steps, the replay and the evaluator applied there.
\<close>

section \<open>An SDK with concrete answers\<close>

text \<open>The link \<open>[1]\<close> is the EVM timestamp, \<open>[2]\<close> the qualified one, \<open>[3]\<close> the latter flipped, \<open>[4]\<close> and \<open>[9]\<close> the anchor and the relinked one.\<close>

definition demo_timestamp :: "string \<Rightarrow> string \<Rightarrow> json" where
  "demo_timestamp network token =
     JObj [(''transaction_hash'', JStr token), (''network'', JStr network), (''merkle_root'', JStr ''0x01'')]"

definition demo_object :: "json \<Rightarrow> any_revision" where
  "demo_object payloads = Typed \<lparr>ob_previous = None, ob_type = [], ob_method = Scalar, ob_payloads = payloads, ob_rest = []\<rparr>"

definition demo_tree :: aqua_tree where
  "demo_tree = \<lparr>tr_revisions = [([0], OtherRevision ''g''), ([5], OtherRevision ''h''), ([6], OtherRevision ''s''),
     ([1], demo_object (demo_timestamp ''sepolia'' ''ab01'')), ([2], demo_object (demo_timestamp ''tsa'' ''ab01'')), ([4], OtherRevision ''a'')],
     tr_file_index = []\<rparr>"

definition demo_second :: aqua_tree where
  "demo_second = demo_tree\<lparr>tr_revisions := AList.delete [1] (tr_revisions demo_tree)\<rparr>"

definition demo_status :: json where
  "demo_status = JObj [(''status'', JU64 200)]"

definition demo_file_json :: "string \<Rightarrow> json" where
  "demo_file_json s =
     (if starts_with ''nonces'' s then JArr (replicate 3 (JStr ''0x00''))
      else if s = ''epochs-5.json'' then JObj [(''epochs'', JArr [JObj [(''id'', JU64 5), (''merkle_root'', JStr ''0x01''), (''leaf_count'', JU64 3)]])]
      else if starts_with ''epoch-5-'' s then
        (let t = JObj [(''payloads'', demo_timestamp (if s = ''epoch-5-evm.json'' then ''sepolia'' else ''tsa'') ''ab01'')]
         in JObj [(''revisions'', JObj [(''x'', t), (''y'', t), (''z'', JObj [])])])
      else if s = ''fetch-status.json'' then JObj (map (\<lambda>k. (k, demo_status)) fetch_status_keys)
      else if s = ''attestations-1.json'' then demo_doc
      else if s = ''s1-evm.json'' then
        JObj [(''revisions'', JObj [(''e'', JObj [(''payloads'', demo_timestamp ''sepolia'' ''ab01'')]), (''pe'', JObj [])])]
      else if s = ''s1-qtsa.json'' \<or> s = ''s2-qtsa.json'' then
        JObj [(''revisions'', JObj [(''q'', JObj [(''payloads'', demo_timestamp ''tsa'' ''ab01'')]), (''p'', JObj [])])]
      else JObj [(''epoch_id'', JU64 5), (''s1'', JStr ''0x00''), (''s2'', JStr ''0x00''), (''server_did'', JStr ''did:svc''),
        (''post_body'', JObj [(''accepted'', JU64 2), (''submitter_did'', JStr ''did:me'')])])"

definition demo_seal_read :: "witness_input \<Rightarrow> bool \<Rightarrow> verified_seal" where
  "demo_seal_read input second =
     (let evm = \<lparr>wr_witness = [1], wr_descriptor = ''evm'', wr_admission = (if wi_evm input = None then NotAdmitted ''policy'' else Admitted),
            wr_timestamp = 7, wr_provenance = Some ''chain at 12 confirmations 34''\<rparr>;
          tsa = \<lparr>wr_witness = [2], wr_descriptor = ''tsa'', wr_admission = Admitted, wr_timestamp = 8, wr_provenance = None\<rparr>
      in \<lparr>vs_status = SealVerified, vs_signed_head = ''head'', vs_genesis = [0], vs_head_link = [5], vs_signature = [6], vs_signer = ''did:me'',
          vs_witnesses = (if second then [[2]] else [[1], [2]]), vs_anchor = [4], vs_sdk_outcome = [], vs_sdk_errors = [],
          vs_acceptance = (if second then [tsa] else [evm, tsa]),
          vs_acceptance_findings = (if wi_evm input = None then [[''trust_input_not_admitted'']] else []),
          vs_sealer_signature = [], vs_sealer_admitted = True, vs_time = TimeAccepted [[1], [2]], vs_identity_verified = True\<rparr>)"

definition demo_tampered_read :: "witness_input \<Rightarrow> verified_seal" where
  "demo_tampered_read input = demo_seal_read input False
     \<lparr>vs_status := SealNotChecked, vs_anchor := [9],
      vs_acceptance := [\<lparr>wr_witness = [3], wr_descriptor = ''tsa'', wr_admission = AdmissionFailed ''imprint'', wr_timestamp = 8, wr_provenance = None\<rparr>]\<rparr>"

definition demo_verify :: "aqua_tree \<Rightarrow> witness_input \<Rightarrow> seal_reading" where
  "demo_verify t input =
     (if map_of (tr_revisions t) [9] \<noteq> None then Seal (demo_tampered_read input)
      else if t = demo_tree then Seal (demo_seal_read input False)
      else if t = demo_second then Seal (demo_seal_read input True)
      else Rejected \<lparr>rj_id = None, rj_text = ''link''\<rparr>)"

definition demo_full_set :: "full_set_package \<Rightarrow> full_set_verdict" where
  "demo_full_set p =
     (case pk_seals p of
        [v] \<Rightarrow>
          if vs_status v = SealVerified
          then \<lparr>fv_headline = HeadlineVerified, fv_completeness = DimPass, fv_integrity = DimPass, fv_non_suppression = DimPass, fv_findings = []\<rparr>
          else \<lparr>fv_headline = HeadlinePartiallyVerified, fv_completeness = DimPass, fv_integrity = DimNotChecked, fv_non_suppression = DimPass,
            fv_findings = [\<lparr>fi_code = ''seal_witness_failed'', fi_args = [''a2'', ''q2'']\<rparr>]\<rparr>
      | _ \<Rightarrow> \<lparr>fv_headline = HeadlineOther ''rejected'', fv_completeness = DimNotChecked, fv_integrity = DimFail, fv_non_suppression = DimNotChecked,
            fv_findings = []\<rparr>)"

definition demo_attestations :: "string \<Rightarrow> did list \<Rightarrow> seal_attestations_reading" where
  "demo_attestations doc pins =
     (let ok = \<lparr>ar_attestation = [7], ar_verdict = AttVerified ''did:svc'' ''ed25519'' (if pins = [] then Unpinned else Pinned)\<rparr>;
          bad = \<lparr>ar_attestation = [8], ar_verdict = AttUnverifiable ''signature_invalid''\<rparr>
      in \<lparr>sa_witnesses = [\<lparr>wa_witness = [1], wa_attestations = [ok]\<rparr>,
            \<lparr>wa_witness = [2], wa_attestations = (if doc = ''attestations-1.json'' then [ok] else if doc = ''removed'' then [] else [bad])\<rparr>],
          sa_unmatched = [], sa_findings = [], sa_rejected = None\<rparr>)"

definition demo_seal_sdk :: seal_api where
  "demo_seal_sdk = (demo_seal (\<lambda>_. ''did:me''))\<lparr>from_str := (\<lambda>s. Inr (demo_file_json s)),
     any_revision_from := (\<lambda>v. Inr (case json_get v ''payloads'' of
        None \<Rightarrow> Signature \<lparr>sg_previous = [], sg_signer = ''did:svc'', sg_rest = []\<rparr> | Some p \<Rightarrow> demo_object p)),
     link_text := (\<lambda>l. case map_of [([1], ''e''), ([2], ''q''), ([3], ''q2''), ([8], ''p2''), ([9], ''a2'')] l of Some t \<Rightarrow> t | None \<Rightarrow> ''l''),
     json_text := (\<lambda>j. if json_get (json_at j ''revisions'') ''p'' = None \<and> json_get (json_at j ''revisions'') ''p2'' = None then ''removed'' else ''altered''),
     tree_from_str := (\<lambda>s. Inr demo_tree), previous_of := (\<lambda>r. if r = OtherRevision ''g'' then None else Some [5]),
     global_calculate_hash := (\<lambda>r. Inr (case r of Typed _ \<Rightarrow> [3] | _ \<Rightarrow> [8]))\<rparr>"

definition demo_tamper_sdk :: tamper_api where
  "demo_tamper_sdk = seal_api.extend demo_seal_sdk
     (tamper_api.fields (\<lambda>r. Inr (case r of Typed ob \<Rightarrow> JObj [(''payloads'', ob_payloads ob)] | _ \<Rightarrow> JObj [(''method'', JStr ''tree'')]))
        base16_encode (\<lambda>s. map_err (\<lambda>_. ''bad'') (base16_decode s)) (\<lambda>r. r = OtherRevision ''a'') (\<lambda>_. Inr ''tree'') (\<lambda>ls. ls)
        (\<lambda>h m ls. Inr [9]) (\<lambda>h m ls. Inr (OtherRevision ''a2'')))"

definition demo_steps :: step_api where
  "demo_steps = tamper_api.extend demo_tamper_sdk
     \<lparr>verify_seal_container = (\<lambda>n t input cat. Inr (demo_verify t input)),
      evaluate_seal_witnesses = (\<lambda>n p h d ws req. Inr (if ws = [] then Inl NoWitness
        else Inr \<lparr>ac_anchor = [4], ac_witnesses = [\<lparr>ak_kind = AnchorTsa, ak_attester = Some ''did:svc'', ak_timestamp = [2]\<rparr>]\<rparr>)),
      complete_seal = (\<lambda>n p h d ws req. Inr (Inr \<lparr>so_container = demo_tree, so_attestations = ''attestations-1.json''\<rparr>)),
      build_seal_container = (\<lambda>n h k req. Inl (SealRefused NoWitness)),
      finish_seal = (\<lambda>p acc. Inr \<lparr>so_container = demo_second, so_attestations = ''attestations-2.json''\<rparr>),
      into_seal = (\<lambda>r. case r of Seal v \<Rightarrow> Inr v | Rejected j \<Rightarrow> Inl j | UnknownReading \<Rightarrow> Inl \<lparr>rj_id = None, rj_text = []\<rparr>),
      reading_status = (\<lambda>r. case r of Seal v \<Rightarrow> vs_status v | _ \<Rightarrow> SealOther ''rejected''),
      full_set_check = demo_full_set, read_seal_attestations = (\<lambda>v doc pins. demo_attestations doc pins),
      handover_passes = (\<lambda>v d. vs_status v = SealVerified), receipt_issue = (\<lambda>a h ls i t n. Inr ''r''), receipt_json = (\<lambda>r. r),
      prepared_head = (\<lambda>p. Inr ''head''), requirement_without_kinds = Inl SealNoWitness, requirement_from_str = (\<lambda>s. Inl ''no kinds''),
      tree_to_string = (\<lambda>t. Inr (if length (tr_revisions t) = 5 then ''container-2.json'' else ''container-1.json'')), attestations_json = Inr,
      link_parse = (\<lambda>s. Inr (if s = ''e'' then [1] else [2])), parse_batch_digest = (\<lambda>s. Inr [1]), parse_batch_root = (\<lambda>s. Inr [1]),
      os_random = (\<lambda>n i. []), seal_debug = (\<lambda>v. ''seal''), refusal_debug = (\<lambda>r. ''refusal''), stable_text = sf_signed_head,
      witness_debug = (\<lambda>w. ''witness''), reading_debug = (\<lambda>r. ''reading''), elsewhere_debug = (\<lambda>u f. []), call_millis = (\<lambda>n. 1),
      sleep_delay = (\<lambda>n. 0), utc = (\<lambda>n. ''now''), list_dir = (\<lambda>fs p. Inr [])\<rparr>"

definition demo_dir :: files where
  "demo_dir p = (if take 1 p \<noteq> [''run''] \<or> length p = 1 then Missing
     else if length p = 3 \<and> starts_with ''receipts'' (p ! 1) then Contents (''r'' @ [CHR 0x0A]) else Contents (last p))"

definition demo_world :: step_world where
  "demo_world = \<lparr>sw_log = demo_log, sw_fs = demo_dir, sw_moment = 0, sw_now = 0\<rparr>"

definition demo_config :: replay_config where
  "demo_config = \<lparr>rc_run_dir = [''run''], rc_out = Some [''out''],
     rc_reader = \<lparr>rp_tsa_policy_oid = ''1.2'', rp_tsa_issuer = ''qtsa'', rp_evm_chain_id = 11155111, rp_evm_contract = ''0xc'', rp_sealer_signature_type = ''ed25519''\<rparr>,
     rc_expect_server_did = ''did:svc''\<rparr>"

definition demo_replay :: "(run_error + step_log list) \<times> step_world" where
  "demo_replay = run_replay demo_steps demo_paths demo_device demo_lock demo_config demo_world"

section \<open>The theorems applied\<close>

text \<open>An anchor that never becomes final, asked about with a budget of two minutes.\<close>

definition demo_evaluation :: evaluation where
  "demo_evaluation = \<lparr>ev_prepared = ''p'', ev_head = ''head'', ev_did = ''did:me'', ev_witnesses = [], ev_requirement = OpenWitness, ev_budget = 120000\<rparr>"

definition demo_never_final :: step_api where
  "demo_never_final = demo_steps\<lparr>evaluate_seal_witnesses := (\<lambda>n p h d ws req. Inr (Inl (EvmAnchorNotFinal ''not_final'')))\<rparr>"

theorem evaluate_with_retry_bounded_witness:
  "case evaluate_with_retry demo_never_final demo_evaluation demo_world of
     (r, w') \<Rightarrow> r = Inr (Inl (EvmAnchorNotFinal ''not_final'')) \<and> sw_moment w' \<le> 4 \<and> 120000 \<le> sw_now w'"
proof -
  obtain r w' where run: "evaluate_with_retry demo_never_final demo_evaluation demo_world = (r, w')" by fastforce
  have "\<exists>calls. sw_moment w' = Suc calls \<and> Suc calls \<le> 4 \<and> r = Inr (Inl (EvmAnchorNotFinal ''not_final'')) \<and> 120000 \<le> sw_now w'"
    using evaluate_with_retry_bounded [OF run] by (auto simp: demo_never_final_def demo_evaluation_def demo_world_def RETRY_PAUSE_def)
  then show ?thesis unfolding run by auto
qed

theorem replay_leaves_run_dir_witness: "untouched [''run''] demo_dir (sw_fs (snd demo_replay))"
proof -
  obtain r w' where run: "demo_replay = (r, w')" by fastforce
  have apart: "apart demo_paths demo_device [''run''] [''out'']"
    by (auto simp: apart_def resolved_demo demo_device_def path_starts_with_def)
  have "\<forall>p. path_starts_with p [''run''] \<longrightarrow> sw_fs w' p = sw_fs demo_world p"
    using replay_leaves_run_dir [OF run [unfolded demo_replay_def], of "[''run'']"] apart by (simp add: demo_config_def resolved_demo)
  then show ?thesis by (simp add: run demo_world_def untouched_def)
qed

end
