(* ===== verification/E2e_Pass.thy ===== *)
theory E2e_Pass
  imports E2e_Demo
begin

text \<open>
  The replay of the run directory of \<open>E2e_Demo\<close>, with no output directory, evaluated: every step passes, so the
  theorem on passing replays applies.  \<open>gives m a\<close> is the evaluation of an action there, with one rule per
  action; closed pieces are evaluated by the simplifier.
\<close>

section \<open>The run\<close>

definition quiet_config :: replay_config where
  "quiet_config = demo_config\<lparr>rc_out := None\<rparr>"

definition demo_state :: run_state where
  "demo_state = \<lparr>rs_meta = demo_file_json ''run.json'', rs_server_did = ''did:svc'', rs_did = ''did:me'', rs_set = [0],
     rs_members = [(''m1.txt'', demo_tree, ''m1.txt''), (''m2.txt'', demo_tree, ''m2.txt''), (''m3.txt'', demo_tree, ''m3.txt'')],
     rs_tips = [[2], [2], [2]], rs_nonces = (replicate 3 (replicate 32 0), replicate 3 (replicate 32 0)),
     rs_leaves = (replicate 3 (replicate 32 0), replicate 3 (replicate 32 0)), rs_heads = (''head'', ''head'')\<rparr>"

definition quiet_ctx :: seal_ctx where
  "quiet_ctx = replay_ctx demo_steps demo_device quiet_config ''aaa'' demo_state"

section \<open>Evaluation of an action in that run directory\<close>

text \<open>From a world with a passing log and this directory, the action answers \<open>a\<close> and the log still passes.\<close>

definition gives :: "'a step \<Rightarrow> 'a \<Rightarrow> bool" where
  "gives m a \<longleftrightarrow> (\<forall>w. passing w \<longrightarrow> sw_fs w = demo_dir \<longrightarrow> (\<exists>w'. m w = (Inr a, w') \<and> passing w' \<and> sw_fs w' = demo_dir))"

lemma quiet_write_dir [simp]: "write_dir (cx_store quiet_ctx) = None"
  by (simp add: quiet_ctx_def replay_ctx_def quiet_config_def write_dir_def)

lemma gives_bind: "gives m a \<Longrightarrow> gives (f a) b \<Longrightarrow> gives (step_bind m f) b"
  unfolding gives_def step_bind_def by (fastforce split: prod.splits)

lemma gives_return: "gives (step_return a) a"
  by (simp add: gives_def step_return_def)

lemma gives_lift: "s = Inr a \<Longrightarrow> gives (step_lift s) a"
  by (simp add: gives_def step_lift_def)

lemma gives_assert: "ok \<Longrightarrow> gives (step_assert ok what fals) ()"
  by (simp add: gives_def step_assert_def step_bind_def step_check_def step_return_def passing_def)

lemma gives_try: "gives m a \<Longrightarrow> gives (step_try m) (Inr a)"
  unfolding gives_def step_try_def by (fastforce split: prod.splits)

lemma gives_read: "file_text quiet_ctx demo_dir name = Some t \<Longrightarrow> gives (store_read quiet_ctx name) t"
  by (auto simp: gives_def store_read_def file_text_def split: entry_state.splits)

lemma gives_artifact: "gives (store_artifact quiet_ctx name b) ()"
  by (simp add: gives_def store_artifact_def artifact_def passing_def)

lemma gives_cases:
  "gives (f a) v \<Longrightarrow> gives (case Inl a of Inl a \<Rightarrow> f a | Inr b \<Rightarrow> g b) v"
  "gives (g b) v \<Longrightarrow> gives (case Inr b of Inl a \<Rightarrow> f a | Inr b \<Rightarrow> g b) v"
  "gives (h b) v' \<Longrightarrow> gives (case Some b of None \<Rightarrow> m | Some b \<Rightarrow> h b) v'"
  "gives (k1 s) v' \<Longrightarrow> gives (case Seal s of Seal s \<Rightarrow> k1 s | Rejected j \<Rightarrow> k2 j | UnknownReading \<Rightarrow> k3) v'"
  "gives (q a b') v' \<Longrightarrow> gives (case (a, b') of (a, b) \<Rightarrow> q a b) v'"
  "\<not> P \<Longrightarrow> gives m2 v' \<Longrightarrow> gives (if P then m1 else m2) v'"
  by simp_all

lemma gives_evaluate:
  assumes "\<And>n. evaluate_seal_witnesses x n (ev_prepared e) (ev_head e) (ev_did e) (ev_witnesses e) (ev_requirement e) = Inr (Inr accepted)"
  shows "gives (evaluate_with_retry x e) (Inr accepted)"
  unfolding gives_def evaluate_with_retry_def
  by (subst evaluate_loop.simps) (simp add: evaluate_once_def Let_def assms passing_def)

text \<open>An action evaluated at a world with an empty list of falsifiers.\<close>

abbreviation demo_at :: "nat \<Rightarrow> string list \<Rightarrow> nat \<Rightarrow> nat \<Rightarrow> step_world" where
  "demo_at k ls n t \<equiv> \<lparr>sw_log = \<lparr>sl_n = k, sl_lines = ls, sl_fails = []\<rparr>, sw_fs = demo_dir, sw_moment = n, sw_now = t\<rparr>"

lemma gives_code:
  assumes "\<And>k ls n t. case m (demo_at k ls n t) of (r, w') \<Rightarrow> r = Inr a \<and> passing w'" and "later_rel.keeps quiet_ctx m"
  shows "gives m a"
  unfolding gives_def
proof (intro allI impI)
  fix w assume pass: "passing w" and fs: "sw_fs w = demo_dir"
  have w: "w = demo_at (sl_n (sw_log w)) (sl_lines (sw_log w)) (sw_moment w) (sw_now w)"
    using pass fs by (simp add: passing_def log_passed_def)
  obtain r w' where m: "m w = (r, w')" by fastforce
  have "r = Inr a" "passing w'"
    using assms(1) [of "sl_n (sw_log w)" "sl_lines (sw_log w)" "sw_moment w" "sw_now w"] m unfolding w [symmetric] by simp_all
  moreover have "sw_fs w' = demo_dir"
    using assms(2) m fs later_none [of quiet_ctx] unfolding later_rel.keeps_def by (metis quiet_write_dir snd_conv)
  ultimately show "\<exists>w'. m w = (Inr a, w') \<and> passing w' \<and> sw_fs w' = demo_dir" using m by blast
qed

lemma gives_log_seal: "gives (log_seal x quiet_ctx label v) ()"
  unfolding log_seal_def by (rule gives_bind [OF gives_try [OF gives_artifact] gives_return])

lemmas gives_rules = gives_bind gives_return gives_try gives_artifact gives_cases gives_log_seal

section \<open>Step 2\<close>

definition demo_seal1 :: verified_seal where
  "demo_seal1 = demo_seal_read (dual (cx_policy quiet_ctx)) False"

definition demo_members :: "revision_link list list" where
  "demo_members = replicate 3 [[1], [2]]"

lemma demo_texts:
  "file_text quiet_ctx demo_dir CONTAINER_1 = Some CONTAINER_1" "file_text quiet_ctx demo_dir ATTESTATIONS_1 = Some ATTESTATIONS_1"
  by code_simp+

lemma gives_container: "gives (load_container demo_steps quiet_ctx) demo_tree"
  unfolding load_container_def
  by (rule gives_bind [OF gives_read [OF demo_texts(1)] gives_lift]) code_simp

lemma gives_members: "gives (members demo_steps quiet_ctx) demo_members"
  by (rule gives_code, code_simp, rule later_rel.keeps_helpers)

lemma demo_verifies: "verify_seal_container demo_steps n t i c = Inr (demo_verify t i)"
  by (simp add: demo_steps_def tamper_api.defs)

lemma gives_verify: "demo_verify t i = r \<Longrightarrow> gives (verify demo_steps quiet_ctx t i) r"
  by (simp add: verify_def gives_def step_ask_def passing_def demo_verifies)

lemma step2_gives:
  "gives (step2_inner demo_steps quiet_ctx) (Some \<lparr>s2_seal = demo_seal1, s2_stable = stable demo_steps demo_seal1\<rparr>)"
proof -
  let ?receipts = "[''r'', ''r'', ''r'']"
  have verify: "gives (verify demo_steps quiet_ctx demo_tree (dual (cx_policy quiet_ctx))) (Seal demo_seal1)"
    by (rule gives_verify) code_simp
  have receipts: "receipts_for demo_steps (vs_anchor demo_seal1) (fst (rs_heads (cx_state quiet_ctx))) (fst (rs_leaves (cx_state quiet_ctx)))
      (rs_tips (cx_state quiet_ctx)) (fst (rs_nonces (cx_state quiet_ctx))) = Inr ?receipts"
    by code_simp
  have derive: "gives (derive_receipts demo_steps quiet_ctx 1 ?receipts ''partially_verified (receipt differs)'') ()"
    by (rule gives_code, code_simp, rule later_rel.keeps_helpers)
  have reading: "gives (step2_reading demo_steps quiet_ctx demo_seal1
      (full_set_check demo_steps (package_of demo_steps (Seal demo_seal1) demo_members ?receipts))) ()"
    by (rule gives_code, code_simp, rule later_rel.keeps_helpers)
  have attestations: "gives (step2_attestations demo_steps quiet_ctx demo_seal1 ATTESTATIONS_1 bp) ()"
    if "bp \<in> {(Unpinned, []), (Pinned, [rs_server_did (cx_state quiet_ctx)])}" for bp
    using that by (elim insertE emptyE; hypsubst) (rule gives_code, code_simp, rule later_rel.keeps_helpers)+
  have expected: "cx_expect_server_did quiet_ctx = Some (rs_server_did (cx_state quiet_ctx))"
    by code_simp
  show ?thesis
    unfolding step2_inner_def Let_def list.map step_all.simps expected
    by (rule gives_rules gives_container verify gives_members gives_lift [OF receipts] derive reading gives_read [OF demo_texts(2)]
        attestations gives_assert insertI1 insertI2 refl)+
qed

section \<open>Steps 4 and 5\<close>

lemma demo_keeps:
  "later_rel.keeps c (step4a_read x c tree)" "later_rel.keeps c (step5a_seal x c rl seal v)" "later_rel.keeps c (step5a_in_place x c c1 tq t2 a_key)"
  "later_rel.keeps c (step5b_readings x seal tq key docs pins)"
  unfolding step4a_read_def step5a_seal_def step5a_in_place_def step5b_readings_def Let_def case_prod_unfold
  by (auto intro!: later_rel.keeps_step later_rel.keeps_helpers)

text \<open>The witnesses as the steps load them.\<close>

definition demo_pair :: "string \<Rightarrow> anchor_method \<Rightarrow> served_pair" where
  "demo_pair name m = projr (and_then (map_err (\<lambda>_. name @ '': no witness'') (parse_witness demo_steps m name)) (pair_of demo_steps))"

definition demo_qtsa :: served_pair where
  "demo_qtsa = demo_pair ''s1-qtsa.json'' Qtsa"

definition demo_evm :: served_pair where
  "demo_evm = demo_pair ''s1-evm.json'' Evm"

lemma gives_pairs:
  "gives (load_pair demo_steps quiet_ctx ''s1-qtsa.json'' Qtsa) demo_qtsa" "gives (load_pair demo_steps quiet_ctx ''s2-qtsa.json'' Qtsa) demo_qtsa"
  "gives (load_pair demo_steps quiet_ctx ''s1-evm.json'' Evm) demo_evm"
  by (rule gives_code, code_simp, rule later_rel.keeps_helpers)+

lemma demo_links:
  "link_parse demo_steps (ft_object_key (sp_fetched demo_qtsa)) = Inr [2]" "link_parse demo_steps (ft_object_key (sp_fetched demo_evm)) = Inr [1]"
  by code_simp+

definition demo_accepted :: accepted_witnesses where
  "demo_accepted = \<lparr>ac_anchor = [4], ac_witnesses = [\<lparr>ak_kind = AnchorTsa, ak_attester = Some ''did:svc'', ak_timestamp = [2]\<rparr>]\<rparr>"

definition demo_output2 :: seal_output where
  "demo_output2 = \<lparr>so_container = demo_second, so_attestations = ATTESTATIONS_2\<rparr>"

lemma step4a_gives: "gives (step4a demo_steps quiet_ctx) ()"
proof -
  let ?prepared = "''prepared-seal-2.json''"
  have prepared: "gives (load_prepared_seal demo_steps quiet_ctx 2) ?prepared"
    by (rule gives_code, code_simp, rule later_rel.keeps_helpers)
  have evaluated: "evaluate_seal_witnesses demo_steps n p h d (ws # wss) req = Inr (Inr demo_accepted)" for n p h d ws wss req
    by (simp add: demo_steps_def tamper_api.defs demo_accepted_def)
  have evaluate: "gives (evaluate_with_retry demo_steps \<lparr>ev_prepared = p, ev_head = h, ev_did = d, ev_witnesses = [ws], ev_requirement = WithoutEvm,
      ev_budget = 0\<rparr>) (Inr demo_accepted)" for p h d ws
    by (rule gives_evaluate) (simp add: evaluated)
  have kinds: "map ak_kind (ac_witnesses demo_accepted) = [AnchorTsa]" "length (tr_revisions (so_container demo_output2)) = 5"
    by code_simp+
  have out: "map_err (\<lambda>e. ''finish_seal: '' @ e) (finish_seal demo_steps ?prepared demo_accepted) = Inr demo_output2"
    "tree_to_string demo_steps (so_container demo_output2) = Inr CONTAINER_2" "attestations_json demo_steps (so_attestations demo_output2) = Inr ATTESTATIONS_2"
    by code_simp+
  have persisted: "gives (store_derived quiet_ctx CONTAINER_2 CONTAINER_2 fals) ()" "gives (store_derived quiet_ctx ATTESTATIONS_2 ATTESTATIONS_2 fals) ()" for fals
    by (rule gives_code, code_simp, rule later_rel.keeps_derived)+
  have read: "gives (step4a_read demo_steps quiet_ctx (so_container demo_output2)) ()"
    by (rule gives_code, code_simp, rule demo_keeps)
  show ?thesis
    unfolding step4a_def Let_def
    by (rule gives_rules gives_pairs prepared evaluate gives_assert kinds gives_lift out persisted read)+
qed

lemma step4b_gives: "gives (step4b demo_steps quiet_ctx) ()"
  by (rule gives_code, code_simp, rule later_rel.keeps_step4)

definition demo_o2 :: step2_out where
  "demo_o2 = \<lparr>s2_seal = demo_seal1, s2_stable = stable demo_steps demo_seal1\<rparr>"

definition demo_relinked :: relinked_container where
  "demo_relinked = projr (relink_flipped_token demo_steps demo_tree [4] [5] [2] [1])"

definition demo_seal5 :: verified_seal where
  "demo_seal5 = demo_tampered_read (dual (cx_policy quiet_ctx))"

lemma step5a_gives: "gives (step5a demo_steps quiet_ctx (Some demo_o2)) ()"
proof -
  let ?receipts = "[''r'', ''r'', ''r'']"
  have relinked: "relink_flipped_token demo_steps demo_tree (vs_anchor (s2_seal demo_o2)) (vs_head_link (s2_seal demo_o2)) [2] [1] = Inr demo_relinked"
    "tree_to_string demo_steps (rl_container demo_relinked) = Inr CONTAINER_1"
    by code_simp+
  have verify: "gives (verify demo_steps quiet_ctx (rl_container demo_relinked) (dual (cx_policy quiet_ctx))) (Seal demo_seal5)"
    by (rule gives_verify) code_simp
  have receipts: "receipts_for demo_steps (rl_anchor_link demo_relinked) (fst (rs_heads (cx_state quiet_ctx))) (fst (rs_leaves (cx_state quiet_ctx)))
      (rs_tips (cx_state quiet_ctx)) (fst (rs_nonces (cx_state quiet_ctx))) = Inr ?receipts"
    by code_simp
  have reading: "gives (step5a_seal demo_steps quiet_ctx demo_relinked demo_seal5
      (full_set_check demo_steps (package_of demo_steps (Seal demo_seal5) demo_members ?receipts))) ()"
    by (rule gives_code, code_simp, rule demo_keeps)
  have in_place: "gives (step5a_in_place demo_steps quiet_ctx demo_tree [2] (rl_flipped demo_relinked) (vs_anchor (s2_seal demo_o2))) ()"
    by (rule gives_code, code_simp, rule demo_keeps)
  show ?thesis
    unfolding step5a_def Let_def
    by (rule gives_rules gives_container gives_pairs gives_lift demo_links relinked verify gives_members receipts reading in_place)+
qed

definition demo_altered :: "json \<times> string" where
  "demo_altered = projr (alter_p_key_kept demo_doc ''p'')"

definition demo_rekeyed :: rekeyed_p where
  "demo_rekeyed = projr (rekey_bad_signature demo_steps demo_doc ''p'')"

lemma step5b_gives: "gives (step5b demo_steps quiet_ctx (Some demo_o2)) ()"
proof -
  let ?pq = "ft_signature_key (sp_fetched demo_qtsa)"
  have doc: "from_str demo_steps ATTESTATIONS_1 = Inr demo_doc" "json_get (json_at demo_doc ''revisions'') ?pq \<noteq> None"
    by code_simp+
  have docs: "and_then (remove_p demo_doc ?pq) (\<lambda>j. Inr (json_text demo_steps j)) = Inr ''removed''"
    "alter_p_key_kept demo_doc ?pq = Inr (fst demo_altered, snd demo_altered)"
    "and_then (only_p (fst demo_altered) ?pq) (\<lambda>j. Inr (json_text demo_steps j)) = Inr ''altered''"
    "rekey_bad_signature demo_steps demo_doc ?pq = Inr demo_rekeyed"
    "and_then (only_p (rk_doc demo_rekeyed) (link_text demo_steps (rk_key demo_rekeyed))) (\<lambda>j. Inr (json_text demo_steps j)) = Inr ''altered''"
    by code_simp+
  have readings: "gives (step5b_readings demo_steps (s2_seal demo_o2) [2] (rk_key demo_rekeyed)
      (''removed'', json_text demo_steps (fst demo_altered), ''altered'', json_text demo_steps (rk_doc demo_rekeyed), ''altered'') pins) ()"
    if "pins \<in> {[], [rs_server_did (cx_state quiet_ctx)]}" for pins
    using that by (elim insertE emptyE; hypsubst) (rule gives_code, code_simp, rule demo_keeps)+
  have verify: "gives (verify demo_steps quiet_ctx demo_tree (dual (cx_policy quiet_ctx))) (Seal demo_seal1)"
    by (rule gives_verify) code_simp
  have into: "into_seal demo_steps (Seal demo_seal1) = Inr demo_seal1" and again: "stable demo_steps demo_seal1 = s2_stable demo_o2"
    by (simp_all add: demo_steps_def tamper_api.defs demo_o2_def)
  have seal: "gives (g demo_seal1) v \<Longrightarrow> gives (case into_seal demo_steps (Seal demo_seal1) of Inl r \<Rightarrow> f r | Inr s \<Rightarrow> g s) v" for f g and v :: unit
    by (simp add: into)
  show ?thesis
    unfolding step5b_def Let_def list.map step_all.simps
    by (rule gives_rules gives_read [OF demo_texts(2)] gives_lift doc gives_pairs demo_links docs readings insertI1 insertI2
        gives_container verify seal gives_assert again)+
qed

section \<open>The whole replay\<close>

lemma step367_gives:
  "gives (step3_inner demo_steps quiet_ctx) ()" "gives (step6_inner demo_steps quiet_ctx) ()" "gives (step7_inner demo_steps quiet_ctx) ()"
  by (rule gives_code, code_simp, rule later_rel.keeps_step3 later_rel.keeps_step6 later_rel.keeps_step7)+

text \<open>A step that passes in this directory from any world.\<close>

definition succeeds :: "(step_world \<Rightarrow> step_world) \<Rightarrow> bool" where
  "succeeds s \<longleftrightarrow> (\<forall>w. sw_fs w = demo_dir \<longrightarrow> passing (s w) \<and> sw_fs (s w) = demo_dir)"

lemma gives_harness: "gives m () \<Longrightarrow> gives (harness part m) ()"
  unfolding harness_def by (rule gives_bind [OF gives_try]) (simp_all add: gives_return)

lemma gives_step: "gives m a \<Longrightarrow> sw_fs w = demo_dir \<Longrightarrow>
    (\<exists>w'. m (new_log x c n title w) = (Inr a, w') \<and> passing w' \<and> sw_fs w' = demo_dir)"
  unfolding gives_def by (simp del: ex_simps)

lemma steps_succeed:
  "succeeds (step3 demo_steps quiet_ctx)" "succeeds (step4 demo_steps quiet_ctx)" "succeeds (step5 demo_steps quiet_ctx (Some demo_o2))"
  "succeeds (step6 demo_steps quiet_ctx)" "succeeds (step7 demo_steps quiet_ctx)"
proof -
  have one: "passing (snd (m (new_log x c n title w))) \<and> sw_fs (snd (m (new_log x c n title w))) = demo_dir"
    if "gives m ()" "sw_fs w = demo_dir" for m :: "unit step" and x :: step_api and c n title w
    using gives_step [OF that, of x c n title] by (elim exE conjE) simp
  have two: "gives (step_all [harness p1 m1, harness p2 m2]) ()" if "gives m1 ()" "gives m2 ()" for p1 m1 p2 m2
    unfolding step_all.simps
    by (rule gives_bind [OF gives_harness [OF that(1)] gives_bind [OF gives_harness [OF that(2)] gives_return]])
  show "succeeds (step3 demo_steps quiet_ctx)" "succeeds (step6 demo_steps quiet_ctx)" "succeeds (step7 demo_steps quiet_ctx)"
    unfolding succeeds_def step3_def step6_def step7_def using one gives_harness step367_gives by blast+
  show "succeeds (step4 demo_steps quiet_ctx)" "succeeds (step5 demo_steps quiet_ctx (Some demo_o2))"
    unfolding succeeds_def step4_def step5_def using one two step4a_gives step4b_gives step5a_gives step5b_gives by blast+
qed

lemma quiet_keep_log: "keep_log quiet_ctx closing logs w = (Inr (logs @ [sw_log w]), w)"
  by (simp add: keep_log_def)

lemma run_kept_succeeds:
  assumes "\<forall>s\<in>set ss. succeeds s" "sw_fs w = demo_dir" "list_all log_passed logs" "logs \<noteq> []"
  shows "\<exists>ls w'. run_kept quiet_ctx closing ss logs w = (Inr ls, w') \<and> all_passed ls"
  using assms
proof (induction ss arbitrary: w logs)
  case (Cons s ss)
  then have s: "passing (s w)" "sw_fs (s w) = demo_dir" by (auto simp: succeeds_def)
  have "run_kept quiet_ctx closing (s # ss) logs w = run_kept quiet_ctx closing ss (logs @ [sw_log (s w)]) (s w)"
    by (simp add: step_bind_def quiet_keep_log)
  moreover have "list_all log_passed (logs @ [sw_log (s w)])" using Cons.prems(3) s(1) by (simp add: passing_def)
  ultimately show ?case using Cons.IH [of "s w" "logs @ [sw_log (s w)]"] Cons.prems(1) s(2) by simp
qed (simp add: step_return_def all_passed_def)

lemma quiet_run: "\<exists>logs w'. run demo_steps quiet_ctx FromPersisted ''replay'' demo_world = (Inr logs, w') \<and> all_passed logs"
proof -
  have fs: "sw_fs demo_world = demo_dir" by (simp add: demo_world_def)
  obtain w2 where two: "step2 demo_steps quiet_ctx demo_world = (Some demo_o2, w2)" and w2: "passing w2" "sw_fs w2 = demo_dir"
    using gives_step [OF step2_gives fs, of demo_steps quiet_ctx 2 "''verify the container and the full-set check under the pinned reader policy P2''"]
    by (auto simp: step2_def demo_o2_def)
  have "\<exists>ls w'. run_kept quiet_ctx ''replay'' [step3 demo_steps quiet_ctx, step4 demo_steps quiet_ctx, step5 demo_steps quiet_ctx (Some demo_o2),
      step6 demo_steps quiet_ctx, step7 demo_steps quiet_ctx] [sw_log w2] w2 = (Inr ls, w') \<and> all_passed ls"
    by (rule run_kept_succeeds) (use w2 in \<open>auto simp: steps_succeed passing_def\<close>)
  moreover have "run demo_steps quiet_ctx FromPersisted ''replay'' demo_world
      = run_kept quiet_ctx ''replay'' [step3 demo_steps quiet_ctx, step4 demo_steps quiet_ctx, step5 demo_steps quiet_ctx (Some demo_o2),
          step6 demo_steps quiet_ctx, step7 demo_steps quiet_ctx] [sw_log w2] w2"
    unfolding run_def by (simp add: step_bind_def [of "step_return []"] step_return_def two del: run_kept.simps(2)) (simp add: step_bind_def quiet_keep_log)
  ultimately show ?thesis by simp
qed

lemma quiet_replay: "\<exists>logs w'. run_replay demo_steps demo_paths demo_device demo_lock quiet_config demo_world = (Inr logs, w') \<and> all_passed logs"
proof -
  have "verify_complete demo_steps (read_path demo_device demo_dir) [''run''] = Inr ()"
    "run_state_load demo_steps (read_path demo_device demo_dir) [''run''] = Inr demo_state" "sdk_rev_in demo_lock = Inr ''aaa''"
    by code_simp+
  moreover have "sw_fs demo_world = demo_dir" "rc_out quiet_config = None" "rc_run_dir quiet_config = [''run'']"
    by (simp_all add: demo_world_def quiet_config_def demo_config_def)
  ultimately show ?thesis
    using quiet_run by (auto simp: run_replay_def quiet_ctx_def)
qed

theorem replay_pass_means_witness:
  "\<exists>state sdk o2. run_state_load demo_steps (read_path demo_device demo_dir) [''run''] = Inr state
     \<and> seal_verified demo_steps (replay_ctx demo_steps demo_device quiet_config sdk state) demo_dir (Some o2)
     \<and> relinked_refused demo_steps (replay_ctx demo_steps demo_device quiet_config sdk state) demo_dir o2
     \<and> epoch_without_stub demo_steps (replay_ctx demo_steps demo_device quiet_config sdk state) demo_dir"
proof -
  obtain logs w' where run: "run_replay demo_steps demo_paths demo_device demo_lock quiet_config demo_world = (Inr logs, w')" and pass: "all_passed logs"
    using quiet_replay by blast
  have "sw_fs demo_world = demo_dir" "rc_out quiet_config = None" "rc_run_dir quiet_config = [''run'']"
    by (simp_all add: demo_world_def quiet_config_def demo_config_def)
  then show ?thesis
    using replay_pass_means [OF run pass] unfolding Let_def by auto
qed

end
