(* ===== verification/Spec2Isabelle.thy ===== *)
theory Spec2Isabelle
  imports App E2e_Pass
begin

text \<open>
  The Aqua timestamp aggregator: a verification development.

  \<^bold>\<open>The program.\<close>  Clients submit 32-byte hashes over HTTP.  The service collects them in an open epoch
  (accumulator), and a sealer closes the epoch on a timer: it builds a Merkle tree over the leaves,
  writes the epoch to a key-value store, has the root anchored by the enabled methods (an EVM
  transaction, a qualified timestamp), mints one witness per leaf and method, checks every witness
  with the verifier a reader runs, and only then marks it as servable.  Handlers behind a CAIP-122
  login serve the witnesses to their submitters.  Around this core are a watcher of deposits, an
  adaptive publication rate, a client library with its own token cache and identity pinning, and a
  checker that runs the whole service end to end.

  \<^bold>\<open>Theories and sources\<close> (\<open>core\<close>, \<open>server\<close>, \<open>client\<close> and \<open>e2e\<close> stand for \<open>src/crates/aqua-timestamp-core/src\<close>,
  \<open>src/crates/aqua-timestamp/src\<close>, \<open>src/crates/aqua-timestamp-client/src\<close> and \<open>src/crates/aqua-timestamp-e2e/src\<close>).

  \<^item> \<open>Prelude\<close>: machine types, saturating arithmetic, \<open>str\<close> and \<open>Result\<close> operations, big-endian keys,
    the locale \<open>transition_system\<close>.
  \<^item> \<open>Leaf_Hex\<close> (core \<open>merkle.rs\<close>, \<open>epoch.rs\<close>, client \<open>hex_utils.rs\<close>): the spellings of a leaf.  The hex crate is
    the locale \<open>hex_codec\<close>.
  \<^item> \<open>Accumulator\<close> (core \<open>accumulator.rs\<close>): the open epoch.  A submission and a seal are atomic under its mutex,
    so an execution is a sequence of operations; the locale \<open>leaf_buffer\<close> is its contract.
  \<^item> \<open>Witness\<close> (core \<open>witness.rs\<close>, \<open>anchors.rs\<close>): minting, and the pending record of a sealed epoch.  The SDK is
    the locale \<open>aqua_sdk\<close>.
  \<^item> \<open>Partition\<close>, \<open>Store\<close> (core \<open>storage.rs\<close>, \<open>leaderboard.rs\<close>): the partitions as ordered maps (locale
    \<open>ordered_partition\<close>), a volatile and a synced copy, read and write faults, every operation.
  \<^item> \<open>Selfcheck\<close> (core \<open>selfcheck.rs\<close>): the check of a minted witness, alone and in a batch; what a host may
    claim is the locale \<open>anchor_claims\<close>.
  \<^item> \<open>Sealer\<close>, \<open>Seal_Cycle\<close> (core \<open>sealer.rs\<close>): one tick with everything it calls, and the transition system of
    submissions, ticks, device faults and restarts.  The locales \<open>settle_invariant\<close> and \<open>tick_invariant\<close> carry
    an invariant through a tick from its behaviour on the store writes.
  \<^item> \<open>Served_Origin\<close> (the writes of \<open>persist_pending_minted\<close>): every stored index entry, revision and leaf
    lookup of a reachable state is that of a verified witness under its own hashes.  That a hash names one
    revision is the hypothesis \<open>content_addressed\<close>; a reference deployment with strict checks satisfies it.
  \<^item> \<open>Bonding_Curve\<close> (core \<open>bonding_curve.rs\<close>, \<open>events.rs\<close>, the loops of \<open>sealer.rs\<close>): rates over reals with a
    rounding function (locale \<open>f64_arith\<close>), the three seal loops as lists of rounds.
  \<^item> \<open>Watcher\<close> (server \<open>watcher.rs\<close>, \<open>oracle.rs\<close>), \<open>Config\<close> (server \<open>config.rs\<close>), \<open>Auth\<close> (server \<open>auth.rs\<close>, \<open>state.rs\<close>),
    \<open>Routes\<close> (server \<open>routes.rs\<close>), \<open>Identity\<close> (server \<open>identity.rs\<close>), \<open>App\<close> (server \<open>lib.rs\<close>).
  \<^item> \<open>Client_Auth\<close> (client \<open>auth.rs\<close>): the callers of \<open>ensure_token\<close> as a step relation, one atomic access per
    step.  \<open>Client\<close> (client \<open>client.rs\<close>, \<open>identity.rs\<close>, \<open>trust.rs\<close>, \<open>types.rs\<close>, \<open>error.rs\<close>, \<open>known_servers.rs\<close>).
  \<^item> \<open>E2e_Identity\<close> (e2e \<open>identity.rs\<close>, \<open>target.rs\<close>), \<open>E2e_Fetch\<close> (e2e \<open>flow.rs\<close>, \<open>witness.rs\<close>), \<open>E2e_Run\<close> (e2e
    \<open>seal/run_dir.rs\<close>, \<open>log.rs\<close>, \<open>mod.rs\<close>, the reading of a served witness of \<open>steps.rs\<close>, the guards of \<open>live.rs\<close>),
    \<open>E2e_Tamper\<close> (e2e \<open>seal/policy.rs\<close>, \<open>tamper.rs\<close>).
  \<^item> \<open>E2e_Step\<close>, \<open>E2e_Steps\<close> (e2e \<open>seal/steps.rs\<close>): a step as a function of its world (log, files, clock, number of
    host reads); the seven steps with every assertion, file and error, and the run over them.  \<open>E2e_Keeps\<close>: the
    locales \<open>step_relation\<close> and \<open>run_relation\<close> carry a relation between worlds through every step, once for all;
    they are interpreted for the verdict of a log, for the files written and for a directory left alone.
    \<open>E2e_Verdict\<close>: what a passing step has established, and the retries of the evaluator.  \<open>E2e_Replay\<close> (e2e
    \<open>seal/replay.rs\<close>): the replay, and what a passing run and a passing replay mean.  \<open>E2e_Demo\<close>: concrete
    answers of the SDK on which these theorems are applied; \<open>E2e_Pass\<close>: a whole replay evaluated there.
  \<^item> this theory: the client against the server's handlers.

  \<^bold>\<open>How code becomes definitions.\<close>  A struct is a record, an enum a datatype, a \<open>u64\<close> a 64-bit word, a \<open>Result\<close>
  the sum type with the error on the left.  A handler is a function of the state that answers the
  new state.  An external call is an argument: the SDK, codecs and hosts are records of functions whose
  documented laws are locales, and each locale is interpreted by a reference instance, on which the
  witnesses of the theorems are evaluated.  What the outside does over time (provider answers, device
  faults, clocks, HTTP exchanges) is an explicit input, indexed by a moment or given as a list.

  \<^bold>\<open>What is shown.\<close>
  \<^item> Safety of what is served: in every reachable state a servable tip belongs to a witness that passed
    the full self-check, the body of an answer is that witness's own pair of revisions, handlers serve
    witnesses only to their submitter, or to the DID that submitted the leaf last, and a bearer's DID
    rests on a verified signature (\<open>Seal_Cycle\<close>, \<open>Served_Origin\<close>, \<open>Routes\<close>, \<open>Auth\<close>).
  \<^item> No accepted leaf is lost but in one case, which is stated: an accepted leaf is in the next seal, a
    successful tick is durable, a restart opens a new epoch, and an error after the swap drops the leaves
    of the epoch (\<open>Accumulator\<close>, \<open>Store\<close>, \<open>Seal_Cycle\<close>, \<open>App\<close>).
  \<^item> Bounds and progress of anchoring: at most one failed call per method and tick, bounded fault counts,
    settling serves every leaf when the providers, the device, the SDK and the hosts answer, the curve
    loop runs a seal in time while the wallet is funded.
  \<^item> Equivalences and round trips: what the batch check decides in terms of the single check, paging and the epoch log, the
    pending record and what it was made from, leaf spellings, the known-servers file.
  \<^item> The client: which trees it accepts, that its polls end, that at most one refresh runs, and two ways
    in which it does not do what its comments say (a pending anchor is an error, a token call can hang).
    Client and server composed: receipts tell the truth.
  \<^item> The checker: its identity is made once, its polls end, a passing flow has verified both witnesses, a
    complete run directory loads, and a replay leaves it alone.  Each seal step passes only if the SDK's
    answers show what the step is there to show; a replay whose verdict is a pass has shown all of it of the
    bytes in the run directory; the evaluator is asked a bounded number of times; a tampered document
    differs from the original in the one attestation.

  \<^bold>\<open>Fuel.\<close>  A loop that waits is a function of the list of rounds or
  attempts it meets and answers \<open>None\<close> when the list runs out; the termination theorems give lengths that
  are enough: the timeout or deadline divided by the interval, plus two.  The walk over the
  revisions of an identity tree is a partial function, shown to end for every map.  Symbolic links are followed 40 deep, as the kernel does.

  \<^bold>\<open>Not modelled.\<close>  Log output and texts of log lines; the HTML of the landing, docs and blueprint pages and
  the static icons (\<open>landing.rs\<close>, \<open>blueprint.rs\<close>, \<open>docs.rs\<close>): string templates without state; \<open>main.rs\<close> of
  both binaries (argument parsing, sockets); \<open>time.rs\<close>: the clock is an input; the route table and the
  internals of axum, tokio, fjall, reqwest, serde and the SDK, whose seal functions the steps call as
  parameters; the building of the local state and its submission in a live run (\<open>live.rs\<close>), which are SDK
  and HTTP calls; the in-process server of the dry run (e2e \<open>selfcheck.rs\<close>).  Idealised: a failed file write
  leaves the file as it was, and parent directories exist; a failed sync leaves the synced content exactly
  as before; the SDK admits the members of an attestation container by a function of the container.
\<close>

section \<open>Client and server together\<close>

text \<open>A response as the client receives it; \<open>print\<close> is the server's JSON printer.\<close>

definition wire :: "(json \<Rightarrow> string) \<Rightarrow> response \<Rightarrow> http_response" where
  "wire print r = \<lparr>hr_status = rs_status r, hr_body = (case rs_body r of JsonBody j \<Rightarrow> print j | TextBody s \<Rightarrow> s)\<rparr>"

text \<open>\<open>POST /v1/leaves\<close> as the router answers it: 202 with the counts, or the error as JSON.\<close>

definition post_leaves :: "('b, 'z) route_api_scheme \<Rightarrow> did \<Rightarrow> 'b app_state \<Rightarrow> string list \<Rightarrow> response \<times> 'b app_state" where
  "post_leaves rx d st leaves =
     (case submit_leaves rx d leaves st of (r, st') \<Rightarrow>
        (answer (and_then r (\<lambda>lr. Inr (json_response 202 (leaves_response_json lr)))), st'))"

lemma decode_leaves_request:
  assumes "hex_codec rx" "hex_encode x = hex_encode rx" "\<forall>h\<in>set hashes. hash32_ok h"
  shows "decode_leaves rx i (leaves_request x hashes) = Inr hashes"
  using assms(3)
proof (induction hashes arbitrary: i)
  case (Cons h hs)
  have "parse_leaf_hex rx (''0x'' @ format_hash32_bare x h) = Inr h"
    using hex_codec.parse_hex_lower [OF assms(1), of h] Cons.prems by (simp add: hex_lower_def format_hash32_bare_def assms(2))
  then show ?case using Cons by (simp add: leaves_request_def)
qed (simp add: leaves_request_def)

lemma decode_leaves_answer_round_trip:
  "decode_leaves_answer (leaves_response_json r)
     = Inr \<lparr>la_epoch_id = lr_epoch_id r, la_epoch_closes_at = lr_epoch_closes_at r, la_submitter_did = lr_submitter_did r\<rparr>"
  by (simp add: decode_leaves_answer_def leaves_response_json_def need_u64_def need_str_def)

text \<open>
  C4: Hashes the client submits land in the epoch its receipts name.  When \<open>submit_many\<close> against this
  server answers receipts, there is one per hash in order, all name the submitter's DID and the epoch
  that is open on the server, and that epoch now holds every hash.
\<close>

theorem submitted_hashes_land:
  assumes codec: "hex_codec rx" "hex_encode x = hex_encode rx" and hashes: "\<forall>h\<in>set hashes. hash32_ok h"
    and inv: "acc_inv (ap_accumulator st)"
    and post: "post_leaves rx d st (leaves_request x hashes) = (r, st')"
    and printed: "\<forall>j. rs_body r = JsonBody j \<longrightarrow> from_str x (print j) = Inr j"
    and run: "submit_many x base_url (Inr token) (\<lambda>raws. Inr (wire print (fst (post_leaves rx d st raws)))) hashes = Inr receipts"
  shows "map rc_leaf receipts = hashes \<and> (\<forall>rc\<in>set receipts. rc_submitter_did rc = d
    \<and> rc_epoch_id rc = ai_epoch_id (ap_accumulator st') \<and> rc_leaf rc \<in> le_leaf ` set (ai_leaves (ap_accumulator st')))"
proof -
  obtain sr st'' where sub: "submit_leaves rx d (leaves_request x hashes) st = (sr, st'')" by fastforce
  have r: "r = answer (and_then sr (\<lambda>lr. Inr (json_response 202 (leaves_response_json lr))))" "st'' = st'"
    using post sub by (simp_all add: post_leaves_def)
  have ok: "is_success (rs_status r)"
    using run post by (auto simp: submit_many_def expect_success_def wire_def split: if_splits)
  obtain lr where lr: "sr = Inr lr"
  proof (cases sr)
    case (Inl e)
    then have "ae_status e \<in> {400, 403, 503}"
      using sub decode_leaves_request [OF codec hashes]
      by (auto simp: submit_leaves_def Let_def bad_request_def forbidden_def unavailable_def split: if_splits sum.splits prod.splits)
    with ok Inl r(1) show ?thesis by (auto simp: answer_def error_response_def is_success_def)
  qed
  obtain out acc where ab: "append_batch hashes d (ap_accumulator st) = (Inr out, acc)" "st' = st\<lparr>ap_accumulator := acc\<rparr>"
    and lr': "lr_epoch_id lr = ao_epoch_id out" "lr_submitter_did lr = d"
    using sub r(2) lr decode_leaves_request [OF codec hashes]
    by (auto simp: submit_leaves_def Let_def split: if_splits sum.splits prod.splits)
  have acc: "ao_epoch_id out = ai_epoch_id acc" "\<forall>h\<in>set hashes. h \<in> le_leaf ` set (ai_leaves acc)"
    using append_batch_accepted [OF inv ab(1)] append_batch_holds [OF inv ab(1)] by metis+
  have resp: "r = json_response 202 (leaves_response_json lr)"
    using r(1) lr by (simp add: answer_def)
  have body: "from_str x (print (leaves_response_json lr)) = Inr (leaves_response_json lr)"
    using printed resp by simp
  have "read_json x decode_leaves_answer (wire print r)
      = Inr \<lparr>la_epoch_id = lr_epoch_id lr, la_epoch_closes_at = lr_epoch_closes_at lr, la_submitter_did = d\<rparr>"
    by (simp add: read_json_def wire_def resp body decode_leaves_answer_round_trip lr'(2))
  then have "receipts = map (\<lambda>h. \<lparr>rc_leaf = h, rc_epoch_id = lr_epoch_id lr, rc_epoch_closes_at = lr_epoch_closes_at lr, rc_submitter_did = d\<rparr>) hashes"
    using run by (cases "hashes = []") (auto simp: submit_many_def post)
  then show ?thesis using acc lr' ab(2) by (auto simp: comp_def)
qed

definition demo_client :: "json \<Rightarrow> client_api" where
  "demo_client j = \<lparr>hex_encode = base16_encode, hex_decode = base16_decode, sha3_256 = (\<lambda>b. replicate 32 0),
     from_str = (\<lambda>s. Inr j), url_parse = Inr, url_join = (\<lambda>b p. Inr (b @ p)),
     any_revision_from = (\<lambda>v. Inl ''unused''), is_timestamp_object = (\<lambda>r. True), link_text = (\<lambda>l. []),
     verify_signature_sync = (\<lambda>r h. True), status_text = show_nat\<rparr>"

lemma demo_routes_codec: "hex_codec demo_routes" "hex_encode demo_routes = base16_encode"
proof -
  have "sdk_api.truncate demo_routes = ref_sdk ''did:svc''"
    by (simp add: demo_routes_def demo_sdk_def ref_check_api_def ref_store_api_def sdk_api.defs store_api.defs check_api.defs route_api.defs)
  then have "aqua_sdk (sdk_api.truncate demo_routes)"
    by (simp add: ref.aqua_sdk_axioms)
  then have "aqua_sdk demo_routes"
    by (rule aqua_sdk_truncate)
  then show "hex_codec demo_routes" by (rule aqua_sdk.axioms(1))
  show "hex_encode demo_routes = base16_encode"
    by (simp add: demo_routes_def demo_sdk_def ref_check_api_def ref_store_api_def ref_sdk_def sdk_api.defs store_api.defs check_api.defs route_api.defs)
qed

lemma demo_submit: "\<exists>lr st'. submit_leaves demo_routes ''did:c'' (leaves_request (demo_client j) [demo_leaf 3]) (demo_app demo_store) = (Inr lr, st')"
proof -
  have "decode_leaves demo_routes 0 (leaves_request (demo_client j) [demo_leaf 3]) = Inr [demo_leaf 3]"
    by (rule decode_leaves_request [OF demo_routes_codec(1)]) (simp_all add: demo_client_def demo_routes_codec(2) demo_leaf_def)
  moreover have "ai_seen demo_acc (demo_leaf 3) = None"
    by code_simp
  ultimately show ?thesis
    by (simp add: submit_leaves_def Let_def demo_app_def is_allowed_def default_config_def default_auth_config_def leaves_request_def
        default_epoch_config_def append_batch_def fresh_leaves_def usize_sat_add_def demo_acc_def split: prod.splits del: decode_leaves.simps)
qed

theorem submitted_hashes_land_witness:
  "\<exists>j receipts. submit_many (demo_client j) ''https://x'' (Inr ''token'')
       (\<lambda>raws. Inr (wire (\<lambda>_. ''{}'') (fst (post_leaves demo_routes ''did:c'' (demo_app demo_store) raws)))) [demo_leaf 3] = Inr receipts
     \<and> map rc_leaf receipts = [demo_leaf 3] 
     \<and> demo_leaf 3 \<in> le_leaf ` set (ai_leaves (ap_accumulator
          (snd (post_leaves demo_routes ''did:c'' (demo_app demo_store) (leaves_request (demo_client j) [demo_leaf 3])))))"
proof -
  obtain lr st' where sub: "submit_leaves demo_routes ''did:c'' (leaves_request (demo_client JNull) [demo_leaf 3]) (demo_app demo_store) = (Inr lr, st')"
    using demo_submit by blast
  define j where "j = leaves_response_json lr"
  have req: "leaves_request (demo_client JNull) [demo_leaf 3] = leaves_request (demo_client j) [demo_leaf 3]"
    by (simp add: leaves_request_def format_hash32_bare_def demo_client_def)
  have post: "post_leaves demo_routes ''did:c'' (demo_app demo_store) (leaves_request (demo_client j) [demo_leaf 3]) = (json_response 202 j, st')"
    using sub by (simp add: post_leaves_def req answer_def j_def)
  have printed: "\<forall>k. rs_body (json_response 202 j) = JsonBody k \<longrightarrow> from_str (demo_client j) ((\<lambda>_. ''{}'') k) = Inr k"
    by (simp add: demo_client_def)
  obtain receipts where run: "submit_many (demo_client j) ''https://x'' (Inr ''token'')
      (\<lambda>raws. Inr (wire (\<lambda>_. ''{}'') (fst (post_leaves demo_routes ''did:c'' (demo_app demo_store) raws)))) [demo_leaf 3] = Inr receipts"
    using post by (simp add: submit_many_def expect_success_def is_success_def read_json_def wire_def decode_leaves_answer_round_trip
        demo_client_def [of j] j_def [symmetric]) (simp add: j_def decode_leaves_answer_round_trip)
  have inv: "acc_inv (ap_accumulator (demo_app demo_store))"
    by (simp add: demo_app_def demo_acc_inv)
  have ok: "\<forall>h\<in>set [demo_leaf 3]. hash32_ok h" by (simp add: demo_leaf_def)
  have enc: "hex_encode (demo_client j) = hex_encode demo_routes" by (simp add: demo_client_def demo_routes_codec(2))
  show ?thesis
    using submitted_hashes_land [OF demo_routes_codec(1) enc ok inv post printed run] run
    by (intro exI [of _ j] exI [of _ receipts]) (auto simp: post)
qed

lemma pending_body:
  assumes "rs_status (pending_anchor_response x st m n l) = 202"
  shows "\<exists>kvs. pending_anchor_response x st m n l = json_response 202 (JObj kvs) \<and> map_of kvs ''revisions'' = None"
  using assms
  by (auto simp: pending_anchor_response_def anchor_stalled_response_def leaf_field_def split: if_splits option.splits)

lemma tree_by_leaf_202:
  assumes "get_tree_by_leaf x st d h q = Inr r" "rs_status r = 202"
  shows "\<exists>kvs. r = json_response 202 (JObj kvs) \<and> map_of kvs ''revisions'' = None"
proof -
  obtain s m leaf t where q: "q = Some s" and m: "method_parse s = Some m" and leaf: "parse_leaf_hex x h = Inr leaf"
    and d: "get_leaf_owner (ap_store st) leaf = Inr (Some d)" and t: "get_tip_for_leaf (ap_store st) leaf m = Inr t"
    using assms(1) by (rule tree_by_leaf_owned) (simp add: assms(2))
  have "\<exists>m n l. r = pending_anchor_response x st m n l"
  proof (cases t)
    case None
    then show ?thesis
      using assms q m leaf d t by (auto simp: get_tree_by_leaf_def split: option.splits)
  next
    case (Some tip)
    obtain idx where idx: "get_tip_pair x (ap_store st) tip = Inr (Some idx)"
      using assms q m leaf d t Some by (auto simp: get_tree_by_leaf_def split: option.splits)
    obtain ok where ok: "is_self_checked (ap_store st) tip = Inr ok"
      using assms q m leaf d t Some idx by (auto simp: get_tree_by_leaf_def)
    have "\<not> ok"
      using assms q m leaf d t Some idx ok by (auto simp: get_tree_by_leaf_def self_checked_def)
    then obtain pending where pending: "get_pending_epoch_for_leaf (ap_store st) leaf m = Inr pending"
      using assms q m leaf d t Some idx ok by (auto simp: get_tree_by_leaf_def self_checked_def)
    show ?thesis
      using assms q m leaf d t Some idx ok \<open>\<not> ok\<close> pending by (auto simp: get_tree_by_leaf_def self_checked_def split: option.splits if_splits)
  qed
  then show ?thesis using pending_body assms(2) by metis
qed

text \<open>
  C19: A pending anchor is an error for the client.  While the anchor of a leaf is outstanding the leaf
  route answers 202 without a tree; \<open>try_fetch_witness\<close>, documented to answer \<open>Ok(None)\<close> for a witness
  that is not available yet, takes the 202 for a tree and answers a decode error, and a poll that
  reaches this state ends with that error before its timeout.
\<close>

theorem pending_witness_is_client_error:
  assumes serve: "get_tree_by_leaf rx st d (format_hash32_bare x leaf) (Some (as_str m)) = Inr r" "rs_status r = 202"
    and printed: "\<forall>j. rs_body r = JsonBody j \<longrightarrow> from_str x (print j) = Inr j"
    and http: "url_join x base (''/trees/by-leaf/'' @ format_hash32_bare x leaf) = Inr url"
      "get (format_hash32_bare x leaf) (as_str m) = Inr (wire print r)"
  shows "\<exists>e. try_fetch_witness x base server_did (Inr token) get leaf m = Inl (CE_Http e)
    \<and> (pr_elapsed p < timeout \<and> pr_schedule p = Inr sched \<and> es_last_sealed_epoch_id sched = Some n \<and> rc_epoch_id receipt \<le> n
        \<and> pr_fetch p = try_fetch_witness x base server_did (Inr token) get leaf m \<longrightarrow>
        await_witness poll timeout receipt (p # rounds) = Some (Inl (CE_Http e)))"
proof -
  obtain kvs where r: "r = json_response 202 (JObj kvs)" "map_of kvs ''revisions'' = None"
    using tree_by_leaf_202 [OF serve] by blast
  then have "read_json x (decode_tree x) (wire print r) = Inl (CE_Http ''bad field revisions'')"
    using printed by (simp add: read_json_def wire_def decode_tree_def)
  then have "try_fetch_witness x base server_did (Inr token) get leaf m = Inl (CE_Http ''bad field revisions'')"
    using http r(1) by (simp add: try_fetch_witness_def expect_success_def is_success_def wire_def)
  then show ?thesis by auto
qed

definition demo_pending_store :: "ref_blob store" where
  "demo_pending_store = w_store (snd (snd demo_fault_tick))"

lemma demo_leaf_pending:
  "\<exists>r. get_tree_by_leaf demo_routes (demo_app demo_pending_store) ''did:a'' (base16_encode (demo_leaf 1)) (Some ''evm'') = Inr r
     \<and> rs_status r = 202"
proof -
  have "case demo_fault_tick of (sr, acc, w) \<Rightarrow> get_leaf_owner (w_store w) (demo_leaf 1) = Inr (Some ''did:a'')
      \<and> get_tip_for_leaf (w_store w) (demo_leaf 1) Evm = Inr None
      \<and> get_pending_epoch_for_leaf (w_store w) (demo_leaf 1) Evm = Inr (Some 7)
      \<and> \<not> anchor_stalled demo_routes (demo_app (w_store w)) Evm 7"
    by code_simp
  then have run: "get_leaf_owner demo_pending_store (demo_leaf 1) = Inr (Some ''did:a'')"
    "get_tip_for_leaf demo_pending_store (demo_leaf 1) Evm = Inr None"
    "get_pending_epoch_for_leaf demo_pending_store (demo_leaf 1) Evm = Inr (Some 7)"
    "\<not> anchor_stalled demo_routes (demo_app demo_pending_store) Evm 7"
    by (simp_all only: demo_pending_store_def split_def not_False_eq_True)
  moreover have "parse_leaf_hex demo_routes (base16_encode (demo_leaf 1)) = Inr (demo_leaf 1)"
    by code_simp
  moreover have "method_parse ''evm'' = Some Evm" by code_simp
  moreover have "ap_store (demo_app s) = s" for s by (simp add: demo_app_def)
  ultimately show ?thesis
    by (simp add: get_tree_by_leaf_def parse_hash32_def)
qed

theorem pending_witness_is_client_error_witness:
  "case get_tree_by_leaf demo_routes (demo_app demo_pending_store) ''did:a'' (base16_encode (demo_leaf 1)) (Some ''evm'') of
     Inr r \<Rightarrow> (case rs_body r of
        JsonBody j \<Rightarrow> \<exists>e. try_fetch_witness (demo_client j) ''https://x'' ''did:svc'' (Inr ''token'')
          (\<lambda>h q. Inr (wire (\<lambda>_. ''{}'') r)) (demo_leaf 1) Evm = Inl (CE_Http e)
      | TextBody _ \<Rightarrow> False)
   | Inl _ \<Rightarrow> False"
proof -
  obtain r where r: "get_tree_by_leaf demo_routes (demo_app demo_pending_store) ''did:a'' (base16_encode (demo_leaf 1)) (Some ''evm'') = Inr r"
    "rs_status r = 202"
    using demo_leaf_pending by blast
  obtain kvs where kvs: "r = json_response 202 (JObj kvs)"
    using tree_by_leaf_202 [OF r] by blast
  let ?x = "demo_client (JObj kvs)"
  have hex: "format_hash32_bare ?x (demo_leaf 1) = base16_encode (demo_leaf 1)" "as_str Evm = ''evm''"
    by (simp_all add: demo_client_def format_hash32_bare_def)
  have serve: "get_tree_by_leaf demo_routes (demo_app demo_pending_store) ''did:a'' (format_hash32_bare ?x (demo_leaf 1)) (Some (as_str Evm)) = Inr r"
    using r(1) by (simp only: hex)
  have printed: "\<forall>j. rs_body r = JsonBody j \<longrightarrow> from_str ?x ((\<lambda>_. ''{}'') j) = Inr j"
    by (simp add: kvs demo_client_def)
  have url: "url_join ?x ''https://x'' (''/trees/by-leaf/'' @ format_hash32_bare ?x (demo_leaf 1))
      = Inr (''https://x'' @ ''/trees/by-leaf/'' @ format_hash32_bare ?x (demo_leaf 1))"
    by (simp add: demo_client_def)
  have "\<exists>e. try_fetch_witness ?x ''https://x'' ''did:svc'' (Inr ''token'') (\<lambda>h q. Inr (wire (\<lambda>_. ''{}'') r)) (demo_leaf 1) Evm = Inl (CE_Http e)"
    using pending_witness_is_client_error [OF serve r(2) printed url refl] by blast
  then show ?thesis using r(1) kvs by simp
qed

end
